(* ===== verification/Prelude.thy ===== *)
theory Prelude
  imports Main "HOL-Library.Word"
begin

unbundle bit_operations_syntax

text \<open>
  Shared ground of the development: the C integer types of the sources as words, the C
  idiom of testing a masked value for zero, bit-level facts about the masks the sources use,
  and the list and option lemmas that several components need.
\<close>

section \<open>Machine types\<close>

type_synonym u8 = "8 word"
type_synonym u16 = "16 word"
type_synonym u32 = "32 word"
type_synonym u64 = "64 word"

named_theorems fields \<open>projections of a component's operations on the fields they leave alone\<close>
named_theorems steps \<open>what one operation of a component does to its abstract view\<close>

section \<open>Testing a mask\<close>

text \<open>
  \<open>tst v m\<close> is the C condition \<open>(v & m)\<close> used as a truth value.
\<close>

definition tst :: "'a::len word \<Rightarrow> 'a word \<Rightarrow> bool" where
  "tst v m \<longleftrightarrow> v AND m \<noteq> 0"

lemma tst_bit: "tst v (2 ^ n) \<longleftrightarrow> bit v n" for v :: "'a::len word"
  by (simp add: tst_def and_exp_eq_0_iff_not_bit)

lemma tst_push_bit: "tst v (push_bit n 1) \<longleftrightarrow> bit v n" for v :: "'a::len word"
  using tst_bit [of v n] by (simp add: push_bit_eq_mult)

lemma tst_zero [simp]: "\<not> tst 0 m"
  by (simp add: tst_def)

lemma tst_mask_bits [simp]:
  fixes v :: "'a::len word"
  shows "tst v 1 \<longleftrightarrow> bit v 0" and "tst v 2 \<longleftrightarrow> bit v 1" and "tst v 4 \<longleftrightarrow> bit v 2"
    and "tst v 8 \<longleftrightarrow> bit v 3" and "tst v 16 \<longleftrightarrow> bit v 4" and "tst v 32 \<longleftrightarrow> bit v 5"
    and "tst v 64 \<longleftrightarrow> bit v 6" and "tst v 128 \<longleftrightarrow> bit v 7"
  using tst_bit [of v 0] tst_bit [of v 1] tst_bit [of v 2] tst_bit [of v 3]
    tst_bit [of v 4] tst_bit [of v 5] tst_bit [of v 6] tst_bit [of v 7]
  by simp_all

section \<open>Lists\<close>

lemma map_upt_shift: "map f [0..<Suc n] = f 0 # map (\<lambda>i. f (Suc i)) [0..<n]"
  by (simp add: upt_conv_Cons map_Suc_upt [symmetric] del: upt_Suc)

lemma map_upt_cong: "(\<And>i. i < n \<Longrightarrow> f i = g i) \<Longrightarrow> map f [0..<n] = map g [0..<n]"
  by simp

lemma take_take_append: "take n (take n xs @ ys) = take n (xs @ ys)"
  by (cases "length xs \<le> n") (simp_all add: min_def)

text \<open>Indexing a ring of length \<open>n\<close>: distinct offsets below \<open>n\<close> hit distinct cells.\<close>

lemma ring_neq:
  fixes s n i j :: nat
  assumes "i < j" and "j < n"
  shows "(s + i) mod n \<noteq> (s + j) mod n"
proof
  assume "(s + i) mod n = (s + j) mod n"
  then have "(s + j) mod n = (s + i) mod n" by simp
  then have "n dvd (s + j) - (s + i)"
    using assms by (subst (asm) mod_eq_dvd_iff_nat) simp_all
  then have "n \<le> j - i"
    using assms by (auto dest: dvd_imp_le)
  with assms show False by simp
qed

lemma less_8_cases: "n < 8 \<Longrightarrow> n = 0 \<or> n = 1 \<or> n = 2 \<or> n = 3 \<or> n = 4 \<or> n = 5 \<or> n = 6 \<or> n = 7" for n :: nat
  by arith

lemma less_16_halves: "n < 16 \<Longrightarrow> n < 8 \<or> (\<exists>m < 8. n = m + 8)" for n :: nat
  by (cases "n < 8") (auto intro!: exI [of _ "n - 8"])

text \<open>A loop whose body does nothing but at one index is that one step.\<close>

lemma foldl_idle: "(\<And>z i. i \<in> set xs \<Longrightarrow> f z i = z) \<Longrightarrow> foldl f z xs = z"
  by (induction xs arbitrary: z) simp_all

lemma foldl_single:
  assumes "\<And>z i. i \<noteq> n \<Longrightarrow> f z i = z" and "distinct xs" and "n \<in> set xs"
  shows "foldl f z xs = f z n"
  using assms(2,3)
proof (induction xs arbitrary: z)
  case (Cons x xs)
  show ?case
  proof (cases "x = n")
    case True
    with Cons.prems have "\<forall>i\<in>set xs. i \<noteq> n" by auto
    then have "foldl f (f z n) xs = f z n" by (intro foldl_idle assms(1)) auto
    with True show ?thesis by simp
  next
    case False
    with Cons show ?thesis by (simp add: assms(1))
  qed
qed simp

end
