(* ===== verification/Queue_Interface.thy ===== *)
theory Queue_Interface
  imports Prelude
begin

text \<open>
  The contract of a bounded first-in first-out queue, as the users of the two FIFO
  implementations of the sources (\<open>src/utils/fifo.c\<close> and \<open>src/utils/fifo8.c\<close>) rely on it:
  what an enqueue into a queue with room and a dequeue from a non-empty queue do to the
  contents. An operation returns \<open>None\<close> where the source's assertion fails. The client
  lemmas (nothing is duplicated or reordered, and nothing lost but what met a full queue, over
  whole sequences of operations) are
  proved once here and reach both implementations through their interpretations.
\<close>

section \<open>Sequences of queue operations\<close>

fun enq_all :: "('a \<Rightarrow> 'q \<Rightarrow> 'q option) \<Rightarrow> 'a list \<Rightarrow> 'q \<Rightarrow> 'q option" where
  "enq_all enq [] q = Some q"
| "enq_all enq (x # xs) q = Option.bind (enq x q) (enq_all enq xs)"

fun drain :: "('q \<Rightarrow> ('a \<times> 'q) option) \<Rightarrow> nat \<Rightarrow> 'q \<Rightarrow> ('a list \<times> 'q) option" where
  "drain deq 0 q = Some ([], q)"
| "drain deq (Suc n) q =
     (case deq q of None \<Rightarrow> None
      | Some (x, q') \<Rightarrow> map_option (\<lambda>(xs, q''). (x # xs, q'')) (drain deq n q'))"

datatype 'a queue_op = Enq 'a | Deq

text \<open>
  The specification of a run on a plain list: an enqueue appends, a dequeue takes the head;
  a run is legal when no enqueue meets a full queue and no dequeue an empty one.
\<close>

fun spec_run :: "nat \<Rightarrow> 'a queue_op list \<Rightarrow> 'a list \<Rightarrow> ('a list \<times> 'a list) option" where
  "spec_run c [] xs = Some ([], xs)"
| "spec_run c (Enq x # ops) xs = (if length xs < c then spec_run c ops (xs @ [x]) else None)"
| "spec_run c (Deq # ops) xs =
     (case xs of [] \<Rightarrow> None
      | y # ys \<Rightarrow> map_option (\<lambda>(os, zs). (y # os, zs)) (spec_run c ops ys))"

fun impl_run :: "('a \<Rightarrow> 'q \<Rightarrow> 'q option) \<Rightarrow> ('q \<Rightarrow> ('a \<times> 'q) option) \<Rightarrow>
    'a queue_op list \<Rightarrow> 'q \<Rightarrow> ('a list \<times> 'q) option" where
  "impl_run enq deq [] q = Some ([], q)"
| "impl_run enq deq (Enq x # ops) q = Option.bind (enq x q) (impl_run enq deq ops)"
| "impl_run enq deq (Deq # ops) q =
     (case deq q of None \<Rightarrow> None
      | Some (y, q') \<Rightarrow> map_option (\<lambda>(os, q''). (y # os, q'')) (impl_run enq deq ops q'))"

section \<open>The contract\<close>

locale bounded_queue =
  fixes enq :: "'a \<Rightarrow> 'q \<Rightarrow> 'q option"
    and deq :: "'q \<Rightarrow> ('a \<times> 'q) option"
    and contents :: "'q \<Rightarrow> 'a list"
    and cap :: "'q \<Rightarrow> nat"
    and invar :: "'q \<Rightarrow> bool"
  assumes enq_room: "invar q \<Longrightarrow> length (contents q) < cap q \<Longrightarrow>
      \<exists>q'. enq x q = Some q' \<and> invar q' \<and> cap q' = cap q \<and> contents q' = contents q @ [x]"
    and deq_cons: "invar q \<Longrightarrow> contents q = x # xs \<Longrightarrow>
      \<exists>q'. deq q = Some (x, q') \<and> invar q' \<and> cap q' = cap q \<and> contents q' = xs"
    and contents_bound: "invar q \<Longrightarrow> length (contents q) \<le> cap q"
begin

lemma enq_all_room:
  "invar q \<Longrightarrow> length (contents q) + length xs \<le> cap q \<Longrightarrow>
   \<exists>q'. enq_all enq xs q = Some q' \<and> invar q' \<and> cap q' = cap q \<and> contents q' = contents q @ xs"
proof (induction xs arbitrary: q)
  case Nil
  then show ?case by simp
next
  case (Cons x xs)
  from Cons.prems obtain q1 where q1: "enq x q = Some q1" "invar q1" "cap q1 = cap q"
    "contents q1 = contents q @ [x]"
    using enq_room [of q x] by auto
  with Cons.prems Cons.IH [of q1] show ?case by auto
qed

lemma drain_prefix:
  "invar q \<Longrightarrow> contents q = xs @ ys \<Longrightarrow>
   \<exists>q'. drain deq (length xs) q = Some (xs, q') \<and> invar q' \<and> cap q' = cap q \<and> contents q' = ys"
proof (induction xs arbitrary: q)
  case Nil
  then show ?case by simp
next
  case (Cons x xs)
  from Cons.prems obtain q1 where q1: "deq q = Some (x, q1)" "invar q1" "cap q1 = cap q"
    "contents q1 = xs @ ys"
    using deq_cons [of q x "xs @ ys"] by auto
  with Cons.IH [of q1] show ?case by auto
qed

lemma enq_all_drain:
  assumes "invar q" and "contents q = []" and "length xs \<le> cap q"
  shows "\<exists>q' q''. enq_all enq xs q = Some q' \<and> drain deq (length xs) q' = Some (xs, q'') \<and>
    invar q'' \<and> contents q'' = []"
proof -
  from assms obtain q' where q': "enq_all enq xs q = Some q'" "invar q'" "contents q' = xs"
    using enq_all_room [of q xs] by auto
  with drain_prefix [of q' xs "[]"] show ?thesis by auto
qed

lemma run_refines:
  "invar q \<Longrightarrow> spec_run (cap q) ops (contents q) = Some (os, zs) \<Longrightarrow>
   \<exists>q'. impl_run enq deq ops q = Some (os, q') \<and> invar q' \<and> contents q' = zs"
proof (induction ops arbitrary: q os)
  case Nil
  then show ?case by simp
next
  case (Cons op ops)
  show ?case
  proof (cases op)
    case (Enq x)
    with Cons.prems have room: "length (contents q) < cap q" by (auto split: if_splits)
    from enq_room [OF Cons.prems(1) room, of x] obtain q1 where q1: "enq x q = Some q1"
      "invar q1" "cap q1 = cap q" "contents q1 = contents q @ [x]" by blast
    with Cons.prems Enq room have "spec_run (cap q1) ops (contents q1) = Some (os, zs)" by simp
    from Cons.IH [OF q1(2) this] Enq q1 show ?thesis by auto
  next
    case Deq
    with Cons.prems obtain y ys os' where ys: "contents q = y # ys"
      and run: "spec_run (cap q) ops ys = Some (os', zs)" and os: "os = y # os'"
      by (auto split: list.splits)
    from deq_cons [OF Cons.prems(1) ys] obtain q1 where q1: "deq q = Some (y, q1)"
      "invar q1" "cap q1 = cap q" "contents q1 = ys" by blast
    from Cons.IH [of q1 os'] q1 run os Deq show ?thesis by auto
  qed
qed

end

section \<open>Queues that drop what does not fit\<close>

text \<open>
  The specification of an arbitrary run, legal or not: an enqueue into a full queue leaves it
  alone and counts as a loss, a dequeue from an empty queue yields a fixed default and leaves
  it alone. The results are the values dequeued, the contents left and whether anything was lost.
\<close>

fun lossy_run :: "nat \<Rightarrow> 'a \<Rightarrow> 'a queue_op list \<Rightarrow> 'a list \<Rightarrow> 'a list \<times> 'a list \<times> bool" where
  "lossy_run c d [] xs = ([], xs, False)"
| "lossy_run c d (Enq x # ops) xs =
     (if length xs < c then lossy_run c d ops (xs @ [x])
      else case lossy_run c d ops xs of (os, zs, _) \<Rightarrow> (os, zs, True))"
| "lossy_run c d (Deq # ops) xs =
     (case xs of [] \<Rightarrow> (case lossy_run c d ops [] of (os, zs, l) \<Rightarrow> (d # os, zs, l))
      | y # ys \<Rightarrow> (case lossy_run c d ops ys of (os, zs, l) \<Rightarrow> (y # os, zs, l)))"

text \<open>
  A queue whose enqueue never fails and drops the element when there is no room, and whose
  dequeue never fails either: the behaviour of the FIFO of \<open>fifo.c\<close>, which flags an overrun
  (\<open>lost\<close>, a sticky flag) and reads an empty queue as \<open>dflt\<close>.
\<close>

locale lossy_queue = bounded_queue enq deq contents cap invar
  for enq :: "'a \<Rightarrow> 'q \<Rightarrow> 'q option" and deq :: "'q \<Rightarrow> ('a \<times> 'q) option"
    and contents :: "'q \<Rightarrow> 'a list" and cap :: "'q \<Rightarrow> nat" and invar :: "'q \<Rightarrow> bool" +
  fixes dflt :: 'a and lost :: "'q \<Rightarrow> bool"
  assumes enq_full: "invar q \<Longrightarrow> length (contents q) = cap q \<Longrightarrow>
      \<exists>q'. enq x q = Some q' \<and> invar q' \<and> cap q' = cap q \<and> contents q' = contents q"
    and deq_empty: "invar q \<Longrightarrow> contents q = [] \<Longrightarrow>
      \<exists>q'. deq q = Some (dflt, q') \<and> invar q' \<and> cap q' = cap q \<and> contents q' = []"
    and enq_lost: "invar q \<Longrightarrow> enq x q = Some q' \<Longrightarrow>
      lost q' \<longleftrightarrow> lost q \<or> length (contents q) = cap q"
    and deq_lost: "invar q \<Longrightarrow> deq q = Some (y, q') \<Longrightarrow> lost q' \<longleftrightarrow> lost q"
begin

lemma enq_take:
  assumes "invar q"
  shows "\<exists>q'. enq x q = Some q' \<and> invar q' \<and> cap q' = cap q \<and>
    contents q' = take (cap q) (contents q @ [x])"
  using enq_room [OF assms, of x] enq_full [OF assms, of x] contents_bound [OF assms]
  by (cases "length (contents q) < cap q") auto

lemma enq_all_take:
  "invar q \<Longrightarrow> \<exists>q'. enq_all enq xs q = Some q' \<and> invar q' \<and> cap q' = cap q \<and>
    contents q' = take (cap q) (contents q @ xs)"
proof (induction xs arbitrary: q)
  case Nil
  then show ?case using contents_bound by simp
next
  case (Cons x xs)
  from enq_take [OF Cons.prems, of x] obtain q1 where q1: "enq x q = Some q1" "invar q1"
    "cap q1 = cap q" "contents q1 = take (cap q) (contents q @ [x])" by blast
  from Cons.IH [OF q1(2)] q1 show ?case
    by (auto simp: take_take_append simp del: take_append)
qed

lemma run_lossy:
  "invar q \<Longrightarrow> lossy_run (cap q) dflt ops (contents q) = (os, zs, l) \<Longrightarrow>
   \<exists>q'. impl_run enq deq ops q = Some (os, q') \<and> invar q' \<and> cap q' = cap q \<and>
     contents q' = zs \<and> (lost q' \<longleftrightarrow> lost q \<or> l)"
proof (induction ops arbitrary: q os zs l)
  case Nil
  then show ?case by simp
next
  case (Cons op ops)
  note inv = Cons.prems(1) and run = Cons.prems(2)
  show ?case
  proof (cases op)
    case (Enq x)
    show ?thesis
    proof (cases "length (contents q) < cap q")
      case True
      from enq_room [OF inv True, of x] obtain q1 where q1: "enq x q = Some q1" "invar q1"
        "cap q1 = cap q" "contents q1 = contents q @ [x]" by blast
      from Cons.IH [of q1 os zs l] q1 run Enq True enq_lost [OF inv q1(1)] show ?thesis by auto
    next
      case False
      then have full: "length (contents q) = cap q" using contents_bound [OF inv] by simp
      from enq_full [OF inv full, of x] obtain q1 where q1: "enq x q = Some q1" "invar q1"
        "cap q1 = cap q" "contents q1 = contents q" by blast
      obtain l' where r: "lossy_run (cap q) dflt ops (contents q) = (os, zs, l')" "l"
        using run Enq full by (auto split: prod.splits)
      from Cons.IH [of q1 os zs l'] q1 r Enq enq_lost [OF inv q1(1)] full show ?thesis by auto
    qed
  next
    case Deq
    show ?thesis
    proof (cases "contents q")
      case Nil
      from deq_empty [OF inv Nil] obtain q1 where q1: "deq q = Some (dflt, q1)" "invar q1"
        "cap q1 = cap q" "contents q1 = []" by blast
      obtain os' where r: "lossy_run (cap q) dflt ops [] = (os', zs, l)" "os = dflt # os'"
        using run Deq Nil by (auto split: prod.splits)
      from Cons.IH [of q1 os' zs l] q1 r Deq deq_lost [OF inv q1(1)] show ?thesis by auto
    next
      case (Cons y ys)
      from deq_cons [OF inv this] obtain q1 where q1: "deq q = Some (y, q1)" "invar q1"
        "cap q1 = cap q" "contents q1 = ys" by blast
      obtain os' where r: "lossy_run (cap q) dflt ops ys = (os', zs, l)" "os = y # os'"
        using run Deq Cons by (auto split: prod.splits)
      from Cons.IH [of q1 os' zs l] q1 r Deq deq_lost [OF inv q1(1)] show ?thesis by auto
    qed
  qed
qed

end

end
