(* ===== verification/Fifo.thy ===== *)
theory Fifo
  imports Queue_Interface
begin

text \<open>
  The FIFO of \<open>src/utils/fifo.c\<close> (used by the UARTs, the floppy controller, the parallel
  port and the sound cards): a ring buffer with sticky level flags (\<open>full\<close>, \<open>empty\<close>,
  \<open>overrun\<close>, \<open>ready\<close>), change flags (\<open>d_...\<close>) and optional change handlers. One definition
  per C function; the C flags, which only ever hold 0 and 1, are \<open>bool\<close>, and a handler
  pointer is an optional handler number. A function of the \<open>_evt\<close> family returns, beside
  its result, the handler calls it makes, in order, each with the FIFO as the handler sees
  it (the handlers of the sources read the FIFO they are attached to and do not write it).
\<close>

section \<open>State\<close>

record fifo_t =
  f_start :: nat
  f_end :: nat
  f_trigger_len :: int
  f_len :: nat
  f_empty :: bool
  f_overrun :: bool
  f_full :: bool
  f_ready :: bool
  f_d_empty :: bool
  f_d_overrun :: bool
  f_d_full :: bool
  f_d_ready :: bool
  f_priv :: nat
  f_d_empty_evt :: "nat option"
  f_d_overrun_evt :: "nat option"
  f_d_full_evt :: "nat option"
  f_d_ready_evt :: "nat option"
  f_tag :: "u8 list"
  f_buf :: "u8 list"

text \<open>A handler call: the handler, its private argument and the FIFO at the time of the call.\<close>

type_synonym evt_call = "nat \<times> nat \<times> fifo_t"

definition call_evt :: "nat option \<Rightarrow> fifo_t \<Rightarrow> evt_call list" where
  "call_evt h f = (case h of None \<Rightarrow> [] | Some k \<Rightarrow> [(k, f_priv f, f)])"

section \<open>Operations\<close>

definition fifo_get_count :: "fifo_t \<Rightarrow> int" where
  "fifo_get_count f =
     (if f_end f = f_start f then (if f_full f then int (f_len f) else 0)
      else if f_end f > f_start f then int (f_end f) - int (f_start f)
      else int (f_len f) + int (f_end f) - int (f_start f))"

definition fifo_get_remaining :: "fifo_t \<Rightarrow> int" where
  "fifo_get_remaining f =
     (if f_end f = f_start f then (if f_full f then 0 else int (f_len f))
      else if f_end f > f_start f then int (f_len f) - int (f_end f) + int (f_start f)
      else int (f_start f) - int (f_end f))"

definition fifo_write :: "u8 \<Rightarrow> fifo_t \<Rightarrow> fifo_t" where
  "fifo_write val f =
     (let f = f\<lparr>f_d_full := False, f_d_empty := False, f_d_ready := False, f_d_overrun := False\<rparr>
      in if f_full f then f\<lparr>f_overrun := True\<rparr>
         else
           let f = f\<lparr>f_buf := (f_buf f)[f_end f := val]\<rparr>;
               f = f\<lparr>f_end := (f_end f + 1) mod f_len f\<rparr>;
               f = (if f_end f = f_start f then f\<lparr>f_full := True\<rparr> else f);
               f = f\<lparr>f_empty := False\<rparr>
           in if fifo_get_count f \<ge> f_trigger_len f then f\<lparr>f_ready := True\<rparr> else f)"

definition fifo_write_tagged :: "u8 \<Rightarrow> u8 \<Rightarrow> fifo_t \<Rightarrow> fifo_t" where
  "fifo_write_tagged tag val f =
     (let f = f\<lparr>f_d_full := False, f_d_empty := False, f_d_ready := False, f_d_overrun := False\<rparr>
      in if f_full f then f\<lparr>f_overrun := True\<rparr>
         else
           let f = f\<lparr>f_buf := (f_buf f)[f_end f := val], f_tag := (f_tag f)[f_end f := tag]\<rparr>;
               f = f\<lparr>f_end := (f_end f + 1) mod f_len f\<rparr>;
               f = (if f_end f = f_start f then f\<lparr>f_full := True\<rparr> else f);
               f = f\<lparr>f_empty := False\<rparr>
           in if fifo_get_count f \<ge> f_trigger_len f then f\<lparr>f_ready := True\<rparr> else f)"

definition fifo_write_evt :: "u8 \<Rightarrow> fifo_t \<Rightarrow> fifo_t \<times> evt_call list" where
  "fifo_write_evt val f =
     (let f = f\<lparr>f_d_full := False, f_d_empty := False, f_d_ready := False, f_d_overrun := False\<rparr>
      in if f_full f then
           let f = f\<lparr>f_d_overrun := (f_overrun f \<noteq> True)\<rparr>;
               f = f\<lparr>f_overrun := True\<rparr>
           in (f, if f_d_overrun f then call_evt (f_d_overrun_evt f) f else [])
         else
           let f = f\<lparr>f_buf := (f_buf f)[f_end f := val]\<rparr>;
               f = f\<lparr>f_end := (f_end f + 1) mod f_len f\<rparr>;
               (f, e1) =
                 (if f_end f = f_start f then
                    let f = f\<lparr>f_d_full := (f_full f \<noteq> True)\<rparr>; f = f\<lparr>f_full := True\<rparr>
                    in (f, if f_d_full f then call_evt (f_d_full_evt f) f else [])
                  else (f, []));
               f = f\<lparr>f_d_empty := (f_empty f \<noteq> False)\<rparr>;
               f = f\<lparr>f_empty := False\<rparr>;
               e2 = (if f_d_empty f then call_evt (f_d_empty_evt f) f else []);
               (f, e3) =
                 (if fifo_get_count f \<ge> f_trigger_len f then
                    let f = f\<lparr>f_d_ready := (f_ready f \<noteq> True)\<rparr>; f = f\<lparr>f_ready := True\<rparr>
                    in (f, if f_d_ready f then call_evt (f_d_ready_evt f) f else [])
                  else (f, []))
           in (f, e1 @ e2 @ e3))"

definition fifo_write_evt_tagged :: "u8 \<Rightarrow> u8 \<Rightarrow> fifo_t \<Rightarrow> fifo_t \<times> evt_call list" where
  "fifo_write_evt_tagged tag val f =
     (let f = f\<lparr>f_d_full := False, f_d_empty := False, f_d_ready := False, f_d_overrun := False\<rparr>
      in if f_full f then
           let f = f\<lparr>f_d_overrun := (f_overrun f \<noteq> True)\<rparr>;
               f = f\<lparr>f_overrun := True\<rparr>
           in (f, if f_d_overrun f then call_evt (f_d_overrun_evt f) f else [])
         else
           let f = f\<lparr>f_buf := (f_buf f)[f_end f := val], f_tag := (f_tag f)[f_end f := tag]\<rparr>;
               f = f\<lparr>f_end := (f_end f + 1) mod f_len f\<rparr>;
               (f, e1) =
                 (if f_end f = f_start f then
                    let f = f\<lparr>f_d_full := (f_full f \<noteq> True)\<rparr>; f = f\<lparr>f_full := True\<rparr>
                    in (f, if f_d_full f then call_evt (f_d_full_evt f) f else [])
                  else (f, []));
               f = f\<lparr>f_d_empty := (f_empty f \<noteq> False)\<rparr>;
               f = f\<lparr>f_empty := False\<rparr>;
               e2 = (if f_d_empty f then call_evt (f_d_empty_evt f) f else []);
               (f, e3) =
                 (if fifo_get_count f \<ge> f_trigger_len f then
                    let f = f\<lparr>f_d_ready := (f_ready f \<noteq> True)\<rparr>; f = f\<lparr>f_ready := True\<rparr>
                    in (f, if f_d_ready f then call_evt (f_d_ready_evt f) f else [])
                  else (f, []))
           in (f, e1 @ e2 @ e3))"

definition fifo_read :: "fifo_t \<Rightarrow> u8 \<times> fifo_t" where
  "fifo_read f =
     (if \<not> f_empty f then
        let ret = f_buf f ! f_start f;
            f = f\<lparr>f_start := (f_start f + 1) mod f_len f\<rparr>;
            f = f\<lparr>f_full := False\<rparr>;
            count = fifo_get_count f
        in if count < f_trigger_len f then
             let f = f\<lparr>f_ready := False\<rparr>
             in (ret, if count = 0 then f\<lparr>f_empty := True\<rparr> else f)
           else (ret, f)
      else (0, f))"

text \<open>The out-parameter \<open>*tag\<close> of the C functions is the second component of the result.\<close>

definition fifo_read_tagged :: "fifo_t \<Rightarrow> u8 \<times> u8 \<times> fifo_t" where
  "fifo_read_tagged f =
     (if \<not> f_empty f then
        let ret = f_buf f ! f_start f;
            tag = f_tag f ! f_start f;
            f = f\<lparr>f_start := (f_start f + 1) mod f_len f\<rparr>;
            f = f\<lparr>f_full := False\<rparr>;
            count = fifo_get_count f
        in if count < f_trigger_len f then
             let f = f\<lparr>f_ready := False\<rparr>
             in (ret, tag, if count = 0 then f\<lparr>f_empty := True\<rparr> else f)
           else (ret, tag, f)
      else (0, 0, f))"

definition fifo_read_evt :: "fifo_t \<Rightarrow> u8 \<times> fifo_t \<times> evt_call list" where
  "fifo_read_evt f =
     (let f = f\<lparr>f_d_full := False, f_d_empty := False, f_d_ready := False\<rparr>
      in if \<not> f_empty f then
           let ret = f_buf f ! f_start f;
               f = f\<lparr>f_start := (f_start f + 1) mod f_len f\<rparr>;
               f = f\<lparr>f_d_full := (f_full f \<noteq> False)\<rparr>;
               f = f\<lparr>f_full := False\<rparr>;
               e1 = (if f_d_full f then call_evt (f_d_full_evt f) f else []);
               count = fifo_get_count f;
               (f, e2) =
                 (if count < f_trigger_len f then
                    let f = f\<lparr>f_d_ready := (f_ready f \<noteq> False)\<rparr>; f = f\<lparr>f_ready := False\<rparr>
                    in (f, if f_d_ready f then call_evt (f_d_ready_evt f) f else [])
                  else (f, []));
               (f, e3) =
                 (if count = 0 then
                    let f = f\<lparr>f_d_empty := (f_empty f \<noteq> True)\<rparr>; f = f\<lparr>f_empty := True\<rparr>
                    in (f, if f_d_empty f then call_evt (f_d_empty_evt f) f else [])
                  else (f, []))
           in (ret, f, e1 @ e2 @ e3)
         else (0, f, []))"

definition fifo_read_evt_tagged :: "fifo_t \<Rightarrow> u8 \<times> u8 \<times> fifo_t \<times> evt_call list" where
  "fifo_read_evt_tagged f =
     (let f = f\<lparr>f_d_full := False, f_d_empty := False, f_d_ready := False\<rparr>
      in if \<not> f_empty f then
           let ret = f_buf f ! f_start f;
               tag = f_tag f ! f_start f;
               f = f\<lparr>f_start := (f_start f + 1) mod f_len f\<rparr>;
               f = f\<lparr>f_d_full := (f_full f \<noteq> False)\<rparr>;
               f = f\<lparr>f_full := False\<rparr>;
               e1 = (if f_d_full f then call_evt (f_d_full_evt f) f else []);
               count = fifo_get_count f;
               (f, e2) =
                 (if count < f_trigger_len f then
                    let f = f\<lparr>f_d_ready := (f_ready f \<noteq> False)\<rparr>; f = f\<lparr>f_ready := False\<rparr>
                    in (f, if f_d_ready f then call_evt (f_d_ready_evt f) f else [])
                  else (f, []));
               (f, e3) =
                 (if count = 0 then
                    let f = f\<lparr>f_d_empty := (f_empty f \<noteq> True)\<rparr>; f = f\<lparr>f_empty := True\<rparr>
                    in (f, if f_d_empty f then call_evt (f_d_empty_evt f) f else [])
                  else (f, []))
           in (ret, tag, f, e1 @ e2 @ e3)
         else (0, 0, f, []))"

definition fifo_clear_overrun :: "fifo_t \<Rightarrow> fifo_t" where
  "fifo_clear_overrun f = f\<lparr>f_d_overrun := (f_overrun f \<noteq> False), f_overrun := False\<rparr>"

definition fifo_get_full :: "fifo_t \<Rightarrow> bool" where
  "fifo_get_full f = f_full f"

definition fifo_get_d_full :: "fifo_t \<Rightarrow> bool \<times> fifo_t" where
  "fifo_get_d_full f = (f_d_full f, f\<lparr>f_d_full := False\<rparr>)"

definition fifo_get_empty :: "fifo_t \<Rightarrow> bool" where
  "fifo_get_empty f = f_empty f"

definition fifo_get_d_empty :: "fifo_t \<Rightarrow> bool \<times> fifo_t" where
  "fifo_get_d_empty f = (f_d_empty f, f\<lparr>f_d_empty := False\<rparr>)"

definition fifo_get_overrun :: "fifo_t \<Rightarrow> bool" where
  "fifo_get_overrun f = f_overrun f"

definition fifo_get_d_overrun :: "fifo_t \<Rightarrow> bool \<times> fifo_t" where
  "fifo_get_d_overrun f = (f_d_overrun f, f\<lparr>f_d_overrun := False\<rparr>)"

definition fifo_get_ready :: "fifo_t \<Rightarrow> bool" where
  "fifo_get_ready f = f_ready f"

definition fifo_get_d_ready :: "fifo_t \<Rightarrow> bool \<times> fifo_t" where
  "fifo_get_d_ready f = (f_d_ready f, f\<lparr>f_d_ready := False\<rparr>)"

definition fifo_get_trigger_len :: "fifo_t \<Rightarrow> int" where
  "fifo_get_trigger_len f = f_trigger_len f"

definition fifo_set_trigger_len :: "int \<Rightarrow> fifo_t \<Rightarrow> fifo_t" where
  "fifo_set_trigger_len n f = f\<lparr>f_trigger_len := n\<rparr>"

definition fifo_set_len :: "nat \<Rightarrow> fifo_t \<Rightarrow> fifo_t" where
  "fifo_set_len n f = f\<lparr>f_len := n\<rparr>"

definition fifo_set_d_full_evt :: "nat option \<Rightarrow> fifo_t \<Rightarrow> fifo_t" where
  "fifo_set_d_full_evt h f = f\<lparr>f_d_full_evt := h\<rparr>"

definition fifo_set_d_empty_evt :: "nat option \<Rightarrow> fifo_t \<Rightarrow> fifo_t" where
  "fifo_set_d_empty_evt h f = f\<lparr>f_d_empty_evt := h\<rparr>"

definition fifo_set_d_overrun_evt :: "nat option \<Rightarrow> fifo_t \<Rightarrow> fifo_t" where
  "fifo_set_d_overrun_evt h f = f\<lparr>f_d_overrun_evt := h\<rparr>"

definition fifo_set_d_ready_evt :: "nat option \<Rightarrow> fifo_t \<Rightarrow> fifo_t" where
  "fifo_set_d_ready_evt h f = f\<lparr>f_d_ready_evt := h\<rparr>"

definition fifo_set_priv :: "nat \<Rightarrow> fifo_t \<Rightarrow> fifo_t" where
  "fifo_set_priv p f = f\<lparr>f_priv := p\<rparr>"

definition fifo_reset :: "fifo_t \<Rightarrow> fifo_t" where
  "fifo_reset f = f\<lparr>f_start := 0, f_end := 0, f_full := False, f_overrun := False,
     f_empty := True, f_ready := False\<rparr>"

definition fifo_reset_evt :: "fifo_t \<Rightarrow> fifo_t \<times> evt_call list" where
  "fifo_reset_evt f =
     (let f = f\<lparr>f_start := 0, f_end := 0, f_full := False, f_overrun := False,
                f_empty := True, f_ready := False, f_d_full := False, f_d_overrun := False,
                f_d_empty := False, f_d_ready := False\<rparr>
      in (f, call_evt (f_d_full_evt f) f @ call_evt (f_d_overrun_evt f) f @
             call_evt (f_d_empty_evt f) f @ call_evt (f_d_ready_evt f) f))"

text \<open>The zeroed structure \<open>calloc\<close> gives, with a buffer of the given size.\<close>

definition fifo_zero :: "nat \<Rightarrow> fifo_t" where
  "fifo_zero n = \<lparr>f_start = 0, f_end = 0, f_trigger_len = 0, f_len = 0, f_empty = False,
     f_overrun = False, f_full = False, f_ready = False, f_d_empty = False, f_d_overrun = False,
     f_d_full = False, f_d_ready = False, f_priv = 0, f_d_empty_evt = None,
     f_d_overrun_evt = None, f_d_full_evt = None, f_d_ready_evt = None,
     f_tag = replicate 64 0, f_buf = replicate n 0\<rparr>"

text \<open>\<open>None\<close> is the call of \<open>fatal\<close> on an unsupported length; allocation succeeds.\<close>

definition fifo_init :: "nat \<Rightarrow> fifo_t option" where
  "fifo_init n =
     (if n = 64 then Some (fifo_reset ((fifo_zero 64)\<lparr>f_len := 64\<rparr>))
      else if n = 16 then Some (fifo_reset ((fifo_zero 16)\<lparr>f_len := 16\<rparr>))
      else None)"

section \<open>The ring invariant\<close>

text \<open>
  A well-formed FIFO: both indices address the buffer, and the two flags that tell a full
  from an empty ring agree with the indices. Every index the operations use is then inside
  \<open>buf\<close> and \<open>tag\<close>.
\<close>

definition fifo_wf :: "fifo_t \<Rightarrow> bool" where
  "fifo_wf f \<longleftrightarrow> 0 < f_len f \<and> f_len f \<le> length (f_buf f) \<and> f_len f \<le> length (f_tag f) \<and>
     f_start f < f_len f \<and> f_end f < f_len f \<and>
     (f_start f = f_end f \<longleftrightarrow> f_full f \<or> f_empty f) \<and> \<not> (f_full f \<and> f_empty f)"

definition fifo_count :: "fifo_t \<Rightarrow> nat" where
  "fifo_count f = nat (fifo_get_count f)"

definition fifo_slot :: "fifo_t \<Rightarrow> nat \<Rightarrow> nat" where
  "fifo_slot f i = (f_start f + i) mod f_len f"

definition fifo_bytes :: "fifo_t \<Rightarrow> u8 list" where
  "fifo_bytes f = map (\<lambda>i. f_buf f ! fifo_slot f i) [0..<fifo_count f]"

definition fifo_tagged :: "fifo_t \<Rightarrow> (u8 \<times> u8) list" where
  "fifo_tagged f = map (\<lambda>i. (f_tag f ! fifo_slot f i, f_buf f ! fifo_slot f i)) [0..<fifo_count f]"

lemma fifo_bytes_tagged: "fifo_bytes f = map snd (fifo_tagged f)"
  by (simp add: fifo_bytes_def fifo_tagged_def)

lemma length_fifo_bytes [simp]: "length (fifo_bytes f) = fifo_count f"
  and length_fifo_tagged [simp]: "length (fifo_tagged f) = fifo_count f"
  by (simp_all add: fifo_bytes_def fifo_tagged_def)

lemma ring_end:
  fixes s e n :: nat
  assumes "s < n" and "e < n"
  shows "e = (s + (if e = s then 0 else if e > s then e - s else n + e - s)) mod n"
    and "e = s \<Longrightarrow> e = (s + n) mod n"
  using assms by auto

lemma fifo_get_count_wf:
  assumes "fifo_wf f"
  shows "fifo_get_count f = int (fifo_count f)" and "fifo_count f \<le> f_len f"
    and "f_full f \<longleftrightarrow> fifo_count f = f_len f" and "f_empty f \<longleftrightarrow> fifo_count f = 0"
    and "f_end f = (f_start f + fifo_count f) mod f_len f"
proof -
  have wf: "0 < f_len f" "f_start f < f_len f" "f_end f < f_len f"
    "f_start f = f_end f \<longleftrightarrow> f_full f \<or> f_empty f" "\<not> (f_full f \<and> f_empty f)"
    using assms by (simp_all add: fifo_wf_def)
  have c: "fifo_count f = (if f_end f = f_start f then (if f_full f then f_len f else 0)
      else if f_end f > f_start f then f_end f - f_start f else f_len f + f_end f - f_start f)"
    using wf by (auto simp: fifo_count_def fifo_get_count_def)
  show "fifo_get_count f = int (fifo_count f)"
    using wf by (auto simp: c fifo_get_count_def)
  show "fifo_count f \<le> f_len f" using wf by (auto simp: c)
  show "f_full f \<longleftrightarrow> fifo_count f = f_len f" using wf by (auto simp: c)
  show "f_empty f \<longleftrightarrow> fifo_count f = 0" using wf by (auto simp: c)
  show "f_end f = (f_start f + fifo_count f) mod f_len f"
    using wf ring_end [of "f_start f" "f_len f" "f_end f"] by (auto simp: c)
qed

text \<open>Conversely, indices a known distance apart and matching flags give the count.\<close>

lemma fifo_get_countI:
  assumes "s < n" and "c \<le> n" and "f_start f = s" and "f_len f = n" and "f_end f = (s + c) mod n"
    and "f_full f \<longleftrightarrow> c = n"
  shows "fifo_get_count f = int c" and "fifo_count f = c"
proof -
  have "fifo_get_count f = int c"
  proof (cases "s + c < n")
    case True
    with assms show ?thesis by (auto simp: fifo_get_count_def)
  next
    case False
    with assms have "(s + c) mod n = s + c - n"
      by (simp add: mod_if)
    with assms False show ?thesis by (auto simp: fifo_get_count_def)
  qed
  then show "fifo_get_count f = int c" and "fifo_count f = c"
    by (simp_all add: fifo_count_def)
qed

section \<open>Normal forms of the operations\<close>

text \<open>
  Each operation as one record update, with the flags as propositions over the count; the
  lemmas below are proved from these forms.
\<close>

definition ring_put :: "u8 \<Rightarrow> u8 option \<Rightarrow> fifo_t \<Rightarrow> fifo_t" where
  "ring_put val tag f = f\<lparr>f_buf := (f_buf f)[f_end f := val],
     f_tag := (case tag of None \<Rightarrow> f_tag f | Some t \<Rightarrow> (f_tag f)[f_end f := t]),
     f_end := (f_end f + 1) mod f_len f, f_full := ((f_end f + 1) mod f_len f = f_start f),
     f_empty := False\<rparr>"

definition ring_get :: "fifo_t \<Rightarrow> fifo_t" where
  "ring_get f = f\<lparr>f_start := (f_start f + 1) mod f_len f, f_full := False,
     f_empty := ((f_start f + 1) mod f_len f = f_end f)\<rparr>"

text \<open>Two FIFOs with the same ring: they may differ in the level and change flags only.\<close>

definition same_ring :: "fifo_t \<Rightarrow> fifo_t \<Rightarrow> bool" where
  "same_ring f g \<longleftrightarrow> f_start f = f_start g \<and> f_end f = f_end g \<and> f_len f = f_len g \<and>
     f_full f = f_full g \<and> f_empty f = f_empty g \<and> f_buf f = f_buf g \<and> f_tag f = f_tag g \<and>
     f_trigger_len f = f_trigger_len g"

lemma same_ring_view:
  assumes "same_ring f g"
  shows "fifo_wf f \<longleftrightarrow> fifo_wf g" and "fifo_count f = fifo_count g"
    and "fifo_bytes f = fifo_bytes g" and "fifo_tagged f = fifo_tagged g"
    and "fifo_get_count f = fifo_get_count g" and "f_len f = f_len g"
    and "f_trigger_len f = f_trigger_len g"
proof -
  show c: "fifo_get_count f = fifo_get_count g"
    using assms by (simp add: same_ring_def fifo_get_count_def)
  then show n: "fifo_count f = fifo_count g" by (simp add: fifo_count_def)
  show "fifo_wf f \<longleftrightarrow> fifo_wf g" using assms by (simp add: same_ring_def fifo_wf_def)
  have "fifo_slot f = fifo_slot g"
    using assms by (simp add: same_ring_def fifo_slot_def fun_eq_iff)
  then show "fifo_bytes f = fifo_bytes g" and "fifo_tagged f = fifo_tagged g"
    using assms n by (simp_all add: same_ring_def fifo_bytes_def fifo_tagged_def)
  show "f_len f = f_len g" and "f_trigger_len f = f_trigger_len g"
    using assms by (simp_all add: same_ring_def)
qed

lemma ring_put_count:
  assumes "fifo_wf f" and "\<not> f_full f"
  shows "fifo_wf (ring_put val tag f)" and "fifo_count (ring_put val tag f) = Suc (fifo_count f)"
proof -
  note c = fifo_get_count_wf [OF assms(1)]
  have lt: "fifo_count f < f_len f" using c assms(2) by simp
  have e: "(f_end f + 1) mod f_len f = (f_start f + Suc (fifo_count f)) mod f_len f"
    by (subst c(5)) (simp add: mod_Suc_eq)
  have s: "f_start f < f_len f" "0 < f_len f" using assms by (simp_all add: fifo_wf_def)
  have full: "(f_start f + Suc (fifo_count f)) mod f_len f = f_start f \<longleftrightarrow>
      Suc (fifo_count f) = f_len f"
    using ring_neq [of 0 "Suc (fifo_count f)" "f_len f" "f_start f"] s lt
    by (cases "Suc (fifo_count f) = f_len f") auto
  show "fifo_count (ring_put val tag f) = Suc (fifo_count f)"
    using s lt e full
    by (intro fifo_get_countI [of "f_start f" "f_len f"]) (auto simp: ring_put_def)
  show "fifo_wf (ring_put val tag f)"
    using assms s by (auto simp: fifo_wf_def ring_put_def split: option.split)
qed

lemma ring_get_count:
  assumes "fifo_wf f" and "\<not> f_empty f"
  shows "fifo_wf (ring_get f)" and "fifo_count f = Suc (fifo_count (ring_get f))"
    and "fifo_count (ring_get f) = 0 \<longleftrightarrow> (f_start f + 1) mod f_len f = f_end f"
proof -
  note c = fifo_get_count_wf [OF assms(1)]
  obtain k where k: "fifo_count f = Suc k" using c assms(2) by (cases "fifo_count f") auto
  have s: "f_start f < f_len f" "0 < f_len f" using assms by (simp_all add: fifo_wf_def)
  have e: "f_end f = ((f_start f + 1) mod f_len f + k) mod f_len f"
    by (subst c(5)) (simp add: k mod_add_left_eq)
  show wf: "fifo_wf (ring_get f)"
    using assms s by (auto simp: fifo_wf_def ring_get_def)
  have n: "fifo_count (ring_get f) = k"
    using s k c e
    by (intro fifo_get_countI [of "(f_start f + 1) mod f_len f" "f_len f"])
      (auto simp: ring_get_def)
  then show "fifo_count f = Suc (fifo_count (ring_get f))" by (simp add: k)
  show "fifo_count (ring_get f) = 0 \<longleftrightarrow> (f_start f + 1) mod f_len f = f_end f"
    using fifo_get_count_wf(4) [OF wf] by (simp add: ring_get_def)
qed

lemma ring_put_tagged:
  assumes "fifo_wf f" and "\<not> f_full f"
  shows "fifo_tagged (ring_put val (Some t) f) = fifo_tagged f @ [(t, val)]"
    and "fifo_bytes (ring_put val tag f) = fifo_bytes f @ [val]"
proof -
  note c = fifo_get_count_wf [OF assms(1)] and p = ring_put_count [OF assms]
  have lt: "fifo_count f < f_len f" using c assms(2) by simp
  have inb: "f_end f < length (f_buf f)" "f_end f < length (f_tag f)"
    using assms by (simp_all add: fifo_wf_def)
  have slot: "fifo_slot (ring_put v u f) i = fifo_slot f i" for v u i
    by (simp add: fifo_slot_def ring_put_def)
  have old: "f_end f \<noteq> fifo_slot f i" if "i < fifo_count f" for i
    using ring_neq [OF that lt, of "f_start f"] c(5) by (simp add: fifo_slot_def)
  have new: "fifo_slot f (fifo_count f) = f_end f" using c(5) by (simp add: fifo_slot_def)
  have pb: "f_buf (ring_put v u f) = (f_buf f)[f_end f := v]" for v u
    by (simp add: ring_put_def)
  have pt: "f_tag (ring_put v (Some t) f) = (f_tag f)[f_end f := t]" for v t
    by (simp add: ring_put_def)
  show "fifo_tagged (ring_put val (Some t) f) = fifo_tagged f @ [(t, val)]"
    using inb new by (simp add: fifo_tagged_def p slot pb pt nth_list_update_neq [OF old])
  show "fifo_bytes (ring_put val tag f) = fifo_bytes f @ [val]"
    using inb new by (simp add: fifo_bytes_def p slot pb nth_list_update_neq [OF old])
qed

lemma ring_get_tagged:
  assumes "fifo_wf f" and "\<not> f_empty f"
  shows "fifo_tagged f = (f_tag f ! f_start f, f_buf f ! f_start f) # fifo_tagged (ring_get f)"
    and "fifo_bytes f = f_buf f ! f_start f # fifo_bytes (ring_get f)"
proof -
  note g = ring_get_count [OF assms]
  have slot: "fifo_slot (ring_get f) i = fifo_slot f (Suc i)" for i
    by (simp add: fifo_slot_def ring_get_def mod_add_left_eq)
  have slot0: "fifo_slot f 0 = f_start f" using assms by (simp add: fifo_slot_def fifo_wf_def)
  have b: "f_buf (ring_get f) = f_buf f" and t: "f_tag (ring_get f) = f_tag f"
    by (simp_all add: ring_get_def)
  show tg: "fifo_tagged f = (f_tag f ! f_start f, f_buf f ! f_start f) # fifo_tagged (ring_get f)"
    unfolding fifo_tagged_def g(2) map_upt_shift by (simp add: slot slot0 b t)
  show "fifo_bytes f = f_buf f ! f_start f # fifo_bytes (ring_get f)"
    by (simp add: fifo_bytes_tagged tg)
qed

section \<open>The operations act on the ring\<close>

lemma fifo_write_ring:
  shows "f_full f \<Longrightarrow> same_ring (fifo_write val f) f"
    and "\<not> f_full f \<Longrightarrow> same_ring (fifo_write val f) (ring_put val None f)"
  by (simp_all add: fifo_write_def ring_put_def same_ring_def Let_def)

lemma fifo_write_tagged_ring:
  shows "f_full f \<Longrightarrow> same_ring (fifo_write_tagged t val f) f"
    and "\<not> f_full f \<Longrightarrow> same_ring (fifo_write_tagged t val f) (ring_put val (Some t) f)"
  by (simp_all add: fifo_write_tagged_def ring_put_def same_ring_def Let_def)

lemma fifo_write_evt_ring:
  shows "f_full f \<Longrightarrow> same_ring (fst (fifo_write_evt val f)) f"
    and "\<not> f_full f \<Longrightarrow> same_ring (fst (fifo_write_evt val f)) (ring_put val None f)"
  by (simp_all add: fifo_write_evt_def ring_put_def same_ring_def Let_def)

lemma fifo_write_evt_tagged_ring:
  shows "f_full f \<Longrightarrow> same_ring (fst (fifo_write_evt_tagged t val f)) f"
    and "\<not> f_full f \<Longrightarrow> same_ring (fst (fifo_write_evt_tagged t val f)) (ring_put val (Some t) f)"
  by (simp_all add: fifo_write_evt_tagged_def ring_put_def same_ring_def Let_def)

text \<open>
  The plain reads set \<open>empty\<close> only inside the branch that clears \<open>ready\<close>, so they reach the
  ring's empty state only where the trigger level is at least 1; the event reads have no
  such condition.
\<close>

lemma ring_get_count_zero:
  assumes "fifo_wf f" and "\<not> f_empty f"
  shows "fifo_get_count (f\<lparr>f_start := (f_start f + 1) mod f_len f, f_full := False\<rparr>) =
    int (fifo_count (ring_get f))"
proof -
  have "fifo_get_count (f\<lparr>f_start := (f_start f + 1) mod f_len f, f_full := False\<rparr>) =
      fifo_get_count (ring_get f)"
    by (simp add: ring_get_def fifo_get_count_def)
  then show ?thesis
    using fifo_get_count_wf(1) [OF ring_get_count(1) [OF assms]] by simp
qed

lemma fifo_read_ring:
  assumes "fifo_wf f" and "\<not> f_empty f" and "1 \<le> f_trigger_len f"
  shows "fst (fifo_read f) = f_buf f ! f_start f"
    and "same_ring (snd (fifo_read f)) (ring_get f)"
  using ring_get_count_zero [OF assms(1,2)] ring_get_count(3) [OF assms(1,2)] assms
  by (auto simp: fifo_read_def ring_get_def same_ring_def Let_def)

lemma fifo_read_tagged_ring:
  assumes "fifo_wf f" and "\<not> f_empty f" and "1 \<le> f_trigger_len f"
  shows "fst (fifo_read_tagged f) = f_buf f ! f_start f"
    and "fst (snd (fifo_read_tagged f)) = f_tag f ! f_start f"
    and "same_ring (snd (snd (fifo_read_tagged f))) (ring_get f)"
  using ring_get_count_zero [OF assms(1,2)] ring_get_count(3) [OF assms(1,2)] assms
  by (auto simp: fifo_read_tagged_def ring_get_def same_ring_def Let_def)

lemma fifo_read_evt_ring:
  assumes "fifo_wf f" and "\<not> f_empty f"
  shows "fst (fifo_read_evt f) = f_buf f ! f_start f"
    and "same_ring (fst (snd (fifo_read_evt f))) (ring_get f)"
  using ring_get_count_zero [OF assms] ring_get_count(3) [OF assms] assms
  by (auto simp: fifo_read_evt_def ring_get_def same_ring_def fifo_get_count_def Let_def)

lemma fifo_read_evt_tagged_ring:
  assumes "fifo_wf f" and "\<not> f_empty f"
  shows "fst (fifo_read_evt_tagged f) = f_buf f ! f_start f"
    and "fst (snd (fifo_read_evt_tagged f)) = f_tag f ! f_start f"
    and "same_ring (fst (snd (snd (fifo_read_evt_tagged f)))) (ring_get f)"
  using ring_get_count_zero [OF assms] ring_get_count(3) [OF assms] assms
  by (auto simp: fifo_read_evt_tagged_def ring_get_def same_ring_def fifo_get_count_def Let_def)

section \<open>The FIFO implements the queue contract\<close>

definition fifo_ok :: "fifo_t \<Rightarrow> bool" where
  "fifo_ok f \<longleftrightarrow> fifo_wf f \<and> 1 \<le> f_trigger_len f"

lemma ring_put_frame: "f_len (ring_put v t f) = f_len f" "f_trigger_len (ring_put v t f) = f_trigger_len f"
  and ring_get_frame: "f_len (ring_get f) = f_len f" "f_trigger_len (ring_get f) = f_trigger_len f"
  by (simp_all add: ring_put_def ring_get_def)

lemmas put_view = same_ring_view ring_put_count ring_put_tagged ring_put_frame
lemmas get_view = same_ring_view ring_get_count(1) ring_get_tagged ring_get_frame

lemma put_bytes:
  assumes "fifo_ok f" and "\<not> f_full f" and "same_ring g (ring_put v t f)"
  shows "fifo_ok g \<and> f_len g = f_len f \<and> fifo_bytes g = fifo_bytes f @ [v]"
    and "t = Some u \<Longrightarrow> fifo_tagged g = fifo_tagged f @ [(u, v)]"
  using assms same_ring_view [OF assms(3)]
  by (simp_all add: fifo_ok_def ring_put_count ring_put_tagged ring_put_frame)

lemma get_bytes:
  assumes "fifo_ok f" and "\<not> f_empty f" and "same_ring g (ring_get f)"
  shows "fifo_ok g \<and> f_len g = f_len f \<and> fifo_bytes f = f_buf f ! f_start f # fifo_bytes g"
    and "fifo_tagged f = (f_tag f ! f_start f, f_buf f ! f_start f) # fifo_tagged g"
  using assms same_ring_view [OF assms(3)]
  by (simp_all add: fifo_ok_def ring_get_count ring_get_tagged [of f] ring_get_frame)

lemma full_same:
  assumes "fifo_ok f" and "same_ring g f"
  shows "fifo_ok g \<and> f_len g = f_len f \<and> fifo_bytes g = fifo_bytes f \<and> fifo_tagged g = fifo_tagged f"
  using assms same_ring_view [OF assms(2)] by (simp add: fifo_ok_def)

lemma fifo_ok_flags:
  assumes "fifo_ok f"
  shows "f_full f \<longleftrightarrow> fifo_count f = f_len f" and "f_empty f \<longleftrightarrow> fifo_count f = 0"
    and "fifo_count f \<le> f_len f"
  using assms fifo_get_count_wf [of f] by (simp_all add: fifo_ok_def)

lemma fifo_overrun_sticky:
  "f_overrun (fifo_write v f) \<longleftrightarrow> f_overrun f \<or> f_full f"
  "f_overrun (fst (fifo_write_evt v f)) \<longleftrightarrow> f_overrun f \<or> f_full f"
  "f_overrun (fst (fifo_write_evt_tagged t v f)) \<longleftrightarrow> f_overrun f \<or> f_full f"
  "f_overrun (snd (fifo_read f)) \<longleftrightarrow> f_overrun f"
  "f_overrun (fst (snd (fifo_read_evt f))) \<longleftrightarrow> f_overrun f"
  "f_overrun (fst (snd (snd (fifo_read_evt_tagged f)))) \<longleftrightarrow> f_overrun f"
  by (simp_all add: fifo_write_def fifo_write_evt_def fifo_write_evt_tagged_def fifo_read_def
      fifo_read_evt_def fifo_read_evt_tagged_def Let_def)

lemma fifo_read_evt_empty:
  assumes "f_empty f"
  shows "fifo_read_evt f = (0, f\<lparr>f_d_full := False, f_d_empty := False, f_d_ready := False\<rparr>, [])"
    and "fifo_read_evt_tagged f =
      (0, 0, f\<lparr>f_d_full := False, f_d_empty := False, f_d_ready := False\<rparr>, [])"
  using assms by (simp_all add: fifo_read_evt_def fifo_read_evt_tagged_def Let_def)

lemma fifo_read_empty: "f_empty f \<Longrightarrow> fifo_read f = (0, f)"
  by (simp add: fifo_read_def)

lemma same_ring_d_flags:
  "same_ring (f\<lparr>f_d_full := a, f_d_empty := b, f_d_ready := c\<rparr>) f"
  by (simp add: same_ring_def)

lemma tagged_count: "length (fifo_tagged f) = fifo_count f"
  using length_fifo_bytes [of f] by (simp add: fifo_bytes_tagged)

interpretation plain_fifo: lossy_queue "\<lambda>x f. Some (fifo_write x f)" "\<lambda>f. Some (fifo_read f)"
  fifo_bytes f_len fifo_ok 0 f_overrun
proof (unfold_locales, goal_cases)
  case (1 q x)
  then have "\<not> f_full q" by (simp add: fifo_ok_flags)
  with 1 put_bytes(1) [OF 1(1) _ fifo_write_ring(2)] show ?case by simp
next
  case (2 q x xs)
  then have ne: "\<not> f_empty q" by (auto simp: fifo_ok_flags dest: arg_cong [of _ _ length])
  have r: "fst (fifo_read q) = f_buf q ! f_start q" "same_ring (snd (fifo_read q)) (ring_get q)"
    using 2 ne fifo_read_ring [of q] by (simp_all add: fifo_ok_def)
  from get_bytes(1) [OF 2(1) ne r(2)] 2 r(1) show ?case by (cases "fifo_read q") simp
next
  case (3 q)
  then show ?case by (simp add: fifo_ok_flags)
next
  case (4 q x)
  then have "f_full q" by (simp add: fifo_ok_flags)
  with full_same [OF 4(1) fifo_write_ring(1)] show ?case by simp
next
  case (5 q)
  then have "f_empty q" by (simp add: fifo_ok_flags flip: length_fifo_bytes)
  with 5 show ?case by (simp add: fifo_read_empty)
next
  case (6 q x q')
  then show ?case by (auto simp: fifo_overrun_sticky(1) fifo_ok_flags)
next
  case (7 q y q')
  then have "q' = snd (fifo_read q)" by auto
  then show ?case by (simp add: fifo_overrun_sticky(4))
qed

interpretation evt_fifo: lossy_queue "\<lambda>x f. Some (fst (fifo_write_evt x f))"
  "\<lambda>f. Some (fst (fifo_read_evt f), fst (snd (fifo_read_evt f)))" fifo_bytes f_len fifo_ok 0 f_overrun
proof (unfold_locales, goal_cases)
  case (1 q x)
  then have "\<not> f_full q" by (simp add: fifo_ok_flags)
  with 1 put_bytes(1) [OF 1(1) _ fifo_write_evt_ring(2)] show ?case by simp
next
  case (2 q x xs)
  then have ne: "\<not> f_empty q" by (auto simp: fifo_ok_flags dest: arg_cong [of _ _ length])
  have r: "fst (fifo_read_evt q) = f_buf q ! f_start q"
    "same_ring (fst (snd (fifo_read_evt q))) (ring_get q)"
    using 2 ne fifo_read_evt_ring [of q] by (simp_all add: fifo_ok_def)
  from get_bytes(1) [OF 2(1) ne r(2)] 2 r(1) show ?case by simp
next
  case (3 q)
  then show ?case by (simp add: fifo_ok_flags)
next
  case (4 q x)
  then have "f_full q" by (simp add: fifo_ok_flags)
  with full_same [OF 4(1) fifo_write_evt_ring(1)] show ?case by simp
next
  case (5 q)
  then have "f_empty q" by (simp add: fifo_ok_flags flip: length_fifo_bytes)
  with 5 full_same [OF 5(1) same_ring_d_flags] show ?case by (simp add: fifo_read_evt_empty)
next
  case (6 q x q')
  then show ?case by (auto simp: fifo_overrun_sticky(2) fifo_ok_flags)
next
  case (7 q y q')
  then show ?case by (auto simp: fifo_overrun_sticky(5))
qed

interpretation tagged_fifo: lossy_queue "\<lambda>x f. Some (fst (fifo_write_evt_tagged (fst x) (snd x) f))"
  "\<lambda>f. Some ((fst (snd (fifo_read_evt_tagged f)), fst (fifo_read_evt_tagged f)),
            fst (snd (snd (fifo_read_evt_tagged f))))" fifo_tagged f_len fifo_ok "(0, 0)" f_overrun
proof (unfold_locales, goal_cases)
  case (1 q x)
  then have nf: "\<not> f_full q" by (simp add: fifo_ok_flags)
  note r = fifo_write_evt_tagged_ring(2) [OF nf, of "fst x" "snd x"]
  from put_bytes [OF 1(1) nf r] show ?case by simp
next
  case (2 q x xs)
  then have ne: "\<not> f_empty q" by (auto simp: fifo_ok_flags dest: arg_cong [of _ _ length])
  have r: "fst (fifo_read_evt_tagged q) = f_buf q ! f_start q"
    "fst (snd (fifo_read_evt_tagged q)) = f_tag q ! f_start q"
    "same_ring (fst (snd (snd (fifo_read_evt_tagged q)))) (ring_get q)"
    using 2 ne fifo_read_evt_tagged_ring [of q] by (simp_all add: fifo_ok_def)
  from get_bytes [OF 2(1) ne r(3)] 2 r show ?case by simp
next
  case (3 q)
  then show ?case by (simp add: fifo_ok_flags)
next
  case (4 q x)
  then have "f_full q" by (simp add: fifo_ok_flags)
  from full_same [OF 4(1) fifo_write_evt_tagged_ring(1) [OF this]] show ?case by simp
next
  case (5 q)
  then have "f_empty q" by (simp add: fifo_ok_flags flip: tagged_count)
  with 5 full_same [OF 5(1) same_ring_d_flags] show ?case by (simp add: fifo_read_evt_empty)
next
  case (6 q x q')
  then show ?case by (auto simp: fifo_overrun_sticky(3) fifo_ok_flags tagged_count)
next
  case (7 q y q')
  then show ?case by (auto simp: fifo_overrun_sticky(6))
qed

section \<open>Level flags\<close>

text \<open>\<open>ready\<close> says that the count has reached the trigger level.\<close>

definition fifo_ready_ok :: "fifo_t \<Rightarrow> bool" where
  "fifo_ready_ok f \<longleftrightarrow> (f_ready f \<longleftrightarrow> fifo_get_count f \<ge> f_trigger_len f)"

lemma ring_put_get_count:
  assumes "fifo_wf f" and "\<not> f_full f"
  shows "fifo_get_count (ring_put v t f) = fifo_get_count f + 1"
  using fifo_get_count_wf(1) [OF ring_put_count(1) [OF assms]] fifo_get_count_wf(1) [OF assms(1)]
    ring_put_count(2) [OF assms] by simp

lemma fifo_write_evt_ready:
  assumes "\<not> f_full f"
  shows "f_ready (fst (fifo_write_evt v f)) \<longleftrightarrow>
    f_ready f \<or> fifo_get_count (ring_put v None f) \<ge> f_trigger_len f"
  using assms by (auto simp: fifo_write_evt_def ring_put_def fifo_get_count_def Let_def)

lemma fifo_read_evt_ready:
  assumes "fifo_wf f" and "\<not> f_empty f"
  shows "f_ready (fst (snd (fifo_read_evt f))) \<longleftrightarrow>
    f_ready f \<and> fifo_get_count (ring_get f) \<ge> f_trigger_len f"
  using assms by (auto simp: fifo_read_evt_def ring_get_def fifo_get_count_def Let_def)

lemma ring_get_get_count:
  assumes "fifo_wf f" and "\<not> f_empty f"
  shows "fifo_get_count f = fifo_get_count (ring_get f) + 1"
  using fifo_get_count_wf(1) [OF ring_get_count(1) [OF assms]] fifo_get_count_wf(1) [OF assms(1)]
    ring_get_count(2) [OF assms] by simp

text \<open>The handler a set change flag leads to.\<close>

definition called :: "bool \<Rightarrow> nat option \<Rightarrow> nat list" where
  "called d h = (if d then (case h of None \<Rightarrow> [] | Some k \<Rightarrow> [k]) else [])"

lemma fifo_write_evt_flags:
  "f_d_full (fst (fifo_write_evt v f)) \<longleftrightarrow> f_full (fst (fifo_write_evt v f)) \<noteq> f_full f"
  "f_d_empty (fst (fifo_write_evt v f)) \<longleftrightarrow> f_empty (fst (fifo_write_evt v f)) \<noteq> f_empty f"
  "f_d_ready (fst (fifo_write_evt v f)) \<longleftrightarrow> f_ready (fst (fifo_write_evt v f)) \<noteq> f_ready f"
  "f_d_overrun (fst (fifo_write_evt v f)) \<longleftrightarrow> f_overrun (fst (fifo_write_evt v f)) \<noteq> f_overrun f"
  by (auto simp: fifo_write_evt_def Let_def)

lemma fifo_write_evt_calls:
  "map fst (snd (fifo_write_evt v f)) =
     called (f_d_overrun (fst (fifo_write_evt v f))) (f_d_overrun_evt f) @
     called (f_d_full (fst (fifo_write_evt v f))) (f_d_full_evt f) @
     called (f_d_empty (fst (fifo_write_evt v f))) (f_d_empty_evt f) @
     called (f_d_ready (fst (fifo_write_evt v f))) (f_d_ready_evt f)"
  by (auto simp: fifo_write_evt_def call_evt_def called_def Let_def split: option.splits)

section \<open>Properties\<close>

text \<open>
  C15. Whatever sequence of writes and reads is performed, with room or without, with data or
  without, the ring buffer behaves as a list of at most \<open>len\<close> bytes: a write into a full FIFO is
  dropped and sets the overrun flag, which stays set; a read from an empty one returns 0 and
  changes nothing; every other read returns the oldest unread byte. Apart from the dropped
  bytes nothing is lost, duplicated or reordered, and the FIFO stays well-formed (so all its
  indices stay inside the buffers). This holds of the event functions and of the plain ones;
  a well-formed FIFO has a trigger level of at least 1 (\<open>fifo_ok\<close>).
\<close>

theorem fifo_run_refines:
  assumes "fifo_ok f" and "lossy_run (f_len f) 0 ops (fifo_bytes f) = (outs, rest, dropped)"
  shows "(\<exists>f'. impl_run (\<lambda>x f. Some (fst (fifo_write_evt x f)))
      (\<lambda>f. Some (fst (fifo_read_evt f), fst (snd (fifo_read_evt f)))) ops f = Some (outs, f') \<and>
    fifo_ok f' \<and> f_len f' = f_len f \<and> fifo_bytes f' = rest \<and>
    (f_overrun f' \<longleftrightarrow> f_overrun f \<or> dropped)) \<and>
   (\<exists>f'. impl_run (\<lambda>x f. Some (fifo_write x f)) (\<lambda>f. Some (fifo_read f)) ops f = Some (outs, f') \<and>
    fifo_ok f' \<and> f_len f' = f_len f \<and> fifo_bytes f' = rest \<and>
    (f_overrun f' \<longleftrightarrow> f_overrun f \<or> dropped))"
  using evt_fifo.run_lossy [OF assms] plain_fifo.run_lossy [OF assms] by (rule conjI)

definition fifo16 :: fifo_t where
  "fifo16 = fifo_set_trigger_len 1 (the (fifo_init 16))"

lemma fifo16_ok: "fifo_ok fifo16" "fifo_bytes fifo16 = []" "f_len fifo16 = 16"
  by (simp_all add: fifo16_def fifo_init_def fifo_zero_def fifo_reset_def fifo_set_trigger_len_def
      fifo_ok_def fifo_wf_def fifo_bytes_def fifo_count_def fifo_get_count_def)

theorem fifo_run_refines_witness:
  "\<exists>f'. impl_run (\<lambda>x f. Some (fst (fifo_write_evt x f)))
      (\<lambda>f. Some (fst (fifo_read_evt f), fst (snd (fifo_read_evt f))))
      ([Enq 56, Enq 54, Deq, Deq, Deq] @ map Enq (replicate 17 66) @ [Deq]) fifo16 =
        Some ([56, 54, 0, 66], f') \<and>
    fifo_ok f' \<and> f_len f' = 16 \<and> fifo_bytes f' = replicate 15 66 \<and> f_overrun f'"
  using fifo_run_refines [OF fifo16_ok(1), of
      "[Enq 56, Enq 54, Deq, Deq, Deq] @ map Enq (replicate 17 66) @ [Deq]"
      "[56, 54, 0, 66]" "replicate 15 66" True]
  by (simp add: fifo16_ok numeral_eq_Suc)

text \<open>
  Tagged FIFO, overfilled: writing any number of (tag, byte) pairs into an empty FIFO
  keeps exactly the first \<open>len\<close> of them, and reading that many back returns the pairs, each
  byte with its own tag, in the order they were written.
\<close>

theorem fifo_tagged_roundtrip:
  assumes "fifo_ok f" and "fifo_bytes f = []"
  shows "\<exists>g g'. enq_all (\<lambda>x f. Some (fst (fifo_write_evt_tagged (fst x) (snd x) f))) xs f = Some g \<and>
    drain (\<lambda>f. Some ((fst (snd (fifo_read_evt_tagged f)), fst (fifo_read_evt_tagged f)),
            fst (snd (snd (fifo_read_evt_tagged f))))) (min (length xs) (f_len f)) g =
      Some (take (f_len f) xs, g') \<and> fifo_bytes g' = []"
proof -
  from assms have "fifo_tagged f = []" by (simp add: fifo_bytes_tagged)
  with tagged_fifo.enq_all_take [OF assms(1), of xs] obtain g where
    g: "enq_all (\<lambda>x f. Some (fst (fifo_write_evt_tagged (fst x) (snd x) f))) xs f = Some g"
      "fifo_ok g" "fifo_tagged g = take (f_len f) xs @ []" by auto
  from tagged_fifo.drain_prefix [OF g(2,3)] g(1) show ?thesis
    by (auto simp: fifo_bytes_tagged min.commute)
qed

theorem fifo_tagged_roundtrip_witness:
  "\<exists>g g'. enq_all (\<lambda>x f. Some (fst (fifo_write_evt_tagged (fst x) (snd x) f)))
      [(1, 10), (2, 20)] fifo16 = Some g \<and>
    drain (\<lambda>f. Some ((fst (snd (fifo_read_evt_tagged f)), fst (fifo_read_evt_tagged f)),
            fst (snd (snd (fifo_read_evt_tagged f))))) (min (length [(1::u8, 10::u8), (2, 20)]) 16) g =
      Some (take 16 [(1, 10), (2, 20)], g') \<and> fifo_bytes g' = []"
  using fifo_tagged_roundtrip [OF fifo16_ok(1,2), of "[(1, 10), (2, 20)]"] by (simp add: fifo16_ok)

text \<open>
  Change notification is exact: after an event write each change flag is set if and only
  if the matching level flag differs from what it was, and the handlers called are those of
  the flags that changed, in the order overrun, full, empty, ready, each at most once.
\<close>

theorem fifo_write_evt_notifies:
  assumes "fifo_write_evt v f = (g, calls)"
  shows "(f_d_full g \<longleftrightarrow> f_full g \<noteq> f_full f) \<and> (f_d_empty g \<longleftrightarrow> f_empty g \<noteq> f_empty f) \<and>
    (f_d_ready g \<longleftrightarrow> f_ready g \<noteq> f_ready f) \<and> (f_d_overrun g \<longleftrightarrow> f_overrun g \<noteq> f_overrun f) \<and>
    map fst calls = called (f_d_overrun g) (f_d_overrun_evt f) @ called (f_d_full g) (f_d_full_evt f) @
      called (f_d_empty g) (f_d_empty_evt f) @ called (f_d_ready g) (f_d_ready_evt f)"
proof -
  have g: "g = fst (fifo_write_evt v f)" and c: "calls = snd (fifo_write_evt v f)"
    using assms by simp_all
  show ?thesis unfolding g c by (intro conjI fifo_write_evt_flags fifo_write_evt_calls)
qed

theorem fifo_write_evt_notifies_witness:
  "f_d_empty (fst (fifo_write_evt 7 fifo16)) \<longleftrightarrow>
     f_empty (fst (fifo_write_evt 7 fifo16)) \<noteq> f_empty fifo16"
  using fifo_write_evt_notifies [of 7 fifo16 "fst (fifo_write_evt 7 fifo16)"
      "snd (fifo_write_evt 7 fifo16)"] by simp

text \<open>
  With a trigger level of at least one, the \<open>ready\<close> flag of a well-formed FIFO always
  says whether the number of bytes held has reached the trigger level: every event write and
  every event read keeps that, on full and empty FIFOs too.
\<close>

theorem fifo_ready_exact:
  assumes "fifo_ok f" and "fifo_ready_ok f"
  shows "fifo_ready_ok (fst (fifo_write_evt v f)) \<and> fifo_ready_ok (fst (snd (fifo_read_evt f)))"
proof
  have wf: "fifo_wf f" using assms(1) by (simp add: fifo_ok_def)
  show "fifo_ready_ok (fst (fifo_write_evt v f))"
  proof (cases "f_full f")
    case True
    have "f_ready (fst (fifo_write_evt v f)) = f_ready f"
      using True by (simp add: fifo_write_evt_def Let_def)
    with same_ring_view [OF fifo_write_evt_ring(1) [OF True]] assms(2)
    show ?thesis by (simp add: fifo_ready_ok_def)
  next
    case False
    with same_ring_view [OF fifo_write_evt_ring(2) [OF False]] assms(2)
      fifo_write_evt_ready [OF False] ring_put_get_count [OF wf False]
    show ?thesis by (auto simp: fifo_ready_ok_def ring_put_frame)
  qed
  show "fifo_ready_ok (fst (snd (fifo_read_evt f)))"
  proof (cases "f_empty f")
    case True
    with assms(2) show ?thesis
      by (simp add: fifo_read_evt_empty fifo_ready_ok_def fifo_get_count_def)
  next
    case False
    with same_ring_view [OF fifo_read_evt_ring(2) [OF wf False]] assms(2)
      fifo_read_evt_ready [OF wf False] ring_get_get_count [OF wf False]
    show ?thesis by (auto simp: fifo_ready_ok_def ring_get_frame)
  qed
qed

theorem fifo_ready_exact_witness:
  "fifo_ready_ok (fst (fifo_write_evt 7 fifo16)) \<and> fifo_ready_ok (fst (snd (fifo_read_evt fifo16)))"
proof (rule fifo_ready_exact)
  show "fifo_ok fifo16" by (rule fifo16_ok)
  show "fifo_ready_ok fifo16"
    by (simp add: fifo_ready_ok_def fifo16_def fifo_init_def fifo_zero_def fifo_reset_def
        fifo_set_trigger_len_def fifo_get_count_def)
qed

text \<open>
  A plain read on a FIFO whose trigger level was never set (\<open>fifo_init\<close> leaves it 0)
  never marks the FIFO empty, however many bytes it takes out: reading past the end goes on
  returning buffer cells instead of 0, unlike the event read, which does mark it empty.
\<close>

theorem fifo_read_untriggered:
  assumes "f_trigger_len f = 0" and "fifo_wf f" and "fifo_count f = 1"
  shows "\<not> f_empty (snd (fifo_read f)) \<and> fifo_get_count (snd (fifo_read f)) = 0 \<and>
    f_empty (fst (snd (fifo_read_evt f)))"
proof -
  have ne: "\<not> f_empty f" using fifo_get_count_wf(4) [OF assms(2)] assms(3) by simp
  note g = ring_get_count [OF assms(2) ne] ring_get_count_zero [OF assms(2) ne]
  have z: "fifo_count (ring_get f) = 0" using g(2) assms(3) by simp
  have e: "f_empty (ring_get f)" using fifo_get_count_wf(4) [OF g(1)] z by simp
  have "f_empty (fst (snd (fifo_read_evt f)))"
    using fifo_read_evt_ring(2) [OF assms(2) ne] e by (simp add: same_ring_def)
  moreover have "\<not> f_empty (snd (fifo_read f)) \<and> fifo_get_count (snd (fifo_read f)) = 0"
    using ne g(4) z assms(1) by (simp add: fifo_read_def Let_def)
  ultimately show ?thesis by simp
qed

definition fifo16_raw :: fifo_t where
  "fifo16_raw = fifo_write 65 (the (fifo_init 16))"

theorem fifo_read_untriggered_witness:
  "\<not> f_empty (snd (fifo_read fifo16_raw)) \<and> fifo_get_count (snd (fifo_read fifo16_raw)) = 0 \<and>
    f_empty (fst (snd (fifo_read_evt fifo16_raw)))"
  by (rule fifo_read_untriggered)
    (simp_all add: fifo16_raw_def fifo_write_def fifo_init_def fifo_zero_def fifo_reset_def
      fifo_wf_def fifo_count_def fifo_get_count_def Let_def)

end
