(* ===== verification/Fifo8.thy ===== *)
theory Fifo8
  imports Queue_Interface
begin

text \<open>
  The byte FIFO of \<open>src/utils/fifo8.c\<close> (the SCSI and sound data queues): a head index and a
  count over a heap buffer, with block pushes and pops that split at the end of the buffer.
  The counters are \<open>uint32_t\<close> and stay words; a failed \<open>assert\<close> is \<open>None\<close>. A pointer into
  the buffer that a peek or pop returns is modelled by the bytes it points at.
\<close>

section \<open>State and operations\<close>

record Fifo8 =
  q_data :: "u8 list"
  q_capacity :: u32
  q_head :: u32
  q_num :: u32

definition fifo8_reset :: "Fifo8 \<Rightarrow> Fifo8" where
  "fifo8_reset f = f\<lparr>q_num := 0, q_head := 0\<rparr>"

definition fifo8_create :: "Fifo8 \<Rightarrow> u32 \<Rightarrow> Fifo8" where
  "fifo8_create f capacity =
     fifo8_reset (f\<lparr>q_data := replicate (unat capacity) 0, q_capacity := capacity\<rparr>)"

definition fifo8_destroy :: "Fifo8 \<Rightarrow> Fifo8" where
  "fifo8_destroy f = f\<lparr>q_data := []\<rparr>"

definition fifo8_push :: "Fifo8 \<Rightarrow> u8 \<Rightarrow> Fifo8 option" where
  "fifo8_push f x =
     (if q_num f < q_capacity f then
        Some (f\<lparr>q_data := (q_data f)[unat ((q_head f + q_num f) mod q_capacity f) := x],
                q_num := q_num f + 1\<rparr>)
      else None)"

text \<open>\<open>memcpy(&dst[at], src, n)\<close> on lists.\<close>

definition memcpy_at :: "'a list \<Rightarrow> nat \<Rightarrow> 'a list \<Rightarrow> 'a list" where
  "memcpy_at dst at src = take at dst @ src @ drop (at + length src) dst"

definition fifo8_push_all :: "Fifo8 \<Rightarrow> u8 list \<Rightarrow> u32 \<Rightarrow> Fifo8 option" where
  "fifo8_push_all f data num =
     (if q_num f + num \<le> q_capacity f then
        let start = (q_head f + q_num f) mod q_capacity f;
            f = (if start + num \<le> q_capacity f then
                   f\<lparr>q_data := memcpy_at (q_data f) (unat start) (take (unat num) data)\<rparr>
                 else
                   let avail = q_capacity f - start;
                       d1 = memcpy_at (q_data f) (unat start) (take (unat avail) data);
                       d2 = memcpy_at d1 0 (take (unat (num - avail)) (drop (unat avail) data))
                   in f\<lparr>q_data := d2\<rparr>)
        in Some (f\<lparr>q_num := q_num f + num\<rparr>)
      else None)"

definition fifo8_pop :: "Fifo8 \<Rightarrow> (u8 \<times> Fifo8) option" where
  "fifo8_pop f =
     (if q_num f > 0 then
        Some (q_data f ! unat (q_head f),
              f\<lparr>q_head := (q_head f + 1) mod q_capacity f, q_num := q_num f - 1\<rparr>)
      else None)"

definition fifo8_peekpop_buf :: "Fifo8 \<Rightarrow> u32 \<Rightarrow> bool \<Rightarrow> (u8 list \<times> u32 \<times> Fifo8) option" where
  "fifo8_peekpop_buf f mx do_pop =
     (if mx > 0 \<and> mx \<le> q_num f then
        let num = min (q_capacity f - q_head f) mx;
            ret = take (unat num) (drop (unat (q_head f)) (q_data f));
            f = (if do_pop then
                   f\<lparr>q_head := (q_head f + num) mod q_capacity f, q_num := q_num f - num\<rparr>
                 else f)
        in Some (ret, num, f)
      else None)"

definition fifo8_peek_bufptr :: "Fifo8 \<Rightarrow> u32 \<Rightarrow> (u8 list \<times> u32 \<times> Fifo8) option" where
  "fifo8_peek_bufptr f mx = fifo8_peekpop_buf f mx False"

definition fifo8_pop_bufptr :: "Fifo8 \<Rightarrow> u32 \<Rightarrow> (u8 list \<times> u32 \<times> Fifo8) option" where
  "fifo8_pop_bufptr f mx = fifo8_peekpop_buf f mx True"

definition fifo8_num_used :: "Fifo8 \<Rightarrow> u32" where
  "fifo8_num_used f = q_num f"

text \<open>The bytes stored at \<open>dest\<close>, the count returned, and the new state.\<close>

definition fifo8_pop_buf :: "Fifo8 \<Rightarrow> u32 \<Rightarrow> (u8 list \<times> u32 \<times> Fifo8) option" where
  "fifo8_pop_buf f destlen =
     (if destlen = 0 then Some ([], 0, f)
      else
        case fifo8_pop_bufptr f destlen of
          None \<Rightarrow> None
        | Some (b1, n1, f1) \<Rightarrow>
            let len = min (destlen - n1) (fifo8_num_used f1)
            in if len \<noteq> 0 then
                 (case fifo8_pop_bufptr f1 len of
                    None \<Rightarrow> None
                  | Some (b2, n2, f2) \<Rightarrow> Some (b1 @ b2, n1 + n2, f2))
               else Some (b1, n1, f1))"

definition fifo8_drop :: "Fifo8 \<Rightarrow> u32 \<Rightarrow> Fifo8 option" where
  "fifo8_drop f len =
     (case fifo8_pop_buf f len of
        None \<Rightarrow> None
      | Some (_, n, f') \<Rightarrow> if len - n = 0 then Some f' else None)"

definition fifo8_is_empty :: "Fifo8 \<Rightarrow> bool" where
  "fifo8_is_empty f = (q_num f = 0)"

definition fifo8_is_full :: "Fifo8 \<Rightarrow> bool" where
  "fifo8_is_full f = (q_num f = q_capacity f)"

definition fifo8_num_free :: "Fifo8 \<Rightarrow> u32" where
  "fifo8_num_free f = q_capacity f - q_num f"

section \<open>Invariant and contents\<close>

text \<open>
  The counters cannot wrap: twice the capacity fits in 32 bits (the sources create FIFOs of
  at most a few megabytes).
\<close>

definition fifo8_wf :: "Fifo8 \<Rightarrow> bool" where
  "fifo8_wf f \<longleftrightarrow> 0 < unat (q_capacity f) \<and> 2 * unat (q_capacity f) < 2 ^ 32 \<and>
     length (q_data f) = unat (q_capacity f) \<and> unat (q_head f) < unat (q_capacity f) \<and>
     unat (q_num f) \<le> unat (q_capacity f)"

definition fifo8_cell :: "Fifo8 \<Rightarrow> nat \<Rightarrow> nat" where
  "fifo8_cell f i = (unat (q_head f) + i) mod unat (q_capacity f)"

definition fifo8_bytes :: "Fifo8 \<Rightarrow> u8 list" where
  "fifo8_bytes f = map (\<lambda>i. q_data f ! fifo8_cell f i) [0..<unat (q_num f)]"

lemma length_fifo8_bytes [simp]: "length (fifo8_bytes f) = unat (q_num f)"
  by (simp add: fifo8_bytes_def)

lemma unat_add_bounded:
  fixes a b :: u32
  assumes "unat a + unat b < 2 ^ 32"
  shows "unat (a + b) = unat a + unat b"
  using assms by (simp add: unat_word_ariths)

lemma unat_sub_le:
  fixes a b :: u32
  assumes "unat b \<le> unat a"
  shows "unat (a - b) = unat a - unat b"
  using assms by (simp add: unat_sub word_le_nat_alt)

lemma fifo8_sizes:
  assumes "fifo8_wf f"
  shows "0 < unat (q_capacity f)" and "unat (q_head f) < unat (q_capacity f)"
    and "unat (q_num f) \<le> unat (q_capacity f)" and "length (q_data f) = unat (q_capacity f)"
    and "unat (q_head f) + unat (q_num f) < 2 ^ 32" and "2 * unat (q_capacity f) < 2 ^ 32"
  using assms by (simp_all add: fifo8_wf_def)

lemma fifo8_cell_less: "fifo8_wf f \<Longrightarrow> fifo8_cell f i < length (q_data f)"
  by (simp add: fifo8_cell_def fifo8_sizes)

lemma unat_cell:
  assumes "fifo8_wf f" and "unat n \<le> unat (q_capacity f)"
  shows "unat ((q_head f + n) mod q_capacity f) = fifo8_cell f (unat n)"
proof -
  have "unat (q_head f + n) = unat (q_head f) + unat n"
    using assms fifo8_sizes [OF assms(1)] by (intro unat_add_bounded) simp
  then show ?thesis by (simp add: unat_mod_distrib fifo8_cell_def)
qed

text \<open>Advancing the head by \<open>n\<close> drops the first \<open>n\<close> bytes.\<close>

lemma fifo8_advance:
  assumes "fifo8_wf f" and "unat n \<le> unat (q_num f)"
    and "g = f\<lparr>q_head := (q_head f + n) mod q_capacity f, q_num := q_num f - n\<rparr>"
  shows "fifo8_wf g" and "fifo8_bytes g = drop (unat n) (fifo8_bytes f)"
    and "unat (q_num g) = unat (q_num f) - unat n"
proof -
  note sz = fifo8_sizes [OF assms(1)]
  have n: "unat n \<le> unat (q_capacity f)" using assms(2) sz by simp
  have h: "unat (q_head g) = fifo8_cell f (unat n)"
    using unat_cell [OF assms(1) n] assms(3) by simp
  show u: "unat (q_num g) = unat (q_num f) - unat n"
    using assms by (simp add: unat_sub_le)
  show "fifo8_wf g"
    using assms(1) h u sz unfolding fifo8_wf_def
    by (simp add: fifo8_cell_def assms(3))
  have dg: "q_data g = q_data f" by (simp add: assms(3))
  have c: "fifo8_cell g i = fifo8_cell f (unat n + i)" for i
    using h by (simp add: fifo8_cell_def assms(3) mod_add_left_eq add.assoc)
  show "fifo8_bytes g = drop (unat n) (fifo8_bytes f)"
    using assms(2) dg by (intro nth_equalityI) (simp_all add: u fifo8_bytes_def c less_diff_conv add.commute)
qed

lemma fifo8_push_ok:
  assumes "fifo8_wf f" and "unat (q_num f) < unat (q_capacity f)"
  shows "\<exists>g. fifo8_push f x = Some g \<and> fifo8_wf g \<and> q_capacity g = q_capacity f \<and>
    fifo8_bytes g = fifo8_bytes f @ [x]"
proof -
  note sz = fifo8_sizes [OF assms(1)]
  define g where "g = f\<lparr>q_data := (q_data f)[fifo8_cell f (unat (q_num f)) := x], q_num := q_num f + 1\<rparr>"
  have num: "unat (q_num f + 1) = Suc (unat (q_num f))"
    using unat_add_bounded [of "q_num f" 1] assms sz by simp
  have push: "fifo8_push f x = Some g"
    using assms unat_cell [OF assms(1) sz(3)] by (simp add: fifo8_push_def g_def word_less_nat_alt)
  have wf: "fifo8_wf g" using assms num by (auto simp: g_def fifo8_wf_def)
  have cell: "fifo8_cell g i = fifo8_cell f i" for i by (simp add: g_def fifo8_cell_def)
  have "fifo8_cell f (unat (q_num f)) \<noteq> fifo8_cell f i" if "i < unat (q_num f)" for i
    using ring_neq [OF that assms(2), of "unat (q_head f)"] by (simp add: fifo8_cell_def)
  then have "fifo8_bytes g = fifo8_bytes f @ [x]"
    using num fifo8_cell_less [OF assms(1)]
    by (simp add: fifo8_bytes_def cell) (simp add: g_def)
  with push wf show ?thesis by (auto simp: g_def)
qed

lemma fifo8_pop_ok:
  assumes "fifo8_wf f" and "fifo8_bytes f = x # xs"
  shows "\<exists>g. fifo8_pop f = Some (x, g) \<and> fifo8_wf g \<and> q_capacity g = q_capacity f \<and> fifo8_bytes g = xs"
proof -
  have len: "unat (q_num f) = Suc (length xs)" using assms(2) length_fifo8_bytes [of f] by simp
  define g where "g = f\<lparr>q_head := (q_head f + 1) mod q_capacity f, q_num := q_num f - 1\<rparr>"
  have ad: "fifo8_wf g" "fifo8_bytes g = drop 1 (fifo8_bytes f)"
    using fifo8_advance [OF assms(1), of 1 g] len by (simp_all add: g_def)
  have "q_data f ! unat (q_head f) = fifo8_bytes f ! 0"
    using len fifo8_sizes(2) [OF assms(1)] by (simp add: fifo8_bytes_def fifo8_cell_def del: upt_Suc)
  moreover have "q_num f > 0" using len by (simp add: word_less_nat_alt)
  ultimately show ?thesis using assms(2) ad by (auto simp: fifo8_pop_def g_def)
qed

interpretation byte_fifo8: bounded_queue "\<lambda>x f. fifo8_push f x" fifo8_pop fifo8_bytes
  "\<lambda>f. unat (q_capacity f)" fifo8_wf
proof (unfold_locales, goal_cases)
  case (1 q x)
  then show ?case using fifo8_push_ok [of q x] by auto
next
  case (2 q x xs)
  then show ?case using fifo8_pop_ok [of q x xs] by auto
next
  case (3 q)
  then show ?case by (simp add: fifo8_sizes)
qed

section \<open>Block operations\<close>

lemma nth_memcpy_at:
  assumes "at + length src \<le> length dst" and "i < length dst"
  shows "memcpy_at dst at src ! i =
    (if at \<le> i \<and> i < at + length src then src ! (i - at) else dst ! i)"
  using assms by (auto simp: memcpy_at_def nth_append)

lemma length_memcpy_at: "at + length src \<le> length dst \<Longrightarrow> length (memcpy_at dst at src) = length dst"
  by (simp add: memcpy_at_def)

lemma fifo8_peekpop_take:
  assumes "fifo8_wf f" and "0 < unat mx" and "unat mx \<le> unat (q_num f)"
  defines "n \<equiv> min (q_capacity f - q_head f) mx"
  shows "\<exists>g. fifo8_peekpop_buf f mx True = Some (take (unat n) (fifo8_bytes f), n, g) \<and> fifo8_wf g \<and>
    q_capacity g = q_capacity f \<and> fifo8_bytes g = drop (unat n) (fifo8_bytes f) \<and>
    (unat (q_head f) + unat mx \<ge> unat (q_capacity f) \<longrightarrow> q_head g = 0)"
    and "fifo8_peekpop_buf f mx False = Some (take (unat n) (fifo8_bytes f), n, f)"
    and "unat n = min (unat (q_capacity f) - unat (q_head f)) (unat mx)"
proof -
  note sz = fifo8_sizes [OF assms(1)]
  have sub: "unat (q_capacity f - q_head f) = unat (q_capacity f) - unat (q_head f)"
    using sz by (intro unat_sub_le) simp
  show un: "unat n = min (unat (q_capacity f) - unat (q_head f)) (unat mx)"
    by (auto simp: n_def min_def sub word_le_nat_alt)
  have le: "unat n \<le> unat (q_num f)" using un assms(3) by simp
  define g where "g = f\<lparr>q_head := (q_head f + n) mod q_capacity f, q_num := q_num f - n\<rparr>"
  have guard: "0 < mx \<and> mx \<le> q_num f"
    using assms(2,3) by (simp add: word_less_nat_alt word_le_nat_alt)
  have block: "take (unat n) (drop (unat (q_head f)) (q_data f)) = take (unat n) (fifo8_bytes f)"
    using sz un le by (intro nth_equalityI) (auto simp: fifo8_bytes_def fifo8_cell_def)
  show "fifo8_peekpop_buf f mx False = Some (take (unat n) (fifo8_bytes f), n, f)"
    using guard block by (simp add: fifo8_peekpop_buf_def n_def Let_def)
  have "q_head g = 0" if "unat (q_head f) + unat mx \<ge> unat (q_capacity f)"
  proof -
    have "unat (q_head f) + unat n = unat (q_capacity f)" using un that sz by simp
    then have "unat (q_head g) = 0"
      using unat_cell [OF assms(1), of n] le sz by (simp add: g_def fifo8_cell_def)
    then show ?thesis by (simp add: unat_eq_0)
  qed
  moreover have "fifo8_peekpop_buf f mx True = Some (take (unat n) (fifo8_bytes f), n, g)"
    using guard block by (simp add: fifo8_peekpop_buf_def n_def g_def Let_def)
  ultimately show "\<exists>g. fifo8_peekpop_buf f mx True = Some (take (unat n) (fifo8_bytes f), n, g) \<and>
    fifo8_wf g \<and> q_capacity g = q_capacity f \<and> fifo8_bytes g = drop (unat n) (fifo8_bytes f) \<and>
    (unat (q_head f) + unat mx \<ge> unat (q_capacity f) \<longrightarrow> q_head g = 0)"
    using fifo8_advance [OF assms(1) le g_def] by (auto simp: g_def)
qed

text \<open>A block of at most \<open>c\<close> bytes laid into a ring of \<open>c\<close> cells from cell \<open>s\<close> on.\<close>

definition ring_copy :: "'a list \<Rightarrow> nat \<Rightarrow> nat \<Rightarrow> 'a list \<Rightarrow> 'a list" where
  "ring_copy dst c s xs =
     (if s + length xs \<le> c then memcpy_at dst s xs
      else memcpy_at (memcpy_at dst s (take (c - s) xs)) 0
        (take (length xs - (c - s)) (drop (c - s) xs)))"

lemma ring_copy:
  assumes "length dst = c" and "s < c" and "length xs \<le> c"
  shows "length (ring_copy dst c s xs) = c"
    and "k < c \<Longrightarrow> ring_copy dst c s xs ! ((s + k) mod c) =
      (if k < length xs then xs ! k else dst ! ((s + k) mod c))"
proof -
  show "length (ring_copy dst c s xs) = c"
    using assms by (auto simp: ring_copy_def length_memcpy_at)
  show "ring_copy dst c s xs ! ((s + k) mod c) =
      (if k < length xs then xs ! k else dst ! ((s + k) mod c))" if "k < c"
  proof (cases "s + k < c")
    case True
    with assms that show ?thesis
      by (auto simp: ring_copy_def nth_memcpy_at length_memcpy_at)
  next
    case False
    then have "(s + k) mod c = s + k - c" using assms that by (simp add: mod_if)
    with False assms that show ?thesis
      by (auto simp: ring_copy_def nth_memcpy_at length_memcpy_at)
  qed
qed

lemma fifo8_push_all_bytes:
  assumes "fifo8_wf f" and "unat (q_num f) + length xs \<le> unat (q_capacity f)"
  shows "\<exists>g. fifo8_push_all f xs (of_nat (length xs)) = Some g \<and> fifo8_wf g \<and>
    q_capacity g = q_capacity f \<and> q_head g = q_head f \<and> fifo8_bytes g = fifo8_bytes f @ xs"
proof -
  note sz = fifo8_sizes [OF assms(1)]
  define m where "m = length xs"
  define s where "s = fifo8_cell f (unat (q_num f))"
  define c where "c = unat (q_capacity f)"
  have len: "unat (of_nat m :: u32) = m"
    using assms(2) sz by (simp add: m_def unat_of_nat take_bit_nat_eq_self)
  have sc: "s < c" using sz by (simp add: s_def c_def fifo8_cell_def)
  have st: "unat ((q_head f + q_num f) mod q_capacity f) = s"
    using unat_cell [OF assms(1) sz(3)] by (simp add: s_def)
  have guard: "q_num f + of_nat m \<le> q_capacity f" and num: "unat (q_num f + of_nat m) = unat (q_num f) + m"
    using assms(2) sz len unat_add_bounded [of "q_num f" "of_nat m"]
    by (simp_all add: word_le_nat_alt m_def)
  have mc: "m \<le> c" using assms(2) by (simp add: m_def c_def)
  have split: "(q_head f + q_num f) mod q_capacity f + of_nat m \<le> q_capacity f \<longleftrightarrow> s + m \<le> c"
    using st len sc mc sz unat_add_bounded [of "(q_head f + q_num f) mod q_capacity f" "of_nat m"]
    by (simp add: word_le_nat_alt c_def)
  have av: "unat (q_capacity f - (q_head f + q_num f) mod q_capacity f) = c - s"
    using st sc by (subst unat_sub_le) (simp_all add: c_def)
  have rest: "unat (of_nat m - (q_capacity f - (q_head f + q_num f) mod q_capacity f)) = m - (c - s)"
    if "\<not> s + m \<le> c" using av len that by (subst unat_sub_le) simp_all
  define d where "d = ring_copy (q_data f) c s xs"
  define g where "g = f\<lparr>q_data := d, q_num := q_num f + of_nat m\<rparr>"
  have push: "fifo8_push_all f xs (of_nat (length xs)) = Some g"
    using guard split st len av rest unfolding m_def [symmetric]
    by (auto simp: fifo8_push_all_def Let_def g_def d_def ring_copy_def m_def)
  note rc = ring_copy [OF sz(4) [folded c_def] sc mc [unfolded m_def], folded d_def m_def]
  have dl: "length d = c" by (rule rc)
  have wf: "fifo8_wf g"
    using assms num dl sz by (simp add: fifo8_wf_def g_def c_def m_def)
  have cell: "fifo8_cell g i = fifo8_cell f i" for i by (simp add: g_def fifo8_cell_def)
  have room: "unat (q_num f) + m \<le> c" using assms(2) by (simp add: c_def m_def)
  have old: "d ! fifo8_cell f i = q_data f ! fifo8_cell f i" if "i < unat (q_num f)" for i
  proof -
    define k where "k = c - unat (q_num f) + i"
    have k: "k < c" "\<not> k < m" and nk: "unat (q_num f) + k = i + c"
      using room that by (simp_all add: k_def)
    have "(s + k) mod c = (unat (q_head f) + (unat (q_num f) + k)) mod c"
      by (simp add: s_def fifo8_cell_def c_def mod_add_left_eq add.assoc)
    then have "(s + k) mod c = fifo8_cell f i"
      by (simp add: nk fifo8_cell_def c_def add.assoc [symmetric])
    then show ?thesis using rc(2) [OF k(1)] k(2) by simp
  qed
  have new: "d ! fifo8_cell f (unat (q_num f) + j) = xs ! j" if "j < m" for j
  proof -
    have "fifo8_cell f (unat (q_num f) + j) = (s + j) mod c"
      by (simp add: s_def fifo8_cell_def c_def mod_add_left_eq add.assoc)
    then show ?thesis using rc(2) [of j] that mc by simp
  qed
  have "fifo8_bytes g ! i = (fifo8_bytes f @ xs) ! i" if "i < unat (q_num f) + m" for i
    using that old [of i] new [of "i - unat (q_num f)"] num
    by (auto simp: fifo8_bytes_def cell nth_append) (simp_all add: g_def)
  then have "fifo8_bytes g = fifo8_bytes f @ xs"
    using num by (intro nth_equalityI) (simp_all add: m_def g_def)
  with push wf show ?thesis by (auto simp: g_def)
qed

section \<open>Properties\<close>

text \<open>
  C34. A block push is the sequence of single pushes: into a FIFO with room for the block, the
  block copy that splits at the end of the buffer leaves exactly the contents that pushing the
  bytes one after the other leaves, and keeps the invariant.
\<close>

theorem fifo8_push_all_equiv:
  assumes "fifo8_wf f" and "unat (q_num f) + length xs \<le> unat (q_capacity f)"
  shows "\<exists>g h. fifo8_push_all f xs (of_nat (length xs)) = Some g \<and>
    enq_all (\<lambda>x f. fifo8_push f x) xs f = Some h \<and> fifo8_bytes g = fifo8_bytes h \<and>
    fifo8_bytes g = fifo8_bytes f @ xs \<and> fifo8_wf g \<and> fifo8_wf h"
  using fifo8_push_all_bytes [OF assms] byte_fifo8.enq_all_room [OF assms(1), of xs] assms(2) by auto

definition fifo8_demo :: Fifo8 where
  "fifo8_demo = \<lparr>q_data = [1, 2, 3, 4], q_capacity = 4, q_head = 3, q_num = 2\<rparr>"

lemma fifo8_demo_wf: "fifo8_wf fifo8_demo"
  by (simp add: fifo8_demo_def fifo8_wf_def)

theorem fifo8_push_all_equiv_witness:
  "\<exists>g h. fifo8_push_all fifo8_demo [7, 8] (of_nat (length [7::u8, 8])) = Some g \<and>
    enq_all (\<lambda>x f. fifo8_push f x) [7, 8] fifo8_demo = Some h \<and> fifo8_bytes g = fifo8_bytes h \<and>
    fifo8_bytes g = fifo8_bytes fifo8_demo @ [7, 8] \<and> fifo8_wf g \<and> fifo8_wf h"
  by (rule fifo8_push_all_equiv [OF fifo8_demo_wf]) (simp add: fifo8_demo_def)

text \<open>
  A block pop of any number of bytes the FIFO holds returns exactly the oldest bytes in
  order, also when they wrap around the end of the buffer, reports their number, and leaves
  the rest; no assertion fails on the way.
\<close>

theorem fifo8_pop_buf_oldest:
  assumes "fifo8_wf f" and "unat n \<le> unat (q_num f)"
  shows "\<exists>g. fifo8_pop_buf f n = Some (take (unat n) (fifo8_bytes f), n, g) \<and> fifo8_wf g \<and>
    fifo8_bytes g = drop (unat n) (fifo8_bytes f)"
proof (cases "n = 0")
  case True
  with assms(1) show ?thesis by (simp add: fifo8_pop_buf_def)
next
  case False
  then have pos: "0 < unat n" by (simp add: unat_gt_0)
  note sz = fifo8_sizes [OF assms(1)] and pp = fifo8_peekpop_take [OF assms(1) pos assms(2)]
  define n1 where "n1 = min (q_capacity f - q_head f) n"
  from pp(1) obtain f1 where f1: "fifo8_peekpop_buf f n True = Some (take (unat n1) (fifo8_bytes f), n1, f1)"
    "fifo8_wf f1" "q_capacity f1 = q_capacity f" "fifo8_bytes f1 = drop (unat n1) (fifo8_bytes f)"
    and wrap: "unat (q_head f) + unat n \<ge> unat (q_capacity f) \<Longrightarrow> q_head f1 = 0"
    by (auto simp: n1_def)
  have un1: "unat n1 = min (unat (q_capacity f) - unat (q_head f)) (unat n)"
    using pp(3) by (simp add: n1_def)
  have num1: "unat (q_num f1) = unat (q_num f) - unat n1"
    using f1(4) length_fifo8_bytes [of f1] by simp
  have rest: "unat (n - n1) = unat n - unat n1" using un1 by (intro unat_sub_le) simp
  have le1: "unat (n - n1) \<le> unat (q_num f1)" using rest num1 assms(2) by linarith
  then have len: "min (n - n1) (fifo8_num_used f1) = n - n1"
    by (simp only: fifo8_num_used_def min_def word_le_nat_alt if_True)
  show ?thesis
  proof (cases "n - n1 = 0")
    case True
    then have "n1 = n" by simp
    with f1 len True False show ?thesis
      by (simp add: fifo8_pop_buf_def fifo8_pop_bufptr_def)
  next
    case nz: False
    then have pos2: "0 < unat (n - n1)" by (simp add: unat_gt_0)
    note le2 = le1
    have hd0: "q_head f1 = 0" using wrap un1 rest pos2 by simp
    have "min (q_capacity f1 - q_head f1) (n - n1) = n - n1"
      using hd0 le2 fifo8_sizes(3) [OF f1(2)]
      by (auto simp: min_def word_le_nat_alt intro: word_unat_eq_iff [THEN iffD2])
    with fifo8_peekpop_take(1) [OF f1(2) pos2 le2] obtain f2 where f2:
      "fifo8_peekpop_buf f1 (n - n1) True = Some (take (unat (n - n1)) (fifo8_bytes f1), n - n1, f2)"
      "fifo8_wf f2" "fifo8_bytes f2 = drop (unat (n - n1)) (fifo8_bytes f1)" by auto
    have tk: "take (unat n1) (fifo8_bytes f) @ take (unat (n - n1)) (drop (unat n1) (fifo8_bytes f)) =
        take (unat n) (fifo8_bytes f)"
      using rest un1 take_add [of "unat n1" "unat (n - n1)" "fifo8_bytes f"] by simp
    have "fifo8_pop_buf f n = Some (take (unat n) (fifo8_bytes f), n, f2)"
      using False nz f1(1,4) f2(1) len tk by (simp add: fifo8_pop_buf_def fifo8_pop_bufptr_def)
    moreover have "fifo8_bytes f2 = drop (unat n) (fifo8_bytes f)"
      using f2(3) f1(4) rest un1 by simp
    ultimately show ?thesis using f2(2) by blast
  qed
qed

theorem fifo8_pop_buf_oldest_witness:
  "\<exists>g. fifo8_pop_buf fifo8_demo 2 = Some (take (unat (2::u32)) (fifo8_bytes fifo8_demo), 2, g) \<and>
    fifo8_wf g \<and> fifo8_bytes g = drop (unat (2::u32)) (fifo8_bytes fifo8_demo)"
  by (rule fifo8_pop_buf_oldest [OF fifo8_demo_wf]) (simp add: fifo8_demo_def)

end
