(* ===== verification/Pic.thy ===== *)
theory Pic
  imports Prelude
begin

text \<open>
  The pair of 8259 interrupt controllers of \<open>pic.c\<close>.  \<open>pic_t\<close> is the C structure; \<open>pics\<close>
  gathers the two controllers and the static variables of the file, the globals the file reads
  (\<open>cpu_fast_off_flags\<close>, \<open>is286\<close>, whether a second timer chip exists) and the list of calls it
  makes into other components, in call order.  A pointer to a controller is a \<open>pic_id\<close>, the
  function pointer \<open>update_pending\<close> an optional \<open>updater\<close>.  What the C code cannot survive (a
  NULL controller, a shift by 32 or more, a \<open>fatal\<close> call) is a value of \<open>pic_err\<close>.
\<close>

section \<open>State\<close>

datatype pic_id = PIC1 | PIC2

datatype icw_state = STATE_NONE | STATE_ICW2 | STATE_ICW3 | STATE_ICW4

datatype updater = PIC_UPDATE_PENDING_XT | PIC_UPDATE_PENDING_AT

datatype pic_port = PicPort pic_id | ElcrPort pic_id | LatchPort

datatype pic_effect =
    FastOffAdvance
  | SmiRaise
  | TimerOnAuto nat
  | TimerAdd
  | IoHandler bool u16 u16 pic_port
  | Pit1SetGate
  | NullCall

datatype pic_err = NullPic | ShiftRange | FatalNoSlaveIrq | AckDepth

record pic_t =
  p_icw1 :: u8
  p_icw2 :: u8
  p_icw3 :: u8
  p_icw4 :: u8
  p_imr :: u8
  p_isr :: u8
  p_irr :: u8
  p_ocw2 :: u8
  p_ocw3 :: u8
  p_int_pending :: bool
  p_is_master :: bool
  p_elcr :: u8
  p_state :: icw_state
  p_ack_bytes :: u8
  p_priority :: u8
  p_special_mask_mode :: bool
  p_auto_eoi_rotate :: bool
  p_interrupt :: u8
  p_data_bus :: u8
  p_lines :: "u32 list"
  p_at :: bool
  p_zenith :: bool
  p_slaves :: "pic_id option list"

record pics =
  s_pic :: pic_t
  s_pic2 :: pic_t
  s_shadow :: bool
  s_elcr_enabled :: bool
  s_tmr_inited :: bool
  s_force_xt_imr_timing :: bool
  s_pic_pci :: bool
  s_kbd_latch :: bool
  s_mouse_latch :: bool
  s_smi_irq_mask :: u16
  s_smi_irq_status :: u16
  s_latched_irqs :: u16
  s_irq_vector_override :: "u8 option list"
  s_update_pending :: "updater option"
  s_acpi_rtc_status :: bool
  s_cpu_fast_off_flags :: u32
  s_is286 :: bool
  s_pit1 :: bool
  s_effects :: "pic_effect list"

definition get_pic :: "pic_id \<Rightarrow> pics \<Rightarrow> pic_t" where
  "get_pic d s = (case d of PIC1 \<Rightarrow> s_pic s | PIC2 \<Rightarrow> s_pic2 s)"

definition upd_pic :: "pic_id \<Rightarrow> (pic_t \<Rightarrow> pic_t) \<Rightarrow> pics \<Rightarrow> pics" where
  "upd_pic d f s = (case d of PIC1 \<Rightarrow> s_pic_update f s | PIC2 \<Rightarrow> s_pic2_update f s)"

definition effect :: "pic_effect \<Rightarrow> pics \<Rightarrow> pics" where
  "effect e s = s_effects_update (\<lambda>es. es @ [e]) s"

text \<open>\<open>1 << n\<close>, truncated to the width it is stored at.\<close>

definition sh :: "nat \<Rightarrow> 'a::len word" where
  "sh n = push_bit n 1"

section \<open>SMI mask and edge/level control registers\<close>

definition pic_reset_smi_irq_mask :: "pics \<Rightarrow> pics" where
  "pic_reset_smi_irq_mask s = s\<lparr>s_smi_irq_mask := 0\<rparr>"

definition pic_set_smi_irq_mask :: "int \<Rightarrow> bool \<Rightarrow> pics \<Rightarrow> pics" where
  "pic_set_smi_irq_mask irq on s =
    (if irq \<ge> 0 \<and> irq \<le> 15 then
       (if on then s\<lparr>s_smi_irq_mask := s_smi_irq_mask s OR sh (nat irq)\<rparr>
        else s\<lparr>s_smi_irq_mask := s_smi_irq_mask s AND NOT (sh (nat irq))\<rparr>)
     else s)"

definition pic_get_smi_irq_status :: "pics \<Rightarrow> u16" where
  "pic_get_smi_irq_status s = s_smi_irq_status s"

definition pic_clear_smi_irq_status :: "int \<Rightarrow> pics \<Rightarrow> pics" where
  "pic_clear_smi_irq_status irq s =
    (if irq \<ge> 0 \<and> irq \<le> 15
     then s\<lparr>s_smi_irq_status := s_smi_irq_status s AND NOT (sh (nat irq))\<rparr> else s)"

definition pic_elcr_write :: "u16 \<Rightarrow> u8 \<Rightarrow> pic_id \<Rightarrow> pics \<Rightarrow> pics" where
  "pic_elcr_write port val d s =
    upd_pic d (p_elcr_update (\<lambda>_. if tst port 1 then val AND 0xde else val AND 0xf8)) s"

definition pic_elcr_read :: "u16 \<Rightarrow> pic_id \<Rightarrow> pics \<Rightarrow> u8" where
  "pic_elcr_read port d s = p_elcr (get_pic d s)"

definition pic_elcr_get_enabled :: "pics \<Rightarrow> bool" where
  "pic_elcr_get_enabled s = s_elcr_enabled s"

definition pic_elcr_set_enabled :: "bool \<Rightarrow> pics \<Rightarrow> pics" where
  "pic_elcr_set_enabled enabled s = s\<lparr>s_elcr_enabled := enabled\<rparr>"

definition pic_elcr_io_handler :: "bool \<Rightarrow> pics \<Rightarrow> pics" where
  "pic_elcr_io_handler on s =
    effect (IoHandler on 0x04d1 1 (ElcrPort PIC2)) (effect (IoHandler on 0x04d0 1 (ElcrPort PIC1)) s)"

section \<open>Finding the interrupt to deliver\<close>

definition pic_cascade_mode :: "pic_t \<Rightarrow> bool" where
  "pic_cascade_mode d \<longleftrightarrow> \<not> tst (p_icw1 d) 2"

text \<open>
  \<open>pic_slave_on\<close> shifts 1 by the channel; the shift is evaluated only in cascade mode and, as
  the counts reach 0x77, may be undefined: then the result is \<open>Inl ShiftRange\<close>.
\<close>

definition pic_slave_on :: "pic_t \<Rightarrow> u8 \<Rightarrow> pic_err + bool" where
  "pic_slave_on d channel =
    (if pic_cascade_mode d \<and> (p_is_master d \<or> p_icw4 d AND 0x0c = 0x0c) then
       (if unat channel < 32 then Inr (tst (ucast (p_icw3 d) :: u32) (sh (unat channel)))
        else Inl ShiftRange)
     else Inr False)"

fun find_best_loop :: "pic_t \<Rightarrow> nat list \<Rightarrow> nat option" where
  "find_best_loop d [] = None"
| "find_best_loop d (i # is) =
    (let j = (i + unat (p_priority d)) mod 8; b = sh j
     in if tst (p_isr d) b then None
        else if p_state d = STATE_NONE \<and> tst (p_irr d AND NOT (p_imr d)) b then Some j
        else find_best_loop d is)"

definition find_best_interrupt :: "pic_id \<Rightarrow> pics \<Rightarrow> nat option \<times> pics" where
  "find_best_interrupt d s =
    (let dev = get_pic d s;
         ret = find_best_loop dev [0..<8];
         intr = (case ret of None \<Rightarrow> 0x17 | Some j \<Rightarrow> of_nat j) :: u8;
         s = upd_pic d (p_interrupt_update (\<lambda>_. intr)) s
     in case ret of
          None \<Rightarrow> (None, s)
        | Some j \<Rightarrow>
            (if p_at dev then
               (let n = (if d = PIC2 then unat (intr + 8) else unat intr)
                in if tst (s_cpu_fast_off_flags s) (sh n) then (ret, effect FastOffAdvance s) else (ret, s))
             else (ret, s)))"

definition pic_update_pending_xt :: "pics \<Rightarrow> pics" where
  "pic_update_pending_xt s =
    (if \<not> tst (p_interrupt (s_pic s)) 0x20 then
       (let (r, s) = find_best_interrupt PIC1 s
        in s\<lparr>s_pic := (s_pic s)\<lparr>p_int_pending := r \<noteq> None\<rparr>\<rparr>)
     else s)"

definition pic_update_pending_at :: "pics \<Rightarrow> pics" where
  "pic_update_pending_at s =
    (if \<not> tst (p_interrupt (s_pic s)) 0x20 then
       (let (r2, s) = find_best_interrupt PIC2 s;
            s = s\<lparr>s_pic2 := (s_pic2 s)\<lparr>p_int_pending := r2 \<noteq> None\<rparr>\<rparr>;
            m = sh (unat (p_icw3 (s_pic2 s)));
            s = (if p_int_pending (s_pic2 s) then s\<lparr>s_pic := (s_pic s)\<lparr>p_irr := p_irr (s_pic s) OR m\<rparr>\<rparr>
                 else s\<lparr>s_pic := (s_pic s)\<lparr>p_irr := p_irr (s_pic s) AND NOT m\<rparr>\<rparr>);
            (r, s) = find_best_interrupt PIC1 s
        in s\<lparr>s_pic := (s_pic s)\<lparr>p_int_pending := r \<noteq> None\<rparr>\<rparr>)
     else s)"

text \<open>Calling the pointer while it is NULL ends the emulator; the model records the call.\<close>

definition update_pending :: "pics \<Rightarrow> pics" where
  "update_pending s =
    (case s_update_pending s of
       None \<Rightarrow> effect NullCall s
     | Some PIC_UPDATE_PENDING_XT \<Rightarrow> pic_update_pending_xt s
     | Some PIC_UPDATE_PENDING_AT \<Rightarrow> pic_update_pending_at s)"

definition pic_callback :: "pics \<Rightarrow> pics" where
  "pic_callback s = update_pending s"

section \<open>Reset and settings\<close>

definition pic_zero :: pic_t where
  "pic_zero = \<lparr>p_icw1 = 0, p_icw2 = 0, p_icw3 = 0, p_icw4 = 0, p_imr = 0, p_isr = 0, p_irr = 0,
    p_ocw2 = 0, p_ocw3 = 0, p_int_pending = False, p_is_master = False, p_elcr = 0,
    p_state = STATE_NONE, p_ack_bytes = 0, p_priority = 0, p_special_mask_mode = False,
    p_auto_eoi_rotate = False, p_interrupt = 0, p_data_bus = 0, p_lines = replicate 8 0,
    p_at = False, p_zenith = False, p_slaves = replicate 8 None\<rparr>"

text \<open>
  \<open>is_at\<close> and \<open>is_zenith\<close> stand for the machine-table lookups at the head of the C function.
\<close>

definition pic_reset :: "bool \<Rightarrow> bool \<Rightarrow> pics \<Rightarrow> pics" where
  "pic_reset is_at is_zenith s =
    (let p = pic_zero\<lparr>p_is_master := True, p_interrupt := 0x17, p_at := is_at, p_zenith := is_zenith,
               p_slaves := (if is_at then (p_slaves pic_zero)[2 := Some PIC2] else p_slaves pic_zero)\<rparr>;
         p2 = pic_zero\<lparr>p_interrupt := 0x17, p_at := is_at, p_zenith := is_zenith\<rparr>;
         s = s\<lparr>s_pic := p, s_pic2 := p2\<rparr>;
         s = (if s_tmr_inited s then effect (TimerOnAuto 0) s else s);
         s = effect TimerAdd s
     in s\<lparr>s_tmr_inited := True,
          s_update_pending := Some (if is_at then PIC_UPDATE_PENDING_AT else PIC_UPDATE_PENDING_XT),
          s_smi_irq_mask := 0, s_smi_irq_status := 0, s_shadow := False, s_pic_pci := False\<rparr>)"

definition pic_set_shadow :: "bool \<Rightarrow> pics \<Rightarrow> pics" where
  "pic_set_shadow v s = s\<lparr>s_shadow := v\<rparr>"

definition pic_set_force_xt_imr_timing :: "bool \<Rightarrow> pics \<Rightarrow> pics" where
  "pic_set_force_xt_imr_timing enable s = s\<lparr>s_force_xt_imr_timing := enable\<rparr>"

definition pic_get_pci_flag :: "pics \<Rightarrow> bool" where
  "pic_get_pci_flag s = s_pic_pci s"

definition pic_set_pci_flag :: "bool \<Rightarrow> pics \<Rightarrow> pics" where
  "pic_set_pci_flag v s = s\<lparr>s_pic_pci := v\<rparr>"

definition pic_set_vector_override :: "u8 \<Rightarrow> int \<Rightarrow> pics \<Rightarrow> pics" where
  "pic_set_vector_override irq vector s =
    (if irq < 8 then
       s\<lparr>s_irq_vector_override := (s_irq_vector_override s)
           [unat irq := (if vector \<ge> 0 then Some (word_of_int vector) else None)]\<rparr>
     else s)"

definition pic_level_triggered :: "pics \<Rightarrow> pic_t \<Rightarrow> nat \<Rightarrow> bool" where
  "pic_level_triggered s d irq \<longleftrightarrow> (if s_elcr_enabled s then tst (p_elcr d) (sh irq) else tst (p_icw1 d) 8)"

definition picint_is_level :: "nat \<Rightarrow> pics \<Rightarrow> bool" where
  "picint_is_level irq s = pic_level_triggered s (get_pic (if irq > 7 then PIC2 else PIC1) s) (irq mod 8)"

section \<open>Acknowledge, end of interrupt, rotation\<close>

definition pic_acknowledge :: "pic_id \<Rightarrow> pics \<Rightarrow> pics" where
  "pic_acknowledge d s =
    (let dev = get_pic d s;
         pic_int = unat (p_interrupt dev AND 7);
         dev' = dev\<lparr>p_isr := p_isr dev OR sh pic_int\<rparr>;
         dev' = (if \<not> pic_level_triggered s dev' pic_int \<or> p_lines dev' ! pic_int = 0
                 then dev'\<lparr>p_irr := p_irr dev' AND NOT (sh pic_int)\<rparr> else dev')
     in upd_pic d (\<lambda>_. dev') s)"

fun non_specific_loop :: "pic_t \<Rightarrow> nat list \<Rightarrow> nat option" where
  "non_specific_loop d [] = None"
| "non_specific_loop d (i # is) =
    (let j = (i + unat (p_priority d)) mod 8; b = sh j
     in if tst (p_isr d) b \<and> (\<not> p_special_mask_mode d \<or> \<not> tst (p_imr d) b) then Some j
        else non_specific_loop d is)"

text \<open>The C function returns 0xff for \<open>None\<close>.\<close>

definition pic_non_specific_find :: "pic_t \<Rightarrow> nat option" where
  "pic_non_specific_find d = non_specific_loop d [0..<8]"

definition pic_action :: "pic_id \<Rightarrow> nat option \<Rightarrow> bool \<Rightarrow> bool \<Rightarrow> pics \<Rightarrow> pics" where
  "pic_action d irq eoi rot s =
    (case irq of
       None \<Rightarrow> s
     | Some n \<Rightarrow>
         (let s = (if eoi then upd_pic d (p_isr_update (\<lambda>v. v AND NOT (sh n))) s else s);
              s = (if rot then upd_pic d (p_priority_update (\<lambda>_. of_nat ((n + 1) mod 8))) s else s)
          in update_pending s))"

definition pic_auto_non_specific_eoi :: "pic_id \<Rightarrow> pics \<Rightarrow> pics" where
  "pic_auto_non_specific_eoi d s =
    (let dev = get_pic d s
     in if tst (p_icw4 dev) 2
        then pic_action d (pic_non_specific_find dev) True (p_auto_eoi_rotate dev) s else s)"

definition pic_command :: "pic_id \<Rightarrow> pics \<Rightarrow> pics" where
  "pic_command d s =
    (let dev = get_pic d s
     in if tst (p_ocw2 dev) 0x60 then
          pic_action d
            (if tst (p_ocw2 dev) 0x40 then Some (unat (p_ocw2 dev AND 7)) else pic_non_specific_find dev)
            (tst (p_ocw2 dev) 0x20) (tst (p_ocw2 dev) 0x80) s
        else upd_pic d (p_auto_eoi_rotate_update (\<lambda>_. tst (p_ocw2 dev) 0x80)) s)"

section \<open>Port reads and writes\<close>

definition picint_redirect :: "pic_t \<Rightarrow> u16 \<times> nat \<Rightarrow> nat \<Rightarrow> u16 \<times> nat" where
  "picint_redirect p acc i =
    (let (num, slaves) = acc
     in if tst (p_icw3 p) (sh i) then
          (if tst num (sh i) then
             (let num = num AND NOT (sh i) in if p_at p \<and> i = 2 then (num OR sh 9, slaves + 1) else (num, slaves + 1))
           else (num, slaves + 1))
        else (num, slaves))"

definition picint_level_line :: "u16 \<Rightarrow> bool \<Rightarrow> bool \<Rightarrow> u16 \<times> pics \<Rightarrow> nat \<Rightarrow> u16 \<times> pics" where
  "picint_level_line num on irq_state acc i =
    (let (lines, s) = acc;
         d = (if i < 8 then PIC1 else PIC2);
         b = i mod 8
     in if tst num (sh i) then
          (let s = (if irq_state \<noteq> on then
                      upd_pic d (p_lines_update (\<lambda>ls. ls[b := (if on then ls ! b + 1 else ls ! b - 1)])) s
                    else s)
           in if \<not> pic_level_triggered s (get_pic d s) b \<or>
                 (irq_state \<noteq> on \<and> p_lines (get_pic d s) ! b = of_bool on)
              then (lines OR sh i, s) else (lines, s))
        else (lines, s))"

definition picint_apply :: "u16 \<Rightarrow> bool \<Rightarrow> pics \<Rightarrow> pics" where
  "picint_apply num on s =
    (let hi = ucast (drop_bit 8 num) :: u8; lo = ucast (num AND 0x00ff) :: u8
     in if on then
          (let s = (if tst (s_smi_irq_mask s) num
                    then effect SmiRaise s\<lparr>s_smi_irq_status := s_smi_irq_status s OR num\<rparr> else s);
               s = (if tst num 0xff00 then
                      (let s = (if tst num 0x1000 \<and> s_mouse_latch s
                                then s\<lparr>s_latched_irqs := s_latched_irqs s OR 0x1000\<rparr> else s)
                       in s\<lparr>s_pic2 := (s_pic2 s)\<lparr>p_irr := p_irr (s_pic2 s) OR hi\<rparr>\<rparr>)
                    else s);
               s = (if tst num 0x00ff then
                      (let s = (if s_kbd_latch s \<and> tst num 0x0002
                                then s\<lparr>s_latched_irqs := s_latched_irqs s OR 0x0002\<rparr> else s)
                       in s\<lparr>s_pic := (s_pic s)\<lparr>p_irr := p_irr (s_pic s) OR lo\<rparr>\<rparr>)
                    else s)
           in update_pending s)
        else
          (let s = s\<lparr>s_smi_irq_status := s_smi_irq_status s AND NOT num\<rparr>;
               s = (if tst num 0xff00 then
                      (let s = (if tst num 0x1000 \<and> s_mouse_latch s
                                then s\<lparr>s_latched_irqs := s_latched_irqs s AND 0xefff\<rparr> else s)
                       in s\<lparr>s_pic2 := (s_pic2 s)\<lparr>p_irr := p_irr (s_pic2 s) AND NOT hi\<rparr>\<rparr>)
                    else s);
               s = (if tst num 0x00ff then
                      (let s = (if s_kbd_latch s \<and> tst num 0x0002
                                then s\<lparr>s_latched_irqs := s_latched_irqs s AND 0xfffd\<rparr> else s)
                       in s\<lparr>s_pic := (s_pic s)\<lparr>p_irr := p_irr (s_pic s) AND NOT lo\<rparr>\<rparr>)
                    else s)
           in update_pending s))"

text \<open>
  \<open>picint_common\<close> takes the caller's \<open>irq_state\<close> byte by pointer; the model takes its truth value
  and returns the new one.  For edge interrupts (\<open>level\<close> false) the C pointer is NULL and unused.
\<close>

definition picint_common :: "u16 \<Rightarrow> bool \<Rightarrow> bool \<Rightarrow> bool \<Rightarrow> pics \<Rightarrow> bool \<times> pics" where
  "picint_common num level on irq_state s =
    (if s_update_pending s = None then (irq_state, s)
     else
       (let (num, slaves) = foldl (picint_redirect (s_pic s)) (num, 0) [0..<8];
            lines = (if level then 0 else num);
            max = (if slaves = 0 then 8 else 16)
        in if num = 0 then (irq_state, s)
           else
             (let (num, irq_state, s) =
                    (if level then
                       (let (lines, s) = foldl (picint_level_line num on irq_state) (lines, s) [0..<max]
                        in (lines, if irq_state \<noteq> on then on else irq_state, s))
                     else (num, irq_state, s));
                  num = (if slaves = 0 then num AND 0x00ff else num);
                  s = (if tst num 0x0100 then s\<lparr>s_acpi_rtc_status := on\<rparr> else s)
              in (irq_state, if num \<noteq> 0 then picint_apply num on s else s))))"

definition picint :: "u16 \<Rightarrow> pics \<Rightarrow> pics" where
  "picint num s = snd (picint_common num False True False s)"

definition picintc :: "u16 \<Rightarrow> pics \<Rightarrow> pics" where
  "picintc num s = snd (picint_common num False False False s)"

definition picintlevel :: "u16 \<Rightarrow> bool \<Rightarrow> pics \<Rightarrow> bool \<times> pics" where
  "picintlevel num irq_state s = picint_common num True True irq_state s"

definition picintclevel :: "u16 \<Rightarrow> bool \<Rightarrow> pics \<Rightarrow> bool \<times> pics" where
  "picintclevel num irq_state s = picint_common num True False irq_state s"

definition pic_latch_read :: "pics \<Rightarrow> u8 \<times> pics" where
  "pic_latch_read s =
    (let s = (if s_kbd_latch s \<and> tst (s_latched_irqs s) 0x0002 then picintc 0x0002 s else s);
         s = (if s_mouse_latch s \<and> tst (s_latched_irqs s) 0x1000 then picintc 0x1000 s else s)
     in (0xff, s))"

definition pic_read_icw :: "u8 \<Rightarrow> u8 \<Rightarrow> pics \<Rightarrow> u8" where
  "pic_read_icw pic_id icw s =
    (let dev = (if pic_id \<noteq> 0 then s_pic2 s else s_pic s)
     in if icw = 0 then p_icw1 dev else if icw = 1 then p_icw2 dev
        else if icw = 2 then p_icw3 dev else if icw = 3 then p_icw4 dev else 0xff)"

definition pic_read_ocw :: "u8 \<Rightarrow> u8 \<Rightarrow> pics \<Rightarrow> u8" where
  "pic_read_ocw pic_id ocw s =
    (let dev = (if pic_id \<noteq> 0 then s_pic2 s else s_pic s)
     in if ocw = 0 then p_ocw2 dev else if ocw = 1 then p_ocw3 dev else 0xff)"

text \<open>The build leaves \<open>UNDEFINED_READ\<close> undefined.\<close>

definition pic_read :: "u16 \<Rightarrow> pic_id \<Rightarrow> pics \<Rightarrow> u8 \<times> pics" where
  "pic_read addr d s =
    (let dev = get_pic d s;
         bus = p_data_bus_update :: (u8 \<Rightarrow> u8) \<Rightarrow> pic_t \<Rightarrow> pic_t;
         s = (if s_shadow s then
                upd_pic d (bus (\<lambda>_.
                  if tst addr 1 then drop_bit 3 (p_icw2 dev AND 0xf8)
                  else push_bit 4 (drop_bit 5 (p_ocw3 dev AND 0x20))
                    OR push_bit 3 (drop_bit 7 (p_ocw2 dev AND 0x80))
                    OR push_bit 2 (drop_bit 4 (p_icw4 dev AND 0x10))
                    OR push_bit 1 (drop_bit 1 (p_icw4 dev AND 0x02))
                    OR drop_bit 3 (p_icw4 dev AND 0x08))) s
              else
                (let s = upd_pic d (bus (\<lambda>_. p_irr dev)) s
                 in if tst (p_ocw3 dev) 4 then
                      (let s = upd_pic d (p_interrupt_update (\<lambda>v. v AND NOT 0x20)) s;
                           s = (if p_int_pending dev then
                                  (let s = upd_pic d (bus (\<lambda>_. 0x80 OR (p_interrupt (get_pic d s) AND 7))) s;
                                       s = pic_acknowledge d s;
                                       s = upd_pic d (p_int_pending_update (\<lambda>_. False)) s
                                   in update_pending s)
                                else upd_pic d (bus (\<lambda>_. 0)) s)
                       in upd_pic d (p_ocw3_update (\<lambda>v. v AND NOT 4)) s)
                    else if tst addr 1 then upd_pic d (bus (\<lambda>_. p_imr dev)) s
                    else if tst (p_ocw3 dev) 2 \<and> tst (p_ocw3 dev) 1 then upd_pic d (bus (\<lambda>_. p_isr dev)) s
                    else s))
     in (p_data_bus (get_pic d s), s))"

definition lines_mask :: "u32 list \<Rightarrow> u8" where
  "lines_mask ls = foldl (\<lambda>m i. if ls ! i > 0 then m OR sh i else m) 0 [0..<8]"

definition pic_write_icw1 :: "u8 \<Rightarrow> pic_t \<Rightarrow> pic_t" where
  "pic_write_icw1 val dev =
    dev\<lparr>p_icw1 := val, p_icw2 := 0, p_icw3 := 0, p_icw4 := (if \<not> tst val 1 then 0 else p_icw4 dev),
        p_ocw2 := 0, p_ocw3 := 0, p_irr := lines_mask (p_lines dev), p_imr := 0, p_isr := 0,
        p_ack_bytes := 0, p_priority := 0, p_auto_eoi_rotate := False, p_special_mask_mode := False,
        p_interrupt := 0x17, p_int_pending := False, p_state := STATE_ICW2\<rparr>"

definition pic_write :: "u16 \<Rightarrow> u8 \<Rightarrow> pic_id \<Rightarrow> pics \<Rightarrow> pics" where
  "pic_write addr val d s =
    (let s = upd_pic d (p_data_bus_update (\<lambda>_. val)) s;
         dev = get_pic d s;
         after = (if tst (p_icw1 dev) 1 then STATE_ICW4 else STATE_NONE)
     in if tst addr 1 then
          (case p_state dev of
             STATE_ICW2 \<Rightarrow>
               upd_pic d (\<lambda>p. p\<lparr>p_icw2 := val, p_state := (if pic_cascade_mode dev then STATE_ICW3 else after)\<rparr>) s
           | STATE_ICW3 \<Rightarrow> upd_pic d (\<lambda>p. p\<lparr>p_icw3 := val, p_state := after\<rparr>) s
           | STATE_ICW4 \<Rightarrow> upd_pic d (\<lambda>p. p\<lparr>p_icw4 := val, p_state := STATE_NONE\<rparr>) s
           | STATE_NONE \<Rightarrow>
               (let s = upd_pic d (\<lambda>p. p\<lparr>p_imr := val\<rparr>) s
                in if (s_is286 s \<and> \<not> s_force_xt_imr_timing s) \<or> p_zenith dev then update_pending s
                   else if s_force_xt_imr_timing s then effect (TimerOnAuto 1) s
                   else effect (TimerOnAuto 0) s))
        else if tst val 0x10 then
          (if s_pic_pci s \<and> tst val 0xe0 then s
           else update_pending (upd_pic d (pic_write_icw1 val) s))
        else if tst val 0x08 then
          upd_pic d (\<lambda>p. p\<lparr>p_ocw3 := val,
              p_interrupt := (if tst val 4 then p_interrupt p OR 0x20 else p_interrupt p),
              p_special_mask_mode := (if tst val 0x40 then tst val 0x20 else p_special_mask_mode p)\<rparr>) s
        else pic_command d (upd_pic d (\<lambda>p. p\<lparr>p_ocw2 := val\<rparr>) s))"

section \<open>Port registration and the input latches\<close>

definition pic_set_pci :: "pics \<Rightarrow> pics" where
  "pic_set_pci s =
    (let reg = (\<lambda>s i. effect (IoHandler True (i + 0x80) 2 (PicPort PIC2)) (effect (IoHandler True i 2 (PicPort PIC1)) s));
         s = foldl reg s (map (\<lambda>k. 0x24 + 4 * of_nat k) [0..<7])
     in foldl reg s (map (\<lambda>k. 0x1120 + 4 * of_nat k) [0..<8]))"

definition pic_kbd_latch :: "bool \<Rightarrow> pics \<Rightarrow> pics" where
  "pic_kbd_latch enable s =
    (let new = enable \<or> s_mouse_latch s;
         s = (if new \<noteq> (s_kbd_latch s \<or> s_mouse_latch s) then effect (IoHandler new 0x60 1 LatchPort) s else s);
         s = s\<lparr>s_kbd_latch := enable\<rparr>
     in if enable then s else picintc 0x0002 s)"

definition pic_mouse_latch :: "bool \<Rightarrow> pics \<Rightarrow> pics" where
  "pic_mouse_latch enable s =
    (let new = s_kbd_latch s \<or> enable;
         s = (if new \<noteq> (s_kbd_latch s \<or> s_mouse_latch s) then effect (IoHandler new 0x60 1 LatchPort) s else s);
         s = s\<lparr>s_mouse_latch := enable\<rparr>
     in if enable then s else picintc 0x1000 s)"

definition pic_reset_hard :: "bool \<Rightarrow> bool \<Rightarrow> bool \<Rightarrow> pics \<Rightarrow> pics" where
  "pic_reset_hard is_at is_zenith ps2_kbc s =
    (let s = (pic_reset is_at is_zenith s)\<lparr>s_kbd_latch := False, s_mouse_latch := False, s_latched_irqs := 0\<rparr>
     in if ps2_kbc then pic_mouse_latch True (pic_kbd_latch True s)
        else pic_mouse_latch False (pic_kbd_latch False s))"

definition pic_toggle_latch :: "bool \<Rightarrow> pics \<Rightarrow> pics" where
  "pic_toggle_latch is_ps2 s =
    (let s = (pic_mouse_latch False (pic_kbd_latch False s))
               \<lparr>s_kbd_latch := False, s_mouse_latch := False, s_latched_irqs := 0\<rparr>
     in if is_ps2 then pic_mouse_latch True (pic_kbd_latch True s) else s)"

definition pic_init :: "bool \<Rightarrow> bool \<Rightarrow> bool \<Rightarrow> pics \<Rightarrow> pics" where
  "pic_init is_at is_zenith ps2_kbc s =
    (let s = s\<lparr>s_irq_vector_override := replicate 8 None\<rparr>;
         s = (pic_reset_hard is_at is_zenith ps2_kbc s)\<lparr>s_shadow := False\<rparr>
     in effect (IoHandler True 0x20 2 (PicPort PIC1)) s)"

definition pic_init_pcjr :: "bool \<Rightarrow> bool \<Rightarrow> bool \<Rightarrow> pics \<Rightarrow> pics" where
  "pic_init_pcjr is_at is_zenith ps2_kbc s =
    effect (IoHandler True 0x20 8 (PicPort PIC1)) ((pic_reset_hard is_at is_zenith ps2_kbc s)\<lparr>s_shadow := False\<rparr>)"

definition pic2_init :: "pics \<Rightarrow> pics" where
  "pic2_init s =
    (let s = effect (IoHandler True 0xa0 2 (PicPort PIC2)) s
     in s\<lparr>s_pic := (s_pic s)\<lparr>p_slaves := (p_slaves (s_pic s))[2 := Some PIC2]\<rparr>\<rparr>)"

section \<open>The interrupt acknowledge cycle\<close>

definition pic_i86_mode :: "pic_t \<Rightarrow> bool" where
  "pic_i86_mode d \<longleftrightarrow> tst (p_icw4 d) 1"

text \<open>
  \<open>pic_irq_ack_read\<close> calls itself on a slave.  The first argument bounds the depth of the slave
  chain; there are two controllers, so 2 is enough (\<open>pic_irq_ack_read_depth\<close> below).  The C code
  reads \<open>dev->interrupt\<close> before it compares \<open>dev\<close> with NULL, so a NULL slave is an error.
\<close>

fun pic_irq_ack_read :: "nat \<Rightarrow> pic_id option \<Rightarrow> u8 \<Rightarrow> pics \<Rightarrow> pic_err + u8 \<times> pics" where
  "pic_irq_ack_read _ None phase s = Inl NullPic"
| "pic_irq_ack_read 0 (Some d) phase s = Inl AckDepth"
| "pic_irq_ack_read (Suc n) (Some d) phase s =
    (let intr = p_interrupt (get_pic d s) AND 7;
         slave = tst (p_interrupt (get_pic d s)) 0x40;
         put = (\<lambda>v s. upd_pic d (p_data_bus_update (\<lambda>_. v)) s);
         bus = (\<lambda>own s. if slave then
                          (case pic_irq_ack_read n (p_slaves (get_pic d s) ! unat intr) phase s of
                             Inl e \<Rightarrow> Inl e
                           | Inr (v, s) \<Rightarrow> Inr (put v s))
                        else Inr (put (own s) s));
         result = (\<lambda>s. Inr (p_data_bus (get_pic d s), s))
     in if phase = 0 then
          (let s = pic_acknowledge d (upd_pic d (p_interrupt_update (\<lambda>v. v OR 0x20)) s)
           in case bus (\<lambda>s. if pic_i86_mode (get_pic d s) then 0xff else 0xcd) s of
                Inl e \<Rightarrow> Inl e
              | Inr s \<Rightarrow> result s)
        else if pic_i86_mode (get_pic d s) then
          (let s = upd_pic d (p_int_pending_update (\<lambda>_. False)) s
           in case bus (\<lambda>s. case if d = PIC1 then s_irq_vector_override s ! unat intr else None of
                               Some v \<Rightarrow> v
                             | None \<Rightarrow> intr + (p_icw2 (get_pic d s) AND 0xf8)) s of
                Inl e \<Rightarrow> Inl e
              | Inr s \<Rightarrow> result (pic_auto_non_specific_eoi d s))
        else if phase = 1 then
          (case bus (\<lambda>s. if tst (p_icw1 (get_pic d s)) 4
                         then push_bit 2 intr + (p_icw1 (get_pic d s) AND 0xe0)
                         else push_bit 3 intr + (p_icw1 (get_pic d s) AND 0xc0)) s of
             Inl e \<Rightarrow> Inl e
           | Inr s \<Rightarrow> result s)
        else if phase = 2 then
          (let s = upd_pic d (p_int_pending_update (\<lambda>_. False)) s
           in case bus (\<lambda>s. p_icw2 (get_pic d s)) s of
                Inl e \<Rightarrow> Inl e
              | Inr s \<Rightarrow> result (pic_auto_non_specific_eoi d s))
        else result s)"

text \<open>The acknowledge step shared by \<open>pic_irq_ack\<close> and \<open>picinterrupt\<close>.\<close>

definition ack_step :: "pics \<Rightarrow> pic_err + u8 \<times> pics" where
  "ack_step s =
    (case pic_irq_ack_read 2 (Some PIC1) (p_ack_bytes (s_pic s)) s of
       Inl e \<Rightarrow> Inl e
     | Inr (ret, s) \<Rightarrow>
         (let s = s\<lparr>s_pic := (s_pic s)\<lparr>p_ack_bytes :=
                      (p_ack_bytes (s_pic s) + 1) mod (if pic_i86_mode (s_pic s) then 2 else 3)\<rparr>\<rparr>
          in if p_ack_bytes (s_pic s) = 0 then
               (let s = (if tst (p_interrupt (s_pic s)) 0x40
                         then s\<lparr>s_pic2 := (s_pic2 s)\<lparr>p_interrupt := 0x17\<rparr>\<rparr> else s);
                    s = s\<lparr>s_pic := (s_pic s)\<lparr>p_interrupt := 0x17\<rparr>\<rparr>
                in Inr (ret, update_pending s))
             else Inr (ret, s)))"

definition pic_irq_ack :: "pics \<Rightarrow> pic_err + u8 \<times> pics" where
  "pic_irq_ack s =
    (let p = s_pic s
     in if p_ack_bytes p = 0 \<and> p_int_pending p then
          (case pic_slave_on p (p_interrupt p) of
             Inl e \<Rightarrow> Inl e
           | Inr False \<Rightarrow> ack_step s
           | Inr True \<Rightarrow>
               (case p_slaves p ! unat (p_interrupt p) of
                  None \<Rightarrow> Inl NullPic
                | Some sl \<Rightarrow>
                    (if \<not> p_int_pending (get_pic sl s) then Inl FatalNoSlaveIrq
                     else ack_step (s\<lparr>s_pic := p\<lparr>p_interrupt := p_interrupt p OR 0x40\<rparr>\<rparr>))))
        else ack_step s)"

definition picinterrupt_ack :: "pics \<Rightarrow> pic_err + u8 \<times> pics" where
  "picinterrupt_ack s =
    (let s = (if p_interrupt (s_pic s) = 0 \<and> s_pit1 s then effect Pit1SetGate s else s)
     in case ack_step s of
          Inl e \<Rightarrow> Inl e
        | Inr (_, s) \<Rightarrow> ack_step s)"

definition picinterrupt :: "pics \<Rightarrow> pic_err + u8 \<times> pics" where
  "picinterrupt s =
    (let p = s_pic s
     in if p_int_pending p then
          (case pic_slave_on p (p_interrupt p) of
             Inl e \<Rightarrow> Inl e
           | Inr False \<Rightarrow> picinterrupt_ack s
           | Inr True \<Rightarrow>
               (case p_slaves p ! unat (p_interrupt p) of
                  None \<Rightarrow> Inl NullPic
                | Some sl \<Rightarrow>
                    (if \<not> p_int_pending (get_pic sl s)
                     then picinterrupt_ack (upd_pic sl (\<lambda>q. q\<lparr>p_int_pending := True, p_interrupt := 0x07\<rparr>) s)
                     else picinterrupt_ack (s\<lparr>s_pic := p\<lparr>p_interrupt := p_interrupt p OR 0x40\<rparr>\<rparr>))))
        else picinterrupt_ack (s\<lparr>s_pic := p\<lparr>p_int_pending := True, p_interrupt := 0x07\<rparr>\<rparr>))"

end
