(* ===== verification/Pic_Correct.thy ===== *)
theory Pic_Correct
  imports Pic
begin

text \<open>
  Correctness of the interrupt controllers: which request wins, what an acknowledge cycle delivers,
  what the end-of-interrupt commands do, how shared level-triggered lines are counted, and the
  states in which the C code leaves defined behaviour.
\<close>

section \<open>Projections\<close>

lemma get_upd_pic [simp]:
  "get_pic d (upd_pic e f s) = (if d = e then f (get_pic d s) else get_pic d s)"
  by (cases d; cases e) (simp_all add: get_pic_def upd_pic_def)

lemma get_pic_effect [simp]: "get_pic d (effect e s) = get_pic d s"
  by (cases d) (simp_all add: get_pic_def effect_def)

lemma get_pic_ids [simp]: "get_pic PIC1 s = s_pic s" "get_pic PIC2 s = s_pic2 s"
  by (simp_all add: get_pic_def)

lemma upd_pic_ids [simp]:
  "upd_pic PIC1 f s = s\<lparr>s_pic := f (s_pic s)\<rparr>" "upd_pic PIC2 f s = s\<lparr>s_pic2 := f (s_pic2 s)\<rparr>"
  by (simp_all add: upd_pic_def)

lemma effect_fields [simp]:
  "s_pic (effect e s) = s_pic s" "s_pic2 (effect e s) = s_pic2 s"
  "s_update_pending (effect e s) = s_update_pending s"
  "s_elcr_enabled (effect e s) = s_elcr_enabled s"
  "s_cpu_fast_off_flags (effect e s) = s_cpu_fast_off_flags s"
  "s_irq_vector_override (effect e s) = s_irq_vector_override s"
  "s_pit1 (effect e s) = s_pit1 s"
  "s_mouse_latch (effect e s) = s_mouse_latch s" "s_kbd_latch (effect e s) = s_kbd_latch s"
  "s_effects (effect e s) = s_effects s @ [e]"
  by (simp_all add: effect_def)

lemma tst_sh [simp]: "tst v (sh n) \<longleftrightarrow> bit v n"
  by (simp add: sh_def tst_bit)

lemma bit_sh [simp]: "bit (sh n :: 'a::len word) k \<longleftrightarrow> k = n \<and> n < LENGTH('a)"
  by (auto simp: sh_def bit_exp_iff)

section \<open>Which request wins\<close>

text \<open>
  The priority order starts at \<open>p_priority\<close> and wraps around: \<open>rank p j\<close> is the position of level
  \<open>j\<close> in it, \<open>level p i\<close> the level at position \<open>i\<close>.
\<close>

definition rank :: "pic_t \<Rightarrow> nat \<Rightarrow> nat" where
  "rank p j = (j + 8 - unat (p_priority p) mod 8) mod 8"

definition level :: "pic_t \<Rightarrow> nat \<Rightarrow> nat" where
  "level p i = (i + unat (p_priority p)) mod 8"

lemma level_less [simp]: "level p i < 8"
  by (simp add: level_def)

lemma mod8_once: "n < 16 \<Longrightarrow> n mod 8 = (if n < 8 then n else n - 8)" for n :: nat
  by (simp add: le_mod_geq)

definition base :: "pic_t \<Rightarrow> nat" where
  "base p = unat (p_priority p) mod 8"

lemma base_less: "base p < 8"
  by (simp add: base_def)

lemma level_reduced: "i < 8 \<Longrightarrow> level p i = (if i + base p < 8 then i + base p else i + base p - 8)"
  using base_less [of p] mod8_once [of "i + base p"] mod_add_right_eq [of i "unat (p_priority p)" 8]
  by (simp add: level_def base_def)

lemma rank_reduced: "j < 8 \<Longrightarrow> rank p j = (if base p \<le> j then j - base p else j + 8 - base p)"
  using base_less [of p] mod8_once [of "j + 8 - base p"]
  unfolding rank_def base_def [symmetric] by (auto simp: not_le)

lemma rank_level: "i < 8 \<Longrightarrow> rank p (level p i) = i"
  using base_less [of p] level_less [of p i] rank_reduced [of "level p i" p] level_reduced [of i p]
  by (cases "i + base p < 8") auto

lemma rank_less [simp]: "rank p j < 8"
  by (simp add: rank_def)

lemma level_rank: "j < 8 \<Longrightarrow> level p (rank p j) = j"
  using base_less [of p] rank_less [of p j] by (subst level_reduced) (simp_all add: rank_reduced)

text \<open>
  Both priority searches of the controller are instances of one scan over the ranks: it stops
  at the first level that blocks, and returns the first level wanted before that.
\<close>

definition first_rank :: "(nat \<Rightarrow> bool) \<Rightarrow> pic_t \<Rightarrow> nat \<Rightarrow> bool" where
  "first_rank P p j \<longleftrightarrow> j < 8 \<and> P j \<and> (\<forall>k<8. rank p k < rank p j \<longrightarrow> \<not> P k)"

lemma first_rank_level:
  "first_rank P p j \<longleftrightarrow> (\<exists>i<8. j = level p i \<and> P j \<and> (\<forall>k<i. \<not> P (level p k)))"
proof
  assume f: "first_rank P p j"
  have "\<forall>k<rank p j. \<not> P (level p k)"
  proof (intro allI impI)
    fix k assume k: "k < rank p j"
    then have "k < 8" using rank_less [of p j] by linarith
    with k f show "\<not> P (level p k)"
      by (auto simp: first_rank_def rank_level dest: spec [of _ "level p k"])
  qed
  with f show "\<exists>i<8. j = level p i \<and> P j \<and> (\<forall>k<i. \<not> P (level p k))"
    by (intro exI [of _ "rank p j"]) (simp add: first_rank_def level_rank)
next
  assume "\<exists>i<8. j = level p i \<and> P j \<and> (\<forall>k<i. \<not> P (level p k))"
  then obtain i where i: "i < 8" "j = level p i" "P j" "\<And>k. k < i \<Longrightarrow> \<not> P (level p k)" by blast
  have "\<not> P k" if "k < 8" "rank p k < rank p j" for k
    using i(4) [of "rank p k"] that i(1,2) by (simp add: rank_level level_rank)
  with i show "first_rank P p j" by (simp add: first_rank_def)
qed

lemma first_rank_unique: "first_rank P p j \<Longrightarrow> first_rank P p k \<Longrightarrow> j = k"
  unfolding first_rank_def by (metis level_rank linorder_less_linear)

lemma first_rank_exists:
  assumes "j < 8" and "P j" shows "\<exists>k. first_rank P p k"
proof -
  define Q where "Q i \<longleftrightarrow> i < 8 \<and> P (level p i)" for i
  have "Q (rank p j)" using assms by (simp add: Q_def level_rank)
  then obtain i where i: "Q i" "\<And>k. k < i \<Longrightarrow> \<not> Q k" using exists_least_iff [of Q] by blast
  have "\<not> P (level p k)" if "k < i" for k using i(2) [OF that] i(1) that by (simp add: Q_def)
  with i(1) show ?thesis unfolding first_rank_level Q_def by blast
qed

locale priority_scan =
  fixes scan :: "nat list \<Rightarrow> nat option" and stop P :: "nat \<Rightarrow> bool" and p :: pic_t
  assumes scan_Nil: "scan [] = None"
    and scan_Cons: "scan (i # is) =
      (if stop (level p i) then None else if P (level p i) then Some (level p i) else scan is)"
begin

lemma scan_find:
  "scan is = (case find (\<lambda>i. stop (level p i) \<or> P (level p i)) is of
    None \<Rightarrow> None | Some i \<Rightarrow> if stop (level p i) then None else Some (level p i))"
  by (induction "is") (auto simp: scan_Nil scan_Cons)

lemma scan_iff:
  "scan [0..<8] = Some j \<longleftrightarrow> first_rank P p j \<and> (\<forall>k<8. rank p k \<le> rank p j \<longrightarrow> \<not> stop k)"
proof -
  have "scan [0..<8] = Some j \<longleftrightarrow> (\<exists>i<8. j = level p i \<and> P j \<and> \<not> stop j \<and> (\<forall>k<i. \<not> stop (level p k) \<and> \<not> P (level p k)))"
    (is "_ \<longleftrightarrow> ?I")
  proof
    assume "scan [0..<8] = Some j"
    then obtain i where "find (\<lambda>i. stop (level p i) \<or> P (level p i)) [0..<8] = Some i" "\<not> stop (level p i)" "j = level p i"
      unfolding scan_find by (auto split: option.splits if_splits)
    then show ?I by (auto simp: find_Some_iff)
  next
    assume ?I
    then obtain i where i: "i < 8" "j = level p i" "P j" "\<not> stop j" "\<forall>k<i. \<not> stop (level p k) \<and> \<not> P (level p k)" by blast
    then have "find (\<lambda>i. stop (level p i) \<or> P (level p i)) [0..<8] = Some i"
      by (auto simp: find_Some_iff intro!: exI [of _ i])
    with i show "scan [0..<8] = Some j" unfolding scan_find by simp
  qed
  also have "\<dots> \<longleftrightarrow> first_rank P p j \<and> (\<forall>k<8. rank p k \<le> rank p j \<longrightarrow> \<not> stop k)" (is "?L \<longleftrightarrow> ?R")
  proof
    assume ?L
    then obtain i where i: "i < 8" "j = level p i" "P j" "\<not> stop j" "\<And>k. k < i \<Longrightarrow> \<not> stop (level p k)"
      "\<And>k. k < i \<Longrightarrow> \<not> P (level p k)" by auto
    have "\<not> stop k" if "k < 8" "rank p k \<le> rank p j" for k
      using i(4) i(5) [of "rank p k"] that i(1,2) by (cases "rank p k = i") (auto simp: rank_level level_rank)
    with i show ?R by (auto simp: first_rank_level)
  next
    assume R: ?R
    have "\<not> stop (level p k) \<and> \<not> P (level p k)" if "k < rank p j" for k
    proof -
      have "k < 8" using that rank_less [of p j] by linarith
      then show ?thesis using R that by (simp add: rank_level first_rank_def)
    qed
    with R show ?L by (intro exI [of _ "rank p j"]) (simp add: first_rank_def level_rank)
  qed
  finally show ?thesis .
qed

end

definition pending :: "pic_t \<Rightarrow> nat \<Rightarrow> bool" where
  "pending p j \<longleftrightarrow> p_state p = STATE_NONE \<and> bit (p_irr p) j \<and> \<not> bit (p_imr p) j"

text \<open>\<open>best p\<close> is the level the specification delivers, if any.\<close>

definition best :: "pic_t \<Rightarrow> nat option" where
  "best p = find_best_loop p [0..<8]"

lemma pending_step: "j < 8 \<Longrightarrow>
    (p_state p = STATE_NONE \<and> bit (p_irr p AND NOT (p_imr p)) j) \<longleftrightarrow> pending p j"
  by (auto simp: pending_def bit_and_iff bit_not_iff)

interpretation best_scan: priority_scan "find_best_loop p" "bit (p_isr p)" "pending p" p for p
  by unfold_locales (simp_all add: Let_def level_def [symmetric] pending_step)

lemma best_iff:
  "best p = Some j \<longleftrightarrow> first_rank (pending p) p j \<and> (\<forall>k<8. rank p k \<le> rank p j \<longrightarrow> \<not> bit (p_isr p) k)"
  unfolding best_def by (rule best_scan.scan_iff)

lemma find_best_interrupt_eq:
  "fst (find_best_interrupt d s) = best (get_pic d s)"
  by (simp add: find_best_interrupt_def Let_def best_def split: option.splits)

definition serviced :: "pic_t \<Rightarrow> nat \<Rightarrow> bool" where
  "serviced p k \<longleftrightarrow> bit (p_isr p) k \<and> (\<not> p_special_mask_mode p \<or> \<not> bit (p_imr p) k)"

interpretation eoi_scan: priority_scan "non_specific_loop p" "\<lambda>_. False" "serviced p" p for p
  by unfold_locales (simp_all add: Let_def level_def [symmetric] serviced_def)

lemma non_specific_iff: "pic_non_specific_find p = Some j \<longleftrightarrow> first_rank (serviced p) p j"
  unfolding pic_non_specific_find_def using eoi_scan.scan_iff by simp

section \<open>Recomputing the pending interrupt\<close>

definition icode :: "nat option \<Rightarrow> u8" where
  "icode r = (case r of None \<Rightarrow> 0x17 | Some j \<Rightarrow> of_nat j)"

text \<open>\<open>shown p\<close> is \<open>p\<close> with its pending flag and winner brought up to date.\<close>

definition shown :: "pic_t \<Rightarrow> pic_t" where
  "shown p = p\<lparr>p_interrupt := icode (best p), p_int_pending := best p \<noteq> None\<rparr>"

lemma best_cong [simp]:
  "best (p\<lparr>p_interrupt := x\<rparr>) = best p" "best (p\<lparr>p_int_pending := y\<rparr>) = best p"
  "best (p\<lparr>p_data_bus := z\<rparr>) = best p"  "best (p\<lparr>p_ack_bytes := w\<rparr>) = best p"
  by (simp_all only: best_def upt_conv_Cons) (simp_all add: upt_rec Let_def)

lemma find_best_pics [simp]:
  "get_pic e (snd (find_best_interrupt d s)) =
    (if e = d then (get_pic d s)\<lparr>p_interrupt := icode (best (get_pic d s))\<rparr> else get_pic e s)"
  by (cases d; cases e) (simp_all add: find_best_interrupt_def Let_def best_def [symmetric] icode_def split: option.splits)

lemma find_best_pics2 [simp]:
  "s_pic (snd (find_best_interrupt d s)) =
    (if d = PIC1 then (s_pic s)\<lparr>p_interrupt := icode (best (s_pic s))\<rparr> else s_pic s)"
  "s_pic2 (snd (find_best_interrupt d s)) =
    (if d = PIC2 then (s_pic2 s)\<lparr>p_interrupt := icode (best (s_pic2 s))\<rparr> else s_pic2 s)"
  by (metis find_best_pics get_pic_ids(1)) (metis find_best_pics get_pic_ids(2))

lemma upd_pic_env [simp]:
  "s_update_pending (upd_pic d f s) = s_update_pending s"
  "s_elcr_enabled (upd_pic d f s) = s_elcr_enabled s"
  "s_irq_vector_override (upd_pic d f s) = s_irq_vector_override s"
  by (cases d; simp)+

lemma find_best_env [simp]:
  "s_update_pending (snd (find_best_interrupt d s)) = s_update_pending s"
  "s_elcr_enabled (snd (find_best_interrupt d s)) = s_elcr_enabled s"
  "s_irq_vector_override (snd (find_best_interrupt d s)) = s_irq_vector_override s"
  by (simp_all add: find_best_interrupt_def Let_def split: option.splits)

definition cascaded :: "pics \<Rightarrow> pic_t" where
  "cascaded s =
    (let m = sh (unat (p_icw3 (s_pic2 s))); p = s_pic s
     in p\<lparr>p_irr := (if best (s_pic2 s) \<noteq> None then p_irr p OR m else p_irr p AND NOT m)\<rparr>)"

lemma cascaded_fields [simp]:
  "p_state (cascaded s) = p_state (s_pic s)" "p_isr (cascaded s) = p_isr (s_pic s)" "p_imr (cascaded s) = p_imr (s_pic s)"
  by (simp_all add: cascaded_def Let_def)

lemma shown_eq: "p\<lparr>p_interrupt := icode (best p), p_int_pending := (\<exists>y. best p = Some y)\<rparr> = shown p"
  by (simp add: shown_def)

lemma update_pending_at:
  assumes "\<not> bit (p_interrupt (s_pic s)) 5"
  shows "s_pic (pic_update_pending_at s) = shown (cascaded s)"
    and "s_pic2 (pic_update_pending_at s) = shown (s_pic2 s)"
  using assms
  by (simp_all add: pic_update_pending_at_def Let_def case_prod_beta find_best_interrupt_eq shown_def cascaded_def)

lemma update_pending_env [simp]:
  "s_update_pending (update_pending s) = s_update_pending s"
  "s_elcr_enabled (update_pending s) = s_elcr_enabled s"
  "s_irq_vector_override (update_pending s) = s_irq_vector_override s"
  by (simp_all add: update_pending_def pic_update_pending_xt_def pic_update_pending_at_def Let_def case_prod_beta
      split: option.splits updater.splits)

section \<open>Delivery on an AT\<close>

text \<open>
  \<open>at_ready\<close>: both controllers have been programmed the way the AT BIOS does it (8086 mode, normal
  end of interrupt, slave on line 2), no acknowledge cycle is under way and the pending interrupt
  is not frozen.
\<close>

definition at_ready :: "pics \<Rightarrow> bool" where
  "at_ready s \<longleftrightarrow> s_update_pending s = Some PIC_UPDATE_PENDING_AT \<and>
    p_state (s_pic s) = STATE_NONE \<and> p_state (s_pic2 s) = STATE_NONE \<and>
    \<not> bit (p_icw1 (s_pic s)) 1 \<and> p_is_master (s_pic s) \<and>
    p_icw3 (s_pic s) = 4 \<and> p_icw3 (s_pic2 s) = 2 \<and>
    bit (p_icw4 (s_pic s)) 0 \<and> \<not> bit (p_icw4 (s_pic s)) 1 \<and>
    bit (p_icw4 (s_pic2 s)) 0 \<and> \<not> bit (p_icw4 (s_pic2 s)) 1 \<and>
    p_ack_bytes (s_pic s) = 0 \<and> p_slaves (s_pic s) ! 2 = Some PIC2 \<and>
    \<not> bit (p_interrupt (s_pic s)) 5 \<and> s_irq_vector_override s = replicate 8 None \<and> p_at (s_pic s)"

lemma icode_bits:
  assumes "j < 8"
  shows "icode (Some j) AND 7 = of_nat j" "\<not> bit (icode (Some j)) 6" "\<not> bit (icode (Some j)) 5"
    "(icode (Some j) OR 0x20) AND 7 = of_nat j" "\<not> bit (icode (Some j) OR 0x20) 6"
    "unat (icode (Some j)) = j" "unat (of_nat j :: u8) = j"
    "((icode (Some j) OR 0x40) OR 0x20) AND 7 = of_nat j" "(icode (Some j) OR 0x40) AND 7 = of_nat j"
  using less_8_cases [OF assms] by (elim disjE; simp add: icode_def bit_or_iff)+

definition taken :: "pics \<Rightarrow> nat \<Rightarrow> pic_t \<Rightarrow> pic_t" where
  "taken s j p =
    (let p = p\<lparr>p_isr := p_isr p OR sh j\<rparr>
     in if \<not> pic_level_triggered s p j \<or> p_lines p ! j = 0 then p\<lparr>p_irr := p_irr p AND NOT (sh j)\<rparr> else p)"

lemma pic_acknowledge_taken:
  "p_interrupt (get_pic d s) AND 7 = of_nat j \<Longrightarrow> j < 8 \<Longrightarrow> pic_acknowledge d s = upd_pic d (\<lambda>_. taken s j (get_pic d s)) s"
  by (simp add: pic_acknowledge_def taken_def icode_bits Let_def)

lemma taken_fields [simp]:
  "p_interrupt (taken s j p) = p_interrupt p" "p_icw1 (taken s j p) = p_icw1 p" "p_icw2 (taken s j p) = p_icw2 p"
  "p_icw3 (taken s j p) = p_icw3 p" "p_icw4 (taken s j p) = p_icw4 p" "p_ack_bytes (taken s j p) = p_ack_bytes p"
  "p_isr (taken s j p) = p_isr p OR sh j" "p_slaves (taken s j p) = p_slaves p" "p_int_pending (taken s j p) = p_int_pending p"
  "p_state (taken s j p) = p_state p" "p_is_master (taken s j p) = p_is_master p"
  by (simp_all add: taken_def Let_def)

lemma ack_leaf_0:
  assumes "p_interrupt (get_pic d s) = icode (Some j)" and "j < 8"
  shows "pic_irq_ack_read (Suc n) (Some d) 0 s =
    (let s = upd_pic d (p_interrupt_update (\<lambda>v. v OR 0x20)) s;
         s = upd_pic d (\<lambda>_. taken s j (get_pic d s)) s;
         v = (if pic_i86_mode (get_pic d s) then 0xff else 0xcd)
     in Inr (v, upd_pic d (p_data_bus_update (\<lambda>_. v)) s))"
  using assms
  by (simp add: Let_def pic_acknowledge_taken icode_bits)

lemma update_pending_pics [simp]:
  "p_isr (s_pic (update_pending s)) = p_isr (s_pic s)" "p_isr (s_pic2 (update_pending s)) = p_isr (s_pic2 s)"
  "p_imr (s_pic (update_pending s)) = p_imr (s_pic s)" "p_imr (s_pic2 (update_pending s)) = p_imr (s_pic2 s)"
  "p_priority (s_pic (update_pending s)) = p_priority (s_pic s)" "p_priority (s_pic2 (update_pending s)) = p_priority (s_pic2 s)"
  "p_lines (s_pic (update_pending s)) = p_lines (s_pic s)" "p_lines (s_pic2 (update_pending s)) = p_lines (s_pic2 s)"
  "p_icw1 (s_pic (update_pending s)) = p_icw1 (s_pic s)" "p_icw1 (s_pic2 (update_pending s)) = p_icw1 (s_pic2 s)"
  "p_icw2 (s_pic (update_pending s)) = p_icw2 (s_pic s)" "p_icw2 (s_pic2 (update_pending s)) = p_icw2 (s_pic2 s)"
  "p_icw3 (s_pic (update_pending s)) = p_icw3 (s_pic s)" "p_icw3 (s_pic2 (update_pending s)) = p_icw3 (s_pic2 s)"
  "p_icw4 (s_pic (update_pending s)) = p_icw4 (s_pic s)" "p_icw4 (s_pic2 (update_pending s)) = p_icw4 (s_pic2 s)"
  "p_state (s_pic (update_pending s)) = p_state (s_pic s)" "p_state (s_pic2 (update_pending s)) = p_state (s_pic2 s)"
  "p_ack_bytes (s_pic (update_pending s)) = p_ack_bytes (s_pic s)"
  "p_slaves (s_pic (update_pending s)) = p_slaves (s_pic s)" "p_slaves (s_pic2 (update_pending s)) = p_slaves (s_pic2 s)"
  "p_is_master (s_pic (update_pending s)) = p_is_master (s_pic s)"
  "p_irr (s_pic2 (update_pending s)) = p_irr (s_pic2 s)"
  by (simp_all add: update_pending_def pic_update_pending_xt_def pic_update_pending_at_def Let_def case_prod_beta
      split: option.splits updater.splits)

lemma ack_leaf_1:
  assumes "p_interrupt (get_pic d s) AND 7 = of_nat j" "\<not> bit (p_interrupt (get_pic d s)) 6" and "j < 8"
    and "bit (p_icw4 (get_pic d s)) 0" and "\<not> bit (p_icw4 (get_pic d s)) 1"
    and "s_irq_vector_override s = replicate 8 None"
  shows "pic_irq_ack_read (Suc n) (Some d) 1 s =
    (let v = of_nat j + (p_icw2 (get_pic d s) AND 0xf8)
     in Inr (v, upd_pic d (\<lambda>p. p\<lparr>p_int_pending := False, p_data_bus := v\<rparr>) s))"
  using assms
  by (cases d) (simp_all add: Let_def pic_i86_mode_def icode_bits pic_auto_non_specific_eoi_def)

definition two_acks :: "pics \<Rightarrow> pic_err + u8 \<times> pics" where
  "two_acks s = (case ack_step s of Inl e \<Rightarrow> Inl e | Inr (_, s) \<Rightarrow> ack_step s)"

lemma picinterrupt_ack_two:
  "picinterrupt_ack s = two_acks (if p_interrupt (s_pic s) = 0 \<and> s_pit1 s then effect Pit1SetGate s else s)"
  by (simp add: picinterrupt_ack_def two_acks_def Let_def)

lemmas ack_simps = ack_step_def numeral_2_eq_2 ack_leaf_0 ack_leaf_1 Let_def icode_bits pic_i86_mode_def

lemma two_acks_master:
  assumes "p_interrupt (s_pic s) = icode (Some j)" and "j < 8" and "p_ack_bytes (s_pic s) = 0"
    and "bit (p_icw4 (s_pic s)) 0" and "\<not> bit (p_icw4 (s_pic s)) 1"
    and "s_irq_vector_override s = replicate 8 None"
  shows "\<exists>t. two_acks s = Inr (of_nat j + (p_icw2 (s_pic s) AND 0xf8), update_pending t) \<and>
    p_isr (s_pic t) = p_isr (s_pic s) OR sh j \<and> s_pic2 t = s_pic2 s"
  using assms
  by (auto simp: two_acks_def ack_simps simp del: pic_irq_ack_read.simps)

lemma or_mask_bits: "bit (v OR 0x20 :: u8) 6 \<longleftrightarrow> bit v 6" "bit (v OR 0x40 :: u8) 6"
  by (simp_all add: bit_or_iff)

lemma icode_slave:
  "j < 8 \<Longrightarrow> p_interrupt p = icode (Some j) OR 0x40 \<Longrightarrow> p_interrupt p AND 7 = of_nat j \<and> bit (p_interrupt p) 6"
  "j < 8 \<Longrightarrow> p_interrupt p = icode (Some j) OR 0x40 \<Longrightarrow>
    (p_interrupt p OR 0x20) AND 7 = of_nat j \<and> bit (p_interrupt p OR 0x20) 6"
  by (simp_all add: icode_bits or_mask_bits)

lemma ack_slave_0:
  assumes "p_interrupt (s_pic s) = icode (Some j) OR 0x40" and "j < 8" and "p_slaves (s_pic s) ! j = Some PIC2"
  shows "pic_irq_ack_read (Suc n) (Some PIC1) 0 s =
    (let s = s\<lparr>s_pic := p_interrupt_update (\<lambda>v. v OR 0x20) (s_pic s)\<rparr>;
         s = s\<lparr>s_pic := taken s j (s_pic s)\<rparr>
     in case pic_irq_ack_read n (Some PIC2) 0 s of Inl e \<Rightarrow> Inl e
        | Inr (v, s) \<Rightarrow> Inr (v, s\<lparr>s_pic := (s_pic s)\<lparr>p_data_bus := v\<rparr>\<rparr>))"
  using assms icode_slave [of j "s_pic s"]
  by (subst pic_irq_ack_read.simps(3))
    (simp add: Let_def icode_bits pic_acknowledge_taken split: sum.splits del: pic_irq_ack_read.simps)

lemma ack_slave_1:
  assumes "p_interrupt (s_pic s) AND 7 = of_nat j" and "bit (p_interrupt (s_pic s)) 6" and "j < 8"
    and "p_slaves (s_pic s) ! j = Some PIC2" and "bit (p_icw4 (s_pic s)) 0" and "\<not> bit (p_icw4 (s_pic s)) 1"
    and "\<And>v t. pic_irq_ack_read n (Some PIC2) 1 (s\<lparr>s_pic := (s_pic s)\<lparr>p_int_pending := False\<rparr>\<rparr>) = Inr (v, t) \<Longrightarrow>
      \<not> bit (p_icw4 (s_pic t)) 1"
  shows "pic_irq_ack_read (Suc n) (Some PIC1) 1 s =
    (case pic_irq_ack_read n (Some PIC2) 1 (s\<lparr>s_pic := (s_pic s)\<lparr>p_int_pending := False\<rparr>\<rparr>) of Inl e \<Rightarrow> Inl e
     | Inr (v, s) \<Rightarrow> Inr (v, s\<lparr>s_pic := (s_pic s)\<lparr>p_data_bus := v\<rparr>\<rparr>))"
  using assms
  by (subst pic_irq_ack_read.simps(3))
    (simp add: Let_def icode_bits pic_i86_mode_def pic_auto_non_specific_eoi_def
      split: sum.splits del: pic_irq_ack_read.simps)

lemma two_acks_slave:
  assumes "p_interrupt (s_pic s) = icode (Some j) OR 0x40" and "j < 8" and "p_ack_bytes (s_pic s) = 0"
    and "p_slaves (s_pic s) ! j = Some PIC2"
    and "bit (p_icw4 (s_pic s)) 0" and "\<not> bit (p_icw4 (s_pic s)) 1"
    and "p_interrupt (s_pic2 s) = icode (Some k)" and "k < 8"
    and "bit (p_icw4 (s_pic2 s)) 0" and "\<not> bit (p_icw4 (s_pic2 s)) 1"
    and "s_irq_vector_override s = replicate 8 None"
  shows "\<exists>t. two_acks s = Inr (of_nat k + (p_icw2 (s_pic2 s) AND 0xf8), update_pending t) \<and>
    p_isr (s_pic t) = p_isr (s_pic s) OR sh j \<and> p_isr (s_pic2 t) = p_isr (s_pic2 s) OR sh k"
proof -
  define s1 where "s1 =
    (let s = s\<lparr>s_pic := p_interrupt_update (\<lambda>v. v OR 0x20) (s_pic s)\<rparr>;
         s = s\<lparr>s_pic := taken s j (s_pic s)\<rparr>;
         s = s\<lparr>s_pic2 := p_interrupt_update (\<lambda>v. v OR 0x20) (s_pic2 s)\<rparr>;
         s = s\<lparr>s_pic2 := (taken s k (s_pic2 s))\<lparr>p_data_bus := 0xff\<rparr>\<rparr>
     in s\<lparr>s_pic := (s_pic s)\<lparr>p_data_bus := 0xff, p_ack_bytes := 1\<rparr>\<rparr>)"
  have 1: "ack_step s = Inr (0xff, s1)"
    using assms icode_slave [of j "s_pic s"]
    by (simp add: ack_simps ack_slave_0 s1_def del: pic_irq_ack_read.simps)
  have i: "p_interrupt (s_pic s1) AND 7 = of_nat j" "bit (p_interrupt (s_pic s1)) 6"
    "p_interrupt (s_pic2 s1) AND 7 = of_nat k" "\<not> bit (p_interrupt (s_pic2 s1)) 6"
    using assms icode_slave [of j "s_pic s"] by (simp_all add: s1_def Let_def icode_bits)
  have f: "p_slaves (s_pic s1) ! j = Some PIC2" "p_icw4 (s_pic s1) = p_icw4 (s_pic s)" "p_icw4 (s_pic2 s1) = p_icw4 (s_pic2 s)"
    "s_irq_vector_override s1 = replicate 8 None" "p_icw2 (s_pic2 s1) = p_icw2 (s_pic2 s)"
    "p_isr (s_pic s1) = p_isr (s_pic s) OR sh j" "p_isr (s_pic2 s1) = p_isr (s_pic2 s) OR sh k" "p_ack_bytes (s_pic s1) = 1"
    using assms by (simp_all add: s1_def Let_def)
  have leaf: "pic_irq_ack_read (Suc 0) (Some PIC2) 1 (s1\<lparr>s_pic := (s_pic s1)\<lparr>p_int_pending := False\<rparr>\<rparr>) =
    (let v = of_nat k + (p_icw2 (s_pic2 s) AND 0xf8); s = s1\<lparr>s_pic := (s_pic s1)\<lparr>p_int_pending := False\<rparr>\<rparr>
     in Inr (v, upd_pic PIC2 (\<lambda>p. p\<lparr>p_int_pending := False, p_data_bus := v\<rparr>) s))"
    using assms(8,9,10) i f by (subst ack_leaf_1 [where j = k]) (simp_all add: Let_def)
  have "pic_irq_ack_read 2 (Some PIC1) 1 s1 =
    (case pic_irq_ack_read (Suc 0) (Some PIC2) 1 (s1\<lparr>s_pic := (s_pic s1)\<lparr>p_int_pending := False\<rparr>\<rparr>) of Inl e \<Rightarrow> Inl e
     | Inr (v, s) \<Rightarrow> Inr (v, s\<lparr>s_pic := (s_pic s)\<lparr>p_data_bus := v\<rparr>\<rparr>))"
    unfolding numeral_2_eq_2
    by (rule ack_slave_1 [OF i(1,2) assms(2) f(1)]) (use assms f leaf in \<open>auto simp: Let_def\<close>)
  then show ?thesis
    unfolding two_acks_def 1
    using f i assms by (auto simp: ack_step_def leaf Let_def pic_i86_mode_def simp del: pic_irq_ack_read.simps)
qed

definition vec :: "pic_t \<Rightarrow> nat \<Rightarrow> u8" where
  "vec p j = of_nat j + (p_icw2 p AND 0xf8)"

lemma best_less: "best p = Some j \<Longrightarrow> j < 8"
  by (simp add: best_iff first_rank_def)

lemma shown_fields [simp]:
  "p_interrupt (shown p) = icode (best p)" "p_int_pending (shown p) \<longleftrightarrow> best p \<noteq> None" "best (shown p) = best p"
  "p_icw4 (shown p) = p_icw4 p" "p_icw2 (shown p) = p_icw2 p" "p_isr (shown p) = p_isr p"
  by (simp_all add: shown_def)

lemma at_ready_update:
  assumes "at_ready s"
  shows "s_pic (update_pending s) = shown (cascaded s)" "s_pic2 (update_pending s) = shown (s_pic2 s)"
    "bit (p_irr (cascaded s)) 2 \<longleftrightarrow> best (s_pic2 s) \<noteq> None"
  using assms by (auto simp: at_ready_def update_pending_def update_pending_at cascaded_def Let_def bit_and_iff bit_or_iff bit_not_iff)

lemma slave_on_at:
  assumes "at_ready s" and "j < 8"
  shows "pic_slave_on (s_pic (update_pending s)) (icode (Some j)) = Inr (j = 2)"
  using assms less_8_cases [OF assms(2)]
  by (auto simp: pic_slave_on_def pic_cascade_mode_def at_ready_def icode_def)

lemma deliver:
  assumes "at_ready s" and "best (cascaded s) = Some j"
  shows "j \<noteq> 2 \<Longrightarrow> \<exists>t. picinterrupt (update_pending s) = Inr (vec (s_pic s) j, t) \<and>
      p_isr (s_pic t) = p_isr (s_pic s) OR sh j \<and> p_isr (s_pic2 t) = p_isr (s_pic2 s)"
    and "j = 2 \<Longrightarrow> best (s_pic2 s) = Some k \<Longrightarrow> \<exists>t. picinterrupt (update_pending s) = Inr (vec (s_pic2 s) k, t) \<and>
      p_isr (s_pic t) = p_isr (s_pic s) OR sh j \<and> p_isr (s_pic2 t) = p_isr (s_pic2 s) OR sh k"
proof -
  let ?u = "update_pending s"
  have j: "j < 8" using best_less [OF assms(2)] .
  note up = at_ready_update [OF assms(1)]
  have p: "p_int_pending (s_pic ?u)" "p_interrupt (s_pic ?u) = icode (Some j)"
    using up(1) assms(2) by simp_all
  note on = slave_on_at [OF assms(1) j]
  let ?g = "\<lambda>u. if p_interrupt (s_pic u) = 0 \<and> s_pit1 u then effect Pit1SetGate u else u"
  note flags = assms(1) [unfolded at_ready_def]
  {
    assume "j \<noteq> 2"
    then have pi: "picinterrupt ?u = two_acks (?g ?u)"
      using p on by (simp add: picinterrupt_def Let_def picinterrupt_ack_two)
    have "\<exists>t. two_acks (?g ?u) = Inr (of_nat j + (p_icw2 (s_pic (?g ?u)) AND 0xf8), update_pending t) \<and>
        p_isr (s_pic t) = p_isr (s_pic (?g ?u)) OR sh j \<and> s_pic2 t = s_pic2 (?g ?u)"
      by (rule two_acks_master) (use p j flags in \<open>auto split: if_splits\<close>)
    then show "\<exists>t. picinterrupt ?u = Inr (vec (s_pic s) j, t) \<and>
      p_isr (s_pic t) = p_isr (s_pic s) OR sh j \<and> p_isr (s_pic2 t) = p_isr (s_pic2 s)"
      unfolding pi vec_def by (auto split: if_splits)
  }
  assume j2: "j = 2" and k: "best (s_pic2 s) = Some k"
  let ?v = "?u\<lparr>s_pic := (s_pic ?u)\<lparr>p_interrupt := p_interrupt (s_pic ?u) OR 0x40\<rparr>\<rparr>"
  have nz: "icode (Some 2) OR 0x40 \<noteq> 0" by (simp add: icode_def)
  have "p_slaves (s_pic ?u) ! unat (icode (Some 2)) = Some PIC2" "p_int_pending (s_pic2 ?u)"
    using up(2) k flags by (simp_all add: icode_bits(6))
  then have pi: "picinterrupt ?u = two_acks ?v"
    using p on j2 nz by (simp add: picinterrupt_def Let_def picinterrupt_ack_two)
  have "\<exists>t. two_acks ?v = Inr (of_nat k + (p_icw2 (s_pic2 ?v) AND 0xf8), update_pending t) \<and>
      p_isr (s_pic t) = p_isr (s_pic ?v) OR sh j \<and> p_isr (s_pic2 t) = p_isr (s_pic2 ?v) OR sh k"
    by (rule two_acks_slave) (use p j j2 k best_less [OF k] flags up(2) in \<open>auto\<close>)
  then show "\<exists>t. picinterrupt ?u = Inr (vec (s_pic2 s) k, t) \<and>
      p_isr (s_pic t) = p_isr (s_pic s) OR sh j \<and> p_isr (s_pic2 t) = p_isr (s_pic2 s) OR sh k"
    unfolding pi vec_def by auto
qed

section \<open>Raising an interrupt\<close>

lemma redirect_at:
  assumes "p_icw3 p = 4" and "p_at p"
  shows "foldl (picint_redirect p) (num, 0) [0..<8] = (if bit num 2 then (num AND NOT 4) OR 0x200 else num, 1)"
  using assms by (simp add: picint_redirect_def upt_rec sh_def)

text \<open>The state \<open>picint_apply\<close> hands to \<open>update_pending\<close> when it raises lines.\<close>

definition raised :: "u16 \<Rightarrow> pics \<Rightarrow> pics" where
  "raised num s =
    (let s = (if tst (s_smi_irq_mask s) num
              then effect SmiRaise s\<lparr>s_smi_irq_status := s_smi_irq_status s OR num\<rparr> else s);
         s = (if tst num 0xff00 then
                (let s = (if tst num 0x1000 \<and> s_mouse_latch s
                          then s\<lparr>s_latched_irqs := s_latched_irqs s OR 0x1000\<rparr> else s)
                 in s\<lparr>s_pic2 := (s_pic2 s)\<lparr>p_irr := p_irr (s_pic2 s) OR ucast (drop_bit 8 num)\<rparr>\<rparr>)
              else s)
     in if tst num 0x00ff then
          (let s = (if s_kbd_latch s \<and> tst num 0x0002
                    then s\<lparr>s_latched_irqs := s_latched_irqs s OR 0x0002\<rparr> else s)
           in s\<lparr>s_pic := (s_pic s)\<lparr>p_irr := p_irr (s_pic s) OR ucast (num AND 0x00ff)\<rparr>\<rparr>)
        else s)"

lemma picint_apply_raised: "picint_apply num True s = update_pending (raised num s)"
  by (simp only: picint_apply_def raised_def Let_def if_True)

lemma raised_env [simp]:
  "s_update_pending (raised num s) = s_update_pending s"
  "s_irq_vector_override (raised num s) = s_irq_vector_override s"
  by (simp_all add: raised_def Let_def)

lemma byte_lane_zero:
  "\<not> tst num 0xff00 \<Longrightarrow> ucast (drop_bit 8 num) = (0 :: u8)" "\<not> tst num 0x00ff \<Longrightarrow> ucast (num AND 0x00ff) = (0 :: u8)"
  for num :: u16
proof -
  have m: "(0xff00 :: u16) = push_bit 8 (mask 8)" "(0x00ff :: u16) = mask 8" by (simp_all add: mask_eq_exp_minus_1 push_bit_eq_mult)
  assume "\<not> tst num 0xff00"
  then have z: "bit (num AND push_bit 8 (mask 8)) (8 + n) = False" for n by (simp add: tst_def m)
  have "\<not> bit num (8 + n)" if "n < 8" for n using z [of n] that by (simp add: bit_and_iff bit_push_bit_iff bit_mask_iff)
  then show "ucast (drop_bit 8 num) = (0 :: u8)" by (intro bit_word_eqI) (simp add: bit_ucast_iff bit_drop_bit_eq)
next
  assume "\<not> tst num 0x00ff"
  then show "ucast (num AND 0x00ff) = (0 :: u8)" by (simp add: tst_def)
qed

lemma raised_pics:
  "s_pic (raised num s) = (s_pic s)\<lparr>p_irr := p_irr (s_pic s) OR ucast (num AND 0x00ff)\<rparr>"
  "s_pic2 (raised num s) = (s_pic2 s)\<lparr>p_irr := p_irr (s_pic2 s) OR ucast (drop_bit 8 num)\<rparr>"
  using byte_lane_zero [of num] by (auto simp: raised_def Let_def)

lemma at_ready_raised: "at_ready s \<Longrightarrow> at_ready (raised num s)"
  by (simp add: at_ready_def raised_pics)

lemma picint_at:
  assumes "at_ready s" and "num \<noteq> 0" and "\<not> bit num 2"
  shows "picint num s = update_pending
    (raised num (if tst num 0x100 then s\<lparr>s_acpi_rtc_status := True\<rparr> else s))"
  using assms redirect_at [of "s_pic s" num]
  by (simp add: picint_def picint_common_def at_ready_def picint_apply_raised Let_def)

lemma best_single:
  assumes "p_state p = STATE_NONE" and "p_irr p = sh k" and "p_isr p = 0" and "\<not> bit (p_imr p) k" and "k < 8"
  shows "best p = Some k"
  using assms by (auto simp: best_iff first_rank_def pending_def)

lemma best_none: "p_irr p = 0 \<Longrightarrow> best p = None"
  by (cases "best p") (auto simp: best_iff first_rank_def pending_def)

lemma sh_lanes:
  "n < 8 \<Longrightarrow> ucast (sh n AND 0x00ff :: u16) = (sh n :: u8) \<and> ucast (drop_bit 8 (sh n :: u16)) = (0 :: u8)"
  "n < 8 \<Longrightarrow> ucast (sh (n + 8) AND 0x00ff :: u16) = (0 :: u8) \<and> ucast (drop_bit 8 (sh (n + 8) :: u16)) = (sh n :: u8)"
  using less_8_cases [of n] by (auto simp: sh_def)

definition quiet :: "pics \<Rightarrow> bool" where
  "quiet s \<longleftrightarrow> p_irr (s_pic s) = 0 \<and> p_isr (s_pic s) = 0 \<and> p_irr (s_pic2 s) = 0 \<and> p_isr (s_pic2 s) = 0"

section \<open>End of interrupt\<close>

lemma get_update_pending [simp]:
  "p_isr (get_pic d (update_pending s)) = p_isr (get_pic d s)" "p_imr (get_pic d (update_pending s)) = p_imr (get_pic d s)"
  "p_priority (get_pic d (update_pending s)) = p_priority (get_pic d s)"
  "p_icw1 (get_pic d (update_pending s)) = p_icw1 (get_pic d s)" "p_icw2 (get_pic d (update_pending s)) = p_icw2 (get_pic d s)"
  "p_icw3 (get_pic d (update_pending s)) = p_icw3 (get_pic d s)" "p_icw4 (get_pic d (update_pending s)) = p_icw4 (get_pic d s)"
  "p_state (get_pic d (update_pending s)) = p_state (get_pic d s)"
  "p_lines (get_pic d (update_pending s)) = p_lines (get_pic d s)"
  "p_elcr (get_pic d (update_pending s)) = p_elcr (get_pic d s)"
  "p_at (get_pic d (update_pending s)) = p_at (get_pic d s)"
  "p_special_mask_mode (get_pic d (update_pending s)) = p_special_mask_mode (get_pic d s)"
  "p_auto_eoi_rotate (get_pic d (update_pending s)) = p_auto_eoi_rotate (get_pic d s)"
  by (cases d; simp add: update_pending_def pic_update_pending_xt_def pic_update_pending_at_def Let_def case_prod_beta
      split: option.splits updater.splits)+

lemma pic_action_some:
  "p_isr (get_pic e (pic_action d (Some n) eoi rot s)) =
    (if e = d \<and> eoi then p_isr (get_pic d s) AND NOT (sh n) else p_isr (get_pic e s))"
  "p_priority (get_pic e (pic_action d (Some n) eoi rot s)) =
    (if e = d \<and> rot then of_nat ((n + 1) mod 8) else p_priority (get_pic e s))"
  by (auto simp: pic_action_def Let_def)

lemma rank_rotated: "p_priority p = of_nat ((j + 1) mod 8) \<Longrightarrow> j < 8 \<Longrightarrow> rank p j = 7"
  using less_8_cases [of j] by (auto simp: rank_def)

section \<open>Initialisation sequence\<close>

definition icw_program :: "pic_id \<Rightarrow> u8 \<Rightarrow> u8 \<Rightarrow> u8 \<Rightarrow> u8 \<Rightarrow> pics \<Rightarrow> pics" where
  "icw_program d v1 v2 v3 v4 s =
    (let s = pic_write 0x21 v2 d (pic_write 0x20 v1 d s);
         s = (if \<not> bit v1 1 then pic_write 0x21 v3 d s else s)
     in if bit v1 0 then pic_write 0x21 v4 d s else s)"

section \<open>Level-triggered lines\<close>

lemma level_line_single:
  assumes "n < m"
  shows "foldl (picint_level_line (sh n) on st) acc [0..<m] = picint_level_line (sh n) on st acc n"
  by (rule foldl_single) (use assms in \<open>auto simp: picint_level_line_def\<close>)

definition line_dev :: "nat \<Rightarrow> pic_id" where
  "line_dev n = (if n < 8 then PIC1 else PIC2)"

text \<open>
  \<open>line_cfg n s\<close>: the controllers are programmed as on an AT and line \<open>n\<close> is level triggered.
\<close>

definition line_cfg :: "nat \<Rightarrow> pics \<Rightarrow> bool" where
  "line_cfg n s \<longleftrightarrow> s_update_pending s = Some PIC_UPDATE_PENDING_AT \<and> p_icw3 (s_pic s) = 4 \<and>
    p_icw3 (s_pic2 s) = 2 \<and> p_at (s_pic s) \<and> length (p_lines (get_pic (line_dev n) s)) = 8 \<and>
    pic_level_triggered s (get_pic (line_dev n) s) (n mod 8)"

definition line_count :: "nat \<Rightarrow> pics \<Rightarrow> u32" where
  "line_count n s = p_lines (get_pic (line_dev n) s) ! (n mod 8)"

definition line_irr :: "nat \<Rightarrow> pics \<Rightarrow> bool" where
  "line_irr n s \<longleftrightarrow> bit (p_irr (get_pic (line_dev n) s)) (n mod 8)"

lemma update_pending_irr:
  assumes "line_cfg n s" and "n \<noteq> 2" "n < 16"
  shows "line_irr n (update_pending s) = line_irr n s"
proof (cases "bit (p_interrupt (s_pic s)) 5")
  case True
  then show ?thesis using assms(1) by (simp add: line_cfg_def update_pending_def pic_update_pending_at_def)
next
  case False
  have "n mod 8 \<noteq> 2 \<or> line_dev n = PIC2" using assms(2,3) by (auto simp: line_dev_def)
  then show ?thesis
    using assms(1) update_pending_at [OF False]
    by (auto simp: line_irr_def line_cfg_def update_pending_def shown_def cascaded_def Let_def bit_or_iff bit_and_iff bit_not_iff
        line_dev_def split: if_splits)
qed

lemma line_cfg_update [simp]: "line_cfg n (update_pending s) = line_cfg n s"
  using get_update_pending(11) [of PIC1 s] by (simp add: line_cfg_def pic_level_triggered_def)

lemma line_count_update [simp]: "line_count n (update_pending s) = line_count n s"
  by (simp add: line_count_def)

text \<open>The state \<open>picint_apply\<close> hands to \<open>update_pending\<close> when it lowers lines.\<close>

definition lowered :: "u16 \<Rightarrow> pics \<Rightarrow> pics" where
  "lowered num s =
    (let s = s\<lparr>s_smi_irq_status := s_smi_irq_status s AND NOT num\<rparr>;
         s = (if tst num 0xff00 then
                (let s = (if tst num 0x1000 \<and> s_mouse_latch s
                          then s\<lparr>s_latched_irqs := s_latched_irqs s AND 0xefff\<rparr> else s)
                 in s\<lparr>s_pic2 := (s_pic2 s)\<lparr>p_irr := p_irr (s_pic2 s) AND NOT (ucast (drop_bit 8 num))\<rparr>\<rparr>)
              else s)
     in if tst num 0x00ff then
          (let s = (if s_kbd_latch s \<and> tst num 0x0002
                    then s\<lparr>s_latched_irqs := s_latched_irqs s AND 0xfffd\<rparr> else s)
           in s\<lparr>s_pic := (s_pic s)\<lparr>p_irr := p_irr (s_pic s) AND NOT (ucast (num AND 0x00ff))\<rparr>\<rparr>)
        else s)"

lemma picint_apply_lowered: "picint_apply num False s = update_pending (lowered num s)"
  by (simp only: picint_apply_def lowered_def Let_def if_False)

lemma lowered_pics:
  "s_pic (lowered num s) = (s_pic s)\<lparr>p_irr := p_irr (s_pic s) AND NOT (ucast (num AND 0x00ff))\<rparr>"
  "s_pic2 (lowered num s) = (s_pic2 s)\<lparr>p_irr := p_irr (s_pic2 s) AND NOT (ucast (drop_bit 8 num))\<rparr>"
  using byte_lane_zero [of num] by (auto simp: lowered_def Let_def)

lemma lowered_env [simp]:
  "s_update_pending (lowered num s) = s_update_pending s" "s_elcr_enabled (lowered num s) = s_elcr_enabled s"
  by (simp_all add: lowered_def Let_def)

lemma raised_elcr [simp]: "s_elcr_enabled (raised num s) = s_elcr_enabled s"
  by (simp add: raised_def Let_def)

lemma raised_lowered_get:
  "p_lines (get_pic d (raised num s)) = p_lines (get_pic d s)" "p_lines (get_pic d (lowered num s)) = p_lines (get_pic d s)"
  by (cases d; simp add: raised_pics lowered_pics)+

lemma line_cfg_raised: "line_cfg n (raised num s) = line_cfg n s" "line_cfg n (lowered num s) = line_cfg n s"
  by (auto simp: line_cfg_def pic_level_triggered_def raised_pics lowered_pics line_dev_def)

lemma line_irr_raised:
  assumes "n < 16" shows "line_irr n (raised (sh n) s)" "\<not> line_irr n (lowered (sh n) s)"
proof -
  have "line_irr n (raised (sh n) s) \<and> \<not> line_irr n (lowered (sh n) s)"
  proof (cases "n < 8")
    case True
    with sh_lanes(1) [OF True] show ?thesis
      by (simp add: line_irr_def line_dev_def raised_pics lowered_pics bit_or_iff bit_and_iff bit_not_iff)
  next
    case False
    define k where "k = n - 8"
    have k: "k < 8" "n = k + 8" using False assms by (simp_all add: k_def)
    with sh_lanes(2) [OF k(1)] show ?thesis
      by (simp add: line_irr_def line_dev_def raised_pics lowered_pics bit_or_iff bit_and_iff bit_not_iff)
  qed
  then show "line_irr n (raised (sh n) s)" "\<not> line_irr n (lowered (sh n) s)" by blast+
qed

text \<open>What one device does to a shared line it has not asserted, or has asserted, before.\<close>

definition counted :: "nat \<Rightarrow> bool \<Rightarrow> pics \<Rightarrow> pics" where
  "counted n on s = upd_pic (line_dev n) (p_lines_update (\<lambda>ls. ls[n mod 8 := (if on then ls ! (n mod 8) + 1 else ls ! (n mod 8) - 1)])) s"

lemma counted_props:
  assumes "line_cfg n s"
  shows "line_cfg n (counted n on s)" "line_irr n (counted n on s) = line_irr n s"
    "line_count n (counted n on s) = (if on then line_count n s + 1 else line_count n s - 1)"
  using assms by (auto simp: counted_def line_cfg_def line_irr_def line_count_def pic_level_triggered_def line_dev_def)

lemma line_cfg_rtc: "line_cfg n (s\<lparr>s_acpi_rtc_status := v\<rparr>) = line_cfg n s"
  "line_irr n (s\<lparr>s_acpi_rtc_status := v\<rparr>) = line_irr n s" "line_count n (s\<lparr>s_acpi_rtc_status := v\<rparr>) = line_count n s"
  by (simp_all add: line_cfg_def line_irr_def line_count_def pic_level_triggered_def line_dev_def)

lemma sh16_nz: "n < 16 \<Longrightarrow> (sh n :: u16) \<noteq> 0"
proof -
  assume "n < 16"
  then have "bit (sh n :: u16) n" by simp
  then show ?thesis by (auto simp del: bit_sh)
qed

lemma picint_level_eq:
  assumes "line_cfg n s" and "n \<noteq> 2" and "n < 16"
  shows "picint_common (sh n) True on st s =
    (if st = on then (st, s)
     else (let s = counted n on s; s' = (if tst (sh n :: u16) 0x100 then s\<lparr>s_acpi_rtc_status := on\<rparr> else s)
           in (on, if line_count n s = of_bool on then picint_apply (sh n) on s' else s)))"
proof -
  have red: "foldl (picint_redirect (s_pic s)) (sh n, 0) [0..<8] = (sh n, 1)"
    using redirect_at [of "s_pic s" "sh n"] assms by (simp add: line_cfg_def)
  have upd: "s_update_pending s \<noteq> None" using assms(1) by (simp add: line_cfg_def)
  have lev: "pic_level_triggered s (get_pic (line_dev n) s) (n mod 8)" using assms(1) by (simp add: line_cfg_def)
  have lev': "pic_level_triggered (counted n on s) (get_pic (line_dev n) (counted n on s)) (n mod 8)"
    using counted_props(1) [OF assms(1)] by (simp add: line_cfg_def)
  have step: "picint_level_line (sh n) on b (0, s) n =
    (if b = on then (0, s) else (if line_count n (counted n on s) = of_bool on then sh n else 0, counted n on s))" for b
    using lev lev' assms(3)
    by (auto simp: picint_level_line_def Let_def counted_def [symmetric] line_dev_def [symmetric] line_count_def [symmetric])
  show ?thesis
    unfolding picint_common_def red prod.case
    using upd sh16_nz [OF assms(3)] assms(3)
    by (cases "st = on"; cases "line_count n (counted n on s) = of_bool on")
      (simp_all add: Let_def case_prod_beta level_line_single step)
qed

text \<open>
  Devices that share line \<open>n\<close>: each has its own \<open>irq_state\<close>, a request is a device number and
  whether it asserts or releases the line.
\<close>

definition line_op :: "nat \<Rightarrow> bool list \<times> pics \<Rightarrow> nat \<times> bool \<Rightarrow> bool list \<times> pics" where
  "line_op n c r =
    (let (st, s) = c; (i, on) = r; (st_i, s) = (if on then picintlevel (sh n) (st ! i) s else picintclevel (sh n) (st ! i) s)
     in (st[i := st_i], s))"

definition asserted :: "bool list \<Rightarrow> nat" where
  "asserted st = length (filter id st)"

lemma asserted_update:
  assumes "i < length st"
  shows "asserted (st[i := True]) = (if st ! i then asserted st else asserted st + 1)"
    "st ! i \<Longrightarrow> asserted st = asserted (st[i := False]) + 1" "\<not> st ! i \<Longrightarrow> st[i := False] = st"
  using assms by (induction st arbitrary: i) (auto simp: asserted_def nth_Cons split: nat.splits)

definition line_inv :: "nat \<Rightarrow> bool list \<times> pics \<Rightarrow> bool" where
  "line_inv n c \<longleftrightarrow> line_cfg n (snd c) \<and> line_count n (snd c) = of_nat (asserted (fst c)) \<and>
    line_irr n (snd c) = (asserted (fst c) > 0)"

lemma asserted_le: "asserted st \<le> length st"
  by (simp add: asserted_def)

lemma of_nat_small: "n < 2 ^ 32 \<Longrightarrow> m < 2 ^ 32 \<Longrightarrow> (of_nat n :: u32) = of_nat m \<longleftrightarrow> n = m"
  using word_of_nat_eq_iff [of n m, where 'a = 32] by (simp add: take_bit_nat_eq_self)

lemma line_apply:
  assumes "line_cfg n s" and "n \<noteq> 2" and "n < 16"
  shows "line_cfg n (picint_apply (sh n) on s)" "line_count n (picint_apply (sh n) on s) = line_count n s"
    "line_irr n (picint_apply (sh n) on s) = on"
  using assms
  by (cases on; simp add: picint_apply_raised picint_apply_lowered line_cfg_raised line_count_def raised_lowered_get
      update_pending_irr line_irr_raised)+

lemma line_op_inv:
  assumes "line_inv n (st, s)" and "n \<noteq> 2" "n < 16" "i < length st" "length st < 2 ^ 32"
  shows "line_inv n (line_op n (st, s) (i, on))"
proof -
  note cfg = assms(1) [unfolded line_inv_def fst_conv snd_conv]
  note eq = picint_level_eq [OF cfg [THEN conjunct1] assms(2,3)]
  let ?c = "counted n on s"
  let ?a = "if tst (sh n :: u16) 0x100 then ?c\<lparr>s_acpi_rtc_status := on\<rparr> else ?c"
  have op: "line_op n (st, s) (i, on) =
    (st[i := on], if st ! i = on then s else if line_count n ?c = of_bool on then picint_apply (sh n) on ?a else ?c)"
    by (cases on) (auto simp: line_op_def picintlevel_def picintclevel_def eq Let_def list_update_same_conv assms(4))
  show ?thesis
  proof (cases "st ! i = on")
    case True
    then have "st[i := on] = st" by (simp add: list_update_same_conv assms(4))
    with True op assms(1) show ?thesis by simp
  next
    case False
    note cp = counted_props [OF cfg [THEN conjunct1], of on]
    have acfg: "line_cfg n ?a" "line_count n ?a = line_count n ?c" by (simp only: line_cfg_rtc cp(1) split: if_split, simp) (simp only: line_cfg_rtc split: if_split, blast)
    note ap = line_apply [OF acfg(1) assms(2,3), of on]
    have cnt: "line_count n ?c = of_nat (asserted (st[i := on]))"
      using cp(3) cfg False asserted_update [OF assms(4)] by (cases on) auto
    have b: "asserted (st[i := on]) < 2 ^ 32" using asserted_le [of "st[i := on]"] assms(5) by simp
    have one: "line_count n ?c = of_bool on \<longleftrightarrow> asserted (st[i := on]) = of_bool on"
      unfolding cnt using of_nat_small [OF b, of "of_bool on"] by (cases on) simp_all
    have irr: "asserted (st[i := on]) \<noteq> of_bool on \<Longrightarrow> line_irr n ?c = (asserted (st[i := on]) > 0)"
      using cp(2) cfg False asserted_update [OF assms(4)] by (cases on) auto
    show ?thesis
      unfolding op using False ap acfg cp one irr cnt
      by (cases on) (auto simp: line_inv_def)
  qed
qed

section \<open>Properties\<close>

text \<open>
  C3. The controller delivers exactly the highest-priority unmasked request, in the rotating
  priority order that starts at \<open>priority\<close>, and only when nothing of the same or a higher
  priority is in service (fully nested mode); during an ICW sequence it delivers nothing.
\<close>

theorem find_best_interrupt_priority:
  "fst (find_best_interrupt d s) = Some j \<longleftrightarrow>
    (let p = get_pic d s; req = (\<lambda>k. bit (p_irr p) k \<and> \<not> bit (p_imr p) k)
     in p_state p = STATE_NONE \<and> j < 8 \<and> req j \<and>
        (\<forall>k<8. rank p k < rank p j \<longrightarrow> \<not> req k) \<and> (\<forall>k<8. rank p k \<le> rank p j \<longrightarrow> \<not> bit (p_isr p) k))"
  unfolding find_best_interrupt_eq best_iff by (auto simp: Let_def first_rank_def pending_def)

definition pics_zero :: pics where
  "pics_zero = \<lparr>s_pic = pic_zero, s_pic2 = pic_zero, s_shadow = False, s_elcr_enabled = False,
    s_tmr_inited = False, s_force_xt_imr_timing = False, s_pic_pci = False, s_kbd_latch = False,
    s_mouse_latch = False, s_smi_irq_mask = 0, s_smi_irq_status = 0, s_latched_irqs = 0,
    s_irq_vector_override = replicate 8 None, s_update_pending = None, s_acpi_rtc_status = False,
    s_cpu_fast_off_flags = 0, s_is286 = True, s_pit1 = False, s_effects = []\<rparr>"

text \<open>The programming sequence of the AT BIOS, with all lines unmasked.\<close>

definition at_boot :: pics where
  "at_boot =
    (let w = (\<lambda>a v d s. pic_write a v d s); s = pic_reset True False pics_zero
     in w 0x21 0 PIC1 (w 0xa1 0 PIC2 (w 0xa1 1 PIC2 (w 0xa1 2 PIC2 (w 0xa1 0x70 PIC2 (w 0xa0 0x11 PIC2
        (w 0x21 1 PIC1 (w 0x21 4 PIC1 (w 0x21 8 PIC1 (w 0x20 0x11 PIC1 s))))))))))"


lemma at_boot_ready: "at_ready at_boot \<and> quiet at_boot \<and> p_imr (s_pic at_boot) = 0 \<and> p_imr (s_pic2 at_boot) = 0 \<and>
    p_icw2 (s_pic at_boot) = 8 \<and> p_icw2 (s_pic2 at_boot) = 0x70"
  by code_simp

theorem find_best_interrupt_priority_witness:
  "fst (find_best_interrupt PIC1 (picint 0x28 at_boot)) = Some 3"
proof -
  let ?p = "s_pic (picint 0x28 at_boot)"
  have "p_state ?p = STATE_NONE" "p_irr ?p = 0x28" "p_imr ?p = 0" "p_isr ?p = 0" "p_priority ?p = 0" by code_simp+
  moreover have "\<not> bit (0x28 :: u8) k" if "k < 3" for k
    using that less_8_cases [of k] by auto
  ultimately show ?thesis
    unfolding find_best_interrupt_priority by (auto simp: Let_def rank_def)
qed

text \<open>
  C12. On an AT whose controllers are programmed, an acknowledge cycle started while level \<open>j\<close> of
  the master wins returns the vector of that level; when \<open>j\<close> is the cascade line it returns the
  vector of the level that wins on the slave.  The in-service bits of exactly the levels delivered
  are set, and no undefined or fatal branch is taken.
\<close>

theorem picinterrupt_delivers:
  assumes "at_ready s" and "best (s_pic (update_pending s)) = Some j"
  shows "\<exists>v t. picinterrupt (update_pending s) = Inr (v, t) \<and>
    p_isr (s_pic t) = p_isr (s_pic s) OR sh j \<and>
    (if j = 2 then \<exists>k. best (s_pic2 s) = Some k \<and> v = vec (s_pic2 s) k \<and>
                       p_isr (s_pic2 t) = p_isr (s_pic2 s) OR sh k
     else v = vec (s_pic s) j \<and> p_isr (s_pic2 t) = p_isr (s_pic2 s))"
proof -
  note up = at_ready_update [OF assms(1)]
  have b: "best (cascaded s) = Some j" using assms(2) up(1) by simp
  show ?thesis
  proof (cases "j = 2")
    case True
    with b have "bit (p_irr (cascaded s)) 2" by (simp add: best_iff first_rank_def pending_def)
    with up(3) obtain k where "best (s_pic2 s) = Some k" by auto
    with deliver(2) [OF assms(1) b True this] True show ?thesis by auto
  next
    case False
    with deliver(1) [OF assms(1) b False] show ?thesis by auto
  qed
qed

theorem picinterrupt_delivers_witness:
  "\<exists>v t. picinterrupt (update_pending (raised 0x4010 at_boot)) = Inr (v, t) \<and> v = 0x76"
proof -
  have "at_ready (raised 0x4010 at_boot)" using at_boot_ready by (simp add: at_ready_raised)
  moreover have "best (s_pic (update_pending (raised 0x4010 at_boot))) = Some 2" by code_simp
  ultimately obtain v t k where "picinterrupt (update_pending (raised 0x4010 at_boot)) = Inr (v, t)"
    "best (s_pic2 (raised 0x4010 at_boot)) = Some k" "v = vec (s_pic2 (raised 0x4010 at_boot)) k"
    using picinterrupt_delivers [of "raised 0x4010 at_boot" 2] by auto
  moreover have "best (s_pic2 (raised 0x4010 at_boot)) = Some 6" by code_simp
  moreover have "vec (s_pic2 (raised 0x4010 at_boot)) 6 = 0x76" by code_simp
  ultimately show ?thesis by auto
qed

text \<open>
  C21. Raising one unmasked line of a quiet AT makes the next acknowledge cycle return the vector of
  that line: the master's base plus the line for lines 0 to 7, the slave's base plus the line
  minus 8 for lines 8 to 15, and for line 2, which the cascade occupies, the vector of line 9.
\<close>

theorem picint_delivered:
  assumes "at_ready s" and "quiet s" and "n < 16" and "m = (if n = 2 then 9 else n)"
    and "if m < 8 then \<not> bit (p_imr (s_pic s)) m
         else \<not> bit (p_imr (s_pic s)) 2 \<and> \<not> bit (p_imr (s_pic2 s)) (m - 8)"
  shows "\<exists>t. picinterrupt (picint (sh n) s) =
      Inr (if m < 8 then vec (s_pic s) m else vec (s_pic2 s) (m - 8), t) \<and>
    p_isr (s_pic t) = (if m < 8 then sh m else sh 2) \<and>
    p_isr (s_pic2 t) = (if m < 8 then 0 else sh (m - 8))"
proof -
  define s' where "s' = (if m = 8 then s\<lparr>s_acpi_rtc_status := True\<rparr> else s)"
  have m: "m < 16" "m \<noteq> 2" using assms(3,4) by (simp_all split: if_splits)
  have tm: "tst (sh m :: u16) 0x100 \<longleftrightarrow> m = 8"
    using m tst_bit [of "sh m :: u16" 8] by auto
  have "bit (sh m :: u16) m" using m by simp
  then have nz: "(sh m :: u16) \<noteq> 0" by (auto simp del: bit_sh)
  have red: "picint (sh n) s = picint (sh m) s"
    using assms(1) assms(3,4) redirect_at [of "s_pic s"]
    by (cases "n = 2") (simp_all add: picint_def picint_common_def at_ready_def sh_def)
  have pi: "picint (sh n) s = update_pending (raised (sh m) s')"
    unfolding red s'_def using picint_at [OF assms(1) nz] m tm by simp
  have same: "s_pic s' = s_pic s" "s_pic2 s' = s_pic2 s" "at_ready s'"
    using assms(1) by (simp_all add: s'_def at_ready_def)
  let ?r = "raised (sh m) s'"
  have ar: "at_ready ?r" by (rule at_ready_raised [OF same(3)])
  show ?thesis
  proof (cases "m < 8")
    case True
    then have irr: "p_irr (s_pic ?r) = sh m" "p_irr (s_pic2 ?r) = 0"
      using sh_lanes(1) [of m] assms(2) by (simp_all add: raised_pics same quiet_def)
    have "best (s_pic2 ?r) = None" by (rule best_none [OF irr(2)])
    then have "p_irr (cascaded ?r) = sh m"
      using irr ar m by (auto simp: cascaded_def Let_def at_ready_def bit_and_iff bit_not_iff intro!: bit_word_eqI)
    then have "best (cascaded ?r) = Some m"
      using True assms(2,5) ar by (intro best_single) (simp_all add: raised_pics same quiet_def at_ready_def)
    from deliver(1) [OF ar this m(2)] show ?thesis
      unfolding pi using True assms(2) by (simp add: raised_pics same quiet_def vec_def)
  next
    case False
    define k where "k = m - 8"
    have k: "m = k + 8" "k < 8" using m(1) False by (simp_all add: k_def)
    then have irr: "p_irr (s_pic ?r) = 0" "p_irr (s_pic2 ?r) = sh k"
      using sh_lanes(2) [of k] assms(2) by (simp_all add: raised_pics same quiet_def)
    have b2: "best (s_pic2 ?r) = Some k"
      using irr k assms(2,5) ar by (intro best_single) (simp_all add: raised_pics same quiet_def at_ready_def)
    have "p_irr (cascaded ?r) = sh 2"
      using irr ar b2 by (simp add: cascaded_def Let_def at_ready_def)
    then have "best (cascaded ?r) = Some 2"
      using False assms(2,5) ar by (intro best_single) (simp_all add: raised_pics same quiet_def at_ready_def)
    from deliver(2) [OF ar this refl b2] show ?thesis
      unfolding pi using k assms(2) by (simp add: raised_pics same quiet_def vec_def)
  qed
qed

theorem picint_delivered_witness:
  "\<exists>t. picinterrupt (picint (sh 2) at_boot) = Inr (vec (s_pic2 at_boot) 1, t)"
  using picint_delivered [of at_boot 2 9] at_boot_ready by auto


text \<open>
  C35. Devices that share a level-triggered line of an AT keep it correctly: over any sequence of
  assert and release requests by any of them, repeated ones included, the controller counts
  exactly the devices that hold the line, and the request bit is set exactly while at least one
  of them does.
\<close>

theorem level_line_shared:
  assumes "line_cfg n s" and "n \<noteq> 2" and "n < 16" and "line_count n s = 0" and "\<not> line_irr n s"
    and "k < 2 ^ 32" and "\<forall>r\<in>set rs. fst r < k"
  shows "let (st, t) = foldl (line_op n) (replicate k False, s) rs
         in line_count n t = of_nat (asserted st) \<and> line_irr n t = (asserted st > 0)"
proof -
  have len: "length (fst (line_op n c r)) = length (fst c)" for c r
    by (cases c; cases r) (simp add: line_op_def case_prod_beta)
  have "line_inv n (foldl (line_op n) c rs)" if "line_inv n c" "length (fst c) = k" for c
    using assms(7) that
  proof (induction rs arbitrary: c)
    case (Cons r rs)
    have "line_inv n (line_op n c r)"
      using line_op_inv [of n "fst c" "snd c" "fst r" "snd r"] Cons.prems assms(2,3,6) by simp
    with Cons len show ?case by simp
  qed simp
  moreover have "line_inv n (replicate k False, s)"
    using assms by (simp add: line_inv_def asserted_def filter_replicate)
  ultimately show ?thesis by (auto simp: line_inv_def case_prod_beta)
qed

definition at_level :: pics where
  "at_level = pic_elcr_write 0x4d0 0x20 PIC1 (pic_elcr_set_enabled True at_boot)"

theorem level_line_shared_witness:
  "let (st, t) = foldl (line_op 5) (replicate 2 False, at_level) [(0, True), (1, True), (0, False), (0, False)]
   in line_count 5 t = of_nat (asserted st) \<and> line_irr 5 t = (asserted st > 0)"
proof (rule level_line_shared)
  show "line_cfg 5 at_level" "line_count 5 at_level = 0" "\<not> line_irr 5 at_level" by code_simp+
qed simp_all

text \<open>
  A non-specific end of interrupt (0x20, or 0xa0 with rotation) takes out of service exactly
  the in-service level of highest priority of that controller, and with rotation makes it the
  level of lowest priority; the other controller is not touched.
\<close>

theorem non_specific_eoi:
  assumes "v = 0x20 \<or> v = 0xa0" and "\<not> p_special_mask_mode (get_pic d s)"
    and "j < 8" and "bit (p_isr (get_pic d s)) j"
    and "\<forall>k<8. rank (get_pic d s) k < rank (get_pic d s) j \<longrightarrow> \<not> bit (p_isr (get_pic d s)) k"
  shows "let t = pic_write 0x20 v d s
         in p_isr (get_pic d t) = p_isr (get_pic d s) AND NOT (sh j) \<and>
            (\<forall>e. e \<noteq> d \<longrightarrow> p_isr (get_pic e t) = p_isr (get_pic e s)) \<and>
            (if v = 0xa0 then rank (get_pic d t) j = 7 else p_priority (get_pic d t) = p_priority (get_pic d s))"
proof -
  let ?p = "(get_pic d s)\<lparr>p_data_bus := v, p_ocw2 := v\<rparr>"
  have "rank ?p = rank (get_pic d s)" by (simp add: rank_def fun_eq_iff)
  then have f: "pic_non_specific_find ?p = Some j"
    using assms(2-5) unfolding non_specific_iff by (auto simp: first_rank_def serviced_def)
  have "pic_write 0x20 v d s = pic_action d (Some j) True (v = 0xa0) (upd_pic d (\<lambda>_. ?p) s)"
    using assms(1) f
    by (cases d) (auto simp: pic_write_def pic_command_def Let_def tst_def)
  then show ?thesis
    using assms(1,3) rank_rotated [of "get_pic d (pic_write 0x20 v d s)" j]
    by (auto simp: Let_def pic_action_some)
qed

theorem non_specific_eoi_witness:
  "let s = at_boot\<lparr>s_pic := (s_pic at_boot)\<lparr>p_isr := 0x28\<rparr>\<rparr>; t = pic_write 0x20 0xa0 PIC1 s
   in p_isr (s_pic t) = 0x20 \<and> rank (s_pic t) 3 = 7"
proof -
  let ?s = "at_boot\<lparr>s_pic := (s_pic at_boot)\<lparr>p_isr := 0x28\<rparr>\<rparr>"
  have "p_priority (s_pic ?s) = 0" "\<not> p_special_mask_mode (s_pic ?s)" by code_simp+
  moreover have "\<not> bit (0x28 :: u8) k" if "k < 3" for k
    using that less_8_cases [of k] by auto
  ultimately show ?thesis
    using non_specific_eoi [of "0xa0" PIC1 ?s 3] by (simp add: Let_def rank_def sh_def)
qed

text \<open>
  Writing ICW1 and then the words it announces (ICW2, ICW3 unless single, ICW4 if requested)
  leaves the controller ready with exactly those words stored, its mask, in-service and priority
  state cleared; the next write to the odd port is the mask.
\<close>

theorem icw_program_ready:
  assumes "bit v1 4" and "\<not> (s_pic_pci s \<and> tst v1 0xe0)"
  shows "let p = get_pic d (icw_program d v1 v2 v3 v4 s)
         in p_state p = STATE_NONE \<and> p_icw1 p = v1 \<and> p_icw2 p = v2 \<and>
            p_icw3 p = (if bit v1 1 then 0 else v3) \<and> p_icw4 p = (if bit v1 0 then v4 else 0) \<and>
            p_imr p = 0 \<and> p_isr p = 0 \<and> p_priority p = 0 \<and>
            \<not> p_special_mask_mode p \<and> \<not> p_auto_eoi_rotate p \<and>
            p_imr (get_pic d (pic_write 0x21 m d (icw_program d v1 v2 v3 v4 s))) = m"
proof -
  have pci: "s_pic_pci (upd_pic d f s) = s_pic_pci s" for f by (cases d) simp_all
  define s1 where "s1 = pic_write 0x20 v1 d s"
  have s1: "s1 = update_pending (upd_pic d (pic_write_icw1 v1) (upd_pic d (p_data_bus_update (\<lambda>_. v1)) s))"
    using assms by (auto simp: s1_def pic_write_def Let_def pci)
  have p1: "p_state (get_pic d s1) = STATE_ICW2" "p_icw1 (get_pic d s1) = v1" "p_icw3 (get_pic d s1) = 0"
    "p_icw4 (get_pic d s1) = (if bit v1 0 then p_icw4 (get_pic d s) else 0)" "p_imr (get_pic d s1) = 0"
    "p_isr (get_pic d s1) = 0" "p_priority (get_pic d s1) = 0" "\<not> p_special_mask_mode (get_pic d s1)"
    "\<not> p_auto_eoi_rotate (get_pic d s1)"
    by (simp_all add: s1 pic_write_icw1_def)
  define t where "t = icw_program d v1 v2 v3 v4 s"
  have t: "p_state (get_pic d t) = STATE_NONE \<and> p_icw1 (get_pic d t) = v1 \<and> p_icw2 (get_pic d t) = v2 \<and>
    p_icw3 (get_pic d t) = (if bit v1 1 then 0 else v3) \<and> p_icw4 (get_pic d t) = (if bit v1 0 then v4 else 0) \<and>
    p_imr (get_pic d t) = 0 \<and> p_isr (get_pic d t) = 0 \<and> p_priority (get_pic d t) = 0 \<and>
    \<not> p_special_mask_mode (get_pic d t) \<and> \<not> p_auto_eoi_rotate (get_pic d t)"
    unfolding t_def icw_program_def Let_def s1_def [symmetric]
    using p1 by (auto simp: pic_write_def Let_def pic_cascade_mode_def)
  moreover have "p_imr (get_pic d (pic_write 0x21 m d t)) = m"
    using t by (simp add: pic_write_def Let_def)
  ultimately show ?thesis unfolding t_def by (simp add: Let_def)
qed

theorem icw_program_ready_witness:
  "p_icw2 (s_pic2 (icw_program PIC2 0x11 0x70 2 1 at_boot)) = 0x70"
proof -
  have "\<not> s_pic_pci at_boot" by code_simp
  then show ?thesis using icw_program_ready [of "0x11" at_boot PIC2 "0x70" 2 1] by (simp add: Let_def)
qed

text \<open>
  When the cascade line wins on the master but the slave has nothing pending, the error
  correction of \<open>picinterrupt\<close> does not deliver the spurious IRQ 15 its comment announces: the
  slave is never acknowledged and the vector returned is the master's vector of line 2.
\<close>

theorem spurious_slave_vector:
  assumes "at_ready s" and "p_int_pending (s_pic s)" and "p_interrupt (s_pic s) = 2"
    and "\<not> p_int_pending (s_pic2 s)"
  shows "\<exists>t. picinterrupt s = Inr (vec (s_pic s) 2, t) \<and>
    p_isr (s_pic t) = p_isr (s_pic s) OR 4 \<and> p_isr (s_pic2 t) = p_isr (s_pic2 s)"
proof -
  let ?s = "s\<lparr>s_pic2 := (s_pic2 s)\<lparr>p_int_pending := True, p_interrupt := 0x07\<rparr>\<rparr>"
  have "pic_slave_on (s_pic s) 2 = Inr True"
    using assms(1) by (simp add: at_ready_def pic_slave_on_def pic_cascade_mode_def)
  then have "picinterrupt s = two_acks ?s"
    using assms by (simp add: picinterrupt_def at_ready_def picinterrupt_ack_two)
  moreover have "\<exists>t. two_acks ?s = Inr (of_nat 2 + (p_icw2 (s_pic ?s) AND 0xf8), update_pending t) \<and>
      p_isr (s_pic t) = p_isr (s_pic ?s) OR sh 2 \<and> s_pic2 t = s_pic2 ?s"
    by (rule two_acks_master) (use assms in \<open>auto simp: at_ready_def icode_def\<close>)
  ultimately show ?thesis by (auto simp: vec_def sh_def)
qed

theorem spurious_slave_vector_witness:
  "\<exists>t. picinterrupt (at_boot\<lparr>s_pic := (s_pic at_boot)\<lparr>p_int_pending := True, p_interrupt := 2\<rparr>\<rparr>) = Inr (0x0a, t)"
proof -
  let ?s = "at_boot\<lparr>s_pic := (s_pic at_boot)\<lparr>p_int_pending := True, p_interrupt := 2\<rparr>\<rparr>"
  have "at_ready ?s" "\<not> p_int_pending (s_pic2 ?s)" "vec (s_pic ?s) 2 = 0x0a" by code_simp+
  then show ?thesis using spurious_slave_vector [of ?s] by auto
qed

text \<open>
  A poll command (OCW3 with bit 2) written to a master in cascade mode that has an interrupt
  pending makes the next acknowledge cycle, \<open>pic_irq_ack\<close> or \<open>picinterrupt\<close>, shift 1 by 32 or
  more, which C leaves undefined.
\<close>

theorem poll_then_ack_undefined:
  assumes "p_int_pending (s_pic s)" and "pic_cascade_mode (s_pic s)" and "p_is_master (s_pic s)"
    and "p_ack_bytes (s_pic s) = 0"
  shows "picinterrupt (pic_write 0x20 0x0c PIC1 s) = Inl ShiftRange \<and>
    pic_irq_ack (pic_write 0x20 0x0c PIC1 s) = Inl ShiftRange"
proof -
  have "(0x20 :: u8) \<le> v OR 0x20" for v by (rule le_word_or1)
  then have "\<not> unat (v OR 0x20 :: u8) < 32" for v by (simp add: word_le_nat_alt not_less)
  with assms show ?thesis
    by (simp add: pic_write_def picinterrupt_def pic_irq_ack_def pic_slave_on_def pic_cascade_mode_def Let_def)
qed

theorem poll_then_ack_undefined_witness:
  "picinterrupt (pic_write 0x20 0x0c PIC1 (picint 1 at_boot)) = Inl ShiftRange"
proof -
  have "p_int_pending (s_pic (picint 1 at_boot))" "pic_cascade_mode (s_pic (picint 1 at_boot))"
    "p_is_master (s_pic (picint 1 at_boot))" "p_ack_bytes (s_pic (picint 1 at_boot)) = 0" by code_simp+
  then show ?thesis using poll_then_ack_undefined [of "picint 1 at_boot"] by simp
qed

text \<open>
  A guest can bring the emulator down through ICW3: a request on line 1 that arrives between
  ICW1 and an ICW3 that declares a slave on line 1 wins once the sequence ends, and the
  acknowledge cycle follows the NULL slave pointer of line 1.
\<close>

theorem null_slave_reachable:
  "let w = (\<lambda>a v s. pic_write a v PIC1 s);
       s = picint 2 (w 0x20 0x11 (pic_reset True False pics_zero))
   in picinterrupt (w 0x21 0 (w 0x21 1 (w 0x21 2 (w 0x21 8 s)))) = Inl NullPic"
  by code_simp

end
