(* ===== verification/Timer.thy ===== *)
theory Timer
  imports Prelude Complex_Main
begin

text \<open>
  The timer queue of \<open>timer.c\<close> and the inline functions of \<open>timer.h\<close>.  All \<open>pc_timer_t\<close> objects
  live in a store indexed by a timer number (the C address); \<open>prev\<close>, \<open>next\<close> and \<open>timer_head\<close> are
  optional numbers, \<open>None\<close> being NULL, so aliasing through the doubly linked list is explicit.
  The \<open>flags\<close> word is its two bits \<open>TIMER_ENABLED\<close> and \<open>TIMER_SPLIT\<close>; \<open>period\<close>, a \<open>double\<close>, is
  a real number without rounding.  A callback is a number, and what it does is a parameter of
  \<open>timer_process\<close>; the calls made are recorded in \<open>y_calls\<close>.  Dereferencing NULL and \<open>fatal\<close>
  are values of \<open>terr\<close>; the loops of the file are partial functions, a loop that never ends being
  \<open>None\<close> there and the error \<open>Diverges\<close> in the operation that runs it.
\<close>

section \<open>State\<close>

type_synonym tid = nat

record pc_timer_t =
  t_ts_integer :: u64
  t_ts_frac :: u32
  t_enabled :: bool
  t_split :: bool
  t_in_callback :: bool
  t_period :: real
  t_callback :: "nat option"
  t_priv :: nat
  t_prev :: "tid option"
  t_next :: "tid option"

record timers =
  y_timers :: "tid \<Rightarrow> pc_timer_t"
  y_head :: "tid option"
  y_target :: u64
  y_inited :: bool
  y_tsc :: u64
  y_usec :: u64
  y_calls :: "(nat \<times> nat) list"

datatype terr = NullDeref | TimerFatal | Diverges

type_synonym callback = "nat \<Rightarrow> nat \<Rightarrow> timers \<Rightarrow> terr + timers"

definition upd_t :: "tid \<Rightarrow> (pc_timer_t \<Rightarrow> pc_timer_t) \<Rightarrow> timers \<Rightarrow> timers" where
  "upd_t i f s = s\<lparr>y_timers := (y_timers s)(i := f (y_timers s i))\<rparr>"

definition upd_opt :: "tid option \<Rightarrow> (pc_timer_t \<Rightarrow> pc_timer_t) \<Rightarrow> timers \<Rightarrow> timers" where
  "upd_opt p f s = (case p of None \<Rightarrow> s | Some i \<Rightarrow> upd_t i f s)"

section \<open>Comparisons and field access\<close>

definition TIMER_VAL_LESS_THAN_VAL :: "u64 \<Rightarrow> u64 \<Rightarrow> bool" where
  "TIMER_VAL_LESS_THAN_VAL a b \<longleftrightarrow> sint (a - b) \<le> 0"

definition TIMER_LESS_THAN :: "pc_timer_t \<Rightarrow> pc_timer_t \<Rightarrow> bool" where
  "TIMER_LESS_THAN a b \<longleftrightarrow> sint (t_ts_integer a - t_ts_integer b) \<le> 0"

definition TIMER_LESS_THAN_VAL :: "pc_timer_t \<Rightarrow> u64 \<Rightarrow> bool" where
  "TIMER_LESS_THAN_VAL a b \<longleftrightarrow> sint (t_ts_integer a - b) \<le> 0"

definition timer_is_enabled :: "tid \<Rightarrow> timers \<Rightarrow> bool" where
  "timer_is_enabled t s = t_enabled (y_timers s t)"

definition timer_is_on :: "tid \<Rightarrow> timers \<Rightarrow> bool" where
  "timer_is_on t s \<longleftrightarrow> t_split (y_timers s t) \<and> t_enabled (y_timers s t)"

definition timer_get_ts_int :: "tid \<Rightarrow> timers \<Rightarrow> u64" where
  "timer_get_ts_int t s = t_ts_integer (y_timers s t)"

text \<open>The C functions compute in 128 bits, where the difference of two 96-bit stamps is exact.\<close>

definition timer_remaining :: "tid \<Rightarrow> timers \<Rightarrow> int" where
  "timer_remaining t s =
    uint (t_ts_integer (y_timers s t)) * 2 ^ 32 + uint (t_ts_frac (y_timers s t)) - uint (y_tsc s) * 2 ^ 32"

definition timer_get_remaining_us :: "tid \<Rightarrow> timers \<Rightarrow> u64" where
  "timer_get_remaining_us t s =
    (if t_enabled (y_timers s t) then
       (if timer_remaining t s < 0 then 0 else word_of_int (timer_remaining t s div uint (y_usec s)))
     else 0)"

definition timer_get_remaining_u64 :: "tid \<Rightarrow> timers \<Rightarrow> int" where
  "timer_get_remaining_u64 t s =
    (if t_enabled (y_timers s t) then (if timer_remaining t s < 0 then 0 else timer_remaining t s) else 0)"

definition timer_set_callback :: "tid \<Rightarrow> nat option \<Rightarrow> timers \<Rightarrow> timers" where
  "timer_set_callback t callback s = upd_t t (t_callback_update (\<lambda>_. callback)) s"

definition timer_set_p :: "tid \<Rightarrow> nat \<Rightarrow> timers \<Rightarrow> timers" where
  "timer_set_p t priv s = upd_t t (t_priv_update (\<lambda>_. priv)) s"

section \<open>Linking and unlinking\<close>

definition timer_disable :: "tid \<Rightarrow> timers \<Rightarrow> terr + timers" where
  "timer_disable t s =
    (let tm = y_timers s t
     in if \<not> y_inited s \<or> \<not> t_enabled tm then Inr s
        else if t_next tm = None \<and> t_prev tm = None \<and> y_head s \<noteq> Some t then Inl NullDeref
        else
          (let s = upd_t t (\<lambda>x. x\<lparr>t_enabled := False, t_in_callback := False\<rparr>) s;
               s = (case t_prev tm of
                      Some p \<Rightarrow> upd_t p (t_next_update (\<lambda>_. t_next tm)) s
                    | None \<Rightarrow> s\<lparr>y_head := t_next tm\<rparr>);
               s = upd_opt (t_next (y_timers s t)) (t_prev_update (\<lambda>_. t_prev (y_timers s t))) s
           in Inr (upd_t t (\<lambda>x. x\<lparr>t_prev := None, t_next := None\<rparr>) s)))"

text \<open>The search loop of \<open>timer_enable\<close>.\<close>

partial_function (option) timer_insert :: "tid \<Rightarrow> tid \<Rightarrow> timers \<Rightarrow> timers option" where
  "timer_insert t node s =
    (if TIMER_LESS_THAN (y_timers s t) (y_timers s node) then
       (let s = upd_t t (\<lambda>x. x\<lparr>t_next := Some node, t_prev := t_prev (y_timers s node)\<rparr>) s;
            s = upd_t node (t_prev_update (\<lambda>_. Some t)) s
        in case t_prev (y_timers s t) of
             Some p \<Rightarrow> Some (upd_t p (t_next_update (\<lambda>_. Some t)) s)
           | None \<Rightarrow> Some (s\<lparr>y_head := Some t, y_target := t_ts_integer (y_timers s t)\<rparr>))
     else case t_next (y_timers s node) of
            None \<Rightarrow> Some (upd_t t (t_prev_update (\<lambda>_. Some node)) (upd_t node (t_next_update (\<lambda>_. Some t)) s))
          | Some n \<Rightarrow> timer_insert t n s)"

definition timer_enable :: "tid \<Rightarrow> timers \<Rightarrow> terr + timers" where
  "timer_enable t s =
    (case (if t_enabled (y_timers s t) then timer_disable t s else Inr s) of
       Inl e \<Rightarrow> Inl e
     | Inr s \<Rightarrow>
         (if t_next (y_timers s t) \<noteq> None \<or> t_prev (y_timers s t) \<noteq> None then Inl TimerFatal
          else
            (let s = upd_t t (t_enabled_update (\<lambda>_. True)) s
             in case y_head s of
                  None \<Rightarrow>
                    Inr (upd_t t (\<lambda>x. x\<lparr>t_next := None, t_prev := None\<rparr>)
                      (s\<lparr>y_head := Some t, y_target := t_ts_integer (y_timers s t)\<rparr>))
                | Some h \<Rightarrow> (case timer_insert t h s of None \<Rightarrow> Inl Diverges | Some s \<Rightarrow> Inr s))))"

definition timer_remove_head :: "timers \<Rightarrow> terr + timers" where
  "timer_remove_head s =
    (case y_head s of
       None \<Rightarrow> Inr s
     | Some t \<Rightarrow>
         (let s = s\<lparr>y_head := t_next (y_timers s t)\<rparr>
          in case y_head s of
               None \<Rightarrow> Inl NullDeref
             | Some h \<Rightarrow>
                 Inr (upd_t t (\<lambda>x. x\<lparr>t_next := None, t_prev := None, t_enabled := False\<rparr>)
                   (upd_t h (t_prev_update (\<lambda>_. None)) s))))"

section \<open>Setting the expiry time\<close>

definition int_delay :: "u64 \<Rightarrow> u64" where
  "int_delay delay =
    (let d = drop_bit 32 delay in if tst d 0x0000000080000000 then d OR 0xffffffff00000000 else d)"

definition frac_delay :: "u64 \<Rightarrow> u32" where
  "frac_delay delay = ucast (delay AND 0xffffffff)"

definition timer_advance_ts :: "u64 \<Rightarrow> pc_timer_t \<Rightarrow> pc_timer_t" where
  "timer_advance_ts delay x =
    (let x = (if frac_delay delay + t_ts_frac x < frac_delay delay then x\<lparr>t_ts_integer := t_ts_integer x + 1\<rparr> else x)
     in x\<lparr>t_ts_frac := t_ts_frac x + frac_delay delay, t_ts_integer := t_ts_integer x + int_delay delay\<rparr>)"

definition timer_advance_u64 :: "tid \<Rightarrow> u64 \<Rightarrow> timers \<Rightarrow> terr + timers" where
  "timer_advance_u64 t delay s = timer_enable t (upd_t t (timer_advance_ts delay) s)"

definition timer_set_delay_u64 :: "tid \<Rightarrow> u64 \<Rightarrow> timers \<Rightarrow> terr + timers" where
  "timer_set_delay_u64 t delay s =
    timer_enable t (upd_t t (\<lambda>x. x\<lparr>t_ts_frac := frac_delay delay, t_ts_integer := int_delay delay + y_tsc s\<rparr>) s)"

section \<open>Long periods\<close>

definition MAX_USEC64 :: u64 where
  "MAX_USEC64 = 1000000"

definition MAX_USEC :: real where
  "MAX_USEC = 1000000"

definition timer_stop :: "tid \<Rightarrow> timers \<Rightarrow> terr + timers" where
  "timer_stop t s =
    (if \<not> y_inited s then Inr s
     else
       (let s = upd_t t (t_period_update (\<lambda>_. 0)) s
        in case (if t_enabled (y_timers s t) then timer_disable t s else Inr s) of
             Inl e \<Rightarrow> Inl e
           | Inr s \<Rightarrow> Inr (upd_t t (\<lambda>x. x\<lparr>t_split := False, t_in_callback := False\<rparr>) s)))"

definition timer_do_period :: "tid \<Rightarrow> u64 \<Rightarrow> bool \<Rightarrow> timers \<Rightarrow> terr + timers" where
  "timer_do_period t period start s =
    (if \<not> y_inited s then Inr s
     else if start then timer_set_delay_u64 t period s else timer_advance_u64 t period s)"

definition timer_advance_ex :: "tid \<Rightarrow> bool \<Rightarrow> timers \<Rightarrow> terr + timers" where
  "timer_advance_ex t start s =
    (if \<not> y_inited s then Inr s
     else
       (let period = t_period (y_timers s t)
        in if period > MAX_USEC then
             (case timer_do_period t (MAX_USEC64 * y_usec s) start s of
                Inl e \<Rightarrow> Inl e
              | Inr s \<Rightarrow> Inr (upd_t t (\<lambda>x. x\<lparr>t_period := t_period x - MAX_USEC, t_split := True\<rparr>) s))
           else
             (case (if period > 0 then timer_do_period t (word_of_int \<lfloor>period * real_of_int (uint (y_usec s))\<rfloor>) start s
                    else timer_disable t s) of
                Inl e \<Rightarrow> Inl e
              | Inr s \<Rightarrow> Inr (upd_t t (\<lambda>x. x\<lparr>t_period := 0, t_split := False\<rparr>) s))))"

definition timer_on :: "tid \<Rightarrow> real \<Rightarrow> bool \<Rightarrow> timers \<Rightarrow> terr + timers" where
  "timer_on t period start s =
    (if \<not> y_inited s then Inr s else timer_advance_ex t start (upd_t t (t_period_update (\<lambda>_. period)) s))"

definition timer_on_auto :: "tid \<Rightarrow> real \<Rightarrow> timers \<Rightarrow> terr + timers" where
  "timer_on_auto t period s =
    (if \<not> y_inited s then Inr s
     else if period > 0 then
       timer_on t period (t_period (y_timers s t) \<le> 0 \<and> \<not> t_in_callback (y_timers s t)) s
     else timer_stop t s)"

section \<open>Running expired timers\<close>

definition timer_fire :: "callback \<Rightarrow> tid \<Rightarrow> timers \<Rightarrow> terr + timers" where
  "timer_fire cb t s =
    (if t_split (y_timers s t) then timer_advance_ex t False s
     else case t_callback (y_timers s t) of
            None \<Rightarrow> Inr s
          | Some c \<Rightarrow>
              (let s = upd_t t (t_in_callback_update (\<lambda>_. True)) s;
                   s = s\<lparr>y_calls := y_calls s @ [(c, t_priv (y_timers s t))]\<rparr>
               in case cb c (t_priv (y_timers s t)) s of
                    Inl e \<Rightarrow> Inl e
                  | Inr s \<Rightarrow> Inr (upd_t t (t_in_callback_update (\<lambda>_. False)) s)))"

text \<open>The loop of \<open>timer_process\<close>; \<open>timer_head\<close> being NULL at its top is a NULL dereference.\<close>

partial_function (option) timer_process_loop :: "callback \<Rightarrow> timers \<Rightarrow> (terr + timers) option" where
  "timer_process_loop cb s =
    (case y_head s of
       None \<Rightarrow> Some (Inl NullDeref)
     | Some t \<Rightarrow>
         (if \<not> TIMER_LESS_THAN_VAL (y_timers s t) (y_tsc s) then Some (Inr s)
          else case timer_remove_head s of
                 Inl e \<Rightarrow> Some (Inl e)
               | Inr s \<Rightarrow>
                   (case timer_fire cb t s of
                      Inl e \<Rightarrow> Some (Inl e)
                    | Inr s \<Rightarrow> timer_process_loop cb s)))"

definition timer_process :: "callback \<Rightarrow> timers \<Rightarrow> (terr + timers) option" where
  "timer_process cb s =
    (case y_head s of
       None \<Rightarrow> Some (Inr s)
     | Some _ \<Rightarrow>
         (case timer_process_loop cb s of
            None \<Rightarrow> None
          | Some (Inl e) \<Rightarrow> Some (Inl e)
          | Some (Inr s) \<Rightarrow>
              (case y_head s of
                 None \<Rightarrow> Some (Inl NullDeref)
               | Some h \<Rightarrow> Some (Inr (s\<lparr>y_target := t_ts_integer (y_timers s h)\<rparr>)))))"

section \<open>Start, stop and change of the time base\<close>

partial_function (option) timer_close_loop :: "tid option \<Rightarrow> timers \<Rightarrow> timers option" where
  "timer_close_loop t s =
    (case t of
       None \<Rightarrow> Some s
     | Some r \<Rightarrow>
         (let s = upd_t r (\<lambda>x. x\<lparr>t_prev := None, t_next := None\<rparr>) s
          in timer_close_loop (t_next (y_timers s r)) s))"

definition timer_close :: "timers \<Rightarrow> timers option" where
  "timer_close s =
    (case timer_close_loop (y_head s) s of
       None \<Rightarrow> None
     | Some s \<Rightarrow> Some (s\<lparr>y_head := None, y_inited := False\<rparr>))"

text \<open>\<open>rivatimer_init\<close>, which this function also calls, keeps its own queue.\<close>

definition timer_init :: "timers \<Rightarrow> timers" where
  "timer_init s = s\<lparr>y_target := 0, y_tsc := 0, y_inited := True\<rparr>"

definition timer_add :: "tid \<Rightarrow> nat option \<Rightarrow> nat \<Rightarrow> bool \<Rightarrow> timers \<Rightarrow> terr + timers" where
  "timer_add t callback priv start_timer s =
    (let s = upd_t t (\<lambda>_. \<lparr>t_ts_integer = 0, t_ts_frac = 0, t_enabled = False, t_split = False,
                 t_in_callback = False, t_period = 0, t_callback = callback, t_priv = priv,
                 t_prev = None, t_next = None\<rparr>) s
     in if start_timer then timer_set_delay_u64 t 0 s else Inr s)"

partial_function (option) set_new_tsc_loop :: "u64 \<Rightarrow> tid option \<Rightarrow> timers \<Rightarrow> timers option" where
  "set_new_tsc_loop new_tsc t s =
    (case t of
       None \<Rightarrow> Some s
     | Some r \<Rightarrow>
         (let s = upd_t r (t_ts_integer_update (\<lambda>v. new_tsc + (v - y_tsc s))) s
          in set_new_tsc_loop new_tsc (t_next (y_timers s r)) s))"

text \<open>The interpreter build: without the recompiler there is no pending \<open>update_tsc\<close>.\<close>

definition timer_set_new_tsc :: "u64 \<Rightarrow> timers \<Rightarrow> timers option" where
  "timer_set_new_tsc new_tsc s =
    (case y_head s of
       None \<Rightarrow> Some (s\<lparr>y_tsc := new_tsc\<rparr>)
     | Some h \<Rightarrow>
         (let s = s\<lparr>y_target := new_tsc + (timer_get_ts_int h s - y_tsc s)\<rparr>
          in case set_new_tsc_loop new_tsc (Some h) s of
               None \<Rightarrow> None
             | Some s \<Rightarrow> Some (s\<lparr>y_tsc := new_tsc\<rparr>)))"

text \<open>The loops run on concrete states.\<close>

declare timer_insert.simps [code] timer_process_loop.simps [code] timer_close_loop.simps [code]
  set_new_tsc_loop.simps [code]

end
