(* ===== verification/Timer_Correct.thy ===== *)
theory Timer_Correct
  imports Timer
begin

text \<open>
  Correctness of the timer queue: the doubly linked list in the store represents a list of timers
  (\<open>linked\<close>), the operations are insertion and removal on that list, the list stays ordered by
  expiry time, processing ends and leaves nothing expired, and time arithmetic is exact.
\<close>

section \<open>The list in the store\<close>

definition first_of :: "tid list \<Rightarrow> tid option \<Rightarrow> tid option" where
  "first_of ts n = (case ts of [] \<Rightarrow> n | t # _ \<Rightarrow> Some t)"

definition last_of :: "tid option \<Rightarrow> tid list \<Rightarrow> tid option" where
  "last_of p ts = (if ts = [] then p else Some (last ts))"

lemma first_of_simps [simp]: "first_of [] n = n" "first_of (t # ts) n = Some t"
  "first_of (xs @ ys) n = first_of xs (first_of ys n)"
  by (simp_all add: first_of_def split: list.split)

lemma last_of_simps [simp]: "last_of p [] = p" "last_of p (t # ts) = last_of (Some t) ts"
  "last_of p (xs @ ys) = last_of (last_of p xs) ys"
  by (auto simp: last_of_def)

fun seg :: "(tid \<Rightarrow> pc_timer_t) \<Rightarrow> tid option \<Rightarrow> tid list \<Rightarrow> tid option \<Rightarrow> bool" where
  "seg m p [] n \<longleftrightarrow> True"
| "seg m p (t # ts) n \<longleftrightarrow> t_prev (m t) = p \<and> t_next (m t) = first_of ts n \<and> t_enabled (m t) \<and> seg m (Some t) ts n"

lemma seg_append [simp]:
  "seg m p (xs @ ys) n \<longleftrightarrow> seg m p xs (first_of ys n) \<and> seg m (last_of p xs) ys n"
  by (induction xs arbitrary: p) auto

lemma seg_frame [simp]: "t \<notin> set ts \<Longrightarrow> seg (m(t := x)) p ts n = seg m p ts n"
  by (induction ts arbitrary: p) auto

lemma seg_relink_last:
  assumes "seg m p (xs @ [y]) n" and "distinct (xs @ [y])"
  shows "seg (m(y := (m y)\<lparr>t_next := n'\<rparr>)) p (xs @ [y]) n'"
  using assms by (induction xs arbitrary: p) auto

lemma seg_relink_first:
  assumes "seg m p (y # ys) n" and "distinct (y # ys)"
  shows "seg (m(y := (m y)\<lparr>t_prev := p'\<rparr>)) p' (y # ys) n"
  using assms by auto

definition unlinked :: "pc_timer_t \<Rightarrow> bool" where
  "unlinked x \<longleftrightarrow> t_prev x = None \<and> t_next x = None \<and> \<not> t_enabled x"

definition linked :: "timers \<Rightarrow> tid list \<Rightarrow> bool" where
  "linked s ts \<longleftrightarrow> distinct ts \<and> y_head s = first_of ts None \<and> seg (y_timers s) None ts None \<and>
    (\<forall>t. t \<notin> set ts \<longrightarrow> unlinked (y_timers s t))"

lemma seg_mem: "seg m p ts n \<Longrightarrow> t \<in> set ts \<Longrightarrow> t_enabled (m t)"
  by (induction ts arbitrary: p) auto

lemma linked_enabled: "linked s ts \<Longrightarrow> t_enabled (y_timers s t) \<longleftrightarrow> t \<in> set ts"
  by (auto simp: linked_def unlinked_def dest: seg_mem)

lemma linked_unique: "linked s ts \<Longrightarrow> linked s us \<Longrightarrow> ts = us"
proof -
  have gen: "seg m p ts None \<Longrightarrow> seg m p us None \<Longrightarrow> first_of ts None = first_of us None \<Longrightarrow> ts = us" for m p
  proof (induction ts arbitrary: us p)
    case Nil
    then show ?case by (cases us) auto
  next
    case (Cons t ts)
    then show ?case by (cases us) auto
  qed
  assume "linked s ts" "linked s us"
  then show ?thesis using gen by (auto simp: linked_def)
qed

lemma upd_t_fields [simp]:
  "y_head (upd_t i f s) = y_head s" "y_inited (upd_t i f s) = y_inited s" "y_tsc (upd_t i f s) = y_tsc s"
  "y_target (upd_t i f s) = y_target s" "y_calls (upd_t i f s) = y_calls s" "y_usec (upd_t i f s) = y_usec s"
  "y_timers (upd_t i f s) = (y_timers s)(i := f (y_timers s i))"
  by (simp_all add: upd_t_def)

section \<open>Insertion\<close>

text \<open>The position \<open>timer_enable\<close> gives a timer: before the first one that does not expire earlier.\<close>

fun place :: "(tid \<Rightarrow> pc_timer_t) \<Rightarrow> tid \<Rightarrow> tid list \<Rightarrow> tid list" where
  "place m t [] = [t]"
| "place m t (u # us) = (if TIMER_LESS_THAN (m t) (m u) then t # u # us else u # place m t us)"

lemma set_place [simp]: "set (place m t ts) = insert t (set ts)"
  by (induction ts) auto

lemma distinct_place: "distinct ts \<Longrightarrow> t \<notin> set ts \<Longrightarrow> distinct (place m t ts)"
  by (induction ts) auto

text \<open>
  \<open>relinked s s'\<close>: the operation only moved links and enable bits: no timer's time stamp, callback
  or period changed.
\<close>

definition relinked :: "timers \<Rightarrow> timers \<Rightarrow> bool" where
  "relinked s s' \<longleftrightarrow> y_inited s' = y_inited s \<and> y_tsc s' = y_tsc s \<and> y_usec s' = y_usec s \<and> y_calls s' = y_calls s \<and>
    (\<forall>u. t_ts_integer (y_timers s' u) = t_ts_integer (y_timers s u) \<and> t_ts_frac (y_timers s' u) = t_ts_frac (y_timers s u) \<and>
         t_split (y_timers s' u) = t_split (y_timers s u) \<and> t_period (y_timers s' u) = t_period (y_timers s u) \<and>
         t_callback (y_timers s' u) = t_callback (y_timers s u) \<and> t_priv (y_timers s' u) = t_priv (y_timers s u))"

lemma relinked_refl [simp]: "relinked s s"
  by (simp add: relinked_def)

lemma relinked_trans: "relinked s t \<Longrightarrow> relinked t u \<Longrightarrow> relinked s u"
  by (simp add: relinked_def)

text \<open>\<open>ready s ts t\<close>: the list is \<open>ts\<close>, and \<open>t\<close> is marked enabled but not linked yet.\<close>

definition ready :: "timers \<Rightarrow> tid list \<Rightarrow> tid \<Rightarrow> bool" where
  "ready s ts t \<longleftrightarrow> seg (y_timers s) None ts None \<and> y_head s = first_of ts None \<and> distinct ts \<and> t \<notin> set ts \<and>
    (\<forall>u. u \<notin> set ts \<and> u \<noteq> t \<longrightarrow> unlinked (y_timers s u)) \<and>
    t_enabled (y_timers s t) \<and> t_next (y_timers s t) = None \<and> t_prev (y_timers s t) = None"

lemma insert_before:
  assumes "ready s (xs @ y # ys) t" and "TIMER_LESS_THAN (y_timers s t) (y_timers s y)"
  shows "\<exists>s'. timer_insert t y s = Some s' \<and> linked s' (xs @ t # y # ys) \<and> relinked s s' \<and>
    y_target s' = (if xs = [] then t_ts_integer (y_timers s t) else y_target s)"
proof (cases xs rule: rev_cases)
  case Nil
  with assms show ?thesis
    by (subst timer_insert.simps) (auto simp: Let_def ready_def linked_def relinked_def unlinked_def)
next
  case (snoc ws x)
  have prev: "t_prev (y_timers s y) = Some x" using assms(1) snoc by (simp add: ready_def)
  have ne: "x \<noteq> y" "x \<noteq> t" "y \<noteq> t" using assms(1) snoc by (auto simp: ready_def)
  have x: "seg ((y_timers s)(x := (y_timers s x)\<lparr>t_next := Some t\<rparr>)) None (ws @ [x]) (Some t)"
    using assms(1) snoc by (intro seg_relink_last [where n = "Some y"]) (simp_all add: ready_def)
  define s' where "s' = upd_t x (t_next_update (\<lambda>_. Some t)) (upd_t y (t_prev_update (\<lambda>_. Some t))
      (upd_t t (\<lambda>v. v\<lparr>t_next := Some y, t_prev := Some x\<rparr>) s))"
  have "timer_insert t y s = Some s'"
    using assms(2) prev ne by (subst timer_insert.simps) (simp add: Let_def s'_def)
  moreover have "linked s' (xs @ t # y # ys)"
  proof -
    have m: "y_timers s' = ((y_timers s)(x := (y_timers s x)\<lparr>t_next := Some t\<rparr>))
        (y := (y_timers s y)\<lparr>t_prev := Some t\<rparr>, t := (y_timers s t)\<lparr>t_next := Some y, t_prev := Some x\<rparr>)"
      using ne by (auto simp: s'_def fun_eq_iff)
    have "seg (y_timers s') None xs (Some t)"
      using x assms(1) snoc ne unfolding m by (simp add: ready_def)
    moreover have "seg (y_timers s') (Some x) (t # y # ys) None"
      using assms(1) snoc ne unfolding m by (auto simp: ready_def)
    ultimately show ?thesis
      using assms(1) snoc ne unfolding linked_def
      by (auto simp: ready_def s'_def unlinked_def)
  qed
  moreover have "relinked s s'" by (simp add: relinked_def s'_def)
  moreover have "y_target s' = y_target s" by (simp add: s'_def)
  ultimately show ?thesis using snoc by auto
qed

lemma insert_last:
  assumes "ready s (xs @ [y]) t" and "\<not> TIMER_LESS_THAN (y_timers s t) (y_timers s y)"
  shows "\<exists>s'. timer_insert t y s = Some s' \<and> linked s' (xs @ [y, t]) \<and> relinked s s' \<and> y_target s' = y_target s"
proof -
  define s' where "s' = upd_t t (t_prev_update (\<lambda>_. Some y)) (upd_t y (t_next_update (\<lambda>_. Some t)) s)"
  have ne: "y \<noteq> t" using assms(1) by (auto simp: ready_def)
  have "t_next (y_timers s y) = None" using assms(1) by (simp add: ready_def)
  then have "timer_insert t y s = Some s'"
    using assms(2) by (subst timer_insert.simps) (simp add: s'_def)
  moreover have "seg ((y_timers s)(y := (y_timers s y)\<lparr>t_next := Some t\<rparr>)) None (xs @ [y]) (Some t)"
    using assms(1) by (intro seg_relink_last [where n = None]) (simp_all add: ready_def)
  then have "linked s' (xs @ [y, t])"
    using assms(1) ne by (auto simp: linked_def ready_def s'_def unlinked_def fun_upd_twist)
  moreover have "relinked s s'" "y_target s' = y_target s" by (simp_all add: relinked_def s'_def)
  ultimately show ?thesis by blast
qed

lemma timer_insert_links:
  assumes "ready s (xs @ y # ys) t"
  shows "\<exists>s'. timer_insert t y s = Some s' \<and> linked s' (xs @ place (y_timers s) t (y # ys)) \<and> relinked s s' \<and>
    y_target s' = (if xs = [] \<and> TIMER_LESS_THAN (y_timers s t) (y_timers s y) then t_ts_integer (y_timers s t) else y_target s)"
  using assms
proof (induction ys arbitrary: xs y)
  case Nil
  then show ?case
    using insert_before [OF Nil] insert_last [of s xs y t] by (cases "TIMER_LESS_THAN (y_timers s t) (y_timers s y)") auto
next
  case (Cons z zs)
  show ?case
  proof (cases "TIMER_LESS_THAN (y_timers s t) (y_timers s y)")
    case True
    then show ?thesis using insert_before [OF Cons.prems True] by auto
  next
    case False
    have "t_next (y_timers s y) = Some z" using Cons.prems by (simp add: ready_def)
    then have "timer_insert t y s = timer_insert t z s" using False by (subst timer_insert.simps) simp
    then show ?thesis using Cons.IH [of "xs @ [y]" z] Cons.prems False by simp
  qed
qed

section \<open>Removal\<close>

lemma timer_disable_links:
  assumes "linked s (xs @ t # ys)" and "y_inited s"
  shows "\<exists>s'. timer_disable t s = Inr s' \<and> linked s' (xs @ ys) \<and> relinked s s' \<and> y_target s' = y_target s"
proof -
  have notin: "t \<notin> set xs" "t \<notin> set ys" using assms(1) by (auto simp: linked_def)
  have tm: "t_enabled (y_timers s t)" "t_prev (y_timers s t) = last_of None xs" "t_next (y_timers s t) = first_of ys None"
    using assms(1) by (simp_all add: linked_def)
  have head: "y_head s = first_of xs (Some t)" using assms(1) by (simp add: linked_def)
  have prem: "seg (y_timers s) None xs (Some t)" "seg (y_timers s) (Some t) ys None" "distinct xs" "distinct ys"
    "set xs \<inter> set ys = {}" "\<And>u. u \<notin> set xs \<Longrightarrow> u \<noteq> t \<Longrightarrow> u \<notin> set ys \<Longrightarrow> unlinked (y_timers s u)"
    using assms(1) by (auto simp: linked_def)
  note rl = seg_relink_last [where n = "Some t" and p = None and m = "y_timers s"]
  show ?thesis
  proof (cases xs rule: rev_cases)
    case Nil
    then show ?thesis
      using tm head prem notin assms(2)
      by (cases ys) (auto simp: timer_disable_def Let_def upd_opt_def linked_def relinked_def unlinked_def)
  next
    case (snoc ws x)
    have x: "seg ((y_timers s)(x := (y_timers s x)\<lparr>t_next := n\<rparr>)) None (ws @ [x]) n" for n
      using prem(1,3) snoc by (intro rl) simp_all
    have ne: "x \<noteq> t" "x \<notin> set ys" "x \<notin> set ws" using notin prem snoc by auto
    show ?thesis
    proof (cases ys)
      case Nil
      with tm head prem notin assms(2) snoc ne x [of None] show ?thesis
        by (auto simp: timer_disable_def Let_def upd_opt_def linked_def relinked_def unlinked_def fun_upd_twist)
    next
      case (Cons y zs)
      with tm head prem notin assms(2) snoc ne x [of "Some y"] show ?thesis
        by (auto simp: timer_disable_def Let_def upd_opt_def linked_def relinked_def unlinked_def fun_upd_twist)
    qed
  qed
qed

section \<open>Enabling\<close>

lemma relinked_timers: "relinked s s' \<Longrightarrow> place (y_timers s') t ts = place (y_timers s) t ts"
  by (induction ts) (simp_all add: relinked_def TIMER_LESS_THAN_def)

lemma linked_upd_outside:
  assumes "linked s ts" and "t \<notin> set ts" and "unlinked (y_timers s t) \<Longrightarrow> unlinked (f (y_timers s t))"
  shows "linked (upd_t t f s) ts"
  using assms by (auto simp: linked_def)

lemma timer_enable_unlinked:
  assumes "linked s ts" and "t \<notin> set ts"
  shows "\<exists>s'. timer_enable t s = Inr s' \<and> linked s' (place (y_timers s) t ts) \<and> relinked s s' \<and>
    (first_of (place (y_timers s) t ts) None = Some t \<longrightarrow> y_target s' = t_ts_integer (y_timers s t))"
proof -
  have tm: "unlinked (y_timers s t)" using assms by (simp add: linked_def)
  let ?s = "upd_t t (t_enabled_update (\<lambda>_. True)) s"
  have rl: "relinked s ?s" by (simp add: relinked_def)
  show ?thesis
  proof (cases ts)
    case Nil
    with assms tm show ?thesis
      by (auto simp: timer_enable_def Let_def linked_def relinked_def unlinked_def)
  next
    case (Cons y ys)
    have "ready ?s (y # ys) t" using assms tm Cons by (auto simp: ready_def linked_def unlinked_def)
    with timer_insert_links [of ?s "[]" y ys t] obtain s' where s': "timer_insert t y ?s = Some s'"
      "linked s' (place (y_timers ?s) t (y # ys))" "relinked ?s s'"
      "y_target s' = (if TIMER_LESS_THAN (y_timers ?s t) (y_timers ?s y) then t_ts_integer (y_timers ?s t) else y_target ?s)"
      by (auto simp del: upd_t_fields place.simps)
    have "timer_enable t s = Inr s'"
      using s'(1) tm assms Cons by (simp add: timer_enable_def unlinked_def linked_def)
    moreover have "y \<noteq> t" using assms Cons by auto
    ultimately show ?thesis
      using s' rl Cons relinked_trans [OF rl s'(3)] relinked_timers [OF rl, of t ts]
      by (auto simp: TIMER_LESS_THAN_def split: if_splits)
  qed
qed

lemma timer_enable_links:
  assumes "linked s ts" and "y_inited s"
  shows "\<exists>s'. timer_enable t s = Inr s' \<and> linked s' (place (y_timers s) t (remove1 t ts)) \<and> relinked s s' \<and>
    (first_of (place (y_timers s) t (remove1 t ts)) None = Some t \<longrightarrow> y_target s' = t_ts_integer (y_timers s t))"
proof (cases "t \<in> set ts")
  case False
  with timer_enable_unlinked [OF assms(1) False] show ?thesis by (simp add: remove1_idem)
next
  case True
  then obtain xs ys where ts: "ts = xs @ t # ys" "t \<notin> set xs" by (meson split_list_first)
  have r: "remove1 t ts = xs @ ys" using ts by (simp add: remove1_append)
  from timer_disable_links [OF assms(1) [unfolded ts(1)] assms(2)] obtain s1 where
    s1: "timer_disable t s = Inr s1" "linked s1 (xs @ ys)" "relinked s s1" by blast
  have out: "t \<notin> set (xs @ ys)" using assms(1) ts by (auto simp: linked_def)
  from timer_enable_unlinked [OF s1(2) out] obtain s' where
    s': "timer_enable t s1 = Inr s'" "linked s' (place (y_timers s1) t (xs @ ys))" "relinked s1 s'"
    "first_of (place (y_timers s1) t (xs @ ys)) None = Some t \<longrightarrow> y_target s' = t_ts_integer (y_timers s1 t)" by blast
  have "timer_enable t s = timer_enable t s1"
    using s1 linked_enabled [OF assms(1), of t] linked_enabled [OF s1(2), of t] out ts by (simp add: timer_enable_def)
  moreover have "t_ts_integer (y_timers s1 t) = t_ts_integer (y_timers s t)" using s1(3) by (simp add: relinked_def)
  ultimately show ?thesis
    using s' r relinked_trans [OF s1(3) s'(3)] relinked_timers [OF s1(3), of t "xs @ ys"] by auto
qed

lemma timer_disable_remove:
  assumes "linked s ts" and "y_inited s"
  shows "\<exists>s'. timer_disable t s = Inr s' \<and> linked s' (remove1 t ts) \<and> relinked s s' \<and> y_target s' = y_target s"
proof (cases "t \<in> set ts")
  case False
  then have "timer_disable t s = Inr s" using linked_enabled [OF assms(1), of t] by (simp add: timer_disable_def Let_def)
  with False assms show ?thesis by (simp add: remove1_idem)
next
  case True
  then obtain xs ys where ts: "ts = xs @ t # ys" "t \<notin> set xs" by (meson split_list_first)
  with timer_disable_links [OF assms(1) [unfolded ts(1)] assms(2)] show ?thesis by (simp add: remove1_append)
qed

section \<open>Order\<close>

text \<open>
  \<open>off s t\<close> is the signed distance of a timer from the current time.  The signed comparison the
  code uses orders timers correctly as long as no two of them are \<open>2 ^ 63\<close> ticks apart.
\<close>

definition off :: "timers \<Rightarrow> tid \<Rightarrow> int" where
  "off s t = sint (t_ts_integer (y_timers s t) - y_tsc s)"

definition window :: "timers \<Rightarrow> bool" where
  "window s \<longleftrightarrow> (\<forall>t. \<bar>off s t\<bar> < 2 ^ 62)"

lemma sint_sub_small:
  fixes x y :: u64
  assumes "\<bar>sint x\<bar> < 2 ^ 62" and "\<bar>sint y\<bar> < 2 ^ 62"
  shows "sint (x - y) = sint x - sint y"
  using assms by (simp add: sint_word_ariths signed_take_bit_int_eq_self)

lemma sint_add_small:
  fixes x y :: u64
  assumes "\<bar>sint x\<bar> < 2 ^ 62" and "\<bar>sint y\<bar> < 2 ^ 62"
  shows "sint (x + y) = sint x + sint y"
  using assms by (simp add: sint_word_ariths signed_take_bit_int_eq_self)

lemma TIMER_LESS_THAN_off:
  "window s \<Longrightarrow> TIMER_LESS_THAN (y_timers s t) (y_timers s u) \<longleftrightarrow> off s t \<le> off s u"
  using sint_sub_small [of "t_ts_integer (y_timers s t) - y_tsc s" "t_ts_integer (y_timers s u) - y_tsc s"]
  by (auto simp: TIMER_LESS_THAN_def window_def off_def)

lemma place_insort: "window s \<Longrightarrow> place (y_timers s) t ts = insort_key (off s) t ts"
  by (induction ts) (simp_all add: TIMER_LESS_THAN_off)

lemma relinked_off: "relinked s s' \<Longrightarrow> off s' = off s"
  by (simp add: off_def relinked_def fun_eq_iff)

text \<open>The queue: initialised, linked, in order of expiry, all stamps comparable.\<close>

definition queue :: "timers \<Rightarrow> tid list \<Rightarrow> bool" where
  "queue s ts \<longleftrightarrow> y_inited s \<and> linked s ts \<and> sorted (map (off s) ts) \<and> window s"

lemma relinked_keeps: "relinked s s' \<Longrightarrow> window s' = window s \<and> y_inited s' = y_inited s"
  by (simp add: window_def relinked_off) (simp add: relinked_def)

lemma timer_enable_queue:
  assumes "queue s ts"
  shows "\<exists>s'. timer_enable t s = Inr s' \<and> queue s' (insort_key (off s) t (remove1 t ts)) \<and> relinked s s' \<and>
    (first_of (insort_key (off s) t (remove1 t ts)) None = Some t \<longrightarrow> y_target s' = t_ts_integer (y_timers s t))"
proof -
  from assms timer_enable_links [of s ts t] obtain s' where s': "timer_enable t s = Inr s'"
    "linked s' (insort_key (off s) t (remove1 t ts))" "relinked s s'"
    "first_of (insort_key (off s) t (remove1 t ts)) None = Some t \<longrightarrow> y_target s' = t_ts_integer (y_timers s t)"
    by (auto simp: queue_def place_insort)
  then show ?thesis
    using assms relinked_off [OF s'(3)] relinked_keeps [OF s'(3)]
    by (simp add: queue_def sorted_insort_key sorted_map_remove1)
qed

lemma timer_disable_queue:
  assumes "queue s ts"
  shows "\<exists>s'. timer_disable t s = Inr s' \<and> queue s' (remove1 t ts) \<and> relinked s s'"
proof -
  from assms timer_disable_remove [of s ts t] obtain s' where s': "timer_disable t s = Inr s'"
    "linked s' (remove1 t ts)" "relinked s s'" by (auto simp: queue_def)
  then show ?thesis
    using assms relinked_off [OF s'(3)] relinked_keeps [OF s'(3)] by (simp add: queue_def sorted_map_remove1)
qed

section \<open>The contract of the queue\<close>

datatype timer_op = Enable tid | Disable tid

fun spec_op :: "(tid \<Rightarrow> int) \<Rightarrow> timer_op \<Rightarrow> tid list \<Rightarrow> tid list" where
  "spec_op k (Enable t) ts = insort_key k t (remove1 t ts)"
| "spec_op k (Disable t) ts = remove1 t ts"

fun op_run :: "(tid \<Rightarrow> 's \<Rightarrow> terr + 's) \<Rightarrow> (tid \<Rightarrow> 's \<Rightarrow> terr + 's) \<Rightarrow> timer_op list \<Rightarrow> 's \<Rightarrow> terr + 's" where
  "op_run enable disable [] s = Inr s"
| "op_run enable disable (op # ops) s =
    (case (case op of Enable t \<Rightarrow> enable t s | Disable t \<Rightarrow> disable t s) of
       Inl e \<Rightarrow> Inl e
     | Inr s \<Rightarrow> op_run enable disable ops s)"

text \<open>
  What the rest of the emulator relies on: a store that represents a list of timers in order of
  expiry, with two operations that insert and remove.  The key of a timer is not changed by either.
\<close>

locale deadline_queue =
  fixes holds :: "'s \<Rightarrow> tid list \<Rightarrow> bool" and key :: "'s \<Rightarrow> tid \<Rightarrow> int"
    and enable disable :: "tid \<Rightarrow> 's \<Rightarrow> terr + 's"
  assumes holds_sorted: "holds s ts \<Longrightarrow> sorted (map (key s) ts) \<and> distinct ts"
    and enable_law: "holds s ts \<Longrightarrow>
      \<exists>s'. enable t s = Inr s' \<and> holds s' (insort_key (key s) t (remove1 t ts)) \<and> key s' = key s"
    and disable_law: "holds s ts \<Longrightarrow> \<exists>s'. disable t s = Inr s' \<and> holds s' (remove1 t ts) \<and> key s' = key s"
begin

lemma run_spec:
  "holds s ts \<Longrightarrow> \<exists>s'. op_run enable disable ops s = Inr s' \<and> holds s' (fold (spec_op (key s)) ops ts) \<and> key s' = key s"
proof (induction ops arbitrary: s ts)
  case (Cons op ops)
  show ?case
  proof (cases op)
    case (Enable t)
    with enable_law [OF Cons.prems, of t] Cons.IH show ?thesis by fastforce
  next
    case (Disable t)
    with disable_law [OF Cons.prems, of t] Cons.IH show ?thesis by fastforce
  qed
qed simp

lemma first_is_least: "holds s ts \<Longrightarrow> ts \<noteq> [] \<Longrightarrow> \<forall>t\<in>set ts. key s (hd ts) \<le> key s t"
  using holds_sorted [of s ts] by (cases ts) auto

end

interpretation tq: deadline_queue queue off timer_enable timer_disable
proof
  show "queue s ts \<Longrightarrow> sorted (map (off s) ts) \<and> distinct ts" for s ts by (simp add: queue_def linked_def)
  show "queue s ts \<Longrightarrow>
      \<exists>s'. timer_enable t s = Inr s' \<and> queue s' (insort_key (off s) t (remove1 t ts)) \<and> off s' = off s" for s ts t
    using timer_enable_queue [of s ts t] relinked_off by fastforce
  show "queue s ts \<Longrightarrow> \<exists>s'. timer_disable t s = Inr s' \<and> queue s' (remove1 t ts) \<and> off s' = off s" for s ts t
    using timer_disable_queue [of s ts t] relinked_off by fastforce
qed

section \<open>Processing\<close>

text \<open>
  \<open>late s t\<close> counts the ticks by which a timer is overdue, plus one for a timer that is due: 0
  exactly for the timers that must not fire.  A due timer that waits for a part of a long period
  (\<open>t_split\<close>) may have to be fired once more without the clock moving on; \<open>rank\<close> counts that, and
  \<open>backlog\<close> is the sum over the queue.
\<close>

definition late :: "timers \<Rightarrow> tid \<Rightarrow> nat" where
  "late s t = nat (1 - off s t)"

definition rank :: "timers \<Rightarrow> tid \<Rightarrow> nat" where
  "rank s t = (if off s t \<le> 0 then 2 * late s t + of_bool (t_split (y_timers s t)) else 0)"

definition backlog :: "timers \<Rightarrow> tid list \<Rightarrow> nat" where
  "backlog s ts = sum (rank s) (set ts)"

definition due :: "timers \<Rightarrow> tid list \<Rightarrow> tid set" where
  "due s ts = {u \<in> set ts. off s u \<le> 0}"

lemma late_zero: "late s t = 0 \<longleftrightarrow> off s t > 0"
  by (auto simp: late_def)

lemma expired_off: "TIMER_LESS_THAN_VAL (y_timers s t) (y_tsc s) \<longleftrightarrow> off s t \<le> 0"
  by (simp add: TIMER_LESS_THAN_VAL_def off_def)

lemma finite_due [simp]: "finite (due s ts)"
  by (simp add: due_def)

lemma backlog_due: "backlog s ts = sum (rank s) (due s ts)"
  unfolding backlog_def due_def by (rule sum.mono_neutral_right) (auto simp: rank_def)

text \<open>What no operation on timers changes: callbacks, their arguments and the time base.\<close>

definition steady :: "timers \<Rightarrow> timers \<Rightarrow> bool" where
  "steady s s' \<longleftrightarrow> y_inited s' = y_inited s \<and> y_tsc s' = y_tsc s \<and> y_usec s' = y_usec s \<and>
    (\<forall>u. t_callback (y_timers s' u) = t_callback (y_timers s u) \<and> t_priv (y_timers s' u) = t_priv (y_timers s u))"

lemma steady_refl [simp]: "steady s s"
  by (simp add: steady_def)

lemma steady_trans: "steady s t \<Longrightarrow> steady t u \<Longrightarrow> steady s u"
  by (simp add: steady_def)

lemma relinked_steady: "relinked s s' \<Longrightarrow> steady s s'"
  by (simp add: relinked_def steady_def)

text \<open>
  What running timer \<open>t\<close> may do to the other timers: the queue stays a queue, the timer \<open>z\<close> stays in
  it and is not due, and the due timers other than \<open>t\<close> are the same as before, with their expiry times.
\<close>

definition others :: "tid \<Rightarrow> tid \<Rightarrow> timers \<Rightarrow> tid list \<Rightarrow> timers \<Rightarrow> tid list \<Rightarrow> bool" where
  "others z t s ts s' ts' \<longleftrightarrow> queue s' ts' \<and> steady s s' \<and> z \<in> set ts' \<and> 0 < off s' z \<and>
    due s' ts' - {t} = due s ts - {t} \<and>
    (\<forall>u\<in>due s ts - {t}. off s' u = off s u \<and> t_split (y_timers s' u) = t_split (y_timers s u))"

lemma others_trans:
  assumes "others z t s ts s' ts'" and "others z t s' ts' s'' ts''"
  shows "others z t s ts s'' ts''"
proof -
  have "steady s s''" using assms steady_trans by (auto simp: others_def)
  moreover have d: "due s' ts' - {t} = due s ts - {t}" using assms(1) by (simp add: others_def)
  have "off s'' u = off s u \<and> t_split (y_timers s'' u) = t_split (y_timers s u)" if "u \<in> due s ts - {t}" for u
    using assms that d by (simp add: others_def)
  ultimately show ?thesis using assms d by (simp add: others_def)
qed

text \<open>A rank below the one it was run with, if it is back in the queue, makes the backlog smaller.\<close>

lemma others_backlog:
  assumes "others z t s ts s' ts'" and "t \<notin> set ts" and "t \<in> set ts' \<longrightarrow> rank s' t < rank s t" and "0 < rank s t"
  shows "backlog s' ts' < backlog s ts + rank s t"
proof -
  have d: "due s ts - {t} = due s ts" using assms(2) by (auto simp: due_def)
  have "sum (rank s') (due s' ts' - {t}) = sum (rank s) (due s ts)"
  proof (rule sum.cong)
    show "due s' ts' - {t} = due s ts" using assms(1) d by (simp add: others_def)
    show "rank s' u = rank s u" if "u \<in> due s ts" for u
      using assms(1) that d by (auto simp: others_def rank_def late_def)
  qed
  moreover have "sum (rank s') (due s' ts') = sum (rank s') (due s' ts' - {t}) + (if t \<in> due s' ts' then rank s' t else 0)"
    using sum.remove [of "due s' ts'" t "rank s'"] by (cases "t \<in> due s' ts'") simp_all
  moreover have "t \<in> due s' ts' \<longrightarrow> t \<in> set ts'" by (simp add: due_def)
  ultimately show ?thesis using assms(3,4) by (auto simp: backlog_due)
qed

lemma timer_remove_head_queue:
  assumes "queue s (t # u # us)"
  shows "\<exists>s'. timer_remove_head s = Inr s' \<and> queue s' (u # us) \<and> relinked s s'"
proof -
  define s' where "s' = upd_t t (\<lambda>x. x\<lparr>t_next := None, t_prev := None, t_enabled := False\<rparr>)
      (upd_t u (t_prev_update (\<lambda>_. None)) (s\<lparr>y_head := Some u\<rparr>))"
  have "timer_remove_head s = Inr s'"
    using assms by (simp add: timer_remove_head_def queue_def linked_def s'_def)
  moreover have "linked s' (u # us)"
    using assms by (auto simp: queue_def linked_def s'_def unlinked_def)
  moreover have rl: "relinked s s'" by (simp add: relinked_def s'_def)
  moreover have "queue s' (u # us)"
    using assms \<open>linked s' (u # us)\<close> relinked_off [OF rl] relinked_keeps [OF rl] by (simp add: queue_def)
  ultimately show ?thesis by blast
qed

section \<open>Moving a timer to another time\<close>

lemma seg_links:
  "(\<And>u. t_prev (m' u) = t_prev (m u) \<and> t_next (m' u) = t_next (m u) \<and> t_enabled (m' u) = t_enabled (m u)) \<Longrightarrow>
   seg m' p ts n = seg m p ts n"
  by (induction ts arbitrary: p) simp_all

lemma linked_same_links:
  assumes "t_prev (f (y_timers s u)) = t_prev (y_timers s u)" and "t_next (f (y_timers s u)) = t_next (y_timers s u)"
    and "t_enabled (f (y_timers s u)) = t_enabled (y_timers s u)"
  shows "linked (upd_t u f s) ts = linked s ts"
proof -
  have "seg (y_timers (upd_t u f s)) p us n = seg (y_timers s) p us n" for p us n
    by (rule seg_links) (use assms in simp)
  moreover have "unlinked (y_timers (upd_t u f s) v) = unlinked (y_timers s v)" for v
    using assms by (simp add: unlinked_def)
  ultimately show ?thesis unfolding linked_def by (simp only: upd_t_fields(1))
qed

definition same_links :: "pc_timer_t \<Rightarrow> pc_timer_t \<Rightarrow> bool" where
  "same_links x y \<longleftrightarrow> t_prev y = t_prev x \<and> t_next y = t_next x \<and> t_enabled y = t_enabled x \<and>
    t_callback y = t_callback x \<and> t_priv y = t_priv x"

text \<open>Enabling a timer, in the queue or not, after its time was changed.\<close>

lemma retime_queue:
  assumes "queue s ts" and "same_links (y_timers s u) (f (y_timers s u))" and "\<bar>off (upd_t u f s) u\<bar> < 2 ^ 62"
  shows "\<exists>s' ts'. timer_enable u (upd_t u f s) = Inr s' \<and> queue s' ts' \<and> set ts' = insert u (set ts) \<and>
    relinked (upd_t u f s) s'"
proof -
  let ?s = "upd_t u f s" and ?r = "remove1 u ts"
  have off: "off ?s v = off s v" if "v \<noteq> u" for v using that by (simp add: off_def)
  have w: "window ?s" unfolding window_def
  proof
    fix v show "\<bar>off ?s v\<bar> < 2 ^ 62"
      using assms(1,3) off [of v] by (cases "v = u") (simp_all add: queue_def window_def)
  qed
  have l: "linked ?s ts" and i: "y_inited ?s" and d: "distinct ts"
    using assms(1,2) linked_same_links [of f s u ts] by (simp_all add: queue_def same_links_def linked_def)
  have "map (off ?s) ?r = map (off s) ?r" using d off by (intro map_cong refl) auto
  moreover have "sorted (map (off s) ?r)" using assms(1) by (simp add: queue_def sorted_map_remove1)
  ultimately have "sorted (map (off ?s) ?r)" by metis
  then have srt: "sorted (map (off ?s) (insort_key (off ?s) u ?r))" by (simp add: sorted_insort_key)
  from timer_enable_links [OF l i, of u] obtain s' where s': "timer_enable u ?s = Inr s'"
    "linked s' (insort_key (off ?s) u ?r)" "relinked ?s s'" unfolding place_insort [OF w] by blast
  have "queue s' (insort_key (off ?s) u ?r)"
    using s'(2) srt w i relinked_off [OF s'(3)] relinked_keeps [OF s'(3)] by (simp add: queue_def)
  moreover have "set (insort_key (off ?s) u ?r) = insert u (set ts)" using d by (auto simp: set_insort_key)
  ultimately show ?thesis using s'(1,3) by blast
qed

text \<open>Timer \<open>t\<close> may operate on itself and on timers that are not due.\<close>

definition free :: "tid \<Rightarrow> tid \<Rightarrow> timers \<Rightarrow> bool" where
  "free t u s \<longleftrightarrow> u = t \<or> \<not> t_enabled (y_timers s u) \<or> 0 < off s u"

lemma free_due:
  assumes "queue s ts" and "free t u s" and "u \<noteq> t"
  shows "u \<notin> due s ts"
  using assms linked_enabled [of s ts u] by (auto simp: free_def due_def queue_def)

lemma retime_others:
  assumes "queue s ts" and "z \<in> set ts" and "0 < off s z" and "z \<noteq> t"
    and "same_links (y_timers s u) (f (y_timers s u))" and "\<bar>off (upd_t u f s) u\<bar> < 2 ^ 62"
    and "u \<noteq> t \<Longrightarrow> 0 < off (upd_t u f s) u" and "free t u s"
  shows "\<exists>s' ts'. timer_enable u (upd_t u f s) = Inr s' \<and> others z t s ts s' ts' \<and> set ts' = insert u (set ts) \<and>
    relinked (upd_t u f s) s'"
proof -
  let ?s = "upd_t u f s"
  from retime_queue [OF assms(1,5,6)] obtain s' ts' where s': "timer_enable u ?s = Inr s'" "queue s' ts'"
    "set ts' = insert u (set ts)" "relinked ?s s'" by blast
  have o: "off s' = off ?s" using relinked_off [OF s'(4)] .
  have ov: "off s' v = off s v" if "v \<noteq> u" for v using that by (simp add: o) (simp add: off_def)
  have pos: "u \<noteq> t \<Longrightarrow> 0 < off s' u" using assms(7) o by simp
  have nd: "u \<noteq> t \<Longrightarrow> u \<notin> due s ts" by (rule free_due [OF assms(1,8)])
  have "steady s ?s" using assms(5) by (simp add: steady_def same_links_def)
  then have st: "steady s s'" using relinked_steady [OF s'(4)] by (rule steady_trans)
  have z: "z \<in> set ts'" "0 < off s' z" using assms(2-4) s'(3) pos ov [of z] by (auto, cases "z = u") auto
  have "due s' ts' - {t} = due s ts - {t}"
  proof (rule set_eqI)
    fix v
    consider "v = t" | "v \<noteq> t" "v = u" | "v \<noteq> t" "v \<noteq> u" by blast
    then show "v \<in> due s' ts' - {t} \<longleftrightarrow> v \<in> due s ts - {t}"
    proof cases
      case 2
      then show ?thesis using pos nd by (auto simp: due_def)
    next
      case 3
      then show ?thesis using ov [of v] s'(3) by (simp add: due_def)
    qed simp
  qed
  moreover have "off s' v = off s v \<and> t_split (y_timers s' v) = t_split (y_timers s v)" if "v \<in> due s ts - {t}" for v
  proof -
    have "v \<noteq> u" using that nd by auto
    then show ?thesis using ov [of v] s'(4) by (simp add: relinked_def)
  qed
  ultimately show ?thesis using s' st z by (auto simp: others_def)
qed

text \<open>Changing the fields of a timer that are neither links nor time.\<close>

lemma touch_others:
  assumes "queue s ts" and "z \<in> set ts" and "0 < off s z" and "free t u s"
    and "same_links (y_timers s u) (f (y_timers s u))"
    and "t_ts_integer (f (y_timers s u)) = t_ts_integer (y_timers s u)"
  shows "others z t s ts (upd_t u f s) ts" and "off (upd_t u f s) = off s"
proof -
  let ?s = "upd_t u f s"
  show o: "off ?s = off s" using assms(6) by (simp add: off_def fun_eq_iff)
  have "queue ?s ts"
    using assms(1,5) linked_same_links [of f s u ts] o by (simp add: queue_def same_links_def window_def)
  moreover have "steady s ?s" using assms(5) by (simp add: steady_def same_links_def)
  moreover have "v = u \<Longrightarrow> v \<noteq> t \<Longrightarrow> v \<notin> due s ts" for v using free_due [OF assms(1,4)] by blast
  ultimately show "others z t s ts ?s ts"
    using assms(2,3) o by (auto simp: others_def due_def)
qed

lemma disable_others:
  assumes "queue s ts" and "z \<in> set ts" and "0 < off s z" and "free t u s" and "u \<noteq> z"
  shows "\<exists>s' ts'. timer_disable u s = Inr s' \<and> others z t s ts s' ts' \<and> set ts' = set ts - {u} \<and> relinked s s'"
proof -
  from timer_disable_queue [OF assms(1), of u] obtain s' where s': "timer_disable u s = Inr s'"
    "queue s' (remove1 u ts)" "relinked s s'" by blast
  have o: "off s' = off s" using relinked_off [OF s'(3)] .
  have set: "set (remove1 u ts) = set ts - {u}" using assms(1) by (simp add: queue_def linked_def)
  have "u \<noteq> t \<Longrightarrow> u \<notin> due s ts" by (rule free_due [OF assms(1,4)])
  then have "due s' (remove1 u ts) - {t} = due s ts - {t}" using set o by (auto simp: due_def)
  then have "others z t s ts s' (remove1 u ts)"
    using assms(2,3,5) s'(2,3) set o relinked_steady [OF s'(3)] by (auto simp: others_def relinked_def)
  then show ?thesis using s' set by blast
qed

section \<open>Time stamps\<close>

text \<open>
  A time stamp is a 96-bit fixed point number; a delay is a signed one in 32:32 format.
\<close>

definition stamp :: "pc_timer_t \<Rightarrow> int" where
  "stamp x = uint (t_ts_integer x) * 2 ^ 32 + uint (t_ts_frac x)"

lemma int_delay_signed: "int_delay d = signed_drop_bit 32 d"
proof (rule bit_word_eqI)
  fix n assume n: "n < LENGTH(64)"
  have m: "(0xffffffff00000000 :: u64) = push_bit 32 (mask 32)"
    by (simp add: mask_eq_exp_minus_1 push_bit_eq_mult)
  have t: "tst (drop_bit 32 d) 0x80000000 \<longleftrightarrow> bit d 63"
    using tst_bit [of "drop_bit 32 d" 31] by (simp add: bit_drop_bit_eq)
  have hi: "\<not> bit d (n + 32)" if "32 \<le> n" using that bit_imp_le_length [of d "n + 32"] by auto
  have n64: "n < 64" using n by simp
  have sd: "bit (signed_drop_bit 32 d) n \<longleftrightarrow> bit d (if 32 \<le> n then 63 else 32 + n)"
    using n64 by (simp only: bit_signed_drop_bit_iff) simp
  show "bit (int_delay d) n \<longleftrightarrow> bit (signed_drop_bit 32 d) n"
    using n64 hi unfolding int_delay_def Let_def t m sd
    by (cases "32 \<le> n") (auto simp: bit_or_iff bit_drop_bit_eq bit_push_bit_iff bit_mask_iff ac_simps)
qed

lemma delay_split: "sint d = sint (int_delay d) * 2 ^ 32 + uint (frac_delay d)"
proof -
  have "uint (frac_delay d) = take_bit 32 (uint d)"
    by (simp add: frac_delay_def uint_and take_bit_eq_mask mask_eq_exp_minus_1 unsigned_ucast_eq)
  also have "\<dots> = sint d mod 2 ^ 32"
    by (simp add: take_bit_eq_mod uint_sint mod_mod_cancel)
  finally show ?thesis
    unfolding int_delay_signed sint_signed_drop_bit_eq drop_bit_eq_div by simp
qed

lemma stamp_advance: "stamp (timer_advance_ts d x) = (stamp x + sint d) mod 2 ^ 96"
proof -
  define T F I G where "T = uint (t_ts_integer x)" and "F = uint (t_ts_frac x)" and "I = sint (int_delay d)"
    and "G = uint (frac_delay d)"
  have b: "0 \<le> F" "F < 2 ^ 32" "0 \<le> G" "G < 2 ^ 32"
    using uint_lt2p [of "t_ts_frac x"] uint_lt2p [of "frac_delay d"] by (simp_all add: F_def G_def)
  have carry: "frac_delay d + t_ts_frac x < frac_delay d \<longleftrightarrow> F + G \<ge> 2 ^ 32"
    using b by (auto simp: word_less_def uint_word_ariths F_def G_def mod_add_if_z split: if_splits)
  have c: "(F + G) div 2 ^ 32 = (if F + G \<ge> 2 ^ 32 then 1 else 0)"
    using b by (simp add: div_pos_geq)
  have ii: "uint (int_delay d) = I mod 2 ^ 64" by (simp add: I_def uint_sint take_bit_eq_mod)
  have i: "uint (t_ts_integer (timer_advance_ts d x)) = (T + (F + G) div 2 ^ 32 + I) mod 2 ^ 64"
    unfolding c using carry
    by (auto simp: timer_advance_ts_def Let_def uint_word_ariths T_def ii mod_simps)
  have f: "uint (t_ts_frac (timer_advance_ts d x)) = (F + G) mod 2 ^ 32"
    by (simp add: timer_advance_ts_def Let_def uint_word_ariths F_def G_def)
  have g: "(a mod 2 ^ 64) * 2 ^ 32 + r = (a * 2 ^ 32 + r) mod 2 ^ 96" if "0 \<le> r" "r < 2 ^ 32" for a r :: int
  proof -
    have "(a * 2 ^ 32 + r) mod 2 ^ 96 = (a * 2 ^ 32 + r) mod (2 ^ 32 * 2 ^ 64)" by simp
    also have "\<dots> = 2 ^ 32 * ((a * 2 ^ 32 + r) div 2 ^ 32 mod 2 ^ 64) + (a * 2 ^ 32 + r) mod 2 ^ 32"
      by (rule zmod_zmult2_eq) simp
    finally show ?thesis using that by simp
  qed
  have "stamp (timer_advance_ts d x) = ((T + (F + G) div 2 ^ 32 + I) * 2 ^ 32 + (F + G) mod 2 ^ 32) mod 2 ^ 96"
    unfolding stamp_def i f by (rule g) simp_all
  also have "(T + (F + G) div 2 ^ 32 + I) * 2 ^ 32 + (F + G) mod 2 ^ 32 = T * 2 ^ 32 + F + (I * 2 ^ 32 + G)"
    using div_mult_mod_eq [of "F + G" "2 ^ 32"] by (simp add: algebra_simps)
  finally show ?thesis
    unfolding delay_split [of d] by (simp add: stamp_def T_def F_def I_def G_def)
qed

section \<open>Delays\<close>

lemma delay_ticks:
  assumes "uint d < 2 ^ 63"
  shows "sint (int_delay d) = uint d div 2 ^ 32" "0 \<le> sint (int_delay d)" "sint (int_delay d) < 2 ^ 31"
proof -
  have s: "sint d = uint d" using assms signed_take_bit_int_eq_self [of 63 "uint d"] order_trans [OF _ uint_nonnegative, of "- (2 ^ 63)" d]
    by (simp add: sint_uint)
  show i: "sint (int_delay d) = uint d div 2 ^ 32"
    unfolding int_delay_signed sint_signed_drop_bit_eq drop_bit_eq_div s ..
  show "0 \<le> sint (int_delay d)" unfolding i by (simp add: pos_imp_zdiv_nonneg_iff)
  show "sint (int_delay d) < 2 ^ 31" unfolding i using assms by auto
qed

lemma off_advance:
  assumes "uint d < 2 ^ 63" and "\<bar>off s u\<bar> < 2 ^ 62"
  shows "off s u + uint d div 2 ^ 32 \<le> off (upd_t u (timer_advance_ts d) s) u"
    and "off (upd_t u (timer_advance_ts d) s) u \<le> off s u + uint d div 2 ^ 32 + 1"
proof -
  let ?x = "y_timers s u"
  define c where "c = (if frac_delay d + t_ts_frac ?x < frac_delay d then 1 else 0 :: u64)"
  note i = delay_ticks [OF assms(1)]
  have c: "sint c = 0 \<or> sint c = 1" by (simp add: c_def)
  have ci: "sint (c + int_delay d) = sint c + sint (int_delay d)" using i(2,3) c by (intro sint_add_small) auto
  have "off (upd_t u (timer_advance_ts d) s) u = sint ((t_ts_integer ?x - y_tsc s) + (c + int_delay d))"
    by (simp add: off_def timer_advance_ts_def c_def Let_def algebra_simps)
  also have "\<dots> = off s u + (sint c + sint (int_delay d))"
    using sint_add_small [of "t_ts_integer ?x - y_tsc s" "c + int_delay d"] assms(2) i(2,3) c ci by (auto simp: off_def)
  finally show "off s u + uint d div 2 ^ 32 \<le> off (upd_t u (timer_advance_ts d) s) u"
    "off (upd_t u (timer_advance_ts d) s) u \<le> off s u + uint d div 2 ^ 32 + 1"
    using c unfolding i(1) by auto
qed

lemma off_set_delay:
  assumes "uint d < 2 ^ 63"
  shows "off (upd_t u (\<lambda>x. x\<lparr>t_ts_frac := g, t_ts_integer := int_delay d + y_tsc s\<rparr>) s) u = uint d div 2 ^ 32"
  using delay_ticks(1) [OF assms] by (simp add: off_def)

text \<open>A delay of at least one tick and less than \<open>2 ^ 31\<close> ticks.\<close>

definition tick_delay :: "u64 \<Rightarrow> bool" where
  "tick_delay d \<longleftrightarrow> 2 ^ 32 \<le> uint d \<and> uint d < 2 ^ 63"

lemma tick_delay_ticks: "tick_delay d \<Longrightarrow> 1 \<le> uint d div 2 ^ 32 \<and> uint d div 2 ^ 32 < 2 ^ 31"
  by (auto simp: tick_delay_def)

lemma advance_links: "same_links x (timer_advance_ts d x)" "t_split (timer_advance_ts d x) = t_split x"
  by (simp_all add: same_links_def timer_advance_ts_def Let_def)

text \<open>Advancing by a delay, not yet asking for a whole tick.\<close>

lemma advance_others:
  assumes "queue s ts" and "z \<in> set ts" and "0 < off s z" and "z \<noteq> t" and "free t u s"
    and "uint d < 2 ^ 63" and "off s u < 2 ^ 61" and "u = t \<or> 0 < off s u"
  shows "\<exists>s' ts'. timer_advance_u64 u d s = Inr s' \<and> others z t s ts s' ts' \<and> set ts' = insert u (set ts) \<and>
    relinked (upd_t u (timer_advance_ts d) s) s' \<and> off s u + uint d div 2 ^ 32 \<le> off s' u \<and>
    (\<forall>v. v \<noteq> u \<longrightarrow> off s' v = off s v)"
proof -
  have b: "\<bar>off s u\<bar> < 2 ^ 62" using assms(1) by (simp add: queue_def window_def)
  note adv = off_advance [OF assms(6) b]
  have d: "0 \<le> uint d div 2 ^ 32" "uint d div 2 ^ 32 < 2 ^ 31" using delay_ticks [OF assms(6)] by simp_all
  have w: "\<bar>off (upd_t u (timer_advance_ts d) s) u\<bar> < 2 ^ 62" using adv b d assms(7) by (simp add: abs_less_iff)
  have p: "u \<noteq> t \<Longrightarrow> 0 < off (upd_t u (timer_advance_ts d) s) u" using adv(1) d(1) assms(8) by linarith
  from retime_others [OF assms(1-4) advance_links(1) w p assms(5)] obtain s' ts' where
    s': "timer_enable u (upd_t u (timer_advance_ts d) s) = Inr s'" "others z t s ts s' ts'" "set ts' = insert u (set ts)"
      "relinked (upd_t u (timer_advance_ts d) s) s'" by blast
  have "off s' = off (upd_t u (timer_advance_ts d) s)" using relinked_off [OF s'(4)] .
  then have "off s u + uint d div 2 ^ 32 \<le> off s' u" "\<forall>v. v \<noteq> u \<longrightarrow> off s' v = off s v"
    using adv(1) by (simp_all, simp add: off_def)
  then show ?thesis using s' by (auto simp: timer_advance_u64_def)
qed

lemma set_delay_others:
  assumes "queue s ts" and "z \<in> set ts" and "0 < off s z" and "z \<noteq> t" and "free t u s" and "tick_delay d"
  shows "\<exists>s' ts'. timer_set_delay_u64 u d s = Inr s' \<and> others z t s ts s' ts' \<and> set ts' = insert u (set ts) \<and>
    steady s s' \<and> y_calls s' = y_calls s \<and> 0 < off s' u \<and> (\<forall>v. v \<noteq> u \<longrightarrow> off s' v = off s v)"
proof -
  let ?f = "\<lambda>x. x\<lparr>t_ts_frac := frac_delay d, t_ts_integer := int_delay d + y_tsc s\<rparr>"
  have o: "off (upd_t u ?f s) u = uint d div 2 ^ 32"
    using off_set_delay assms(6) by (simp add: tick_delay_def)
  then have w: "\<bar>off (upd_t u ?f s) u\<bar> < 2 ^ 62" "0 < off (upd_t u ?f s) u"
    using tick_delay_ticks [OF assms(6)] by (auto simp: abs_less_iff)
  have k: "same_links (y_timers s u) (?f (y_timers s u))" by (simp add: same_links_def)
  from retime_others [OF assms(1-4) k w assms(5)] obtain s' ts' where
    s': "timer_enable u (upd_t u ?f s) = Inr s'" "others z t s ts s' ts'" "set ts' = insert u (set ts)"
      "relinked (upd_t u ?f s) s'" by blast
  have o': "off s' = off (upd_t u ?f s)" using relinked_off [OF s'(4)] .
  then have "0 < off s' u" "\<forall>v. v \<noteq> u \<longrightarrow> off s' v = off s v" using w(2) by (simp_all, simp add: off_def)
  moreover have "steady s s'" "y_calls s' = y_calls s" using s'(2,4) by (simp_all add: others_def relinked_def)
  ultimately show ?thesis using s' by (auto simp: timer_set_delay_u64_def)
qed

section \<open>The contract of the callbacks\<close>

text \<open>
  The clock: a million microseconds are at least one tick and less than half of the range of a delay.
\<close>

definition clock_ok :: "timers \<Rightarrow> bool" where
  "clock_ok s \<longleftrightarrow> 2 ^ 32 \<le> 1000000 * uint (y_usec s) \<and> 1000000 * uint (y_usec s) < 2 ^ 63"

text \<open>A timer that has just been taken off the queue, the timer \<open>z\<close> being in it and not due.\<close>

definition callable :: "(timers \<Rightarrow> bool) \<Rightarrow> tid \<Rightarrow> timers \<Rightarrow> tid list \<Rightarrow> tid \<Rightarrow> bool" where
  "callable wfs z s ts t \<longleftrightarrow> wfs s \<and> queue s ts \<and> z \<in> set ts \<and> 0 < off s z \<and> t \<notin> set ts \<and> off s t \<le> 0"

text \<open>
  The contract: called for such a timer, a callback returns; it changes neither the callbacks nor the
  time base, leaves the other due timers alone, keeps \<open>z\<close> in the queue and undue, and if it has put its
  own timer back, then with a lower rank.
\<close>

locale callbacks =
  fixes cb :: callback and wfs :: "timers \<Rightarrow> bool" and z :: tid
  assumes wf_clock: "wfs s \<Longrightarrow> clock_ok s"
    and wf_steady: "wfs s \<Longrightarrow> steady s s' \<Longrightarrow> wfs s'"
    and cb_law: "callable wfs z s ts t \<Longrightarrow> \<not> t_split (y_timers s t) \<Longrightarrow> t_in_callback (y_timers s t) \<Longrightarrow>
      t_callback (y_timers s t) = Some c \<Longrightarrow>
      \<exists>s' ts'. cb c (t_priv (y_timers s t)) s = Inr s' \<and> others z t s ts s' ts' \<and> y_calls s' = y_calls s \<and>
        (t \<in> set ts' \<longrightarrow> rank s' t < rank s t)"

definition fired :: "timers \<Rightarrow> tid \<Rightarrow> (nat \<times> nat) list" where
  "fired s t = (if t_split (y_timers s t) then [] else
     case t_callback (y_timers s t) of None \<Rightarrow> [] | Some c \<Rightarrow> [(c, t_priv (y_timers s t))])"

definition serves :: "tid \<Rightarrow> tid \<Rightarrow> timers \<Rightarrow> tid list \<Rightarrow> timers \<Rightarrow> tid list \<Rightarrow> bool" where
  "serves z t s ts s' ts' \<longleftrightarrow> others z t s ts s' ts' \<and> y_calls s' = y_calls s @ fired s t \<and>
     (t \<in> set ts' \<longrightarrow> rank s' t < rank s t)"

text \<open>A timer that waits for a part of a long period is advanced by the next part.\<close>

lemma split_serves:
  assumes "clock_ok s" and "queue s ts" and "z \<in> set ts" and "0 < off s z" and "t \<notin> set ts" and "off s t \<le> 0"
    and "t_split (y_timers s t)"
  shows "\<exists>s' ts'. timer_advance_ex t False s = Inr s' \<and> serves z t s ts s' ts'"
proof -
  have zt: "z \<noteq> t" using assms(3,5) by blast
  have inited: "y_inited s" using assms(2) by (simp add: queue_def)
  have fr: "free t t x" for x by (simp add: free_def)
  have fi: "fired s t = []" using assms(7) by (simp add: fired_def)
  have lt: "late s t \<noteq> 0" using assms(6) by (simp add: late_def)
  have rk: "rank s t = 2 * late s t + 1" using assms(6,7) by (simp add: rank_def)
  let ?p = "t_period (y_timers s t)"
  have finish: "\<exists>s' ts'. (case timer_advance_u64 t d s of Inl e \<Rightarrow> Inl e
      | Inr s \<Rightarrow> Inr (upd_t t (\<lambda>x. x\<lparr>t_period := g x, t_split := b\<rparr>) s)) = Inr s' \<and> serves z t s ts s' ts'"
    if d: "uint d < 2 ^ 63" "b \<longrightarrow> tick_delay d" for d g b
  proof -
    have "off s t < 2 ^ 61" using assms(6) by simp
    from advance_others [OF assms(2-4) zt fr d(1) this] obtain s1 ts1 where
      s1: "timer_advance_u64 t d s = Inr s1" "others z t s ts s1 ts1" "relinked (upd_t t (timer_advance_ts d) s) s1"
        "off s t + uint d div 2 ^ 32 \<le> off s1 t" by blast
    let ?f = "\<lambda>x. x\<lparr>t_period := g x, t_split := b\<rparr>"
    have q1: "queue s1 ts1" "z \<in> set ts1" "0 < off s1 z" using s1(2) by (simp_all add: others_def)
    note touch = touch_others [OF q1 fr, where f = ?f]
    have t1: "others z t s1 ts1 (upd_t t ?f s1) ts1" "off (upd_t t ?f s1) = off s1"
      by (rule touch; simp add: same_links_def)+
    have "rank (upd_t t ?f s1) t < rank s t"
    proof -
      have "0 \<le> uint d div 2 ^ 32" using delay_ticks(1,2) [OF d(1)] by simp
      then have "off s1 t \<ge> off s t" "b \<longrightarrow> off s1 t \<ge> off s t + 1"
        using s1(4) tick_delay_ticks [of d] d(2) by linarith+
      then have "late s1 t \<le> late s t" "b \<longrightarrow> late s1 t < late s t" using lt by (auto simp: late_def)
      then show ?thesis using t1(2) rk by (auto simp: rank_def late_def)
    qed
    moreover have "y_calls s1 = y_calls s" using s1(3) by (simp add: relinked_def)
    ultimately show ?thesis
      using s1(1) others_trans [OF s1(2) t1(1)] fi by (auto simp: serves_def)
  qed
  have period: "uint (word_of_int \<lfloor>?p * real_of_int (uint (y_usec s))\<rfloor> :: u64) < 2 ^ 63" if "0 < ?p" "?p \<le> MAX_USEC"
  proof -
    have nn: "0 \<le> real_of_int (uint (y_usec s))" by (simp only: of_int_0_le_iff uint_nonnegative)
    have "?p * real_of_int (uint (y_usec s)) \<le> 1000000 * real_of_int (uint (y_usec s))"
      using that by (intro mult_right_mono [OF _ nn]) (simp add: MAX_USEC_def)
    then have "\<lfloor>?p * real_of_int (uint (y_usec s))\<rfloor> \<le> \<lfloor>real_of_int (1000000 * uint (y_usec s))\<rfloor>"
      by (intro floor_mono) simp
    then have u: "\<lfloor>?p * real_of_int (uint (y_usec s))\<rfloor> \<le> 1000000 * uint (y_usec s)" by (simp only: floor_of_int)
    have l: "0 \<le> \<lfloor>?p * real_of_int (uint (y_usec s))\<rfloor>"
      using mult_nonneg_nonneg [OF less_imp_le [OF that(1)] nn] by (simp only: zero_le_floor)
    have "uint (word_of_int k :: u64) \<le> k" if "0 \<le> k" for k
      using that by (simp add: uint_word_of_int zmod_le_nonneg_dividend)
    from this [OF l] show ?thesis using u assms(1) [unfolded clock_ok_def] by linarith
  qed
  have chunk: "tick_delay (MAX_USEC64 * y_usec s)" "uint (MAX_USEC64 * y_usec s) < 2 ^ 63"
    using assms(1) by (simp_all add: clock_ok_def tick_delay_def MAX_USEC64_def uint_word_ariths)
  consider "?p > MAX_USEC" | "0 < ?p" "?p \<le> MAX_USEC" | "?p \<le> 0" by fastforce
  then show ?thesis
  proof cases
    case 1
    then have eq: "timer_advance_ex t False s = (case timer_advance_u64 t (MAX_USEC64 * y_usec s) s of Inl e \<Rightarrow> Inl e
        | Inr s \<Rightarrow> Inr (upd_t t (\<lambda>x. x\<lparr>t_period := t_period x - MAX_USEC, t_split := True\<rparr>) s))"
      using inited by (simp add: timer_advance_ex_def timer_do_period_def Let_def)
    show ?thesis unfolding eq by (rule finish) (use chunk in simp_all)
  next
    case 2
    then have eq: "timer_advance_ex t False s =
        (case timer_advance_u64 t (word_of_int \<lfloor>?p * real_of_int (uint (y_usec s))\<rfloor>) s of Inl e \<Rightarrow> Inl e
        | Inr s \<Rightarrow> Inr (upd_t t (\<lambda>x. x\<lparr>t_period := 0, t_split := False\<rparr>) s))"
      using inited by (simp add: timer_advance_ex_def timer_do_period_def Let_def)
    show ?thesis unfolding eq by (rule finish) (use period 2 in simp_all)
  next
    case 3
    let ?f = "\<lambda>x. x\<lparr>t_period := 0, t_split := False\<rparr>"
    have "\<not> t_enabled (y_timers s t)" using linked_enabled [of s ts t] assms(2,5) by (simp add: queue_def)
    then have "timer_disable t s = Inr s" by (simp add: timer_disable_def Let_def)
    then have "timer_advance_ex t False s = Inr (upd_t t ?f s)"
      using 3 inited by (simp add: timer_advance_ex_def Let_def MAX_USEC_def)
    moreover have "others z t s ts (upd_t t ?f s) ts"
      by (rule touch_others(1) [OF assms(2-4) fr]) (simp_all add: same_links_def)
    ultimately show ?thesis using assms(5) fi by (auto simp: serves_def)
  qed
qed

context callbacks begin

lemma fire:
  assumes "callable wfs z s ts t"
  shows "\<exists>s' ts'. timer_fire cb t s = Inr s' \<and> serves z t s ts s' ts'"
proof -
  have q: "wfs s" "queue s ts" "z \<in> set ts" "0 < off s z" "t \<notin> set ts" "off s t \<le> 0"
    using assms by (simp_all add: callable_def)
  have fr: "free t t x" for x by (simp add: free_def)
  consider "t_split (y_timers s t)" | "\<not> t_split (y_timers s t)" "t_callback (y_timers s t) = None"
    | c where "\<not> t_split (y_timers s t)" "t_callback (y_timers s t) = Some c" by blast
  then show ?thesis
  proof cases
    case 1
    then show ?thesis using split_serves [OF wf_clock [OF q(1)] q(2-6)] by (simp add: timer_fire_def)
  next
    case 2
    have "others z t s ts s ts" using q by (simp add: others_def)
    with 2 q(5) show ?thesis by (auto simp: timer_fire_def serves_def fired_def)
  next
    case (3 c)
    let ?p = "t_priv (y_timers s t)"
    define s0 where "s0 = upd_t t (t_in_callback_update (\<lambda>_. True)) s"
    define s1 where "s1 = s0\<lparr>y_calls := y_calls s @ [(c, ?p)]\<rparr>"
    have o0: "others z t s ts s0 ts" "off s0 = off s"
      unfolding s0_def by (rule touch_others [OF q(2-4) fr]; simp add: same_links_def)+
    have o1: "off s1 = off s" "y_timers s1 = y_timers s0" using o0(2) by (simp_all add: s1_def off_def fun_eq_iff)
    have r1: "rank s1 t = rank s t" "rank s1 u = rank s1 u" for u
      using o1 by (simp_all add: rank_def late_def s0_def)
    have "queue s1 ts" using o0 o1 by (simp add: others_def queue_def linked_def window_def) (simp add: s1_def)
    moreover have "steady s s1" by (simp add: steady_def s1_def s0_def)
    ultimately have call: "callable wfs z s1 ts t" and o01: "others z t s ts s1 ts"
      using q o1 o0(1) wf_steady [OF q(1)] by (simp_all add: callable_def others_def due_def)
    have s1t: "\<not> t_split (y_timers s1 t)" "t_in_callback (y_timers s1 t)" "t_callback (y_timers s1 t) = Some c"
      "t_priv (y_timers s1 t) = ?p" using 3 by (simp_all add: o1(2)) (simp_all add: s0_def)
    from cb_law [OF call s1t(1-3)] obtain s2 ts2 where s2: "cb c ?p s1 = Inr s2" "others z t s1 ts s2 ts2"
      "y_calls s2 = y_calls s1" "t \<in> set ts2 \<longrightarrow> rank s2 t < rank s1 t" unfolding s1t(4) by blast
    define s3 where "s3 = upd_t t (t_in_callback_update (\<lambda>_. False)) s2"
    have q2: "queue s2 ts2" "z \<in> set ts2" "0 < off s2 z" using s2(2) by (simp_all add: others_def)
    have o3: "others z t s2 ts2 s3 ts2" "off s3 = off s2"
      unfolding s3_def by (rule touch_others [OF q2 fr]; simp add: same_links_def)+
    have "rank s3 t = rank s2 t" using o3(2) by (simp add: rank_def late_def s3_def)
    then have "t \<in> set ts2 \<longrightarrow> rank s3 t < rank s t" using s2(4) r1(1) by simp
    moreover have "others z t s ts s3 ts2" by (rule others_trans [OF others_trans [OF o01 s2(2)] o3(1)])
    moreover have "y_calls s3 = y_calls s @ fired s t" using s2(3) 3 by (simp add: s3_def s1_def fired_def)
    moreover have "timer_fire cb t s = Inr s3"
      using 3 s2(1) by (simp add: timer_fire_def s3_def s1_def s0_def)
    ultimately show ?thesis unfolding serves_def by blast
  qed
qed

lemma process_loop:
  assumes "wfs s" and "queue s ts" and "z \<in> set ts" and "0 < off s z"
  shows "\<exists>s' ts' cs. timer_process_loop cb s = Some (Inr s') \<and> queue s' ts' \<and> steady s s' \<and> z \<in> set ts' \<and>
    due s' ts' = {} \<and> y_calls s' = y_calls s @ cs \<and> (\<forall>u\<in>due s ts. set (fired s u) \<subseteq> set cs)"
  using assms
proof (induction "backlog s ts" arbitrary: s ts rule: less_induct)
  case less
  obtain t rest where ts: "ts = t # rest" using less.prems(3) by (cases ts) auto
  have head: "y_head s = Some t" using less.prems(2) ts by (simp add: queue_def linked_def)
  show ?case
  proof (cases "off s t \<le> 0")
    case False
    then have "due s ts = {}" using less.prems(2) ts by (auto simp: queue_def due_def)
    moreover have "timer_process_loop cb s = Some (Inr s)"
      using head False by (subst timer_process_loop.simps) (simp add: expired_off)
    ultimately show ?thesis using less.prems by (intro exI [of _ s] exI [of _ ts] exI [of _ "[]"]) simp
  next
    case True
    then have zr: "z \<in> set rest" using less.prems(3,4) ts by auto
    then obtain u us where rest: "rest = u # us" by (cases rest) auto
    from timer_remove_head_queue [of s t u us] less.prems(2) obtain s1 where
      s1: "timer_remove_head s = Inr s1" "queue s1 rest" "relinked s s1" unfolding ts rest by blast
    have same: "off s1 = off s" using relinked_off [OF s1(3)] .
    have split: "t_split (y_timers s1 v) = t_split (y_timers s v)" "fired s1 v = fired s v" for v
      using s1(3) by (simp_all add: relinked_def fired_def split: option.split)
    have r1: "rank s1 v = rank s v" for v using same split(1) by (simp add: rank_def late_def)
    have tin: "t \<notin> set rest" using less.prems(2) ts by (simp add: queue_def linked_def)
    have st1: "steady s s1" using relinked_steady [OF s1(3)] .
    have call: "callable wfs z s1 rest t"
      using wf_steady [OF less.prems(1) st1] s1(2) same True zr tin less.prems(4) by (simp add: callable_def)
    from fire [OF call] obtain s2 ts2 where s2: "timer_fire cb t s1 = Inr s2" "serves z t s1 rest s2 ts2" by blast
    have o2: "others z t s1 rest s2 ts2" "y_calls s2 = y_calls s1 @ fired s1 t" "t \<in> set ts2 \<longrightarrow> rank s2 t < rank s1 t"
      using s2(2) by (simp_all add: serves_def)
    have pos: "0 < rank s1 t" using True same by (simp add: rank_def late_def)
    have "backlog s2 ts2 < backlog s1 rest + rank s1 t" by (rule others_backlog [OF o2(1) tin o2(3) pos])
    also have "\<dots> = backlog s ts" using tin by (simp add: ts backlog_def r1)
    finally have dec: "backlog s2 ts2 < backlog s ts" .
    have q2: "queue s2 ts2" "steady s1 s2" "z \<in> set ts2" "0 < off s2 z" using o2(1) by (simp_all add: others_def)
    have st2: "steady s s2" by (rule steady_trans [OF st1 q2(2)])
    from less.hyps [OF dec wf_steady [OF less.prems(1) st2] q2(1,3,4)] obtain s' ts' cs where
      s': "timer_process_loop cb s2 = Some (Inr s')" "queue s' ts'" "steady s2 s'" "z \<in> set ts'" "due s' ts' = {}"
        "y_calls s' = y_calls s2 @ cs" "\<forall>u\<in>due s2 ts2. set (fired s2 u) \<subseteq> set cs" by blast
    have "timer_process_loop cb s = Some (Inr s')"
      using head True s1(1) s2(1) s'(1) by (subst timer_process_loop.simps) (simp add: expired_off)
    moreover have "y_calls s' = y_calls s @ (fired s t @ cs)"
      using s'(6) o2(2) s1(3) split(2) by (simp add: relinked_def)
    moreover have "set (fired s v) \<subseteq> set (fired s t @ cs)" if v: "v \<in> due s ts" for v
    proof (cases "v = t")
      case False
      then have "v \<in> due s1 rest - {t}" using v same by (simp add: ts due_def)
      then have "v \<in> due s2 ts2" "t_split (y_timers s2 v) = t_split (y_timers s v)"
        using o2(1) split(1) by (auto simp: others_def)
      moreover from this(2) have "fired s2 v = fired s v" using st2 by (simp add: fired_def steady_def split: option.split)
      ultimately have "set (fired s v) \<subseteq> set cs" using s'(7) by metis
      then show ?thesis by auto
    qed simp
    moreover have "steady s s'" by (rule steady_trans [OF st2 s'(3)])
    ultimately show ?thesis using s'(2,4,5) by (intro exI [of _ s'] exI [of _ ts'] exI [of _ "fired s t @ cs"]) blast
  qed
qed

lemma process:
  assumes "wfs s" and "queue s ts" and "z \<in> set ts" and "0 < off s z"
  shows "\<exists>s' u us cs. timer_process cb s = Some (Inr s') \<and> queue s' (u # us) \<and> steady s s' \<and> z \<in> set (u # us) \<and>
    (\<forall>v\<in>set (u # us). 0 < off s' v) \<and> y_target s' = t_ts_integer (y_timers s' u) \<and>
    y_calls s' = y_calls s @ cs \<and> (\<forall>v\<in>due s ts. set (fired s v) \<subseteq> set cs)"
proof -
  from process_loop [OF assms] obtain s1 ts1 cs where s1: "timer_process_loop cb s = Some (Inr s1)" "queue s1 ts1"
    "steady s s1" "z \<in> set ts1" "due s1 ts1 = {}" "y_calls s1 = y_calls s @ cs" "\<forall>v\<in>due s ts. set (fired s v) \<subseteq> set cs"
    by blast
  obtain u us where ts1: "ts1 = u # us" using s1(4) by (cases ts1) auto
  have h1: "y_head s1 = Some u" using s1(2) ts1 by (simp add: queue_def linked_def)
  have h: "y_head s \<noteq> None" using assms(2,3) by (cases ts) (auto simp: queue_def linked_def)
  let ?s = "s1\<lparr>y_target := t_ts_integer (y_timers s1 u)\<rparr>"
  have run: "timer_process cb s = Some (Inr ?s)" using s1(1) h h1 by (auto simp: timer_process_def)
  have o: "off ?s = off s1" by (simp add: off_def fun_eq_iff)
  have "queue ?s (u # us)" using s1(2) ts1 o by (simp add: queue_def linked_def window_def)
  moreover have "steady s ?s" using s1(3) by (simp add: steady_def)
  moreover have "\<forall>v\<in>set (u # us). 0 < off ?s v" using s1(5) ts1 o by (auto simp: due_def)
  ultimately show ?thesis
    using run s1(4,6,7) ts1 by (intro exI [of _ ?s] exI [of _ u] exI [of _ us] exI [of _ cs]) simp
qed

end

section \<open>What a callback may do\<close>

text \<open>
  A device's callback operates on timers through \<open>timer_advance_u64\<close>, \<open>timer_set_delay_u64\<close>,
  \<open>timer_disable\<close> and \<open>timer_on_auto\<close>: on its own timer or on others, any number of times, with delays
  that depend on the state.  \<open>acts c p s\<close> is the list of operations that handler \<open>c\<close> performs when it is
  called with the private argument \<open>p\<close> in the state \<open>s\<close>, which holds the history of all calls, so that it
  may depend on the device's own state too.
\<close>

datatype act = Advance tid u64 | Set_delay tid u64 | Stop tid | Auto tid real

fun do_act :: "act \<Rightarrow> timers \<Rightarrow> terr + timers" where
  "do_act (Advance u d) s = timer_advance_u64 u d s"
| "do_act (Set_delay u d) s = timer_set_delay_u64 u d s"
| "do_act (Stop u) s = timer_disable u s"
| "do_act (Auto u p) s = timer_on_auto u p s"

fun do_acts :: "act list \<Rightarrow> timers \<Rightarrow> terr + timers" where
  "do_acts [] s = Inr s"
| "do_acts (a # as) s = (case do_act a s of Inl e \<Rightarrow> Inl e | Inr s' \<Rightarrow> do_acts as s')"

definition script :: "(nat \<Rightarrow> nat \<Rightarrow> timers \<Rightarrow> act list) \<Rightarrow> callback" where
  "script acts c p s = do_acts (acts c p s) s"

text \<open>
  The rules for a callback of timer \<open>t\<close>: a delay is at least one tick and less than \<open>2 ^ 31\<close> ticks; it
  operates on its own timer and on timers that are not due, does not advance a timer out of the range
  of the comparisons, and does not stop \<open>z\<close>.
\<close>

definition auto_delay :: "real \<Rightarrow> timers \<Rightarrow> u64" where
  "auto_delay p s = (if p > MAX_USEC then MAX_USEC64 * y_usec s
     else word_of_int \<lfloor>p * real_of_int (uint (y_usec s))\<rfloor>)"

fun act_ok :: "tid \<Rightarrow> tid \<Rightarrow> timers \<Rightarrow> act \<Rightarrow> bool" where
  "act_ok z t s (Advance u d) \<longleftrightarrow> tick_delay d \<and> off s u < 2 ^ 61 \<and> (u = t \<or> 0 < off s u)"
| "act_ok z t s (Set_delay u d) \<longleftrightarrow> tick_delay d \<and> free t u s"
| "act_ok z t s (Stop u) \<longleftrightarrow> u \<noteq> z \<and> free t u s"
| "act_ok z t s (Auto u p) \<longleftrightarrow> free t u s \<and>
     (if p > 0 then tick_delay (auto_delay p s) \<and> off s u < 2 ^ 61 \<and>
        (u = t \<or> 0 < off s u \<or> t_period (y_timers s u) \<le> 0 \<and> \<not> t_in_callback (y_timers s u))
      else u \<noteq> z)"

fun acts_ok :: "tid \<Rightarrow> tid \<Rightarrow> timers \<Rightarrow> act list \<Rightarrow> bool" where
  "acts_ok z t s [] \<longleftrightarrow> True"
| "acts_ok z t s (a # as) \<longleftrightarrow> act_ok z t s a \<and>
     (case do_act a s of Inl e \<Rightarrow> False | Inr s' \<Rightarrow> acts_ok z t s' as)"

text \<open>What an operation does to the timer the callback was called for.\<close>

definition own :: "tid \<Rightarrow> timers \<Rightarrow> tid list \<Rightarrow> timers \<Rightarrow> tid list \<Rightarrow> bool" where
  "own t s ts s' ts' \<longleftrightarrow> late s' t \<le> late s t \<and>
     (t \<in> set ts' \<longrightarrow> t \<in> set ts \<or> late s' t < late s t \<or> late s' t = 0)"

definition moves :: "tid \<Rightarrow> tid \<Rightarrow> timers \<Rightarrow> tid list \<Rightarrow> timers \<Rightarrow> tid list \<Rightarrow> bool" where
  "moves z t s ts s' ts' \<longleftrightarrow> others z t s ts s' ts' \<and> own t s ts s' ts' \<and> y_calls s' = y_calls s"

lemma moves_trans: "moves z t s ts s' ts' \<Longrightarrow> moves z t s' ts' s'' ts'' \<Longrightarrow> moves z t s ts s'' ts''"
  using others_trans [of z t s ts s' ts' s'' ts''] by (auto simp: moves_def own_def)

lemma advance_moves:
  assumes "queue s ts" and "z \<in> set ts" and "0 < off s z" and "z \<noteq> t"
    and "tick_delay d" and "off s u < 2 ^ 61" and "u = t \<or> 0 < off s u"
  shows "\<exists>s' ts'. timer_advance_u64 u d s = Inr s' \<and> moves z t s ts s' ts'"
proof -
  have fr: "free t u s" using assms(7) by (auto simp: free_def)
  have d: "uint d < 2 ^ 63" using assms(5) by (simp add: tick_delay_def)
  from advance_others [OF assms(1-4) fr d assms(6,7)] obtain s' ts' where
    s': "timer_advance_u64 u d s = Inr s'" "others z t s ts s' ts'" "set ts' = insert u (set ts)"
      "relinked (upd_t u (timer_advance_ts d) s) s'" "off s u + uint d div 2 ^ 32 \<le> off s' u"
      "\<forall>v. v \<noteq> u \<longrightarrow> off s' v = off s v" by blast
  have "own t s ts s' ts'"
  proof (cases "u = t")
    case True
    have "off s t + 1 \<le> off s' t" using s'(5) conjunct1 [OF tick_delay_ticks [OF assms(5)]] unfolding True by linarith
    then show ?thesis by (auto simp: own_def late_def)
  next
    case False
    then show ?thesis using s'(3,6) by (simp add: own_def late_def)
  qed
  moreover have "y_calls s' = y_calls s" using s'(4) by (simp add: relinked_def)
  ultimately show ?thesis using s'(1,2) by (auto simp: moves_def)
qed

lemma set_delay_moves:
  assumes "queue s ts" and "z \<in> set ts" and "0 < off s z" and "z \<noteq> t" and "free t u s" and "tick_delay d"
  shows "\<exists>s' ts'. timer_set_delay_u64 u d s = Inr s' \<and> moves z t s ts s' ts'"
proof -
  from set_delay_others [OF assms] obtain s' ts' where
    s': "timer_set_delay_u64 u d s = Inr s'" "others z t s ts s' ts'" "set ts' = insert u (set ts)"
      "y_calls s' = y_calls s" "0 < off s' u" "\<forall>v. v \<noteq> u \<longrightarrow> off s' v = off s v" by blast
  have "own t s ts s' ts'" using s'(3,5,6) by (cases "u = t") (auto simp: own_def late_def)
  then show ?thesis using s'(1,2,4) by (auto simp: moves_def)
qed

lemma disable_moves:
  assumes "queue s ts" and "z \<in> set ts" and "0 < off s z" and "free t u s" and "u \<noteq> z"
  shows "\<exists>s' ts'. timer_disable u s = Inr s' \<and> moves z t s ts s' ts'"
proof -
  from disable_others [OF assms] obtain s' ts' where s': "timer_disable u s = Inr s'" "others z t s ts s' ts'"
    "set ts' = set ts - {u}" "relinked s s'" by blast
  then show ?thesis using relinked_off [OF s'(4)] by (auto simp: moves_def own_def late_def relinked_def)
qed

lemma touch_moves:
  assumes "queue s ts" and "z \<in> set ts" and "0 < off s z" and "free t u s"
    and "same_links (y_timers s u) (f (y_timers s u))"
    and "t_ts_integer (f (y_timers s u)) = t_ts_integer (y_timers s u)"
  shows "moves z t s ts (upd_t u f s) ts"
  using touch_others [where f = f, OF assms] by (simp add: moves_def own_def late_def)

text \<open>After its own timer was touched or moved, a callback may touch it again; the others are not due.\<close>

lemma moves_free:
  assumes "moves z t s ts s' ts'" and "queue s ts" and "free t u s"
  shows "free t u s'"
proof (cases "u = t")
  case False
  then have "u \<notin> due s ts" by (rule free_due [OF assms(2,3)])
  then have "u \<notin> due s' ts'" using assms(1) False by (auto simp: moves_def others_def)
  moreover have "queue s' ts'" using assms(1) by (simp add: moves_def others_def)
  ultimately show ?thesis
    using linked_enabled [of s' ts' u] by (auto simp: free_def due_def queue_def)
qed (simp add: free_def)

lemma moves_state: "moves z t s ts s' ts' \<Longrightarrow> queue s' ts' \<and> z \<in> set ts' \<and> 0 < off s' z"
  by (simp add: moves_def others_def)

lemma auto_moves:
  assumes "queue s ts" and "z \<in> set ts" and "0 < off s z" and "z \<noteq> t" and "act_ok z t s (Auto u p)"
  shows "\<exists>s' ts'. timer_on_auto u p s = Inr s' \<and> moves z t s ts s' ts'"
proof -
  have inited: "y_inited s" using assms(1) by (simp add: queue_def)
  have fr: "free t u s" using assms(5) by simp
  let ?q = "\<lambda>r. upd_t u (t_period_update (\<lambda>_. r)) s"
  have m0: "moves z t s ts (?q r) ts" for r by (rule touch_moves [OF assms(1-3) fr]) (simp_all add: same_links_def)
  note q0 = moves_state [OF m0] and f0 = moves_free [OF m0 assms(1) fr]
  have o0: "off (?q r) = off s" for r by (simp add: off_def fun_eq_iff)
  have last: "\<exists>s' ts'. (case e of Inl e \<Rightarrow> Inl e | Inr s \<Rightarrow> Inr (upd_t u f s)) = Inr s' \<and> moves z t s ts s' ts'"
    if e: "\<exists>s' ts'. e = Inr s' \<and> moves z t (?q r) ts s' ts'"
      and f: "\<And>x. same_links x (f x) \<and> t_ts_integer (f x) = t_ts_integer x" for e r f
  proof -
    obtain s' ts' where s': "e = Inr s'" "moves z t (?q r) ts s' ts'" using e by blast
    have m: "moves z t s ts s' ts'" by (rule moves_trans [OF m0 s'(2)])
    note q = moves_state [OF m] and fr' = moves_free [OF m assms(1) fr]
    have "moves z t s' ts' (upd_t u f s') ts'" by (rule touch_moves [OF _ _ _ fr']) (use q f in blast)+
    then show ?thesis using s'(1) moves_trans [OF m] by auto
  qed
  show ?thesis
  proof (cases "p > 0")
    case True
    define start where "start \<longleftrightarrow> t_period (y_timers s u) \<le> 0 \<and> \<not> t_in_callback (y_timers s u)"
    have ok: "tick_delay (auto_delay p s)" "off (?q p) u < 2 ^ 61" "\<not> start \<longrightarrow> u = t \<or> 0 < off (?q p) u"
      using assms(5) True o0 by (auto simp: start_def)
    have period: "\<exists>s' ts'. timer_do_period u (auto_delay p s) start (?q p) = Inr s' \<and> moves z t (?q p) ts s' ts'"
    proof (cases start)
      case True
      then show ?thesis
        using set_delay_moves [OF _ _ _ assms(4) f0 ok(1)] q0 inited by (simp add: timer_do_period_def)
    next
      case False
      then show ?thesis
        using advance_moves [OF _ _ _ assms(4) ok(1,2)] ok(3) q0 inited by (simp add: timer_do_period_def)
    qed
    have run: "timer_on_auto u p s = timer_advance_ex u start (?q p)"
      using True inited by (simp add: timer_on_auto_def timer_on_def start_def)
    show ?thesis
    proof (cases "p > MAX_USEC")
      case True
      then have "timer_on_auto u p s = (case timer_do_period u (auto_delay p s) start (?q p) of Inl e \<Rightarrow> Inl e
          | Inr s \<Rightarrow> Inr (upd_t u (\<lambda>x. x\<lparr>t_period := t_period x - MAX_USEC, t_split := True\<rparr>) s))"
        unfolding run using inited by (simp add: timer_advance_ex_def auto_delay_def Let_def)
      then show ?thesis by (simp only:) (rule last [OF period], simp add: same_links_def)
    next
      case False
      then have "timer_on_auto u p s = (case timer_do_period u (auto_delay p s) start (?q p) of Inl e \<Rightarrow> Inl e
          | Inr s \<Rightarrow> Inr (upd_t u (\<lambda>x. x\<lparr>t_period := 0, t_split := False\<rparr>) s))"
        unfolding run using inited \<open>p > 0\<close> by (simp add: timer_advance_ex_def auto_delay_def Let_def)
      then show ?thesis by (simp only:) (rule last [OF period], simp add: same_links_def)
    qed
  next
    case False
    then have "u \<noteq> z" using assms(5) by simp
    then have "\<exists>s' ts'. (if t_enabled (y_timers (?q 0) u) then timer_disable u (?q 0) else Inr (?q 0)) = Inr s' \<and>
        moves z t (?q 0) ts s' ts'"
    proof (cases "t_enabled (y_timers (?q 0) u)")
      case True
      then show ?thesis using disable_moves [OF _ _ _ f0 \<open>u \<noteq> z\<close>] q0 by (simp only: if_True)
    next
      case False
      have "free t u (?q 0)" by (rule f0)
      then have "moves z t (?q 0) ts (upd_t u (\<lambda>x. x) (?q 0)) ts"
        using q0 by (intro touch_moves) (simp_all add: same_links_def)
      moreover have "upd_t u (\<lambda>x. x) (?q 0) = ?q 0" by (simp add: upd_t_def)
      ultimately show ?thesis using False by auto
    qed
    note e = this
    have "timer_on_auto u p s = (case (if t_enabled (y_timers (?q 0) u) then timer_disable u (?q 0) else Inr (?q 0)) of
        Inl e \<Rightarrow> Inl e | Inr s \<Rightarrow> Inr (upd_t u (\<lambda>x. x\<lparr>t_split := False, t_in_callback := False\<rparr>) s))"
      using False inited by (simp add: timer_on_auto_def timer_stop_def Let_def)
    then show ?thesis by (simp only:) (rule last [OF e], simp add: same_links_def)
  qed
qed

lemma act_moves:
  assumes "queue s ts" and "z \<in> set ts" and "0 < off s z" and "z \<noteq> t" and "act_ok z t s a"
  shows "\<exists>s' ts'. do_act a s = Inr s' \<and> moves z t s ts s' ts'"
proof (cases a)
  case (Advance u d)
  then show ?thesis using advance_moves [OF assms(1-4)] assms(5) by simp
next
  case (Set_delay u d)
  then show ?thesis using set_delay_moves [OF assms(1-4)] assms(5) by simp
next
  case (Stop u)
  then show ?thesis using disable_moves [OF assms(1-3)] assms(5) by simp
next
  case (Auto u p)
  then show ?thesis using auto_moves [OF assms(1-4)] assms(5) by simp
qed

lemma acts_move:
  assumes "queue s ts" and "z \<in> set ts" and "0 < off s z" and "z \<noteq> t" and "acts_ok z t s as"
  shows "\<exists>s' ts'. do_acts as s = Inr s' \<and> moves z t s ts s' ts'"
  using assms
proof (induction "as" arbitrary: s ts)
  case Nil
  then show ?case by (auto simp: moves_def others_def own_def)
next
  case (Cons a as)
  have ok: "act_ok z t s a" using Cons.prems(5) by simp
  from act_moves [OF Cons.prems(1-4) ok] obtain s1 ts1 where
    s1: "do_act a s = Inr s1" "moves z t s ts s1 ts1" by blast
  have "acts_ok z t s1 as" using Cons.prems(5) s1(1) by simp
  with Cons.IH [of s1 ts1] moves_state [OF s1(2)] Cons.prems(4) obtain s' ts' where
    "do_acts as s1 = Inr s'" "moves z t s1 ts1 s' ts'" by blast
  then show ?case using s1(1) moves_trans [OF s1(2)] by auto
qed

text \<open>
  The permission: in every state that differs from the present one only by operations on timers, a
  callback of a due timer that has been taken off the queue keeps the rules, as long as \<open>z\<close> is in the
  queue and not due.
\<close>

definition behaves :: "(nat \<Rightarrow> nat \<Rightarrow> timers \<Rightarrow> act list) \<Rightarrow> tid \<Rightarrow> timers \<Rightarrow> bool" where
  "behaves acts z s \<longleftrightarrow> (\<forall>s' ts t c. steady s s' \<longrightarrow> queue s' ts \<longrightarrow> z \<in> set ts \<longrightarrow> 0 < off s' z \<longrightarrow> t \<notin> set ts \<longrightarrow>
     off s' t \<le> 0 \<longrightarrow> t_in_callback (y_timers s' t) \<longrightarrow> t_callback (y_timers s' t) = Some c \<longrightarrow>
     acts_ok z t s' (acts c (t_priv (y_timers s' t)) s'))"

lemma script_law:
  assumes "callable (\<lambda>s. clock_ok s \<and> behaves acts z s) z s ts t" and "\<not> t_split (y_timers s t)"
    and "t_in_callback (y_timers s t)" and "t_callback (y_timers s t) = Some c"
  shows "\<exists>s' ts'. script acts c (t_priv (y_timers s t)) s = Inr s' \<and> others z t s ts s' ts' \<and> y_calls s' = y_calls s \<and>
    (t \<in> set ts' \<longrightarrow> rank s' t < rank s t)"
proof -
  have q: "behaves acts z s" "queue s ts" "z \<in> set ts" "0 < off s z" "t \<notin> set ts" "off s t \<le> 0"
    using assms(1) by (simp_all add: callable_def)
  have ok: "acts_ok z t s (acts c (t_priv (y_timers s t)) s)"
    using q(1) [unfolded behaves_def, rule_format, OF steady_refl q(2-6) assms(3,4)] .
  have "z \<noteq> t" using q(3,5) by blast
  from acts_move [OF q(2-4) this ok] obtain s' ts' where
    s': "do_acts (acts c (t_priv (y_timers s t)) s) s = Inr s'" "moves z t s ts s' ts'" by blast
  have "rank s' t < rank s t" if "t \<in> set ts'"
    using s'(2) that q(5,6) assms(2) by (auto simp: moves_def own_def rank_def late_def)
  then show ?thesis using s' by (auto simp: script_def moves_def)
qed

interpretation scripted: callbacks "script acts" "\<lambda>s. clock_ok s \<and> behaves acts z s" z for acts z
proof
  show "clock_ok s' \<and> behaves acts z s'" if "clock_ok s \<and> behaves acts z s" "steady s s'" for s s'
  proof
    show "clock_ok s'" using that by (simp add: clock_ok_def steady_def)
    show "behaves acts z s'" using that steady_trans [OF that(2)] unfolding behaves_def by blast
  qed
qed (simp, rule script_law)

section \<open>Changing the time base\<close>

definition rebase :: "u64 \<Rightarrow> u64 \<Rightarrow> pc_timer_t \<Rightarrow> pc_timer_t" where
  "rebase new old x = x\<lparr>t_ts_integer := new + (t_ts_integer x - old)\<rparr>"

lemma set_new_tsc_loop_seg:
  assumes "seg (y_timers s) p ts None" and "distinct ts"
  shows "set_new_tsc_loop new (first_of ts None) s =
    Some (s\<lparr>y_timers := (\<lambda>u. if u \<in> set ts then rebase new (y_tsc s) (y_timers s u) else y_timers s u)\<rparr>)"
  using assms
proof (induction ts arbitrary: s p)
  case Nil
  then show ?case by (subst set_new_tsc_loop.simps) simp
next
  case (Cons t ts)
  let ?s = "upd_t t (t_ts_integer_update (\<lambda>v. new + (v - y_tsc s))) s"
  have "seg (y_timers ?s) (Some t) ts None" using Cons.prems by simp
  note IH = Cons.IH [OF this]
  have "(\<lambda>u. if u \<in> set ts then rebase new (y_tsc ?s) (y_timers ?s u) else y_timers ?s u) =
      (\<lambda>u. if u \<in> set (t # ts) then rebase new (y_tsc s) (y_timers s u) else y_timers s u)"
    using Cons.prems by (auto simp: fun_eq_iff rebase_def)
  moreover have "?s\<lparr>y_timers := m\<rparr> = s\<lparr>y_timers := m\<rparr>" for m by (simp add: upd_t_def)
  ultimately show ?case
    using IH Cons.prems by (subst set_new_tsc_loop.simps) (simp add: Let_def)
qed

section \<open>Properties\<close>

text \<open>
  C1. Over any sequence of \<open>timer_enable\<close> and \<open>timer_disable\<close> calls, in any order and on any timers
  (enabled ones included), the doubly linked list in memory is exactly the list obtained by
  ordered insertion and removal: it stays acyclic, ordered by expiry time and free of dangling
  links, timers that are not in it are unlinked and not marked enabled, and no call hangs or
  fails.
\<close>

theorem timer_ops_refine:
  assumes "queue s ts"
  shows "\<exists>s'. op_run timer_enable timer_disable ops s = Inr s' \<and>
    linked s' (fold (spec_op (off s)) ops ts) \<and> sorted (map (off s) (fold (spec_op (off s)) ops ts))"
  using tq.run_spec [OF assms, of ops] by (auto simp: queue_def)

definition idle_timer :: "tid \<Rightarrow> pc_timer_t" where
  "idle_timer t = \<lparr>t_ts_integer = of_nat t, t_ts_frac = 0, t_enabled = False, t_split = False, t_in_callback = False,
    t_period = 0, t_callback = Some 7, t_priv = t, t_prev = None, t_next = None\<rparr>"

definition idle :: timers where
  "idle = \<lparr>y_timers = (\<lambda>t. (idle_timer t)\<lparr>t_ts_integer := of_nat (if t < 64 then t else 0)\<rparr>), y_head = None, y_target = 0,
    y_inited = True, y_tsc = 0, y_usec = 0, y_calls = []\<rparr>"

lemma off_idle: "off idle t = (if t < 64 then int t else 0)"
proof -
  have "sint (of_nat t :: u64) = int t" if "t < 64" for t
    using that by (simp add: signed_of_nat signed_take_bit_int_eq_self)
  then show ?thesis by (simp add: off_def idle_def)
qed

lemma queue_idle: "queue idle []"
proof -
  have "window idle" by (simp add: window_def off_idle)
  then show ?thesis by (simp add: queue_def linked_def unlinked_def) (simp add: idle_def idle_timer_def)
qed

theorem timer_ops_refine_witness:
  "\<exists>s'. op_run timer_enable timer_disable [Enable 5, Enable 2, Enable 9, Disable 5, Enable 9, Enable 4] idle = Inr s' \<and>
    linked s' [2, 4, 9]"
  using timer_ops_refine [OF queue_idle, of "[Enable 5, Enable 2, Enable 9, Disable 5, Enable 9, Enable 4]"]
  by (auto simp: off_idle)

text \<open>
  C6. However late it is called, \<open>timer_process\<close> returns: it has called the callback of every timer
  that was due (a timer waiting for a part of a long period is advanced by the next part instead), no
  timer left in the queue is due, the queue is still well formed, and \<open>timer_target\<close> is the stamp of the
  next timer to expire.  The callbacks are any that operate on timers by the rules of \<open>act_ok\<close>, each as
  its handler number, its private argument and the state tell: they re-arm their timer by at
  least one tick, if at all, operate otherwise on timers that are not due, and do not stop the timer
  \<open>z\<close>, which is in the queue and not due; microseconds are in the range of \<open>clock_ok\<close>.
\<close>

theorem timer_process_settles:
  assumes "clock_ok s" and "behaves acts z s" and "queue s ts" and "z \<in> set ts" and "0 < off s z"
  shows "\<exists>s' u us cs. timer_process (script acts) s = Some (Inr s') \<and> queue s' (u # us) \<and> steady s s' \<and>
    z \<in> set (u # us) \<and> (\<forall>v\<in>set (u # us). 0 < off s' v) \<and> y_target s' = t_ts_integer (y_timers s' u) \<and>
    y_calls s' = y_calls s @ cs \<and>
    (\<forall>v\<in>set ts. off s v \<le> 0 \<and> \<not> t_split (y_timers s v) \<longrightarrow>
      (\<forall>c. t_callback (y_timers s v) = Some c \<longrightarrow> (c, t_priv (y_timers s v)) \<in> set cs))"
proof -
  have called: "(c, t_priv (y_timers s v)) \<in> set cs"
    if "\<forall>v\<in>due s ts. set (fired s v) \<subseteq> set cs" "v \<in> set ts" "off s v \<le> 0" "\<not> t_split (y_timers s v)"
      "t_callback (y_timers s v) = Some c" for cs v c
    using that by (auto simp: due_def fired_def)
  show ?thesis using scripted.process [OF conjI [OF assms(1,2)] assms(3-5)] called by metis
qed

definition two_timers :: timers where
  "two_timers = (case op_run timer_enable timer_disable [Enable 3, Enable 40] idle of Inr s \<Rightarrow> s | Inl _ \<Rightarrow> idle)\<lparr>y_tsc := 20, y_usec := 2 ^ 32\<rparr>"

lemma two_timers_ok: "queue two_timers [3, 40] \<and> off two_timers 3 = - 17 \<and> off two_timers 40 = 20 \<and> clock_ok two_timers \<and>
    (\<forall>t. t_callback (y_timers two_timers t) = Some 7 \<and> t_priv (y_timers two_timers t) = t \<and> \<not> t_split (y_timers two_timers t))"
proof -
  from tq.run_spec [OF queue_idle, of "[Enable 3, Enable 40]"] obtain s where
    s: "op_run timer_enable timer_disable [Enable 3, Enable 40] idle = Inr s" "queue s [3, 40]" "off s = off idle"
    by (auto simp: off_idle)
  have two: "two_timers = s\<lparr>y_tsc := 20, y_usec := 2 ^ 32\<rparr>" using s(1) by (simp add: two_timers_def)
  from timer_enable_queue [OF queue_idle, of 3] obtain s1 where s1: "timer_enable 3 idle = Inr s1" "queue s1 [3]" "relinked idle s1" by auto
  from timer_enable_queue [OF s1(2), of 40] s(1) s1(1) have "relinked s1 s" by auto
  with s1(3) have rl: "relinked idle s" by (rule relinked_trans)
  have ts: "t_ts_integer (y_timers s t) = of_nat (if t < 64 then t else 0)" for t
    using rl by (simp add: relinked_def idle_def)
  have o: "off two_timers t = (if t < 64 then int t else 0) - 20" for t
  proof -
    have "\<bar>sint (of_nat (if t < 64 then t else 0) :: u64)\<bar> < 2 ^ 62" "sint (of_nat (if t < 64 then t else 0) :: u64) = (if t < 64 then int t else 0)"
      by (auto simp: signed_of_nat signed_take_bit_int_eq_self)
    then show ?thesis
      using sint_sub_small [of "of_nat (if t < 64 then t else 0)" "20"] by (auto simp: off_def two ts)
  qed
  have "window two_timers" by (auto simp: window_def o)
  then have "queue two_timers [3, 40]"
    using s(2) o by (simp add: queue_def linked_def two)
  moreover have "clock_ok two_timers" by (simp add: clock_ok_def two)
  moreover have "\<forall>t. t_callback (y_timers two_timers t) = Some 7 \<and> t_priv (y_timers two_timers t) = t \<and>
      \<not> t_split (y_timers two_timers t)"
    using rl by (simp add: two relinked_def idle_def idle_timer_def)
  ultimately show ?thesis by (simp add: o)
qed

text \<open>
  A handler that advances timer 3 by 8 ticks, and re-arms any other timer it is called for with a
  period of two seconds, which is split.
\<close>

definition two_handlers :: "nat \<Rightarrow> nat \<Rightarrow> timers \<Rightarrow> act list" where
  "two_handlers c p s = (if p = 3 then [Advance 3 (2 ^ 35)] else [Auto p 2000000])"

lemma two_handlers_behave: "behaves two_handlers z two_timers"
proof -
  have usec: "y_usec two_timers = 2 ^ 32" by (simp add: two_timers_def)
  have "acts_ok z t s (two_handlers c (t_priv (y_timers s t)) s)"
    if "steady two_timers s" "queue s ts" "z \<in> set ts" "0 < off s z" "t \<notin> set ts" "off s t \<le> 0" for s ts t c
  proof -
    have p: "t_priv (y_timers s t) = t" "y_usec s = 2 ^ 32" using that(1) two_timers_ok usec by (simp_all add: steady_def)
    have zt: "z \<noteq> t" using that(3,5) by blast
    have "\<exists>a. two_handlers c t s = [a] \<and> act_ok z t s a"
      using that(6) p(2) by (cases "t = 3") (simp_all add: two_handlers_def tick_delay_def auto_delay_def free_def MAX_USEC_def MAX_USEC64_def)
    then obtain a where a: "two_handlers c t s = [a]" "act_ok z t s a" by blast
    from act_moves [OF that(2-4) zt a(2)] obtain s' where "do_act a s = Inr s'" by blast
    then show ?thesis using a p(1) by simp
  qed
  then show ?thesis unfolding behaves_def by blast
qed

theorem timer_process_settles_witness:
  "\<exists>s'. clock_ok two_timers \<and> behaves two_handlers 40 two_timers \<and>
    timer_process (script two_handlers) two_timers = Some (Inr s') \<and> (7, 3) \<in> set (y_calls s')"
proof -
  have ok: "clock_ok two_timers" "queue two_timers [3, 40]" "40 \<in> set [3, 40 :: nat]" "0 < off two_timers 40"
    "off two_timers 3 \<le> 0" "t_callback (y_timers two_timers 3) = Some 7" "t_priv (y_timers two_timers 3) = 3"
    "\<not> t_split (y_timers two_timers 3)"
    using two_timers_ok by simp_all
  from timer_process_settles [OF ok(1) two_handlers_behave ok(2-4)] obtain s' cs where
    s': "timer_process (script two_handlers) two_timers = Some (Inr s')" "y_calls s' = y_calls two_timers @ cs"
    "\<forall>v\<in>set [3, 40]. off two_timers v \<le> 0 \<and> \<not> t_split (y_timers two_timers v) \<longrightarrow>
      (\<forall>c. t_callback (y_timers two_timers v) = Some c \<longrightarrow> (c, t_priv (y_timers two_timers v)) \<in> set cs)"
    by blast
  have "(7, 3) \<in> set cs" using s'(3) ok(5-8) by auto
  then show ?thesis using s'(1,2) ok(1) two_handlers_behave by auto
qed

text \<open>
  C40. Advancing a timer adds the delay to its 96-bit fixed point stamp exactly: the fraction's
  carry and the sign extension of delays of \<open>2 ^ 31\<close> ticks or more are right, so repeated advances
  never drift.
\<close>

theorem timer_advance_exact:
  "stamp (timer_advance_ts delay x) = (stamp x + sint delay) mod 2 ^ 96"
  by (rule stamp_advance)

text \<open>
  Setting a delay and reading it back: after \<open>timer_set_delay_u64\<close> the timer is enabled and the
  remaining time is exactly the delay, if the expiry time does not pass the end of the 64-bit
  counter.
\<close>

theorem timer_delay_remaining:
  assumes "linked s ts" and "y_inited s" and "uint d < 2 ^ 63" and "uint (y_tsc s) + uint d div 2 ^ 32 < 2 ^ 64"
  shows "\<exists>s'. timer_set_delay_u64 t d s = Inr s' \<and> timer_is_enabled t s' \<and> timer_get_remaining_u64 t s' = uint d"
proof -
  let ?x = "(y_timers s t)\<lparr>t_ts_frac := frac_delay d, t_ts_integer := int_delay d + y_tsc s\<rparr>"
  let ?s = "upd_t t (\<lambda>x. x\<lparr>t_ts_frac := frac_delay d, t_ts_integer := int_delay d + y_tsc s\<rparr>) s"
  have seg: "seg (y_timers ?s) p us n = seg (y_timers s) p us n" for p us n by (induction us arbitrary: p) auto
  have l: "linked ?s ts" using assms(1) seg by (auto simp: linked_def unlinked_def)
  from timer_enable_links [OF l, of t] assms(2) obtain s' where s': "timer_enable t ?s = Inr s'"
    "linked s' (place (y_timers ?s) t (remove1 t ts))" "relinked ?s s'" by auto
  have en: "t_enabled (y_timers s' t)" using linked_enabled [OF s'(2), of t] by simp
  have "- (2 ^ 63) \<le> uint d" by (rule order_trans [OF _ uint_ge_0]) simp
  then have sd: "sint d = uint d" using assms(3) by (simp add: sint_uint signed_take_bit_int_eq_self)
  have i: "sint (int_delay d) = uint d div 2 ^ 32"
    unfolding int_delay_signed sint_signed_drop_bit_eq drop_bit_eq_div sd ..
  have "uint (int_delay d) = take_bit 64 (sint (int_delay d))" by (simp add: uint_sint)
  also have "\<dots> = uint d div 2 ^ 32" unfolding i using assms(3) pos_imp_zdiv_nonneg_iff [of "2 ^ 32" "uint d"] by (intro take_bit_int_eq_self) auto
  finally have ui: "uint (int_delay d) = uint d div 2 ^ 32" .
  have "uint (int_delay d + y_tsc s) = uint d div 2 ^ 32 + uint (y_tsc s)"
    using assms(4) ui uint_add_lem [of "int_delay d" "y_tsc s"] by (simp add: add.commute)
  then have "timer_remaining t s' = uint d"
    using s'(3) delay_split [of d] i sd by (simp add: timer_remaining_def relinked_def algebra_simps)
  with en s'(1) show ?thesis
    by (simp add: timer_set_delay_u64_def timer_is_enabled_def timer_get_remaining_u64_def)
qed

theorem timer_delay_remaining_witness:
  "\<exists>s'. timer_set_delay_u64 3 0x512345678 idle = Inr s' \<and> timer_get_remaining_u64 3 s' = 0x512345678"
proof -
  have "linked idle []" "y_inited idle" "y_tsc idle = 0" using queue_idle by (simp_all add: queue_def idle_def)
  then show ?thesis using timer_delay_remaining [of idle "[]" "0x512345678" 3] by auto
qed

text \<open>
  \<open>timer_set_new_tsc\<close> moves the time base without losing time: every enabled timer keeps its
  distance to the current time, so the queue and its order are unchanged and \<open>timer_target\<close> is the
  new stamp of the head.
\<close>

theorem timer_set_new_tsc_offsets:
  assumes "linked s (h # ts)"
  shows "\<exists>s'. timer_set_new_tsc new s = Some s' \<and> y_tsc s' = new \<and> linked s' (h # ts) \<and>
    (\<forall>t\<in>set (h # ts). off s' t = off s t) \<and> y_target s' = t_ts_integer (y_timers s' h)"
proof -
  let ?m = "\<lambda>u. if u \<in> set (h # ts) then rebase new (y_tsc s) (y_timers s u) else y_timers s u"
  let ?s = "s\<lparr>y_target := new + (timer_get_ts_int h s - y_tsc s)\<rparr>"
  have "seg (y_timers ?s) None (h # ts) None" "distinct (h # ts)" using assms by (simp_all add: linked_def)
  from set_new_tsc_loop_seg [OF this, of new] assms
  have "timer_set_new_tsc new s = Some (?s\<lparr>y_timers := ?m, y_tsc := new\<rparr>)"
    by (simp add: timer_set_new_tsc_def linked_def Let_def cong: if_cong)
  moreover have seg: "seg ?m p us n = seg (y_timers s) p us n" for p us n
    by (induction us arbitrary: p) (auto simp: rebase_def)
  moreover have "linked (?s\<lparr>y_timers := ?m, y_tsc := new\<rparr>) (h # ts)"
    using assms seg [of None "h # ts" None] by (simp add: linked_def del: seg.simps)
  ultimately show ?thesis
    by (auto simp: off_def rebase_def timer_get_ts_int_def)
qed

theorem timer_set_new_tsc_offsets_witness:
  "\<exists>s'. timer_set_new_tsc 1000 two_timers = Some s' \<and> off s' 3 = - 17 \<and> off s' 40 = 20"
  using timer_set_new_tsc_offsets [of two_timers 3 "[40]" 1000] two_timers_ok by (auto simp: queue_def)

text \<open>
  \<open>timer_close\<close> unlinks only the head: its loop ends after one round, because it reads the
  head's next pointer after clearing it, so the second timer still points back at the first.
\<close>

theorem timer_close_leaves_links:
  assumes "linked s (t # u # us)"
  shows "\<exists>s'. timer_close s = Some s' \<and> t_prev (y_timers s' u) = Some t"
proof -
  have "timer_close_loop (Some t) s = Some (upd_t t (\<lambda>x. x\<lparr>t_prev := None, t_next := None\<rparr>) s)"
    by (subst timer_close_loop.simps, simp add: Let_def, subst timer_close_loop.simps, simp)
  with assms show ?thesis by (auto simp: timer_close_def linked_def)
qed

theorem timer_close_leaves_links_witness:
  "\<exists>s'. timer_close two_timers = Some s' \<and> t_prev (y_timers s' 40) = Some 3"
  using timer_close_leaves_links [of two_timers 3 40 "[]"] two_timers_ok by (simp add: queue_def)

text \<open>
  When the only enabled timer is due, \<open>timer_process\<close> follows a NULL pointer: \<open>timer_remove_head\<close>
  stores into the new head without checking it, before the callback could re-arm the timer.
\<close>

theorem timer_process_last_null:
  assumes "linked s [t]" and "off s t \<le> 0"
  shows "timer_process cb s = Some (Inl NullDeref)"
  using assms
  by (subst timer_process_def, subst timer_process_loop.simps)
    (simp add: linked_def expired_off timer_remove_head_def)

theorem timer_process_last_null_witness:
  "\<exists>s. timer_enable 0 idle = Inr s \<and> timer_process (script two_handlers) s = Some (Inl NullDeref)"
proof -
  from timer_enable_queue [OF queue_idle, of 0] obtain s where "timer_enable 0 idle = Inr s" "queue s [0]" "relinked idle s" by auto
  moreover have "off s 0 = 0" using relinked_off [OF \<open>relinked idle s\<close>] by (simp add: off_idle)
  ultimately show ?thesis using timer_process_last_null [of s 0] by (auto simp: queue_def)
qed

end
