(* ===== verification/Pit_Exact.thy ===== *)
theory Pit_Exact
  imports Prelude
begin

text \<open>
  The pin-clocked 8253/8254 interval timer core of \<open>pit_exact.c\<close>.  A channel is the C structure;
  its \<open>counting_element\<close> is a 32-bit word in which 0x10000 stands for the maximal count.  The
  \<open>assert(0)\<close> of \<open>load_counting_element\<close> guards modes above 5, which \<open>canonical_mode\<close> never
  produces; the model leaves such a channel as it is, and the invariant of the companion theory
  shows that there is none.
\<close>

section \<open>State\<close>

datatype pitx_type_t = PITX_8253 | PITX_8254

datatype pitx_state_t =
    PITX_WAIT_COUNT
  | PITX_WAIT_TRIGGER
  | PITX_WAIT_GATE
  | PITX_LOAD_NEXT
  | PITX_COUNTING
  | PITX_RELOAD_NEXT
  | PITX_STROBE_RECOVER
  | PITX_DONE

record pitx_channel_t =
  x_type :: pitx_type_t
  x_control :: u8
  x_mode_raw :: u8
  x_mode :: u8
  x_rw_mode :: u8
  x_bcd :: bool
  x_write_phase :: u8
  x_read_phase :: u8
  x_count_latched :: bool
  x_status_latched :: bool
  x_output_latch :: u16
  x_status_latch :: u8
  x_count_register :: u16
  x_counting_element :: u32
  x_null_count :: bool
  x_gate :: bool
  x_output :: bool
  x_armed :: bool
  x_initial_load :: bool
  x_incomplete_reload :: bool
  x_ce_undefined :: bool
  x_toggle_on_reload :: bool
  x_state :: pitx_state_t
  x_clocks :: u64

record pitx_device_t =
  d_type :: pitx_type_t
  d_channel :: "pitx_channel_t list"
  d_last_control :: u8

section \<open>Counting\<close>

definition canonical_mode :: "u8 \<Rightarrow> u8" where
  "canonical_mode raw = (let raw = raw AND 7 in if raw > 5 then raw AND 3 else raw)"

definition reload_value :: "pitx_channel_t \<Rightarrow> u32" where
  "reload_value c = (if x_count_register c \<noteq> 0 then ucast (x_count_register c) else 0x10000)"

definition visible_count :: "u32 \<Rightarrow> u16" where
  "visible_count v = (if v = 0x10000 then 0 else ucast v)"

definition update_live_latch :: "pitx_channel_t \<Rightarrow> pitx_channel_t" where
  "update_live_latch c =
    (if \<not> x_count_latched c then c\<lparr>x_output_latch := visible_count (x_counting_element c)\<rparr> else c)"

definition bcd_decrement :: "u32 \<Rightarrow> u32" where
  "bcd_decrement v =
    (if v = 0 \<or> v = 0x10000 then 0x9999
     else if v AND 0x000f \<noteq> 0 then (v - 1) AND 0xffff
     else if v AND 0x00f0 \<noteq> 0 then (v - 0x0007) AND 0xffff
     else if v AND 0x0f00 \<noteq> 0 then (v - 0x0067) AND 0xffff
     else (v - 0x0667) AND 0xffff)"

definition decrement_ce :: "bool \<Rightarrow> u32 \<Rightarrow> u32" where
  "decrement_ce bcd v =
    (if bcd then bcd_decrement v
     else if v = 0 then 0xffff
     else if v = 0x10000 then 0xffff
     else (v - 1) AND 0xffff)"

definition decrement :: "pitx_channel_t \<Rightarrow> pitx_channel_t" where
  "decrement c = update_live_latch (c\<lparr>x_counting_element := decrement_ce (x_bcd c) (x_counting_element c)\<rparr>)"

fun decrement_n :: "pitx_channel_t \<Rightarrow> nat \<Rightarrow> pitx_channel_t" where
  "decrement_n c 0 = c"
| "decrement_n c (Suc n) = decrement_n (decrement c) n"

definition set_output :: "pitx_channel_t \<Rightarrow> bool \<Rightarrow> pitx_channel_t" where
  "set_output c out = c\<lparr>x_output := out\<rparr>"

definition load_counting_element :: "pitx_channel_t \<Rightarrow> pitx_channel_t" where
  "load_counting_element c =
    (let load = reload_value c;
         load = (if x_type c = PITX_8254 \<and> x_mode c = 3 \<and> tst (x_count_register c) 1 then load AND 0xfffe else load);
         c = c\<lparr>x_counting_element := load, x_null_count := False, x_ce_undefined := False\<rparr>;
         c = (if x_rw_mode c = 3 \<and> x_write_phase c = 1 then c\<lparr>x_incomplete_reload := True\<rparr> else c);
         c = update_live_latch c
     in if x_mode c = 0 then (set_output c False)\<lparr>x_state := PITX_COUNTING\<rparr>
        else if x_mode c = 1 then (set_output c False)\<lparr>x_state := PITX_COUNTING\<rparr>
        else if x_mode c = 2 then
          (set_output c True)\<lparr>x_state := (if x_gate c then PITX_COUNTING else PITX_WAIT_GATE)\<rparr>
        else if x_mode c = 3 then
          (let c = (if x_toggle_on_reload c then (set_output c (\<not> x_output c))\<lparr>x_toggle_on_reload := False\<rparr>
                    else if x_state c \<noteq> PITX_RELOAD_NEXT then set_output c True
                    else c)
           in c\<lparr>x_state := (if x_gate c then PITX_COUNTING else PITX_WAIT_GATE)\<rparr>)
        else if x_mode c = 4 then (set_output c True)\<lparr>x_state := PITX_COUNTING\<rparr>
        else if x_mode c = 5 then (set_output c True)\<lparr>x_state := PITX_COUNTING\<rparr>
        else c)"

section \<open>Reset\<close>

definition reset_channel :: "pitx_type_t \<Rightarrow> pitx_channel_t" where
  "reset_channel type = \<lparr>x_type = type, x_control = 0, x_mode_raw = 0, x_mode = 0, x_rw_mode = 1, x_bcd = False,
    x_write_phase = 0, x_read_phase = 0, x_count_latched = False, x_status_latched = False, x_output_latch = 0,
    x_status_latch = 0, x_count_register = 0, x_counting_element = 0, x_null_count = True, x_gate = False,
    x_output = False, x_armed = False, x_initial_load = True, x_incomplete_reload = False, x_ce_undefined = False,
    x_toggle_on_reload = False, x_state = PITX_WAIT_COUNT, x_clocks = 0\<rparr>"

definition pitx_reset :: "pitx_type_t \<Rightarrow> pitx_device_t" where
  "pitx_reset type = \<lparr>d_type = type, d_channel = replicate 3 (reset_channel type), d_last_control = 0\<rparr>"

definition pitx_init :: "pitx_type_t \<Rightarrow> pitx_device_t" where
  "pitx_init type = pitx_reset type"

section \<open>Control word\<close>

definition latch_count :: "pitx_channel_t \<Rightarrow> pitx_channel_t" where
  "latch_count c =
    (if x_count_latched c then c
     else c\<lparr>x_output_latch := visible_count (x_counting_element c), x_count_latched := True, x_read_phase := 0\<rparr>)"

definition latch_status :: "pitx_channel_t \<Rightarrow> pitx_channel_t" where
  "latch_status c =
    (if x_status_latched c then c
     else c\<lparr>x_status_latch := (if x_output c then 0x80 else 0) OR (if x_null_count c then 0x40 else 0) OR (x_control c AND 0x3f),
            x_status_latched := True\<rparr>)"

definition program_mode :: "pitx_channel_t \<Rightarrow> u8 \<Rightarrow> pitx_channel_t" where
  "program_mode c control =
    (let raw = drop_bit 1 control AND 7;
         c = c\<lparr>x_control := control, x_mode_raw := raw, x_mode := canonical_mode raw,
               x_rw_mode := drop_bit 4 control AND 3, x_bcd := tst control 1,
               x_write_phase := 0, x_read_phase := 0, x_count_latched := False, x_status_latched := False,
               x_null_count := True, x_armed := False, x_initial_load := True, x_incomplete_reload := False,
               x_ce_undefined := True, x_toggle_on_reload := False, x_state := PITX_WAIT_COUNT\<rparr>
     in set_output c (x_mode c \<noteq> 0))"

definition upd_ch :: "nat \<Rightarrow> (pitx_channel_t \<Rightarrow> pitx_channel_t) \<Rightarrow> pitx_device_t \<Rightarrow> pitx_device_t" where
  "upd_ch i f pit = pit\<lparr>d_channel := (d_channel pit)[i := f (d_channel pit ! i)]\<rparr>"

definition read_back :: "u8 \<Rightarrow> pitx_device_t \<Rightarrow> nat \<Rightarrow> pitx_device_t" where
  "read_back v pit i =
    (if v AND push_bit i 2 = 0 then pit
     else
       (let pit = (if v AND 0x20 = 0 then upd_ch i latch_count pit else pit)
        in if v AND 0x10 = 0 then upd_ch i latch_status pit else pit))"

definition pitx_control_write :: "pitx_device_t \<Rightarrow> u8 \<Rightarrow> pitx_device_t" where
  "pitx_control_write pit v =
    (let select = unat (drop_bit 6 v);
         pit = pit\<lparr>d_last_control := v\<rparr>
     in if select = 3 then
          (if d_type pit \<noteq> PITX_8254 then pit else foldl (read_back v) pit [0..<3])
        else if v AND 0x30 = 0 then upd_ch select latch_count pit
        else upd_ch select (\<lambda>c. program_mode c v) pit)"

section \<open>Data port\<close>

definition finalize_write :: "pitx_channel_t \<Rightarrow> pitx_channel_t" where
  "finalize_write c =
    (let c = (if x_count_register c = 1 then
                (if x_mode c = 2 then c\<lparr>x_count_register := 2\<rparr>
                 else if x_mode c = 3 then c\<lparr>x_count_register := 0\<rparr> else c)
              else c);
         c = c\<lparr>x_null_count := True, x_armed := True\<rparr>
     in if x_initial_load c then
          c\<lparr>x_initial_load := False,
            x_state := (if x_mode c = 1 \<or> x_mode c = 5 then PITX_WAIT_TRIGGER else PITX_LOAD_NEXT)\<rparr>
        else
          (let c = (if x_incomplete_reload c \<or> x_mode c = 0 \<or> x_mode c = 4 then c\<lparr>x_state := PITX_LOAD_NEXT\<rparr> else c)
           in c\<lparr>x_incomplete_reload := False\<rparr>))"

definition data_write :: "u8 \<Rightarrow> pitx_channel_t \<Rightarrow> pitx_channel_t" where
  "data_write v c =
    (if x_rw_mode c = 1 then finalize_write (c\<lparr>x_count_register := ucast v\<rparr>)
     else if x_rw_mode c = 2 then finalize_write (c\<lparr>x_count_register := push_bit 8 (ucast v)\<rparr>)
     else if x_rw_mode c = 3 then
       (if x_write_phase c = 0 then
          (let c = c\<lparr>x_count_register := (x_count_register c AND 0xff00) OR ucast v, x_write_phase := 1\<rparr>
           in if x_mode c = 0 then set_output (c\<lparr>x_state := PITX_WAIT_COUNT\<rparr>) False else c)
        else
          finalize_write (c\<lparr>x_count_register := (x_count_register c AND 0x00ff) OR push_bit 8 (ucast v),
                            x_write_phase := 0\<rparr>))
     else c)"

definition pitx_data_write :: "pitx_device_t \<Rightarrow> nat \<Rightarrow> u8 \<Rightarrow> pitx_device_t" where
  "pitx_data_write pit channel v = (if channel \<ge> 3 then pit else upd_ch channel (data_write v) pit)"

definition data_read :: "pitx_channel_t \<Rightarrow> u8 \<times> pitx_channel_t" where
  "data_read c =
    (if x_status_latched c then (x_status_latch c, c\<lparr>x_status_latched := False\<rparr>)
     else
       (let v = (if x_count_latched c then x_output_latch c else visible_count (x_counting_element c))
        in if \<not> x_count_latched c \<and> x_rw_mode c = 3 \<and> x_write_phase c = 1 then
             (NOT (ucast (x_count_register c AND 0xff)), c)
           else if x_rw_mode c = 1 then (ucast v, c\<lparr>x_count_latched := False\<rparr>)
           else if x_rw_mode c = 2 then (ucast (drop_bit 8 v), c\<lparr>x_count_latched := False\<rparr>)
           else if x_rw_mode c = 3 then
             (if x_read_phase c = 0 then (ucast v, c\<lparr>x_read_phase := 1\<rparr>)
              else (ucast (drop_bit 8 v), c\<lparr>x_read_phase := 0, x_count_latched := False\<rparr>))
           else (0, c)))"

definition pitx_data_read :: "pitx_device_t \<Rightarrow> nat \<Rightarrow> u8 \<times> pitx_device_t" where
  "pitx_data_read pit channel =
    (if channel \<ge> 3 then (0xff, pit)
     else (let (v, c) = data_read (d_channel pit ! channel) in (v, upd_ch channel (\<lambda>_. c) pit)))"

section \<open>Gate and clock\<close>

definition set_gate :: "bool \<Rightarrow> pitx_channel_t \<Rightarrow> pitx_channel_t" where
  "set_gate gate c =
    (let old = x_gate c; c = c\<lparr>x_gate := gate\<rparr>
     in if \<not> old \<and> gate then
          (if x_mode c = 1 \<or> x_mode c = 5 then
             (if x_state c \<noteq> PITX_WAIT_COUNT then c\<lparr>x_armed := True, x_state := PITX_LOAD_NEXT\<rparr> else c)
           else if x_mode c = 2 \<or> x_mode c = 3 then
             (if x_state c \<noteq> PITX_WAIT_COUNT then c\<lparr>x_state := PITX_LOAD_NEXT\<rparr> else c)
           else c)
        else if old \<and> \<not> gate then
          (if x_mode c = 2 \<or> x_mode c = 3 then
             (let c = set_output c True
              in if x_state c \<noteq> PITX_WAIT_COUNT then c\<lparr>x_state := PITX_WAIT_GATE\<rparr> else c)
           else c)
        else c)"

definition pitx_set_gate :: "pitx_device_t \<Rightarrow> nat \<Rightarrow> bool \<Rightarrow> pitx_device_t" where
  "pitx_set_gate pit channel gate = (if channel \<ge> 3 then pit else upd_ch channel (set_gate gate) pit)"

definition count_mode3 :: "pitx_channel_t \<Rightarrow> pitx_channel_t" where
  "count_mode3 c =
    (let odd = tst (x_count_register c) 1
     in if odd \<and> x_type c = PITX_8254 then
          (let c = decrement_n c 2
           in if visible_count (x_counting_element c) = 0 then
                (if x_output c then c\<lparr>x_toggle_on_reload := True, x_state := PITX_RELOAD_NEXT\<rparr>
                 else update_live_latch ((set_output c True)\<lparr>x_counting_element := reload_value c AND 0xfffe\<rparr>))
              else c)
        else
          (let c = (if odd \<and> tst (x_counting_element c) 1 then decrement_n c (if x_output c then 1 else 3)
                    else decrement_n c 2)
           in if visible_count (x_counting_element c) = 0 then
                update_live_latch ((set_output c (\<not> x_output c))\<lparr>x_counting_element := reload_value c\<rparr>)
              else c))"

definition tick_count :: "pitx_channel_t \<Rightarrow> pitx_channel_t" where
  "tick_count c =
    (if x_mode c = 0 then
       (if x_gate c then
          (let c = decrement c in if visible_count (x_counting_element c) = 0 then set_output c True else c)
        else c)
     else if x_mode c = 1 then
       (let c = decrement c
        in if visible_count (x_counting_element c) = 0 then
             (let c = (if x_armed c then set_output c True else c) in c\<lparr>x_armed := False\<rparr>)
           else c)
     else if x_mode c = 2 then
       (if x_gate c then
          (let c = decrement c
           in if visible_count (x_counting_element c) = 1 then (set_output c False)\<lparr>x_state := PITX_RELOAD_NEXT\<rparr> else c)
        else c)
     else if x_mode c = 3 then (if x_gate c then count_mode3 c else c)
     else if x_mode c = 4 then
       (if x_gate c then
          (let c = decrement c
           in if visible_count (x_counting_element c) = 0 then (set_output c False)\<lparr>x_state := PITX_STROBE_RECOVER\<rparr> else c)
        else c)
     else if x_mode c = 5 then
       (let c = decrement c
        in if visible_count (x_counting_element c) = 0
           then (set_output c False)\<lparr>x_armed := False, x_state := PITX_STROBE_RECOVER\<rparr> else c)
     else c)"

definition tick_channel :: "pitx_channel_t \<Rightarrow> pitx_channel_t" where
  "tick_channel c =
    (let c = c\<lparr>x_clocks := x_clocks c + 1\<rparr>
     in case x_state c of
          PITX_LOAD_NEXT \<Rightarrow> load_counting_element c
        | PITX_RELOAD_NEXT \<Rightarrow> load_counting_element c
        | PITX_STROBE_RECOVER \<Rightarrow> (set_output c True)\<lparr>x_state := PITX_COUNTING\<rparr>
        | PITX_WAIT_TRIGGER \<Rightarrow>
            (if x_ce_undefined c \<and> x_armed c then update_live_latch (c\<lparr>x_counting_element := 3\<rparr>) else c)
        | PITX_WAIT_COUNT \<Rightarrow> c
        | PITX_WAIT_GATE \<Rightarrow> c
        | PITX_DONE \<Rightarrow> c
        | PITX_COUNTING \<Rightarrow> tick_count c)"

definition pitx_tick_channel :: "pitx_device_t \<Rightarrow> nat \<Rightarrow> pitx_device_t" where
  "pitx_tick_channel pit channel = (if channel \<ge> 3 then pit else upd_ch channel tick_channel pit)"

definition pitx_tick :: "pitx_device_t \<Rightarrow> pitx_device_t" where
  "pitx_tick pit = foldl pitx_tick_channel pit [0..<3]"

definition pitx_get_count :: "pitx_device_t \<Rightarrow> nat \<Rightarrow> u16" where
  "pitx_get_count pit channel = (if channel \<ge> 3 then 0 else visible_count (x_counting_element (d_channel pit ! channel)))"

definition pitx_get_output :: "pitx_device_t \<Rightarrow> nat \<Rightarrow> bool" where
  "pitx_get_output pit channel \<longleftrightarrow> channel < 3 \<and> x_output (d_channel pit ! channel)"

end
