(* ===== verification/Pit_Correct.thy ===== *)
theory Pit_Correct
  imports Pit_Exact
begin

text \<open>
  Correctness of the interval timer core: what the counting element holds in binary and in BCD, the
  waveforms of the counting modes, the latch commands, the bus protocol and a state in which the
  8253's square wave stops for good.
\<close>

section \<open>Fields\<close>

definition core :: "pitx_channel_t \<Rightarrow> pitx_channel_t" where
  "core c = c\<lparr>x_output_latch := 0, x_clocks := 0\<rparr>"

lemma live_latch_fields [simp]:
  "x_counting_element (update_live_latch c) = x_counting_element c" "x_output (update_live_latch c) = x_output c"
  "x_state (update_live_latch c) = x_state c" "x_mode (update_live_latch c) = x_mode c"
  "x_gate (update_live_latch c) = x_gate c" "x_bcd (update_live_latch c) = x_bcd c" "x_type (update_live_latch c) = x_type c"
  "x_count_register (update_live_latch c) = x_count_register c" "x_toggle_on_reload (update_live_latch c) = x_toggle_on_reload c"
  "x_rw_mode (update_live_latch c) = x_rw_mode c" "x_write_phase (update_live_latch c) = x_write_phase c"
  "x_read_phase (update_live_latch c) = x_read_phase c"
  "x_count_latched (update_live_latch c) = x_count_latched c" "x_status_latched (update_live_latch c) = x_status_latched c"
  "x_armed (update_live_latch c) = x_armed c" "x_initial_load (update_live_latch c) = x_initial_load c"
  "x_count_latched c \<Longrightarrow> x_output_latch (update_live_latch c) = x_output_latch c"
  by (simp_all add: update_live_latch_def)

lemma decrement_fields [simp]:
  "x_counting_element (decrement c) = decrement_ce (x_bcd c) (x_counting_element c)" "x_output (decrement c) = x_output c"
  "x_state (decrement c) = x_state c" "x_mode (decrement c) = x_mode c" "x_gate (decrement c) = x_gate c"
  "x_bcd (decrement c) = x_bcd c" "x_type (decrement c) = x_type c" "x_count_register (decrement c) = x_count_register c"
  "x_toggle_on_reload (decrement c) = x_toggle_on_reload c" "x_rw_mode (decrement c) = x_rw_mode c"
  "x_write_phase (decrement c) = x_write_phase c" "x_count_latched (decrement c) = x_count_latched c"
  "x_read_phase (decrement c) = x_read_phase c" "x_status_latched (decrement c) = x_status_latched c" "x_armed (decrement c) = x_armed c"
  "x_count_latched c \<Longrightarrow> x_output_latch (decrement c) = x_output_latch c"
  by (simp_all add: decrement_def)

lemma set_output_fields [simp]:
  "x_output (set_output c v) = v" "x_counting_element (set_output c v) = x_counting_element c" "x_state (set_output c v) = x_state c"
  "x_mode (set_output c v) = x_mode c" "x_gate (set_output c v) = x_gate c" "x_bcd (set_output c v) = x_bcd c"
  "x_type (set_output c v) = x_type c" "x_count_register (set_output c v) = x_count_register c"
  "x_toggle_on_reload (set_output c v) = x_toggle_on_reload c" "x_rw_mode (set_output c v) = x_rw_mode c"
  "x_write_phase (set_output c v) = x_write_phase c" "x_count_latched (set_output c v) = x_count_latched c"
  "x_read_phase (set_output c v) = x_read_phase c" "x_status_latched (set_output c v) = x_status_latched c" "x_armed (set_output c v) = x_armed c"
  "x_output_latch (set_output c v) = x_output_latch c"
  by (simp_all add: set_output_def)

lemma reload_value_cong:
  "x_count_register c' = x_count_register c \<Longrightarrow> reload_value c' = reload_value c"
  by (simp add: reload_value_def)

lemma reload_fields [simp]:
  "reload_value (update_live_latch c) = reload_value c" "reload_value (decrement c) = reload_value c"
  "reload_value (set_output c v) = reload_value c" "reload_value (c\<lparr>x_state := s\<rparr>) = reload_value c"
  "reload_value (c\<lparr>x_clocks := n\<rparr>) = reload_value c" "reload_value (c\<lparr>x_toggle_on_reload := b\<rparr>) = reload_value c"
  "reload_value (c\<lparr>x_counting_element := w\<rparr>) = reload_value c" "reload_value (c\<lparr>x_armed := b\<rparr>) = reload_value c"
  by (simp_all add: reload_value_def)

section \<open>What the counting element holds\<close>

text \<open>
  A down counter: \<open>ce n\<close> is the word that stands for \<open>n\<close> remaining counts, up to \<open>top\<close>, which
  is shown as zero.  The laws are what the waveform proofs use; binary and BCD counting provide
  them.
\<close>

locale down_counter =
  fixes ce :: "nat \<Rightarrow> u32" and bcd :: bool and top :: nat
  assumes top_even: "even top" and top_big: "4 \<le> top"
    and dec_ce: "0 < n \<Longrightarrow> n \<le> top \<Longrightarrow> decrement_ce bcd (ce n) = ce (n - 1)"
    and visible_ce: "n < top \<Longrightarrow> visible_count (ce n) = 0 \<longleftrightarrow> n = 0"
    and visible_ce_1: "n < top \<Longrightarrow> visible_count (ce n) = 1 \<longleftrightarrow> n = 1"
    and odd_ce: "n \<le> top \<Longrightarrow> bit (ce n) 0 \<longleftrightarrow> odd n"
    and even_ce: "n < top \<Longrightarrow> odd n \<Longrightarrow> ce n AND 0xfffe = ce (n - 1)"

section \<open>Waveforms\<close>

text \<open>The settings a waveform depends on: counter type, gate high, and the count \<open>N\<close> to reload.\<close>

definition running :: "(nat \<Rightarrow> u32) \<Rightarrow> bool \<Rightarrow> nat \<Rightarrow> pitx_channel_t \<Rightarrow> bool" where
  "running ce bcd N c \<longleftrightarrow> x_bcd c = bcd \<and> x_gate c \<and> reload_value c = ce N \<and> \<not> x_toggle_on_reload c"

text \<open>Clock \<open>k\<close> of a mode 0 count, of a mode 2 period and of a mode 3 period.\<close>

definition once_pos :: "(nat \<Rightarrow> u32) \<Rightarrow> bool \<Rightarrow> nat \<Rightarrow> nat \<Rightarrow> pitx_channel_t \<Rightarrow> bool" where
  "once_pos ce bcd N k c \<longleftrightarrow> x_mode c = 0 \<and> x_bcd c = bcd \<and> x_gate c \<and> x_state c = PITX_COUNTING \<and>
    (if k < N then x_counting_element c = ce (N - k) \<and> \<not> x_output c else x_output c)"

definition rate_pos :: "(nat \<Rightarrow> u32) \<Rightarrow> bool \<Rightarrow> nat \<Rightarrow> nat \<Rightarrow> pitx_channel_t \<Rightarrow> bool" where
  "rate_pos ce bcd N k c \<longleftrightarrow> x_mode c = 2 \<and> running ce bcd N c \<and> x_counting_element c = ce (N - k) \<and>
    x_output c = (k \<noteq> N - 1) \<and> x_state c = (if k = N - 1 then PITX_RELOAD_NEXT else PITX_COUNTING)"

text \<open>The number of clocks the output is high in a mode 3 period.\<close>

definition high :: "nat \<Rightarrow> nat" where
  "high N = (N + 1) div 2"

definition square_left :: "pitx_type_t \<Rightarrow> nat \<Rightarrow> nat \<Rightarrow> nat" where
  "square_left type N k =
    (let h = high N
     in if even N then (if k < h then N - 2 * k else N - 2 * (k - h))
        else if type = PITX_8254 then (if k < h then N - 1 - 2 * k else N - 1 - 2 * (k - h))
        else if k = 0 \<or> k = h then N
        else if k < h then N + 1 - 2 * k else N - 1 - 2 * (k - h))"

definition square_pos :: "(nat \<Rightarrow> u32) \<Rightarrow> bool \<Rightarrow> nat \<Rightarrow> nat \<Rightarrow> pitx_channel_t \<Rightarrow> bool" where
  "square_pos ce bcd N k c \<longleftrightarrow> x_mode c = 3 \<and> x_bcd c = bcd \<and> x_gate c \<and> reload_value c = ce N \<and>
    x_counting_element c = ce (square_left (x_type c) N k) \<and> x_output c = (k < high N) \<and>
    (let turn = odd N \<and> x_type c = PITX_8254 \<and> k + 1 = high N
     in x_toggle_on_reload c = turn \<and> x_state c = (if turn then PITX_RELOAD_NEXT else PITX_COUNTING))"

definition ticks :: "nat \<Rightarrow> pitx_channel_t \<Rightarrow> pitx_channel_t" where
  "ticks k c = (tick_channel ^^ k) c"

lemma ticks_simps [simp]: "ticks 0 c = c" "ticks (Suc k) c = tick_channel (ticks k c)"
  by (simp_all add: ticks_def)

lemma register_odd:
  "reload_value c = ce N \<Longrightarrow> bit (ce N) 0 = odd N \<Longrightarrow> bit (x_count_register c) 0 = odd N"
proof -
  assume a: "reload_value c = ce N" "bit (ce N) 0 = odd N"
  have "bit (reload_value c) 0 = bit (x_count_register c) 0"
    by (simp add: reload_value_def bit_ucast_iff)
  with a show ?thesis by simp
qed

lemma decrement_n_fields [simp]:
  "x_counting_element (decrement_n c k) = (decrement_ce (x_bcd c) ^^ k) (x_counting_element c)" "x_output (decrement_n c k) = x_output c"
  "x_state (decrement_n c k) = x_state c" "x_mode (decrement_n c k) = x_mode c" "x_gate (decrement_n c k) = x_gate c"
  "x_bcd (decrement_n c k) = x_bcd c" "x_type (decrement_n c k) = x_type c" "x_count_register (decrement_n c k) = x_count_register c"
  "x_toggle_on_reload (decrement_n c k) = x_toggle_on_reload c"
  by (induction k arbitrary: c) (simp_all add: funpow_swap1)

text \<open>The part of \<open>load_counting_element\<close> common to all modes.\<close>

definition loaded :: "pitx_channel_t \<Rightarrow> pitx_channel_t" where
  "loaded c =
    (let load = reload_value c;
         load = (if x_type c = PITX_8254 \<and> x_mode c = 3 \<and> tst (x_count_register c) 1 then load AND 0xfffe else load);
         c = c\<lparr>x_counting_element := load, x_null_count := False, x_ce_undefined := False\<rparr>;
         c = (if x_rw_mode c = 3 \<and> x_write_phase c = 1 then c\<lparr>x_incomplete_reload := True\<rparr> else c)
     in update_live_latch c)"

lemma loaded_fields [simp]:
  "x_counting_element (loaded c) =
    (if x_type c = PITX_8254 \<and> x_mode c = 3 \<and> bit (x_count_register c) 0 then reload_value c AND 0xfffe else reload_value c)"
  "x_mode (loaded c) = x_mode c" "x_bcd (loaded c) = x_bcd c" "x_type (loaded c) = x_type c" "x_gate (loaded c) = x_gate c"
  "x_count_register (loaded c) = x_count_register c" "x_toggle_on_reload (loaded c) = x_toggle_on_reload c"
  "x_output (loaded c) = x_output c" "x_state (loaded c) = x_state c" "x_rw_mode (loaded c) = x_rw_mode c"
  "x_count_latched (loaded c) = x_count_latched c" "x_read_phase (loaded c) = x_read_phase c"
  "x_write_phase (loaded c) = x_write_phase c" "x_status_latched (loaded c) = x_status_latched c"
  "x_count_latched c \<Longrightarrow> x_output_latch (loaded c) = x_output_latch c"
  by (simp_all add: loaded_def Let_def)

lemma load_eq: "load_counting_element c =
    (let c = loaded c
     in if x_mode c = 0 then (set_output c False)\<lparr>x_state := PITX_COUNTING\<rparr>
        else if x_mode c = 1 then (set_output c False)\<lparr>x_state := PITX_COUNTING\<rparr>
        else if x_mode c = 2 then
          (set_output c True)\<lparr>x_state := (if x_gate c then PITX_COUNTING else PITX_WAIT_GATE)\<rparr>
        else if x_mode c = 3 then
          (let c = (if x_toggle_on_reload c then (set_output c (\<not> x_output c))\<lparr>x_toggle_on_reload := False\<rparr>
                    else if x_state c \<noteq> PITX_RELOAD_NEXT then set_output c True
                    else c)
           in c\<lparr>x_state := (if x_gate c then PITX_COUNTING else PITX_WAIT_GATE)\<rparr>)
        else if x_mode c = 4 then (set_output c True)\<lparr>x_state := PITX_COUNTING\<rparr>
        else if x_mode c = 5 then (set_output c True)\<lparr>x_state := PITX_COUNTING\<rparr>
        else c)"
  by (simp only: load_counting_element_def loaded_def Let_def)

lemma load_fields:
  "x_counting_element (load_counting_element c) = x_counting_element (loaded c)"
  "x_mode (load_counting_element c) = x_mode c" "x_bcd (load_counting_element c) = x_bcd c" "x_type (load_counting_element c) = x_type c"
  "x_gate (load_counting_element c) = x_gate c" "x_count_register (load_counting_element c) = x_count_register c"
  "x_rw_mode (load_counting_element c) = x_rw_mode c" "x_count_latched (load_counting_element c) = x_count_latched c"
  "x_read_phase (load_counting_element c) = x_read_phase c" "x_write_phase (load_counting_element c) = x_write_phase c"
  "x_status_latched (load_counting_element c) = x_status_latched c"
  "x_count_latched c \<Longrightarrow> x_output_latch (load_counting_element c) = x_output_latch c"
  by (simp_all add: load_eq Let_def del: loaded_fields(1))

lemma reload_load [simp]:
  "reload_value (load_counting_element c) = reload_value c" "reload_value (decrement_n c k) = reload_value c"
  by (rule reload_value_cong; simp add: load_fields)+

lemma load_mode:
  "x_mode c = 0 \<Longrightarrow> x_state (load_counting_element c) = PITX_COUNTING \<and> \<not> x_output (load_counting_element c)"
  "x_mode c = 2 \<Longrightarrow> x_gate c \<Longrightarrow> x_state (load_counting_element c) = PITX_COUNTING \<and> x_output (load_counting_element c) \<and>
    x_toggle_on_reload (load_counting_element c) = x_toggle_on_reload c"
  "x_mode c = 3 \<Longrightarrow> x_gate c \<Longrightarrow> x_state (load_counting_element c) = PITX_COUNTING \<and> \<not> x_toggle_on_reload (load_counting_element c) \<and>
    x_output (load_counting_element c) = (if x_toggle_on_reload c then \<not> x_output c else x_state c \<noteq> PITX_RELOAD_NEXT \<or> x_output c)"
  by (simp_all add: load_eq Let_def)

context down_counter
begin

lemma dec_ce_n: "k \<le> n \<Longrightarrow> n \<le> top \<Longrightarrow> (decrement_ce bcd ^^ k) (ce n) = ce (n - k)"
proof (induction k)
  case (Suc k)
  then show ?case using dec_ce [of "n - k"] by simp
qed simp

lemma rate_step:
  assumes "rate_pos ce bcd N k c" and "k < N" and "2 \<le> N" and "N \<le> top"
  shows "rate_pos ce bcd N (Suc k mod N) (tick_channel c)"
proof (cases "k = N - 1")
  case True
  then have "Suc k mod N = 0" using assms(3) by simp
  then show ?thesis
    using assms True by (simp add: rate_pos_def running_def tick_channel_def load_fields load_mode)
next
  case False
  then have k: "Suc k mod N = Suc k" "N - k \<le> top" "0 < N - k" "N - Suc k < top" using assms by auto
  have "N - Suc k = 1 \<longleftrightarrow> Suc k = N - 1" using assms False by auto
  then show ?thesis
    using assms False k dec_ce [OF k(3,2)] visible_ce_1 [OF k(4)]
    by (auto simp: rate_pos_def running_def tick_channel_def tick_count_def Let_def)
qed

lemma rate_ticks:
  assumes "rate_pos ce bcd N 0 c" and "2 \<le> N" and "N \<le> top"
  shows "rate_pos ce bcd N (k mod N) (ticks k c)"
proof (induction k)
  case (Suc k)
  show ?case using rate_step [OF Suc] assms by (simp add: mod_Suc_eq)
qed (use assms in simp)

lemma once_step:
  assumes "once_pos ce bcd N k c" and "N \<le> top"
  shows "once_pos ce bcd N (Suc k) (tick_channel c)"
proof (cases "k < N")
  case True
  then have k: "0 < N - k" "N - k \<le> top" "N - Suc k < top" using assms(2) by auto
  show ?thesis
    using assms True dec_ce [OF k(1,2)] visible_ce [OF k(3)]
    by (auto simp: once_pos_def tick_channel_def tick_count_def Let_def)
next
  case False
  with assms show ?thesis by (auto simp: once_pos_def tick_channel_def tick_count_def Let_def)
qed

lemma once_ticks: "once_pos ce bcd N 0 c \<Longrightarrow> N \<le> top \<Longrightarrow> once_pos ce bcd N k (ticks k c)"
  by (induction k) (simp_all add: once_step)

end

context down_counter
begin

lemma square_step_even:
  assumes "square_pos ce bcd N k c" and "k < N" and "2 \<le> N" and "N \<le> top" and "even N"
  shows "square_pos ce bcd N (Suc k mod N) (tick_channel c)"
proof -
  obtain h where h: "N = 2 * h" "0 < h" using assms(3,5) by (auto elim!: evenE)
  have hd: "high N = h" using h by (simp add: high_def)
  define n where "n = (if k < h then N - 2 * k else N - 2 * (k - h))"
  have left: "square_left t N j = (if j < h then N - 2 * j else N - 2 * (j - h))" for t j
    using assms(5) hd by (simp add: square_left_def)
  have c: "x_mode c = 3" "x_bcd c = bcd" "x_gate c" "reload_value c = ce N" "x_counting_element c = ce n"
    "x_output c = (k < h)" "\<not> x_toggle_on_reload c" "x_state c = PITX_COUNTING"
    using assms(1,5) by (simp_all add: square_pos_def hd left n_def)
  have n: "2 \<le> n" "n \<le> top" "n - 2 < top" using assms(2,4) h by (auto simp: n_def)
  have reg: "\<not> bit (x_count_register c) 0" using register_odd [of c ce N] c(4) odd_ce [OF assms(4)] assms(5) by simp
  have zero: "visible_count (ce (n - 2)) = 0 \<longleftrightarrow> Suc k = h \<or> Suc k = N" using visible_ce [OF n(3)] h assms(2) by (auto simp: n_def)
  have tick: "tick_channel c = count_mode3 (c\<lparr>x_clocks := x_clocks c + 1\<rparr>)"
    using c by (simp add: tick_channel_def tick_count_def)
  have rest: "square_left t N (Suc k) = n - 2" if "Suc k \<noteq> h" "Suc k < N" for t
    unfolding left n_def using that h assms(2) by auto
  show ?thesis
  proof (cases "Suc k = h \<or> Suc k = N")
    case True
    then show ?thesis
      unfolding tick square_pos_def hd using c reg zero n dec_ce_n [OF n(1,2)] h assms(5) left [of _ 0] left [of _ h]
      by (auto simp: count_mode3_def Let_def)
  next
    case False
    then have "Suc k < N" using assms(2) by simp
    then show ?thesis
      unfolding tick square_pos_def hd using c reg zero n dec_ce_n [OF n(1,2)] h assms(5) rest False
      by (auto simp: count_mode3_def Let_def)
  qed
qed

lemma square_step_8254:
  assumes "square_pos ce bcd N k c" and "k < N" and "2 \<le> N" and "N \<le> top" and "odd N" and "x_type c = PITX_8254"
  shows "square_pos ce bcd N (Suc k mod N) (tick_channel c)"
proof -
  obtain m where m: "N = 2 * m + 1" "0 < m" using assms(3,5) by (auto elim!: oddE)
  have hd: "high N = m + 1" using m by (simp add: high_def)
  have N: "N < top" "ce N AND 0xfffe = ce (N - 1)" using assms(4,5) top_even even_ce [of N] by (cases "N = top"; auto)+
  have left: "square_left PITX_8254 N j = (if j < m + 1 then N - 1 - 2 * j else N - 1 - 2 * (j - (m + 1)))" for j
    using assms(5) hd by (simp add: square_left_def)
  have reg: "bit (x_count_register c) 0"
    using register_odd [of c ce N] odd_ce [OF assms(4)] assms(1,5) by (simp add: square_pos_def)
  show ?thesis
  proof (cases "k = m")
    case True
    then have sk: "Suc k mod N = m + 1" using m by simp
    let ?c = "c\<lparr>x_clocks := x_clocks c + 1\<rparr>"
    have c: "x_mode c = 3" "x_bcd c = bcd" "x_gate c" "reload_value c = ce N" "x_output c" "x_toggle_on_reload c"
      "x_state c = PITX_RELOAD_NEXT"
      using assms(1,5,6) True by (simp_all add: square_pos_def hd)
    have "tick_channel c = load_counting_element ?c" using c by (simp add: tick_channel_def)
    then show ?thesis
      unfolding sk square_pos_def hd using c N reg assms(5,6) load_mode(3) [of ?c] by (simp add: load_fields left)
  next
    case False
    define n where "n = (if k < m + 1 then N - 1 - 2 * k else N - 1 - 2 * (k - (m + 1)))"
    have c: "x_mode c = 3" "x_bcd c = bcd" "x_gate c" "reload_value c = ce N" "x_counting_element c = ce n"
      "x_output c = (k < m + 1)" "\<not> x_toggle_on_reload c" "x_state c = PITX_COUNTING"
      using assms(1,5,6) False by (simp_all add: square_pos_def hd left n_def)
    have n: "2 \<le> n" "n \<le> top" "n - 2 < top" using assms(2,4) m False by (auto simp: n_def)
    have zero: "visible_count (ce (n - 2)) = 0 \<longleftrightarrow> Suc k = m \<or> Suc k = N"
      using visible_ce [OF n(3)] m assms(2) False by (auto simp: n_def)
    have tick: "tick_channel c = count_mode3 (c\<lparr>x_clocks := x_clocks c + 1\<rparr>)"
      using c by (simp add: tick_channel_def tick_count_def)
    have rest: "square_left PITX_8254 N (Suc k) = n - 2" if "Suc k < N"
      unfolding left n_def using that m assms(2) False by auto
    show ?thesis
    proof (cases "Suc k = N")
      case True
      then show ?thesis
        unfolding tick square_pos_def hd using c reg zero n dec_ce_n [OF n(1,2)] m assms(5,6) N left [of 0]
        by (auto simp: count_mode3_def Let_def)
    next
      case Ne: False
      then have "Suc k < N" using assms(2) by simp
      then show ?thesis
        unfolding tick square_pos_def hd using c reg zero n dec_ce_n [OF n(1,2)] m assms(5,6) rest False
        by (auto simp: count_mode3_def Let_def)
    qed
  qed
qed

lemma square_step_8253:
  assumes "square_pos ce bcd N k c" and "k < N" and "2 \<le> N" and "N \<le> top" and "odd N" and "x_type c = PITX_8253"
  shows "square_pos ce bcd N (Suc k mod N) (tick_channel c)"
proof -
  obtain m where m: "N = 2 * m + 1" "0 < m" using assms(3,5) by (auto elim!: oddE)
  have hd: "high N = m + 1" using m by (simp add: high_def)
  have N: "N < top" using assms(4,5) top_even by (cases "N = top") auto
  have left: "square_left PITX_8253 N j = (if j = 0 \<or> j = m + 1 then N else if j < m + 1 then N + 1 - 2 * j else N - 1 - 2 * (j - (m + 1)))" for j
    using assms(5) hd by (simp add: square_left_def)
  define n where "n = square_left PITX_8253 N k"
  define e where "e = (if k = 0 then 1 else if k = m + 1 then 3 else 2 :: nat)"
  have c: "x_mode c = 3" "x_bcd c = bcd" "x_gate c" "reload_value c = ce N" "x_counting_element c = ce n"
    "x_output c = (k < m + 1)" "\<not> x_toggle_on_reload c" "x_state c = PITX_COUNTING"
    using assms(1,5,6) by (simp_all add: square_pos_def hd n_def)
  have reg: "bit (x_count_register c) 0"
    using register_odd [of c ce N] c(4) odd_ce [OF assms(4)] assms(5) by simp
  have n: "e \<le> n" "n \<le> top" "n - e < top" "odd n \<longleftrightarrow> k = 0 \<or> k = m + 1"
    unfolding n_def left e_def using assms(2,4) m N by auto
  have zero: "visible_count (ce (n - e)) = 0 \<longleftrightarrow> Suc k = m + 1 \<or> Suc k = N"
    unfolding visible_ce [OF n(3)] unfolding n_def left e_def using m assms(2) by auto
  have dec: "x_counting_element (decrement_n c' e) = ce (n - e)" if "x_counting_element c' = ce n" "x_bcd c' = bcd" for c'
    using dec_ce_n [OF n(1,2)] that by simp
  let ?c = "c\<lparr>x_clocks := x_clocks c + 1\<rparr>"
  have "tick_channel c =
      (let c = decrement_n ?c e
       in if visible_count (x_counting_element c) = 0 then
            update_live_latch ((set_output c (\<not> x_output c))\<lparr>x_counting_element := reload_value c\<rparr>) else c)"
    using c reg n(4) odd_ce [OF n(2)] assms(6) by (auto simp: tick_channel_def tick_count_def count_mode3_def Let_def e_def)
  then have tick: "tick_channel c =
      (if Suc k = m + 1 \<or> Suc k = N then
            update_live_latch ((set_output (decrement_n ?c e) (\<not> x_output c))\<lparr>x_counting_element := ce N\<rparr>) else decrement_n ?c e)"
    using dec [of ?c] c zero by (simp add: Let_def)
  have rest: "square_left PITX_8253 N (Suc k) = n - e" if "Suc k < N" "Suc k \<noteq> m + 1"
    unfolding left n_def e_def using that m assms(2) by auto
  show ?thesis
  proof (cases "Suc k = m + 1 \<or> Suc k = N")
    case True
    then show ?thesis
      unfolding tick square_pos_def hd using c m assms(5,6) left [of 0] left [of "m + 1"] by auto
  next
    case False
    then have "Suc k < N" using assms(2) by simp
    then show ?thesis
      unfolding tick square_pos_def hd using c m assms(5,6) rest False dec [of ?c] by auto
  qed
qed

lemma square_ticks:
  assumes "square_pos ce bcd N 0 c" and "2 \<le> N" and "N \<le> top"
  shows "square_pos ce bcd N (k mod N) (ticks k c)"
proof (induction k)
  case (Suc k)
  have "k mod N < N" using assms(2) by simp
  note facts = Suc this assms(2,3)
  have "square_pos ce bcd N (Suc (k mod N) mod N) (tick_channel (ticks k c))"
  proof (cases "even N")
    case True
    show ?thesis by (rule square_step_even [OF facts True])
  next
    case False
    then show ?thesis
      using square_step_8254 [OF facts False] square_step_8253 [OF facts False] by (cases "x_type (ticks k c)") blast+
  qed
  then show ?case by (simp add: mod_Suc_eq)
qed (use assms in simp)

end

section \<open>Binary\<close>

lemma unat_small: "n < 2 ^ LENGTH('a) \<Longrightarrow> unat (of_nat n :: 'a::len word) = n"
  by (simp add: unsigned_of_nat take_bit_nat_eq_self)

lemma unat32 [simp]: "n \<le> 65536 \<Longrightarrow> unat (of_nat n :: u32) = n"
  by (rule unat_small) simp

lemma ucast_of_nat_small: "n < 65536 \<Longrightarrow> unat (ucast (of_nat n :: u32) :: u16) = n"
  by (simp add: unsigned_ucast_eq take_bit_nat_eq_self)

lemma visible_of_nat: "n < 65536 \<Longrightarrow> unat (visible_count (of_nat n)) = n"
  using unat32 [of n] unat32 [of 65536]
  by (simp add: visible_count_def ucast_of_nat_small word_unat_eq_iff [where 'a = 32])

lemma visible_iff: "n < 65536 \<Longrightarrow> m < 65536 \<Longrightarrow> visible_count (of_nat n) = of_nat m \<longleftrightarrow> n = m"
  using visible_of_nat [of n] unat_small [of m, where 'a = 16] by (auto simp: word_unat_eq_iff)

lemma of_nat_eq32: "n \<le> 65536 \<Longrightarrow> m \<le> 65536 \<Longrightarrow> (of_nat n :: u32) = of_nat m \<longleftrightarrow> n = m"
  by (metis unat32)

lemma dec_masked: "0 < k \<Longrightarrow> k \<le> n \<Longrightarrow> n \<le> 65536 \<Longrightarrow> (of_nat n - of_nat k :: u32) AND 0xffff = of_nat (n - k)"
proof -
  assume a: "0 < k" "k \<le> n" "n \<le> 65536"
  have m: "(0xffff :: u32) = mask 16" by (simp add: mask_eq_exp_minus_1)
  have d: "(of_nat n - of_nat k :: u32) = of_nat (n - k)" using a by (simp add: of_nat_diff)
  have u: "unat (of_nat (n - k) :: u32) = n - k" using a by (intro unat32) simp
  have "unat (take_bit 16 (of_nat (n - k) :: u32)) = take_bit 16 (unat (of_nat (n - k) :: u32))"
    by (simp add: unsigned_take_bit_eq)
  also have "\<dots> = n - k" unfolding u using a by (intro take_bit_nat_eq_self) simp
  finally show ?thesis
    unfolding m d take_bit_eq_mask [symmetric] word_unat_eq_iff u .
qed

text \<open>A masked field of a word, as a number.\<close>

lemma nat_field: "x AND push_bit s (mask k) = (x div 2 ^ s mod 2 ^ k) * 2 ^ s" for x :: nat
proof -
  have "x AND push_bit s (mask k) = push_bit s (take_bit k (drop_bit s x))"
    by (rule bit_eqI) (auto simp: bit_and_iff bit_push_bit_iff bit_mask_iff bit_take_bit_iff bit_drop_bit_eq)
  then show ?thesis by (simp add: push_bit_eq_mult take_bit_eq_mod drop_bit_eq_div)
qed

lemma and_fffe: "n < 65536 \<Longrightarrow> odd n \<Longrightarrow> (of_nat n :: u32) AND 0xfffe = of_nat (n - 1)"
proof -
  assume n: "n < 65536" "odd n"
  have "unat ((of_nat n :: u32) AND 0xfffe) = n AND 0xfffe" using n by (simp add: unsigned_and_eq)
  also have "\<dots> = (n div 2 mod 2 ^ 15) * 2"
    using nat_field [of n 1 15] by (simp add: push_bit_eq_mult mask_eq_exp_minus_1)
  also have "\<dots> = n - 1" using n by (auto elim: oddE)
  finally show ?thesis using n unat32 [of "n - 1"] by (simp only: word_unat_eq_iff)
qed

interpretation binary: down_counter of_nat False 65536
proof
  show "decrement_ce False (of_nat n) = of_nat (n - 1)" if "0 < n" "n \<le> 65536" for n
    using that dec_masked [of 1 n] of_nat_eq32 [of n 0] of_nat_eq32 [of n 65536] by (auto simp: decrement_ce_def)
  show "visible_count (of_nat n) = 0 \<longleftrightarrow> n = 0" if "n < 65536" for n using visible_iff [OF that, of 0] by simp
  show "visible_count (of_nat n) = 1 \<longleftrightarrow> n = 1" if "n < 65536" for n using visible_iff [OF that, of 1] by simp
  show "bit (of_nat n :: u32) 0 \<longleftrightarrow> odd n" if "n \<le> 65536" for n by (simp add: bit_0)
  show "of_nat n AND 0xfffe = (of_nat (n - 1) :: u32)" if "n < 65536" "odd n" for n using and_fffe [OF that] .
qed auto

section \<open>BCD\<close>

definition bcd_nat :: "nat \<Rightarrow> nat" where
  "bcd_nat n = (n div 1000) * 4096 + (n div 100 mod 10) * 256 + (n div 10 mod 10) * 16 + n mod 10"

definition bcd_ce :: "nat \<Rightarrow> u32" where
  "bcd_ce n = of_nat (if n = 10000 then 65536 else bcd_nat n)"

lemma digits:
  assumes "n < 10000"
  obtains a b c d where "n = 1000 * a + 100 * b + 10 * c + d" "a < 10" "b < 10" "c < 10" "d < (10 :: nat)"
proof
  have "n = 10 * (n div 10) + n mod 10" "n div 10 = 10 * (n div 100) + n div 10 mod 10"
    "n div 100 = 10 * (n div 1000) + n div 100 mod 10"
    using div_mult2_eq [of n 10 10] div_mult2_eq [of n 100 10] by simp_all
  then show "n = 1000 * (n div 1000) + 100 * (n div 100 mod 10) + 10 * (n div 10 mod 10) + n mod 10" by linarith
  show "n div 1000 < 10" using assms by simp
qed simp_all

lemma divmod_digit: "r < m \<Longrightarrow> (m * q + r) div m = q \<and> (m * q + r) mod m = r" for m q r :: nat
  by simp

lemma bcd_digits:
  assumes "b < 10" "c < 10" "d < (10 :: nat)"
  shows "bcd_nat (1000 * a + 100 * b + 10 * c + d) = 4096 * a + 256 * b + 16 * c + d"
proof -
  let ?n = "1000 * a + 100 * b + 10 * c + d"
  have e: "?n = 10 * (100 * a + 10 * b + c) + d" "?n = 100 * (10 * a + b) + (10 * c + d)" "?n = 1000 * a + (100 * b + 10 * c + d)"
    by simp_all
  have "?n div 10 = 100 * a + 10 * b + c" "?n mod 10 = d" using divmod_digit [OF assms(3)] unfolding e(1) by blast+
  moreover have "?n div 100 = 10 * a + b" using divmod_digit [of "10 * c + d" 100] assms unfolding e(2) by simp
  moreover have "?n div 1000 = a" using divmod_digit [of "100 * b + 10 * c + d" 1000] assms unfolding e(3) by simp
  moreover have "(10 * a + b) mod 10 = b" using divmod_digit [OF assms(1)] by simp
  moreover have "(100 * a + 10 * b + c) mod 10 = c"
    using divmod_digit [OF assms(2), of "10 * a + b"] by (simp add: algebra_simps)
  ultimately show ?thesis by (simp add: bcd_nat_def)
qed

lemma mask_nibbles:
  fixes x :: nat
  assumes "x < 65536"
  shows "(of_nat x :: u32) AND 0x000f \<noteq> 0 \<longleftrightarrow> x mod 16 \<noteq> 0" "(of_nat x :: u32) AND 0x00f0 \<noteq> 0 \<longleftrightarrow> x div 16 mod 16 \<noteq> 0"
    "(of_nat x :: u32) AND 0x0f00 \<noteq> 0 \<longleftrightarrow> x div 256 mod 16 \<noteq> 0"
proof -
  have "unat ((of_nat x :: u32) AND 0x000f) = x AND 0x000f" "unat ((of_nat x :: u32) AND 0x00f0) = x AND 0x00f0"
    "unat ((of_nat x :: u32) AND 0x0f00) = x AND 0x0f00" using assms by (simp_all add: unsigned_and_eq)
  then show "(of_nat x :: u32) AND 0x000f \<noteq> 0 \<longleftrightarrow> x mod 16 \<noteq> 0" "(of_nat x :: u32) AND 0x00f0 \<noteq> 0 \<longleftrightarrow> x div 16 mod 16 \<noteq> 0"
    "(of_nat x :: u32) AND 0x0f00 \<noteq> 0 \<longleftrightarrow> x div 256 mod 16 \<noteq> 0"
    using nat_field [of x 0 4] nat_field [of x 4 4] nat_field [of x 8 4]
    by (simp_all only: word_unat_eq_iff) (simp_all add: push_bit_eq_mult mask_eq_exp_minus_1)
qed

lemma bcd_decrement_of_nat:
  assumes "0 < x" and "x < 65536"
  shows "bcd_decrement (of_nat x) = of_nat
    (if x mod 16 \<noteq> 0 then x - 1 else if x div 16 mod 16 \<noteq> 0 then x - 7
     else if x div 256 mod 16 \<noteq> 0 then x - 0x67 else x - 0x667)"
proof -
  have nz: "(of_nat x :: u32) \<noteq> 0" "(of_nat x :: u32) \<noteq> 0x10000"
    using assms of_nat_eq32 [of x 0] of_nat_eq32 [of x 65536] by auto
  have d7: "x \<ge> 7" if "x mod 16 = 0" using that assms(1) by (cases "x < 16") auto
  have d67: "x \<ge> 0x67" if "x mod 16 = 0" "x div 16 mod 16 = 0"
    using that assms(1) mod_mult2_eq [of x 16 16] by (cases "x < 256") auto
  have d667: "x \<ge> 0x667" if "x mod 16 = 0" "x div 16 mod 16 = 0" "x div 256 mod 16 = 0"
    using that assms(1) mod_mult2_eq [of x 16 16] mod_mult2_eq [of x 256 16] by (cases "x < 4096") auto
  show ?thesis
    unfolding bcd_decrement_def mask_nibbles [OF assms(2)]
    using nz assms d7 d67 d667 dec_masked [of 1 x] dec_masked [of 7 x] dec_masked [of "0x67" x] dec_masked [of "0x667" x]
    by auto
qed

lemma bcd_pred:
  assumes "0 < n" and "n < 10000"
  shows "(let x = bcd_nat n in if x mod 16 \<noteq> 0 then x - 1 else if x div 16 mod 16 \<noteq> 0 then x - 7
     else if x div 256 mod 16 \<noteq> 0 then x - 0x67 else x - 0x667) = bcd_nat (n - 1)"
    and "0 < bcd_nat n" and "bcd_nat n < 65536"
proof -
  obtain a b c d where n: "n = 1000 * a + 100 * b + 10 * c + d" and g: "a < 10" "b < 10" "c < 10" "d < 10"
    using digits [OF assms(2)] .
  have x: "bcd_nat n = 4096 * a + 256 * b + 16 * c + d" using bcd_digits [OF g(2-4)] n by simp
  show "0 < bcd_nat n" "bcd_nat n < 65536" using x n g assms(1) by auto
  have e: "bcd_nat n = 16 * (256 * a + 16 * b + c) + d" "bcd_nat n = 256 * (16 * a + b) + (16 * c + d)"
    "256 * a + 16 * b + c = 16 * (16 * a + b) + c" using x by simp_all
  have m1: "bcd_nat n div 16 = 256 * a + 16 * b + c" "bcd_nat n mod 16 = d" "bcd_nat n div 256 = 16 * a + b"
    using divmod_digit [of d 16 "256 * a + 16 * b + c", folded e(1)]
      divmod_digit [of "16 * c + d" 256 "16 * a + b", folded e(2)] g by linarith+
  have "(256 * a + 16 * b + c) mod 16 = c" "(16 * a + b) mod 16 = b"
    using divmod_digit [of c 16 "16 * a + b", folded e(3)] divmod_digit [of b 16 a] g by linarith+
  then have m: "bcd_nat n mod 16 = d" "bcd_nat n div 16 mod 16 = c" "bcd_nat n div 256 mod 16 = b"
    unfolding m1 by blast+
  show "(let x = bcd_nat n in if x mod 16 \<noteq> 0 then x - 1 else if x div 16 mod 16 \<noteq> 0 then x - 7
     else if x div 256 mod 16 \<noteq> 0 then x - 0x67 else x - 0x667) = bcd_nat (n - 1)"
  proof (cases "d = 0")
    case False
    then have "n - 1 = 1000 * a + 100 * b + 10 * c + (d - 1)" using n by simp
    then have "bcd_nat (n - 1) = 4096 * a + 256 * b + 16 * c + (d - 1)" using bcd_digits g by simp
    then show ?thesis unfolding Let_def m using x False by simp
  next
    case d: True
    show ?thesis
    proof (cases "c = 0")
      case False
      then have "n - 1 = 1000 * a + 100 * b + 10 * (c - 1) + 9" using n d by simp
      then have "bcd_nat (n - 1) = 4096 * a + 256 * b + 16 * (c - 1) + 9" using bcd_digits g by simp
      then show ?thesis unfolding Let_def m using x d False by simp
    next
      case c: True
      show ?thesis
      proof (cases "b = 0")
        case False
        then have "n - 1 = 1000 * a + 100 * (b - 1) + 10 * 9 + 9" using n c d by simp
        then have "bcd_nat (n - 1) = 4096 * a + 256 * (b - 1) + 16 * 9 + 9" using bcd_digits [of "b - 1" 9 9 a] g by simp
        then show ?thesis unfolding Let_def m using x d c False by simp
      next
        case b: True
        then have "a > 0" using n c d assms(1) by simp
        then have "n - 1 = 1000 * (a - 1) + 100 * 9 + 10 * 9 + 9" using n b c d by simp
        then have "bcd_nat (n - 1) = 4096 * (a - 1) + 256 * 9 + 16 * 9 + 9" using bcd_digits [of 9 9 9 "a - 1"] by simp
        then show ?thesis unfolding Let_def m using x d c b \<open>a > 0\<close> by simp
      qed
    qed
  qed
qed

lemma bcd_ce_small: "n < 10000 \<Longrightarrow> bcd_ce n = of_nat (bcd_nat n)"
  by (simp add: bcd_ce_def)

lemma bcd_nat_bounds: "n < 10000 \<Longrightarrow> bcd_nat n < 65536" "bcd_nat 0 = 0"
  using bcd_pred(3) [of n] by (cases "n = 0"; simp add: bcd_nat_def)+

lemma bcd_nat_mod2: "even (bcd_nat n) = even n"
  by (simp add: bcd_nat_def) presburger

lemma bcd_nat_odd: "n < 10000 \<Longrightarrow> odd n \<Longrightarrow> bcd_nat (n - 1) = bcd_nat n - 1"
proof -
  assume n: "n < 10000" "odd n"
  have "odd (bcd_nat n)" using n(2) bcd_nat_mod2 by simp
  then have "bcd_nat n mod 16 \<noteq> 0" by (metis dvd_trans even_numeral mod_0_imp_dvd)
  moreover have "0 < n" using n(2) by (rule odd_pos)
  ultimately show ?thesis using bcd_pred(1) [of n] n(1) by (simp add: Let_def)
qed

lemma bcd_nat_inj1: "n < 10000 \<Longrightarrow> bcd_nat n = 0 \<longleftrightarrow> n = 0" "n < 10000 \<Longrightarrow> bcd_nat n = 1 \<longleftrightarrow> n = 1"
proof -
  show z: "bcd_nat n = 0 \<longleftrightarrow> n = 0" if "n < 10000" for n using bcd_pred(2) [of n] that by (cases "n = 0") (auto simp: bcd_nat_def)
  assume n: "n < 10000"
  show "bcd_nat n = 1 \<longleftrightarrow> n = 1"
  proof
    assume b: "bcd_nat n = 1"
    then have o: "odd n" using bcd_nat_mod2 [of n] by simp
    then have "bcd_nat (n - 1) = 0" using bcd_nat_odd n b by simp
    with z [of "n - 1"] n odd_pos [OF o] show "n = 1" by auto
  qed (simp add: bcd_nat_def)
qed

interpretation bcd: down_counter bcd_ce True 10000
proof
  show "decrement_ce True (bcd_ce n) = bcd_ce (n - 1)" if "0 < n" "n \<le> 10000" for n
  proof (cases "n = 10000")
    case True
    then show ?thesis by (simp add: decrement_ce_def bcd_ce_def bcd_decrement_def bcd_nat_def)
  next
    case False
    with that have n: "n < 10000" by simp
    have "bcd_ce (n - 1) = of_nat (bcd_nat (n - 1))" using n by (intro bcd_ce_small) simp
    then show ?thesis
      using bcd_pred [OF that(1) n] bcd_decrement_of_nat [of "bcd_nat n"]
      by (simp add: decrement_ce_def bcd_ce_small [OF n] Let_def)
  qed
  show "visible_count (bcd_ce n) = 0 \<longleftrightarrow> n = 0" if "n < 10000" for n
    using visible_iff [of "bcd_nat n" 0] bcd_nat_bounds that bcd_nat_inj1 by (simp add: bcd_ce_small)
  show "visible_count (bcd_ce n) = 1 \<longleftrightarrow> n = 1" if "n < 10000" for n
    using visible_iff [of "bcd_nat n" 1] bcd_nat_bounds that bcd_nat_inj1 by (simp add: bcd_ce_small)
  show "bit (bcd_ce n) 0 \<longleftrightarrow> odd n" if "n \<le> 10000" for n
    using bcd_nat_mod2 [of n] by (auto simp: bit_0 bcd_ce_def)
  show "bcd_ce n AND 0xfffe = bcd_ce (n - 1)" if "n < 10000" "odd n" for n
    using and_fffe [of "bcd_nat n"] bcd_nat_odd [OF that] bcd_nat_mod2 [of n] bcd_nat_bounds that by (simp add: bcd_ce_small)
qed simp_all

section \<open>Programming a channel\<close>

definition ce_of :: "bool \<Rightarrow> nat \<Rightarrow> u32" where
  "ce_of b n = (if b then bcd_ce n else of_nat n)"

definition count_top :: "bool \<Rightarrow> nat" where
  "count_top b = (if b then 10000 else 65536)"

text \<open>The 16-bit word software writes for a count of \<open>n\<close>: the maximal count is written as 0.\<close>

definition count_word :: "bool \<Rightarrow> nat \<Rightarrow> u16" where
  "count_word b n = visible_count (ce_of b n)"

definition control_word :: "nat \<Rightarrow> nat \<Rightarrow> bool \<Rightarrow> u8" where
  "control_word ch m b = of_nat (64 * ch + 0x30 + 2 * m + of_bool b)"

definition program :: "nat \<Rightarrow> nat \<Rightarrow> bool \<Rightarrow> u16 \<Rightarrow> pitx_device_t \<Rightarrow> pitx_device_t" where
  "program ch m b w pit =
    pitx_data_write (pitx_data_write (pitx_control_write pit (control_word ch m b)) ch (ucast w)) ch (ucast (drop_bit 8 w))"

lemma less_3_cases: "n < 3 \<Longrightarrow> n = 0 \<or> n = 1 \<or> n = 2" for n :: nat
  by arith

lemma upd_ch_simps [simp]:
  "length (d_channel (upd_ch i f pit)) = length (d_channel pit)"
  "i < length (d_channel pit) \<Longrightarrow> d_channel (upd_ch i f pit) ! j = (if i = j then f (d_channel pit ! i) else d_channel pit ! j)"
  by (simp_all add: upd_ch_def nth_list_update)

lemma control_word_bits:
  assumes "ch < 3" and "m = 0 \<or> m = 2 \<or> m = 3"
  shows "unat (drop_bit 6 (control_word ch m b)) = ch" "control_word ch m b AND 0x30 \<noteq> 0"
    "canonical_mode (drop_bit 1 (control_word ch m b) AND 7) = of_nat m" "drop_bit 4 (control_word ch m b) AND 3 = 3"
    "bit (control_word ch m b) 0 = b"
  using less_3_cases [OF assms(1)] assms(2) by (cases b; auto simp: control_word_def canonical_mode_def Let_def)+

lemma word_bytes: "((x AND 0xff00) OR ucast (ucast w :: u8)) AND 0x00ff OR push_bit 8 (ucast (ucast (drop_bit 8 w) :: u8)) = w"
  for w x :: u16
proof (rule bit_word_eqI)
  fix n assume n: "n < LENGTH(16)"
  have m: "(0xff00 :: u16) = push_bit 8 (mask 8)" "(0x00ff :: u16) = mask 8"
    by (simp_all add: mask_eq_exp_minus_1 push_bit_eq_mult)
  show "bit (((x AND 0xff00) OR ucast (ucast w :: u8)) AND 0x00ff OR push_bit 8 (ucast (ucast (drop_bit 8 w) :: u8))) n = bit w n"
    unfolding m using n
    by (cases "n < 8") (auto simp: bit_or_iff bit_and_iff bit_push_bit_iff bit_mask_iff bit_ucast_iff bit_drop_bit_eq)
qed

definition armed_with :: "nat \<Rightarrow> bool \<Rightarrow> u16 \<Rightarrow> pitx_channel_t \<Rightarrow> bool" where
  "armed_with m b w c \<longleftrightarrow> x_mode c = of_nat m \<and> x_bcd c = b \<and> x_rw_mode c = 3 \<and> x_write_phase c = 0 \<and>
    x_state c = PITX_LOAD_NEXT \<and> \<not> x_toggle_on_reload c \<and>
    x_count_register c = (if w = 1 \<and> m = 2 then 2 else if w = 1 \<and> m = 3 then 0 else w)"

lemma program_armed:
  fixes b :: bool and w :: u16
  assumes "length (d_channel pit) = 3" and "ch < 3" and "m = 0 \<or> m = 2 \<or> m = 3"
  defines "c \<equiv> d_channel (program ch m b w pit) ! ch"
  shows "armed_with m b w c" "x_gate c = x_gate (d_channel pit ! ch)" "x_type c = x_type (d_channel pit ! ch)"
    "length (d_channel (program ch m b w pit)) = 3"
proof -
  note cw = control_word_bits [OF assms(2,3), of b]
  let ?p = "pitx_control_write pit (control_word ch m b)"
  have len: "length (d_channel ?p) = 3" using cw(1,2) assms(1,2) by (simp add: pitx_control_write_def Let_def)
  have p: "d_channel ?p ! ch = program_mode (d_channel pit ! ch) (control_word ch m b)"
    using cw(1,2) assms(1,2) by (simp add: pitx_control_write_def Let_def)
  have c: "c = data_write (ucast (drop_bit 8 w)) (data_write (ucast w) (program_mode (d_channel pit ! ch) (control_word ch m b)))"
    using assms(2) len p by (simp add: c_def program_def pitx_data_write_def)
  define c0 where "c0 = program_mode (d_channel pit ! ch) (control_word ch m b)"
  define c1 where "c1 = data_write (ucast w) c0"
  have c0: "x_mode c0 = of_nat m" "x_rw_mode c0 = 3" "x_write_phase c0 = 0" "x_initial_load c0" "x_bcd c0 = b"
    "\<not> x_toggle_on_reload c0" "x_gate c0 = x_gate (d_channel pit ! ch)" "x_type c0 = x_type (d_channel pit ! ch)"
    using cw(3-5) by (simp_all add: c0_def program_mode_def set_output_def Let_def)
  have c1: "x_mode c1 = of_nat m" "x_rw_mode c1 = 3" "x_write_phase c1 = 1" "x_initial_load c1" "x_bcd c1 = b"
    "\<not> x_toggle_on_reload c1" "x_gate c1 = x_gate c0" "x_type c1 = x_type c0"
    "x_count_register c1 = (x_count_register c0 AND 0xff00) OR ucast (ucast w :: u8)"
    using c0 by (simp_all add: c1_def data_write_def set_output_def Let_def)
  have "c = finalize_write (c1\<lparr>x_count_register := w, x_write_phase := 0\<rparr>)"
  proof -
    have "c = data_write (ucast (drop_bit 8 w)) c1" unfolding c c1_def c0_def ..
    then show ?thesis
      unfolding data_write_def using c1(2,3) c1(9) word_bytes [of "x_count_register c0" w] by simp
  qed
  then show "armed_with m b w c" "x_gate c = x_gate (d_channel pit ! ch)" "x_type c = x_type (d_channel pit ! ch)"
    using c0(7,8) c1 assms(3) by (auto simp: finalize_write_def Let_def armed_with_def)
  show "length (d_channel (program ch m b w pit)) = 3"
    using assms(2) len by (simp add: program_def pitx_data_write_def)
qed

lemma ce_of_small: "n < count_top b \<Longrightarrow> \<exists>x<65536. ce_of b n = of_nat x \<and> (x = 0 \<longleftrightarrow> n = 0) \<and> (x = 1 \<longleftrightarrow> n = 1)"
  using bcd_nat_bounds(1) [of n] bcd_nat_inj1 [of n] by (cases b) (auto simp: ce_of_def count_top_def bcd_ce_small)

lemma count_word_reload:
  assumes "0 < n" and "n \<le> count_top b" and "x_count_register c = count_word b n"
  shows "reload_value c = ce_of b n"
proof (cases "n = count_top b")
  case True
  then show ?thesis using assms(3)
    by (cases b) (simp_all add: reload_value_def count_word_def ce_of_def count_top_def bcd_ce_def visible_count_def)
next
  case False
  then obtain x where x: "x < 65536" "ce_of b n = of_nat x" "x \<noteq> 0" using ce_of_small [of n b] assms(1,2) by auto
  have u: "unat (count_word b n) = x" using visible_of_nat [OF x(1)] x(2) by (simp add: count_word_def)
  then have "count_word b n \<noteq> 0" using x(3) by auto
  moreover have "ucast (count_word b n) = (of_nat x :: u32)" using u x(1) by (simp add: word_unat_eq_iff unsigned_ucast_eq take_bit_nat_eq_self)
  ultimately show ?thesis using assms(3) x(2) by (simp add: reload_value_def)
qed

lemma count_word_1: "2 \<le> n \<Longrightarrow> n \<le> count_top b \<Longrightarrow> count_word b n \<noteq> 1"
proof (cases "n = count_top b")
  case True
  then show ?thesis by (cases b) (simp_all add: count_word_def ce_of_def count_top_def bcd_ce_def visible_count_def)
next
  case False
  assume "2 \<le> n" "n \<le> count_top b"
  with False ce_of_small [of n b] obtain x where x: "x < 65536" "ce_of b n = of_nat x" "x \<noteq> 1" by auto
  then have "unat (count_word b n) \<noteq> 1" using visible_of_nat [OF x(1)] by (simp add: count_word_def)
  then show ?thesis by auto
qed

lemma armed_rate:
  assumes "armed_with 2 b (count_word b n) c" and "x_gate c" and "2 \<le> n" and "n \<le> count_top b"
  shows "rate_pos (ce_of b) b n 0 (tick_channel c)"
proof -
  have r: "reload_value c = ce_of b n" using assms count_word_1 [OF assms(3,4)] by (intro count_word_reload) (auto simp: armed_with_def)
  let ?c = "c\<lparr>x_clocks := x_clocks c + 1\<rparr>"
  have "tick_channel c = load_counting_element ?c" using assms(1) by (simp add: tick_channel_def armed_with_def)
  then show ?thesis
    using assms r load_mode(2) [of ?c] by (simp add: rate_pos_def running_def armed_with_def load_fields)
qed

lemma square_left_0:
  "square_left t n 0 = (if odd n \<and> t = PITX_8254 then n - 1 else n)" if "2 \<le> n"
  using that by (auto simp: square_left_def high_def Let_def)

lemma armed_square:
  assumes "armed_with 3 b (count_word b n) c" and "x_gate c" and "2 \<le> n" and "n \<le> count_top b"
  shows "square_pos (ce_of b) b n 0 (tick_channel c)"
proof -
  have r: "reload_value c = ce_of b n" using assms count_word_1 [OF assms(3,4)] by (intro count_word_reload) (auto simp: armed_with_def)
  have o: "bit (ce_of b n) 0 = odd n" using binary.odd_ce [of n] bcd.odd_ce [of n] assms(4) by (cases b) (simp_all add: ce_of_def count_top_def)
  have e: "odd n \<Longrightarrow> ce_of b n AND 0xfffe = ce_of b (n - 1)"
    using binary.even_ce [of n] bcd.even_ce [of n] assms(4)
    by (cases b; cases "n = count_top b") (auto simp: ce_of_def count_top_def)
  let ?c = "c\<lparr>x_clocks := x_clocks c + 1\<rparr>"
  have "tick_channel c = load_counting_element ?c" using assms(1) by (simp add: tick_channel_def armed_with_def)
  moreover have reg: "bit (x_count_register c) 0 = odd n" using register_odd [of c "ce_of b" n] r o by simp
  moreover have hp: "0 < high n" "odd n \<Longrightarrow> Suc 0 \<noteq> high n" using assms(3) by (auto simp: high_def elim!: oddE)
  ultimately show ?thesis
    using assms r load_mode(3) [of ?c] reg e
    by (cases "odd n") (simp_all add: square_pos_def armed_with_def load_fields square_left_0 hp)
qed

lemma armed_once:
  assumes "armed_with 0 b (count_word b n) c" and "x_gate c" and "0 < n" and "n \<le> count_top b"
  shows "once_pos (ce_of b) b n 0 (tick_channel c)"
proof -
  have r: "reload_value c = ce_of b n" using assms by (intro count_word_reload) (auto simp: armed_with_def)
  let ?c = "c\<lparr>x_clocks := x_clocks c + 1\<rparr>"
  have "tick_channel c = load_counting_element ?c" using assms(1) by (simp add: tick_channel_def armed_with_def)
  then show ?thesis
    using assms r load_mode(1) [of ?c] by (simp add: once_pos_def armed_with_def load_fields)
qed

text \<open>One clock of the device clocks each channel once.\<close>

lemma pitx_tick_channels:
  assumes "length (d_channel pit) = 3" and "ch < 3"
  shows "d_channel (pitx_tick pit) ! ch = tick_channel (d_channel pit ! ch)" "length (d_channel (pitx_tick pit)) = 3"
  using assms less_3_cases [OF assms(2)] by (auto simp: pitx_tick_def pitx_tick_channel_def upt_rec)

lemma pitx_ticks:
  assumes "length (d_channel pit) = 3" and "ch < 3"
  shows "d_channel ((pitx_tick ^^ k) pit) ! ch = ticks k (d_channel pit ! ch) \<and> length (d_channel ((pitx_tick ^^ k) pit)) = 3"
  by (induction k) (use assms pitx_tick_channels in auto)

lemma ticks_Suc_shift: "ticks (Suc k) c = ticks k (tick_channel c)"
  by (simp add: ticks_def funpow_swap1)

section \<open>Latched counts\<close>

lemma decrement_n_latch [simp]:
  "x_count_latched (decrement_n c k) = x_count_latched c" "x_read_phase (decrement_n c k) = x_read_phase c"
  "x_rw_mode (decrement_n c k) = x_rw_mode c" "x_write_phase (decrement_n c k) = x_write_phase c"
  "x_status_latched (decrement_n c k) = x_status_latched c"
  "x_count_latched c \<Longrightarrow> x_output_latch (decrement_n c k) = x_output_latch c"
  by (induction k arbitrary: c) simp_all

text \<open>What a read of a latched count depends on.\<close>

definition latch_view :: "pitx_channel_t \<Rightarrow> bool \<times> u16 \<times> u8 \<times> u8 \<times> u8 \<times> bool" where
  "latch_view c = (x_count_latched c, x_output_latch c, x_read_phase c, x_rw_mode c, x_write_phase c, x_status_latched c)"

lemma latch_view_parts:
  "x_count_latched c \<Longrightarrow> latch_view (update_live_latch c) = latch_view c"
  "x_count_latched c \<Longrightarrow> latch_view (decrement c) = latch_view c"
  "x_count_latched c \<Longrightarrow> latch_view (decrement_n c k) = latch_view c"
  "x_count_latched c \<Longrightarrow> latch_view (load_counting_element c) = latch_view c"
  "latch_view (set_output c v) = latch_view c" "latch_view (c\<lparr>x_state := st\<rparr>) = latch_view c"
  "latch_view (c\<lparr>x_armed := b\<rparr>) = latch_view c" "latch_view (c\<lparr>x_toggle_on_reload := b\<rparr>) = latch_view c"
  "latch_view (c\<lparr>x_counting_element := w\<rparr>) = latch_view c" "latch_view (c\<lparr>x_clocks := n\<rparr>) = latch_view c"
  by (simp_all add: latch_view_def load_fields)

lemma tick_latched:
  assumes "x_count_latched c"
  shows "latch_view (tick_channel c) = latch_view c"
proof -
  have 3: "latch_view (count_mode3 c) = latch_view c" if "x_count_latched c" for c
    using that by (simp add: count_mode3_def Let_def latch_view_parts)
  have "latch_view (tick_count c) = latch_view c" if "x_count_latched c" for c
    using that 3 by (simp add: tick_count_def Let_def latch_view_parts)
  with assms show ?thesis by (simp add: tick_channel_def Let_def latch_view_parts split: pitx_state_t.splits)
qed

lemma ticks_latched: "x_count_latched c \<Longrightarrow> latch_view (ticks k c) = latch_view c"
proof (induction k)
  case (Suc k)
  then have "x_count_latched (ticks k c)" by (simp add: latch_view_def)
  with Suc tick_latched show ?case by simp
qed simp

section \<open>Invariant\<close>

definition channel_ok :: "pitx_channel_t \<Rightarrow> bool" where
  "channel_ok c \<longleftrightarrow> x_mode c < 6 \<and> x_rw_mode c \<noteq> 0 \<and> x_rw_mode c \<le> 3 \<and> x_counting_element c \<le> 0x10000 \<and> x_state c \<noteq> PITX_DONE"

definition pitx_ok :: "pitx_device_t \<Rightarrow> bool" where
  "pitx_ok pit \<longleftrightarrow> length (d_channel pit) = 3 \<and> (\<forall>c\<in>set (d_channel pit). channel_ok c)"

text \<open>Everything software, the clock and the gate inputs can do to the device.\<close>

inductive pitx_step :: "pitx_device_t \<Rightarrow> pitx_device_t \<Rightarrow> bool" where
  control: "pitx_step pit (pitx_control_write pit v)"
| data_out: "pitx_step pit (pitx_data_write pit ch v)"
| data_in: "pitx_step pit (snd (pitx_data_read pit ch))"
| gate_pin: "pitx_step pit (pitx_set_gate pit ch g)"
| clock_one: "pitx_step pit (pitx_tick_channel pit ch)"
| clock_all: "pitx_step pit (pitx_tick pit)"

lemma pitx_ok_upd: "pitx_ok pit \<Longrightarrow> ch < 3 \<Longrightarrow> (\<And>c. channel_ok c \<Longrightarrow> channel_ok (f c)) \<Longrightarrow> pitx_ok (upd_ch ch f pit)"
  by (auto simp: pitx_ok_def upd_ch_def dest!: set_update_subset_insert [THEN subsetD])

lemma canonical_mode_less: "canonical_mode v < 6"
proof -
  have "(v AND 7) AND 3 \<le> 3" by (rule word_and_le1)
  then have "(v AND 7) AND 3 < 6" by (rule order_le_less_trans) simp
  moreover have "\<not> v AND 7 > 5 \<Longrightarrow> v AND 7 < 6"
    using word_less_nat_alt [of "v AND 7" 6] word_less_nat_alt [of 5 "v AND 7"] by simp
  ultimately show ?thesis unfolding canonical_mode_def Let_def by presburger
qed

lemma rw_mode_nonzero: "v AND 0x30 \<noteq> 0 \<Longrightarrow> drop_bit 4 v AND 3 \<noteq> 0" for v :: u8
proof -
  have "v AND 0x30 = push_bit 4 (drop_bit 4 v AND 3)"
  proof (rule bit_word_eqI)
    fix n assume "n < LENGTH(8)"
    then have n: "n < 8" by simp
    show "bit (v AND 0x30) n = bit (push_bit 4 (drop_bit 4 v AND 3)) n"
      using less_8_cases [OF n] by (auto simp: bit_and_iff bit_push_bit_iff bit_drop_bit_eq)
  qed
  then show "v AND 0x30 \<noteq> 0 \<Longrightarrow> drop_bit 4 v AND 3 \<noteq> 0" by (metis push_bit_of_0)
qed

lemma ce_bounds:
  "decrement_ce b v \<le> 0x10000" "reload_value c \<le> 0x10000" "reload_value c AND 0xfffe \<le> 0x10000"
proof -
  have m: "x AND 0xffff \<le> 0x10000" for x :: u32 by (rule order_trans [OF word_and_le1]) simp
  have c: "(0x9999 :: u32) \<le> 0x10000" "(0xffff :: u32) \<le> 0x10000" by simp_all
  show "decrement_ce b v \<le> 0x10000" using m c by (simp add: decrement_ce_def bcd_decrement_def)
  have "unat (ucast (x_count_register c) :: u32) < 65536" 
    using unsigned_less [of "x_count_register c", where 'a = nat] by (simp add: unsigned_ucast_eq take_bit_nat_eq_self)
  then show r: "reload_value c \<le> 0x10000" by (simp add: reload_value_def word_le_nat_alt)
  show "reload_value c AND 0xfffe \<le> 0x10000" by (rule order_trans [OF word_and_le1]) simp
qed

lemma channel_ok_parts:
  "channel_ok (update_live_latch c) = channel_ok c" "channel_ok (set_output c v) = channel_ok c"
  "channel_ok (c\<lparr>x_clocks := n\<rparr>) = channel_ok c" "channel_ok (c\<lparr>x_armed := b\<rparr>) = channel_ok c"
  "channel_ok (c\<lparr>x_toggle_on_reload := b\<rparr>) = channel_ok c" "channel_ok (c\<lparr>x_read_phase := v8\<rparr>) = channel_ok c"
  "channel_ok (c\<lparr>x_count_latched := b\<rparr>) = channel_ok c" "channel_ok (c\<lparr>x_status_latched := b\<rparr>) = channel_ok c"
  "channel_ok (c\<lparr>x_status_latch := v8\<rparr>) = channel_ok c" "channel_ok (c\<lparr>x_output_latch := v16\<rparr>) = channel_ok c"
  "channel_ok (c\<lparr>x_gate := b\<rparr>) = channel_ok c" "channel_ok (c\<lparr>x_write_phase := v8\<rparr>) = channel_ok c"
  "channel_ok (c\<lparr>x_count_register := v16\<rparr>) = channel_ok c" "channel_ok (c\<lparr>x_null_count := b\<rparr>) = channel_ok c"
  "channel_ok (c\<lparr>x_initial_load := b\<rparr>) = channel_ok c" "channel_ok (c\<lparr>x_incomplete_reload := b\<rparr>) = channel_ok c"
  by (simp_all add: channel_ok_def)

lemma channel_ok_set:
  "channel_ok c \<Longrightarrow> st \<noteq> PITX_DONE \<Longrightarrow> channel_ok (c\<lparr>x_state := st\<rparr>)"
  "channel_ok c \<Longrightarrow> w \<le> 0x10000 \<Longrightarrow> channel_ok (c\<lparr>x_counting_element := w\<rparr>)"
  "channel_ok c \<Longrightarrow> channel_ok (decrement c)"
  by (auto simp: channel_ok_def ce_bounds)

lemma channel_ok_decrement_n: "channel_ok c \<Longrightarrow> channel_ok (decrement_n c k)"
  by (induction k arbitrary: c) (simp_all add: channel_ok_set)

lemma channel_ok_load: "channel_ok c \<Longrightarrow> channel_ok (load_counting_element c)"
proof -
  assume "channel_ok c"
  then have "channel_ok (loaded c)" using ce_bounds by (simp add: channel_ok_def)
  then show ?thesis by (simp add: load_eq Let_def channel_ok_parts channel_ok_set)
qed

lemma channel_ok_ops:
  assumes "channel_ok c"
  shows "channel_ok (latch_count c)" "channel_ok (latch_status c)" "channel_ok (data_write v c)" "channel_ok (snd (data_read c))"
    "channel_ok (set_gate g c)" "v AND 0x30 \<noteq> 0 \<Longrightarrow> channel_ok (program_mode c v)" "channel_ok (tick_channel c)"
proof -
  have fin: "channel_ok d \<Longrightarrow> channel_ok (finalize_write d)" for d
    by (simp add: finalize_write_def Let_def channel_ok_parts channel_ok_set)
  show "channel_ok (latch_count c)" "channel_ok (latch_status c)" "channel_ok (snd (data_read c))" "channel_ok (set_gate g c)"
    using assms by (simp_all add: latch_count_def latch_status_def data_read_def set_gate_def Let_def channel_ok_parts channel_ok_set)
  show "channel_ok (data_write v c)"
    using assms by (simp add: data_write_def Let_def channel_ok_parts channel_ok_set fin)
  show "v AND 0x30 \<noteq> 0 \<Longrightarrow> channel_ok (program_mode c v)"
    using assms canonical_mode_less rw_mode_nonzero [of v] by (simp add: program_mode_def Let_def channel_ok_def word_and_le1)
  have 3: "channel_ok d \<Longrightarrow> channel_ok (count_mode3 d)" for d
    by (simp add: count_mode3_def Let_def channel_ok_parts channel_ok_set channel_ok_decrement_n ce_bounds)
  have "channel_ok d \<Longrightarrow> channel_ok (tick_count d)" for d
    by (simp add: tick_count_def Let_def channel_ok_parts channel_ok_set 3)
  then show "channel_ok (tick_channel c)"
    using assms by (simp add: tick_channel_def Let_def channel_ok_parts channel_ok_set channel_ok_load split: pitx_state_t.splits)
qed

lemma pitx_step_ok: "pitx_step pit pit' \<Longrightarrow> pitx_ok pit \<Longrightarrow> pitx_ok pit'"
proof (induction rule: pitx_step.induct)
  case (control pit v)
  let ?pit = "pit\<lparr>d_last_control := v\<rparr>"
  have ok: "pitx_ok ?pit" using control by (simp add: pitx_ok_def)
  have rb: "pitx_ok q \<Longrightarrow> i < 3 \<Longrightarrow> pitx_ok (read_back v q i)" for q i
    by (auto simp: read_back_def Let_def intro!: pitx_ok_upd channel_ok_ops)
  then have fb: "pitx_ok q \<Longrightarrow> (\<forall>i\<in>set is. i < 3) \<Longrightarrow> pitx_ok (foldl (read_back v) q is)" for q "is"
    by (induction "is" arbitrary: q) auto
  have "unat (drop_bit 6 v) = drop_bit 6 (unat v)" by (rule unat_drop_bit_eq)
  also have "\<dots> \<le> 3" using unsigned_less [of v, where 'a = nat] by (simp add: drop_bit_eq_div)
  finally have "unat (drop_bit 6 v) \<noteq> 3 \<Longrightarrow> unat (drop_bit 6 v) < 3" by simp
  then show ?case
    using ok fb [OF ok, of "[0..<3]"] unfolding pitx_control_write_def Let_def
    by (auto intro!: pitx_ok_upd channel_ok_ops)
next
  case (data_out pit ch v)
  then show ?case by (auto simp: pitx_data_write_def intro!: pitx_ok_upd channel_ok_ops)
next
  case (data_in pit ch)
  show ?case
  proof (cases "ch < 3")
    case True
    then have "channel_ok (d_channel pit ! ch)" using data_in by (simp add: pitx_ok_def)
    then have "channel_ok (snd (data_read (d_channel pit ! ch)))" by (rule channel_ok_ops)
    with True data_in show ?thesis by (auto simp: pitx_data_read_def case_prod_beta intro!: pitx_ok_upd)
  next
    case False
    with data_in show ?thesis by (simp add: pitx_data_read_def)
  qed
next
  case (gate_pin pit ch g)
  then show ?case by (auto simp: pitx_set_gate_def intro!: pitx_ok_upd channel_ok_ops)
next
  case (clock_one pit ch)
  then show ?case by (auto simp: pitx_tick_channel_def intro!: pitx_ok_upd channel_ok_ops)
next
  case (clock_all pit)
  then show ?case by (auto simp: pitx_tick_def pitx_tick_channel_def upt_rec intro!: pitx_ok_upd channel_ok_ops)
qed

section \<open>Properties\<close>

text \<open>
  C5. Square wave (mode 3): with the gate high and programmed with any count of at least 2 (1 is not a legal
  count of this mode), binary or BCD, even or odd, on either chip type, the output is a wave of period \<open>n\<close> that is high for the first \<open>(n + 1) div 2\<close>
  clocks of each period and low for the rest, from the clock that loads the count on, for ever.
\<close>

theorem square_wave_output:
  assumes "length (d_channel pit) = 3" and "ch < 3" and "x_gate (d_channel pit ! ch)"
    and "2 \<le> n" and "n \<le> count_top b"
  shows "pitx_get_output ((pitx_tick ^^ Suc k) (program ch 3 b (count_word b n) pit)) ch \<longleftrightarrow> k mod n < (n + 1) div 2"
proof -
  note pa = program_armed [OF assms(1,2), of 3 b "count_word b n", simplified]
  let ?c = "d_channel (program ch 3 b (count_word b n) pit) ! ch"
  have "square_pos (ce_of b) b n 0 (tick_channel ?c)" by (rule armed_square) (use pa assms in auto)
  then have "square_pos (ce_of b) b n (k mod n) (ticks k (tick_channel ?c))"
    using binary.square_ticks bcd.square_ticks assms(4,5) by (cases b) (simp_all add: ce_of_def [abs_def] count_top_def)
  then show ?thesis
    using pitx_ticks [OF pa(4) assms(2), of "Suc k"] assms(2)
    by (simp add: pitx_get_output_def ticks_Suc_shift square_pos_def high_def del: ticks_simps funpow.simps)
qed

definition pit_gated :: pitx_device_t where
  "pit_gated = pitx_set_gate (pitx_init PITX_8254) 0 True"

lemma pit_gated_ok: "length (d_channel pit_gated) = 3 \<and> x_gate (d_channel pit_gated ! 0)"
  by (simp add: pit_gated_def pitx_set_gate_def pitx_init_def pitx_reset_def set_gate_def Let_def reset_channel_def)

theorem square_wave_output_witness:
  "pitx_get_output ((pitx_tick ^^ Suc 12) (program 0 3 False (count_word False 5) pit_gated)) 0"
  using square_wave_output [of pit_gated 0 5 False 12] pit_gated_ok by (simp add: count_top_def del: funpow.simps)

text \<open>
  Rate generator (mode 2): with a count of \<open>n\<close>, binary or BCD, the output is low for exactly the
  last clock of every \<open>n\<close> clocks, for ever.
\<close>

theorem rate_generator_output:
  assumes "length (d_channel pit) = 3" and "ch < 3" and "x_gate (d_channel pit ! ch)"
    and "2 \<le> n" and "n \<le> count_top b"
  shows "pitx_get_output ((pitx_tick ^^ Suc k) (program ch 2 b (count_word b n) pit)) ch \<longleftrightarrow> k mod n \<noteq> n - 1"
proof -
  note pa = program_armed [OF assms(1,2), of 2 b "count_word b n", simplified]
  let ?c = "d_channel (program ch 2 b (count_word b n) pit) ! ch"
  have "rate_pos (ce_of b) b n 0 (tick_channel ?c)" by (rule armed_rate) (use pa assms in auto)
  then have "rate_pos (ce_of b) b n (k mod n) (ticks k (tick_channel ?c))"
    using binary.rate_ticks bcd.rate_ticks assms(4,5) by (cases b) (simp_all add: ce_of_def [abs_def] count_top_def)
  then show ?thesis
    using pitx_ticks [OF pa(4) assms(2), of "Suc k"] assms(2)
    by (simp add: pitx_get_output_def ticks_Suc_shift rate_pos_def del: ticks_simps funpow.simps)
qed

theorem rate_generator_output_witness:
  "\<not> pitx_get_output ((pitx_tick ^^ Suc 19) (program 0 2 True (count_word True 10) pit_gated)) 0"
  using rate_generator_output [of pit_gated 0 10 True 19] pit_gated_ok by (simp add: count_top_def del: funpow.simps)

text \<open>
  Interrupt on terminal count (mode 0): the output is low from the clock that loads the count and
  goes high exactly \<open>n\<close> clocks later, and stays high however long the counter runs on.
\<close>

theorem terminal_count_output:
  assumes "length (d_channel pit) = 3" and "ch < 3" and "x_gate (d_channel pit ! ch)"
    and "0 < n" and "n \<le> count_top b"
  shows "pitx_get_output ((pitx_tick ^^ Suc k) (program ch 0 b (count_word b n) pit)) ch \<longleftrightarrow> n \<le> k"
proof -
  note pa = program_armed [OF assms(1,2), of 0 b "count_word b n", simplified]
  let ?c = "d_channel (program ch 0 b (count_word b n) pit) ! ch"
  have "once_pos (ce_of b) b n 0 (tick_channel ?c)" by (rule armed_once) (use pa assms in auto)
  then have "once_pos (ce_of b) b n k (ticks k (tick_channel ?c))"
    using binary.once_ticks bcd.once_ticks assms(4,5) by (cases b) (simp_all add: ce_of_def [abs_def] count_top_def)
  then show ?thesis
    using pitx_ticks [OF pa(4) assms(2), of "Suc k"] assms(2)
    by (auto simp: pitx_get_output_def ticks_Suc_shift once_pos_def simp del: ticks_simps funpow.simps split: if_splits)
qed

theorem terminal_count_output_witness:
  "pitx_get_output ((pitx_tick ^^ Suc 70000) (program 0 0 False (count_word False 65536) pit_gated)) 0"
  using terminal_count_output [of pit_gated 0 65536 False 70000] pit_gated_ok by (simp add: count_top_def del: funpow.simps)

text \<open>
  C37. A latched count is stable: after the counter latch command on a channel read low byte first,
  any number of clocks may pass, and the next two reads return the low and the high byte of the
  count at the moment of the latch.
\<close>

theorem latched_count_read:
  assumes "length (d_channel pit) = 3" and "ch < 3" and "x_rw_mode (d_channel pit ! ch) = 3"
    and "\<not> x_count_latched (d_channel pit ! ch)" and "\<not> x_status_latched (d_channel pit ! ch)"
  shows "let p = (pitx_tick ^^ k) (pitx_control_write pit (of_nat (64 * ch)));
             (lo, p) = pitx_data_read p ch; (hi, p) = pitx_data_read p ch
         in lo = ucast (pitx_get_count pit ch) \<and> hi = ucast (drop_bit 8 (pitx_get_count pit ch)) \<and>
            \<not> x_count_latched (d_channel p ! ch)"
proof -
  let ?v = "visible_count (x_counting_element (d_channel pit ! ch))"
  let ?p = "pitx_control_write pit (of_nat (64 * ch))"
  have sel: "unat (drop_bit 6 (of_nat (64 * ch) :: u8)) = ch" "(of_nat (64 * ch) :: u8) AND 0x30 = 0"
    using less_3_cases [OF assms(2)] by auto
  have p: "d_channel ?p ! ch = latch_count (d_channel pit ! ch)" "length (d_channel ?p) = 3"
    using sel assms(1,2) by (simp_all add: pitx_control_write_def Let_def)
  have l: "x_count_latched (d_channel ?p ! ch)" using p(1) by (simp add: latch_count_def)
  define q where "q = (pitx_tick ^^ k) ?p"
  have q: "length (d_channel q) = 3" "latch_view (d_channel q ! ch) = latch_view (latch_count (d_channel pit ! ch))"
    using pitx_ticks [OF p(2) assms(2), of k] ticks_latched [OF l] p(1) by (simp_all add: q_def)
  have v: "x_count_latched (d_channel q ! ch)" "x_output_latch (d_channel q ! ch) = ?v" "x_read_phase (d_channel q ! ch) = 0"
    "x_rw_mode (d_channel q ! ch) = 3" "\<not> x_status_latched (d_channel q ! ch)"
    using q(2) assms(3-5) by (simp_all add: latch_view_def latch_count_def)
  have "pitx_data_read q ch = (ucast ?v, upd_ch ch (\<lambda>_. (d_channel q ! ch)\<lparr>x_read_phase := 1\<rparr>) q)"
    using v assms(2) by (simp add: pitx_data_read_def data_read_def Let_def)
  then show ?thesis
    unfolding q_def [symmetric] using v q(1) assms(2)
    by (simp add: pitx_data_read_def [of "upd_ch ch _ q"] data_read_def Let_def pitx_get_count_def)
qed

definition pit_loaded :: pitx_device_t where
  "pit_loaded = pitx_tick (pitx_data_write (pitx_data_write (pitx_control_write pit_gated 0x34) 0 0x34) 0 0x12)"

lemma pit_loaded_eq: "d_channel pit_loaded ! 0 = (reset_channel PITX_8254)\<lparr>x_control := 0x34, x_mode_raw := 2, x_mode := 2,
    x_rw_mode := 3, x_output_latch := 0x1234, x_count_register := 0x1234, x_counting_element := 0x1234, x_null_count := False,
    x_gate := True, x_output := True, x_armed := True, x_initial_load := False, x_state := PITX_COUNTING, x_clocks := 1\<rparr> \<and>
    length (d_channel pit_loaded) = 3"
  by code_simp

theorem latched_count_read_witness:
  "let p = (pitx_tick ^^ 100) (pitx_control_write pit_loaded (of_nat (64 * 0)));
       (lo, p) = pitx_data_read p 0; (hi, p) = pitx_data_read p 0
   in lo = 0x34 \<and> hi = 0x12"
proof -
  let ?c = "d_channel pit_loaded ! 0"
  have "length (d_channel pit_loaded) = 3" "(0 :: nat) < 3" "x_rw_mode ?c = 3" "\<not> x_count_latched ?c" "\<not> x_status_latched ?c"
    "pitx_get_count pit_loaded 0 = 0x1234"
    using pit_loaded_eq by (simp_all add: reset_channel_def pitx_get_count_def visible_count_def)
  from latched_count_read [OF this(1-5), of 100] this(6) show ?thesis
    by (simp only: Let_def case_prod_beta) simp
qed

text \<open>
  C36. Whatever software, the clock and the gate pins do, a device that starts from reset keeps three
  channels whose mode is at most 5 (so the assertion in \<open>load_counting_element\<close> cannot fail), whose
  access mode is 1 to 3 and whose counting element is at most 0x10000.
\<close>

theorem pitx_reachable_ok:
  assumes "pitx_step\<^sup>*\<^sup>* (pitx_reset type) pit"
  shows "pitx_ok pit"
  using assms
proof (induction rule: rtranclp_induct)
  case base
  show ?case by (simp add: pitx_ok_def pitx_reset_def reset_channel_def channel_ok_def)
next
  case (step p q)
  then show ?case using pitx_step_ok by blast
qed

theorem pitx_reachable_ok_witness:
  "pitx_ok (pitx_tick (pitx_control_write (pitx_reset PITX_8253) 0x36))"
  by (rule pitx_reachable_ok [of PITX_8253])
    (blast intro: rtranclp.rtrancl_into_rtrancl pitx_step.intros)

text \<open>
  On the 8253 the square wave can stop for good: if a new even count arrives in the clock in which
  an odd count has just been loaded, the counting element stays odd, steps over zero, and the output
  never changes again.
\<close>

theorem square_wave_stuck:
  assumes "x_mode c = 3" and "x_type c = PITX_8253" and "\<not> x_bcd c" and "x_gate c" and "x_state c = PITX_COUNTING"
    and "\<not> bit (x_count_register c) 0" and "x_counting_element c = of_nat n" and "n < 65536" and "odd n"
  shows "x_output (ticks k c) = x_output c"
proof -
  have "x_mode (ticks k c) = 3 \<and> x_type (ticks k c) = PITX_8253 \<and> \<not> x_bcd (ticks k c) \<and> x_gate (ticks k c) \<and>
    x_state (ticks k c) = PITX_COUNTING \<and> \<not> bit (x_count_register (ticks k c)) 0 \<and>
    (\<exists>n<65536. odd n \<and> x_counting_element (ticks k c) = of_nat n) \<and> x_output (ticks k c) = x_output c"
  proof (induction k)
    case 0
    then show ?case using assms by auto
  next
    case (Suc k)
    let ?c = "ticks k c"
    from Suc obtain n where n: "n < 65536" "odd n" "x_counting_element ?c = of_nat n" by blast
    define m where "m = (if n = 1 then 65535 else n - 2)"
    have "decrement_ce False (decrement_ce False (of_nat n)) = of_nat m"
    proof (cases "n = 1")
      case True
      then show ?thesis by (simp add: m_def decrement_ce_def)
    next
      case False
      with n(2) have "2 \<le> n" by (cases n) auto
      then show ?thesis using binary.dec_ce_n [of 2 n] n(1) False by (simp add: m_def numeral_2_eq_2)
    qed
    then have ce: "x_counting_element (decrement_n (?c\<lparr>x_clocks := x_clocks ?c + 1\<rparr>) 2) = of_nat m"
      using Suc n(3) by (simp add: numeral_2_eq_2)
    have m: "m < 65536" "odd m" "visible_count (of_nat m) \<noteq> 0"
      using n(1,2) binary.visible_ce [of m] by (auto simp: m_def elim!: oddE)
    have "tick_channel ?c = decrement_n (?c\<lparr>x_clocks := x_clocks ?c + 1\<rparr>) 2"
      using Suc ce m(3) by (simp add: tick_channel_def tick_count_def count_mode3_def Let_def)
    with Suc ce m show ?case by auto
  qed
  then show ?thesis by simp
qed

definition pit_stuck :: pitx_device_t where
  "pit_stuck =
    (let p = pitx_tick (program 0 3 False 5 (pitx_set_gate (pitx_init PITX_8253) 0 True))
     in pitx_data_write (pitx_data_write p 0 4) 0 0)"

theorem square_wave_stuck_witness:
  "x_output (ticks 100000 (d_channel pit_stuck ! 0))"
proof -
  let ?c = "d_channel pit_stuck ! 0"
  have "x_mode ?c = 3" "x_type ?c = PITX_8253" "\<not> x_bcd ?c" "x_gate ?c" "x_state ?c = PITX_COUNTING"
    "\<not> bit (x_count_register ?c) 0" "x_counting_element ?c = of_nat 5" "x_output ?c" by code_simp+
  then show ?thesis using square_wave_stuck [of ?c 5 100000] by simp
qed

end
