(* ===== verification/I2c.thy ===== *)
theory I2c
  imports Prelude "HOL-Library.Monad_Syntax"
begin

text \<open>
  The I2C bus of \<open>device/i2c.c\<close>: for each of the 128 addresses the list of devices registered
  there, in the order of the C linked list (new devices at the end).  A device entry holds the
  numbers of its four handler functions (\<open>None\<close> for NULL) and its \<open>priv\<close>; what the handlers do to
  the state \<open>'w\<close> of the devices is the record \<open>i2c_ops\<close>.  A handle is \<open>None\<close> for NULL.  The
  result \<open>None\<close> of a transfer stands for an access outside an array: an address beyond the 128
  lists of the bus, or a fault inside a handler.
\<close>

section \<open>State\<close>

record i2c_t =
  h_start :: "nat option"
  h_read :: "nat option"
  h_write :: "nat option"
  h_stop :: "nat option"
  h_priv :: nat

definition NADDRS :: nat where
  "NADDRS = 128"

record i2c_bus_t =
  u_name :: string
  u_devices :: "i2c_t list list"

record 'w i2c_ops =
  o_start :: "nat \<Rightarrow> u8 \<Rightarrow> u8 \<Rightarrow> nat \<Rightarrow> 'w \<Rightarrow> (u8 \<times> 'w) option"
  o_read :: "nat \<Rightarrow> u8 \<Rightarrow> nat \<Rightarrow> 'w \<Rightarrow> (u8 \<times> 'w) option"
  o_write :: "nat \<Rightarrow> u8 \<Rightarrow> u8 \<Rightarrow> nat \<Rightarrow> 'w \<Rightarrow> (u8 \<times> 'w) option"
  o_stop :: "nat \<Rightarrow> u8 \<Rightarrow> nat \<Rightarrow> 'w \<Rightarrow> 'w option"

section \<open>Registration\<close>

definition i2c_addbus :: "string \<Rightarrow> i2c_bus_t" where
  "i2c_addbus name = \<lparr>u_name = name, u_devices = replicate NADDRS []\<rparr>"

text \<open>The device entries that \<open>i2c_removebus\<close> frees, in order.\<close>

definition i2c_removebus :: "i2c_bus_t option \<Rightarrow> i2c_t list" where
  "i2c_removebus bus = (case bus of None \<Rightarrow> [] | Some b \<Rightarrow> concat (u_devices b))"

definition i2c_getbusname :: "i2c_bus_t option \<Rightarrow> string option" where
  "i2c_getbusname bus = map_option u_name bus"

fun append_at :: "nat \<Rightarrow> nat \<Rightarrow> i2c_t \<Rightarrow> i2c_t list list \<Rightarrow> i2c_t list list" where
  "append_at base 0 dev ds = ds"
| "append_at base (Suc n) dev ds = append_at (Suc base) n dev (ds[base := ds ! base @ [dev]])"

definition i2c_sethandler :: "i2c_bus_t option \<Rightarrow> u8 \<Rightarrow> int \<Rightarrow> i2c_t \<Rightarrow> i2c_bus_t option" where
  "i2c_sethandler bus base n dev =
    (case bus of
       None \<Rightarrow> None
     | Some b \<Rightarrow>
         if uint base + n > int NADDRS then Some b
         else Some (b\<lparr>u_devices := append_at (unat base) (nat n) dev (u_devices b)\<rparr>))"

text \<open>Removal takes out the first entry with the same handlers and \<open>priv\<close>.\<close>

fun remove_at :: "nat \<Rightarrow> nat \<Rightarrow> i2c_t \<Rightarrow> i2c_t list list \<Rightarrow> i2c_t list list" where
  "remove_at base 0 dev ds = ds"
| "remove_at base (Suc n) dev ds = remove_at (Suc base) n dev (ds[base := remove1 dev (ds ! base)])"

definition i2c_removehandler :: "i2c_bus_t option \<Rightarrow> u8 \<Rightarrow> int \<Rightarrow> i2c_t \<Rightarrow> i2c_bus_t option" where
  "i2c_removehandler bus base n dev =
    (case bus of
       None \<Rightarrow> None
     | Some b \<Rightarrow>
         if uint base + n > int NADDRS then Some b
         else Some (b\<lparr>u_devices := remove_at (unat base) (nat n) dev (u_devices b)\<rparr>))"

definition i2c_handler :: "bool \<Rightarrow> i2c_bus_t option \<Rightarrow> u8 \<Rightarrow> int \<Rightarrow> i2c_t \<Rightarrow> i2c_bus_t option" where
  "i2c_handler on bus base n dev =
    (if on then i2c_sethandler bus base n dev else i2c_removehandler bus base n dev)"

section \<open>Transfers\<close>

text \<open>The list a transfer walks: empty on a NULL bus, \<open>None\<close> outside the array.\<close>

definition devices_at :: "i2c_bus_t option \<Rightarrow> u8 \<Rightarrow> i2c_t list option" where
  "devices_at bus addr =
    (case bus of
       None \<Rightarrow> Some []
     | Some b \<Rightarrow> if unat addr < length (u_devices b) then Some (u_devices b ! unat addr) else None)"

fun start_all :: "'w i2c_ops \<Rightarrow> u8 \<Rightarrow> u8 \<Rightarrow> i2c_t list \<Rightarrow> u8 \<Rightarrow> 'w \<Rightarrow> (u8 \<times> 'w) option" where
  "start_all ops addr rd [] ret w = Some (ret, w)"
| "start_all ops addr rd (p # ps) ret w =
    (case h_start p of
       None \<Rightarrow> start_all ops addr rd ps ret w
     | Some f \<Rightarrow> do {
         (r, w) \<leftarrow> o_start ops f addr rd (h_priv p) w;
         start_all ops addr rd ps (ret OR r) w
       })"

definition i2c_start :: "'w i2c_ops \<Rightarrow> i2c_bus_t option \<Rightarrow> u8 \<Rightarrow> u8 \<Rightarrow> 'w \<Rightarrow> (u8 \<times> 'w) option" where
  "i2c_start ops bus addr rd w = do {
    ds \<leftarrow> devices_at bus addr;
    start_all ops addr rd ds 0 w
  }"

fun read_first :: "'w i2c_ops \<Rightarrow> u8 \<Rightarrow> i2c_t list \<Rightarrow> 'w \<Rightarrow> (u8 \<times> 'w) option" where
  "read_first ops addr [] w = Some (0, w)"
| "read_first ops addr (p # ps) w =
    (case h_read p of
       None \<Rightarrow> read_first ops addr ps w
     | Some f \<Rightarrow> o_read ops f addr (h_priv p) w)"

definition i2c_read :: "'w i2c_ops \<Rightarrow> i2c_bus_t option \<Rightarrow> u8 \<Rightarrow> 'w \<Rightarrow> (u8 \<times> 'w) option" where
  "i2c_read ops bus addr w = do {
    ds \<leftarrow> devices_at bus addr;
    read_first ops addr ds w
  }"

fun write_all :: "'w i2c_ops \<Rightarrow> u8 \<Rightarrow> u8 \<Rightarrow> i2c_t list \<Rightarrow> u8 \<Rightarrow> 'w \<Rightarrow> (u8 \<times> 'w) option" where
  "write_all ops addr data [] ret w = Some (ret, w)"
| "write_all ops addr data (p # ps) ret w =
    (case h_write p of
       None \<Rightarrow> write_all ops addr data ps ret w
     | Some f \<Rightarrow> do {
         (r, w) \<leftarrow> o_write ops f addr data (h_priv p) w;
         write_all ops addr data ps (ret OR r) w
       })"

definition i2c_write :: "'w i2c_ops \<Rightarrow> i2c_bus_t option \<Rightarrow> u8 \<Rightarrow> u8 \<Rightarrow> 'w \<Rightarrow> (u8 \<times> 'w) option" where
  "i2c_write ops bus addr data w = do {
    ds \<leftarrow> devices_at bus addr;
    write_all ops addr data ds 0 w
  }"

fun stop_all :: "'w i2c_ops \<Rightarrow> u8 \<Rightarrow> i2c_t list \<Rightarrow> 'w \<Rightarrow> 'w option" where
  "stop_all ops addr [] w = Some w"
| "stop_all ops addr (p # ps) w =
    (case h_stop p of
       None \<Rightarrow> stop_all ops addr ps w
     | Some f \<Rightarrow> do {
         w \<leftarrow> o_stop ops f addr (h_priv p) w;
         stop_all ops addr ps w
       })"

definition i2c_stop :: "'w i2c_ops \<Rightarrow> i2c_bus_t option \<Rightarrow> u8 \<Rightarrow> 'w \<Rightarrow> 'w option" where
  "i2c_stop ops bus addr w = do {
    ds \<leftarrow> devices_at bus addr;
    stop_all ops addr ds w
  }"

section \<open>Registration and transfers\<close>

definition bus_ok :: "i2c_bus_t option \<Rightarrow> bool" where
  "bus_ok bus = (case bus of None \<Rightarrow> True | Some b \<Rightarrow> length (u_devices b) = NADDRS)"

lemma append_at_effect:
  assumes "base + n \<le> length ds"
  shows "append_at base n dev ds ! i =
      (if base \<le> i \<and> i < base + n then ds ! i @ [dev] else ds ! i)"
    and "length (append_at base n dev ds) = length ds"
  using assms by (induction base n dev ds rule: append_at.induct) (auto simp: nth_list_update)

lemma remove_at_effect:
  assumes "base + n \<le> length ds"
  shows "remove_at base n dev ds ! i =
      (if base \<le> i \<and> i < base + n then remove1 dev (ds ! i) else ds ! i)"
    and "length (remove_at base n dev ds) = length ds"
  using assms by (induction base n dev ds rule: remove_at.induct) (auto simp: nth_list_update)

lemma range_fits:
  "0 \<le> n \<Longrightarrow> uint (base::u8) + n \<le> int NADDRS \<Longrightarrow> unat base + nat n \<le> NADDRS"
proof -
  assume "0 \<le> n" and "uint base + n \<le> int NADDRS"
  then have "int (unat base + nat n) \<le> int NADDRS" by simp
  then show ?thesis by (simp only: of_nat_le_iff)
qed

lemma bind_pair_return [simp]: "(m \<bind> (\<lambda>(r, y). Some (r, y))) = m"
  by (cases m) auto

lemma single_device:
  assumes "devices_at bus addr = Some [d]"
  shows "h_start d = Some f \<Longrightarrow> i2c_start ops bus addr rd w = o_start ops f addr rd (h_priv d) w"
    and "h_read d = Some g \<Longrightarrow> i2c_read ops bus addr w = o_read ops g addr (h_priv d) w"
    and "h_write d = Some h \<Longrightarrow> i2c_write ops bus addr data w = o_write ops h addr data (h_priv d) w"
    and "h_stop d = Some k \<Longrightarrow> i2c_stop ops bus addr w = o_stop ops k addr (h_priv d) w"
  using assms
  by (simp_all add: i2c_start_def i2c_read_def i2c_write_def i2c_stop_def cong: option.case_cong)
    (auto split: bind_splits)

lemma bus_ok_devices: "bus_ok bus \<Longrightarrow> addr < 128 \<Longrightarrow> \<exists>ds. devices_at bus addr = Some ds"
  by (auto simp: bus_ok_def devices_at_def NADDRS_def word_less_nat_alt split: option.splits)

text \<open>
  Registering a device and removing it: for a range of addresses where the device is not yet
  registered, removal right after registration restores the bus, with the other devices in their
  order; in between, exactly the addresses of the range gained the device, at the end of their list.
\<close>

theorem i2c_handler_roundtrip:
  assumes "bus_ok (Some b)" and "0 \<le> n" and "uint base + n \<le> int NADDRS"
    and "\<And>i. unat base \<le> i \<Longrightarrow> i < unat base + nat n \<Longrightarrow> dev \<notin> set (u_devices b ! i)"
  shows "\<exists>c. i2c_handler True (Some b) base n dev = Some c \<and>
    (\<forall>a < 128. devices_at (Some c) a = map_option
      (\<lambda>ds. if unat base \<le> unat a \<and> unat a < unat base + nat n then ds @ [dev] else ds) (devices_at (Some b) a)) \<and>
    i2c_handler False (Some c) base n dev = Some b"
proof -
  let ?ds = "append_at (unat base) (nat n) dev (u_devices b)"
  have len: "unat base + nat n \<le> length (u_devices b)"
    using range_fits [OF assms(2,3)] assms(1) by (simp add: bus_ok_def)
  note app = append_at_effect [OF len, of dev]
  have "remove_at (unat base) (nat n) dev ?ds = u_devices b"
    using len assms(4)
    by (intro nth_equalityI) (auto simp: remove_at_effect app remove1_append)
  then have "i2c_handler False (Some (b\<lparr>u_devices := ?ds\<rparr>)) base n dev = Some b"
    using assms(3) by (simp add: i2c_handler_def i2c_removehandler_def)
  moreover have "i2c_handler True (Some b) base n dev = Some (b\<lparr>u_devices := ?ds\<rparr>)"
    using assms(3) by (simp add: i2c_handler_def i2c_sethandler_def)
  moreover have "devices_at (Some (b\<lparr>u_devices := ?ds\<rparr>)) a = map_option
      (\<lambda>ds. if unat base \<le> unat a \<and> unat a < unat base + nat n then ds @ [dev] else ds) (devices_at (Some b) a)" for a
    by (simp add: devices_at_def app)
  ultimately show ?thesis by blast
qed

definition test_entry :: "nat \<Rightarrow> i2c_t" where
  "test_entry k = \<lparr>h_start = Some k, h_read = None, h_write = Some k, h_stop = None, h_priv = k\<rparr>"

definition test_bus :: i2c_bus_t where
  "test_bus = \<lparr>u_name = ''smbus'', u_devices = replicate NADDRS [test_entry 0]\<rparr>"

theorem i2c_handler_roundtrip_witness:
  "\<exists>c. i2c_handler True (Some test_bus) 0x50 2 (test_entry 1) = Some c \<and>
    (\<forall>a < 128. devices_at (Some c) a = map_option
      (\<lambda>ds. if unat (0x50::u8) \<le> unat a \<and> unat a < unat (0x50::u8) + nat 2 then ds @ [test_entry 1] else ds)
      (devices_at (Some test_bus) a)) \<and>
    i2c_handler False (Some c) 0x50 2 (test_entry 1) = Some test_bus"
  by (rule i2c_handler_roundtrip) (simp_all add: bus_ok_def test_bus_def NADDRS_def test_entry_def)

end
