(* ===== verification/I2c_Gpio.thy ===== *)
theory I2c_Gpio
  imports I2c
begin

text \<open>
  The bit-banged I2C adapter of \<open>device/i2c_gpio.c\<close>: a device drives the levels of SCL and SDA
  with \<open>i2c_gpio_set\<close>, and the adapter turns them into start, read, write and stop calls on its
  bus.
\<close>

section \<open>State and operations\<close>

record i2c_gpio_t =
  g_bus_name :: string
  g_i2c :: "i2c_bus_t option"
  g_prev_scl :: u8
  g_prev_sda :: u8
  g_slave_sda :: u8
  g_started :: u8
  g_slave_addr_received :: u8
  g_slave_addr :: u8
  g_slave_read :: u8
  g_pos :: u8
  g_byte :: u8

type_synonym 'w gpio = "i2c_gpio_t \<times> 'w"

definition i2c_gpio_init :: "string \<Rightarrow> i2c_gpio_t" where
  "i2c_gpio_init name =
    \<lparr>g_bus_name = name, g_i2c = Some (i2c_addbus name), g_prev_scl = 1, g_prev_sda = 1,
     g_slave_sda = 1, g_started = 0, g_slave_addr_received = 0, g_slave_addr = 0xff,
     g_slave_read = 0, g_pos = 0, g_byte = 0\<rparr>"

definition i2c_gpio_close :: "i2c_gpio_t \<Rightarrow> i2c_t list" where
  "i2c_gpio_close dev = i2c_removebus (g_i2c dev)"

text \<open>The C operators \<open>!x\<close> on a byte.\<close>

definition lnot :: "u8 \<Rightarrow> u8" where
  "lnot v = (if v = 0 then 1 else 0)"

text \<open>The edges of \<open>i2c_gpio_set\<close>: SDA changing while SCL stays high.\<close>

definition start_condition :: "i2c_gpio_t \<Rightarrow> i2c_gpio_t" where
  "start_condition dev =
    dev\<lparr>g_started := 1, g_pos := 0, g_slave_addr := 0xff, g_slave_read := 2, g_slave_sda := 1\<rparr>"

definition stop_condition :: "'w i2c_ops \<Rightarrow> 'w gpio \<Rightarrow> 'w gpio option" where
  "stop_condition ops = (\<lambda>(dev, w). do {
    w \<leftarrow> (if g_slave_addr dev \<noteq> 0xff then i2c_stop ops (g_i2c dev) (g_slave_addr dev) w else Some w);
    Some (dev\<lparr>g_started := 0, g_slave_addr := 0xff, g_slave_sda := 1\<rparr>, w)
  })"

text \<open>The data bit of a rising SCL edge, below position 8.\<close>

definition shift_data :: "u8 \<Rightarrow> i2c_gpio_t \<Rightarrow> i2c_gpio_t" where
  "shift_data sda dev =
    (if g_slave_read dev = 1
     then dev\<lparr>g_slave_sda := (if tst (g_byte dev) 0x80 then 1 else 0), g_byte := push_bit 1 (g_byte dev)\<rparr>
     else dev\<lparr>g_byte := push_bit 1 (g_byte dev) OR sda\<rparr>)"

text \<open>The 8th bit of an address or write transfer: the call on the bus and the (N)ACK.\<close>

definition byte_done :: "'w i2c_ops \<Rightarrow> 'w gpio \<Rightarrow> 'w gpio option" where
  "byte_done ops = (\<lambda>(dev, w).
    if g_slave_read dev = 2 then do {
      let dev = dev\<lparr>g_slave_addr := drop_bit 1 (g_byte dev), g_slave_read := g_byte dev AND 1\<rparr>;
      (r, w) \<leftarrow> i2c_start ops (g_i2c dev) (g_slave_addr dev) (g_slave_read dev) w;
      let dev = dev\<lparr>g_slave_sda := lnot r\<rparr>;
      (dev, w) \<leftarrow>
        (if g_slave_sda dev = 0 \<and> g_slave_read dev \<noteq> 0
         then map_option (\<lambda>(b, w). (dev\<lparr>g_byte := b\<rparr>, w)) (i2c_read ops (g_i2c dev) (g_slave_addr dev) w)
         else Some (dev, w));
      Some (dev\<lparr>g_slave_read := g_slave_read dev OR 0x80\<rparr>, w)
    }
    else if g_slave_read dev = 0 then do {
      (r, w) \<leftarrow> i2c_write ops (g_i2c dev) (g_slave_addr dev) (g_byte dev) w;
      Some (dev\<lparr>g_slave_sda := lnot r\<rparr>, w)
    }
    else Some (dev, w))"

text \<open>The 9th bit: the master's (N)ACK of a read, or the end of an address transfer.\<close>

definition ack_clock :: "'w i2c_ops \<Rightarrow> u8 \<Rightarrow> 'w gpio \<Rightarrow> 'w gpio option" where
  "ack_clock ops sda = (\<lambda>(dev, w). do {
    (dev, w) \<leftarrow>
      (if g_slave_read dev = 1
       then (if sda = 0
             then map_option (\<lambda>(b, w). (dev\<lparr>g_byte := b\<rparr>, w)) (i2c_read ops (g_i2c dev) (g_slave_addr dev) w)
             else Some (dev, w))
       else Some (dev\<lparr>g_slave_read := g_slave_read dev AND 1\<rparr>, w));
    Some (dev\<lparr>g_pos := 0\<rparr>, w)
  })"

definition rising_edge :: "'w i2c_ops \<Rightarrow> u8 \<Rightarrow> 'w gpio \<Rightarrow> 'w gpio option" where
  "rising_edge ops sda = (\<lambda>(dev, w).
    let pos = g_pos dev; dev = dev\<lparr>g_pos := pos + 1\<rparr>;
        dev = (if pos < 8 then shift_data sda dev else dev)
    in if g_pos dev = 8 then byte_done ops (dev, w)
       else if g_pos dev = 9 then ack_clock ops sda (dev, w)
       else Some (dev, w))"

definition i2c_gpio_set :: "'w i2c_ops \<Rightarrow> u8 \<Rightarrow> u8 \<Rightarrow> 'w gpio \<Rightarrow> 'w gpio option" where
  "i2c_gpio_set ops scl sda = (\<lambda>(dev, w). do {
    (dev, w) \<leftarrow>
      (if g_prev_scl dev \<noteq> 0 \<and> scl \<noteq> 0 then
         (if g_prev_sda dev \<noteq> 0 \<and> sda = 0 then Some (start_condition dev, w)
          else if g_prev_sda dev = 0 \<and> sda \<noteq> 0 then stop_condition ops (dev, w)
          else Some (dev, w))
       else if g_prev_scl dev = 0 \<and> scl \<noteq> 0 \<and> g_started dev \<noteq> 0 then rising_edge ops sda (dev, w)
       else if g_prev_scl dev \<noteq> 0 \<and> scl = 0 \<and> g_pos dev \<noteq> 8 then Some (dev\<lparr>g_slave_sda := 1\<rparr>, w)
       else Some (dev, w));
    Some (dev\<lparr>g_prev_scl := scl, g_prev_sda := sda\<rparr>, w)
  })"

definition i2c_gpio_get_scl :: "i2c_gpio_t \<Rightarrow> u8" where
  "i2c_gpio_get_scl dev = g_prev_scl dev"

definition i2c_gpio_get_sda :: "i2c_gpio_t \<Rightarrow> u8" where
  "i2c_gpio_get_sda dev = (if g_prev_sda dev \<noteq> 0 \<and> g_slave_sda dev \<noteq> 0 then 1 else 0)"

definition i2c_gpio_get_bus :: "i2c_gpio_t \<Rightarrow> i2c_bus_t option" where
  "i2c_gpio_get_bus dev = g_i2c dev"

end
