(* ===== verification/I2c_Master.thy ===== *)
theory I2c_Master
  imports I2c_Gpio
begin

text \<open>
  A bus master that clocks whole bytes through the bit-banged adapter, and the proof that each
  byte on the wire is exactly one call on the bus: transfers on the wire simulate transfers on the
  bus (\<open>agree\<close>).  The last sections drive the lines with arbitrary levels.
\<close>

section \<open>A bus master\<close>

definition lvl :: "bool \<Rightarrow> u8" where
  "lvl b = (if b then 1 else 0)"

text \<open>One clock with SDA at level \<open>b\<close>; the result is SDA sampled while SCL is high.\<close>

definition clock_bit :: "'w i2c_ops \<Rightarrow> bool \<Rightarrow> 'w gpio \<Rightarrow> (bool \<times> 'w gpio) option" where
  "clock_bit ops b s = do {
    s \<leftarrow> i2c_gpio_set ops 0 (lvl b) s;
    s \<leftarrow> i2c_gpio_set ops 1 (lvl b) s;
    let r = i2c_gpio_get_sda (fst s) \<noteq> 0;
    s \<leftarrow> i2c_gpio_set ops 0 (lvl b) s;
    Some (r, s)
  }"

fun clock_bits :: "'w i2c_ops \<Rightarrow> bool list \<Rightarrow> 'w gpio \<Rightarrow> (bool list \<times> 'w gpio) option" where
  "clock_bits ops [] s = Some ([], s)"
| "clock_bits ops (b # bs) s = do {
    (r, s) \<leftarrow> clock_bit ops b s;
    (rs, s) \<leftarrow> clock_bits ops bs s;
    Some (r # rs, s)
  }"

text \<open>The bits of a byte, most significant first, and back.\<close>

definition msb_bits :: "u8 \<Rightarrow> bool list" where
  "msb_bits v = map (bit v) [7, 6, 5, 4, 3, 2, 1, 0]"

definition shift_in :: "u8 \<Rightarrow> bool \<Rightarrow> u8" where
  "shift_in v b = push_bit 1 v OR lvl b"

definition of_msb :: "bool list \<Rightarrow> u8" where
  "of_msb bs = foldl shift_in 0 bs"

text \<open>Sending a byte: eight data clocks, then one with SDA released; True when acknowledged.\<close>

definition send_byte :: "'w i2c_ops \<Rightarrow> u8 \<Rightarrow> 'w gpio \<Rightarrow> (bool \<times> 'w gpio) option" where
  "send_byte ops v s = do {
    (_, s) \<leftarrow> clock_bits ops (msb_bits v) s;
    (r, s) \<leftarrow> clock_bit ops True s;
    Some (\<not> r, s)
  }"

text \<open>Receiving a byte: eight clocks with SDA released, then one with the master's (N)ACK.\<close>

definition recv_byte :: "'w i2c_ops \<Rightarrow> bool \<Rightarrow> 'w gpio \<Rightarrow> (u8 \<times> 'w gpio) option" where
  "recv_byte ops ack s = do {
    (rs, s) \<leftarrow> clock_bits ops (replicate 8 True) s;
    (_, s) \<leftarrow> clock_bit ops (\<not> ack) s;
    Some (of_msb rs, s)
  }"

definition send_start :: "'w i2c_ops \<Rightarrow> 'w gpio \<Rightarrow> 'w gpio option" where
  "send_start ops s = do {
    s \<leftarrow> i2c_gpio_set ops 0 1 s;
    s \<leftarrow> i2c_gpio_set ops 1 1 s;
    s \<leftarrow> i2c_gpio_set ops 1 0 s;
    i2c_gpio_set ops 0 0 s
  }"

definition send_stop :: "'w i2c_ops \<Rightarrow> 'w gpio \<Rightarrow> 'w gpio option" where
  "send_stop ops s = do {
    s \<leftarrow> i2c_gpio_set ops 0 0 s;
    s \<leftarrow> i2c_gpio_set ops 1 0 s;
    i2c_gpio_set ops 1 1 s
  }"

fun send_bytes :: "'w i2c_ops \<Rightarrow> u8 list \<Rightarrow> 'w gpio \<Rightarrow> (bool list \<times> 'w gpio) option" where
  "send_bytes ops [] s = Some ([], s)"
| "send_bytes ops (v # vs) s = do {
    (a, s) \<leftarrow> send_byte ops v s;
    (as, s) \<leftarrow> send_bytes ops vs s;
    Some (a # as, s)
  }"

text \<open>Receiving \<open>Suc n\<close> bytes, the last one not acknowledged.\<close>

fun recv_bytes :: "'w i2c_ops \<Rightarrow> nat \<Rightarrow> 'w gpio \<Rightarrow> (u8 list \<times> 'w gpio) option" where
  "recv_bytes ops 0 s = do { (v, s) \<leftarrow> recv_byte ops False s; Some ([v], s) }"
| "recv_bytes ops (Suc n) s = do {
    (v, s) \<leftarrow> recv_byte ops True s;
    (vs, s) \<leftarrow> recv_bytes ops n s;
    Some (v # vs, s)
  }"

text \<open>
  A transfer to the 7-bit address \<open>a\<close>: a list of messages, each opened by a (repeated) start
  condition and an address byte, the last one followed by a stop condition.  The result of a
  message is the list of acknowledgements and the bytes received; a message to read whose address
  is not acknowledged receives nothing.
\<close>

datatype i2c_msg = Wr "u8 list" | Rd nat

type_synonym i2c_reply = "bool list \<times> u8 list"

fun master_msg :: "'w i2c_ops \<Rightarrow> u8 \<Rightarrow> i2c_msg \<Rightarrow> 'w gpio \<Rightarrow> (i2c_reply \<times> 'w gpio) option" where
  "master_msg ops a (Wr vs) s = do {
    s \<leftarrow> send_start ops s;
    (as, s) \<leftarrow> send_bytes ops (push_bit 1 a # vs) s;
    Some ((as, []), s)
  }"
| "master_msg ops a (Rd n) s = do {
    s \<leftarrow> send_start ops s;
    (k, s) \<leftarrow> send_byte ops (push_bit 1 a OR 1) s;
    (vs, s) \<leftarrow> (if k then recv_bytes ops n s else Some ([], s));
    Some (([k], vs), s)
  }"

fun master_msgs :: "'w i2c_ops \<Rightarrow> u8 \<Rightarrow> i2c_msg list \<Rightarrow> 'w gpio \<Rightarrow> (i2c_reply list \<times> 'w gpio) option" where
  "master_msgs ops a [] s = Some ([], s)"
| "master_msgs ops a (m # ms) s = do {
    (r, s) \<leftarrow> master_msg ops a m s;
    (rs, s) \<leftarrow> master_msgs ops a ms s;
    Some (r # rs, s)
  }"

definition master_xfer :: "'w i2c_ops \<Rightarrow> u8 \<Rightarrow> i2c_msg list \<Rightarrow> 'w gpio \<Rightarrow> (i2c_reply list \<times> 'w gpio) option" where
  "master_xfer ops a ms s = do {
    (rs, s) \<leftarrow> master_msgs ops a ms s;
    s \<leftarrow> send_stop ops s;
    Some (rs, s)
  }"

section \<open>The same transfers as calls on the bus\<close>

fun bus_writes :: "'w i2c_ops \<Rightarrow> i2c_bus_t option \<Rightarrow> u8 \<Rightarrow> u8 list \<Rightarrow> 'w \<Rightarrow> (bool list \<times> 'w) option" where
  "bus_writes ops bus a [] w = Some ([], w)"
| "bus_writes ops bus a (v # vs) w = do {
    (r, w) \<leftarrow> i2c_write ops bus a v w;
    (rs, w) \<leftarrow> bus_writes ops bus a vs w;
    Some ((r \<noteq> 0) # rs, w)
  }"

fun bus_reads :: "'w i2c_ops \<Rightarrow> i2c_bus_t option \<Rightarrow> u8 \<Rightarrow> nat \<Rightarrow> 'w \<Rightarrow> (u8 list \<times> 'w) option" where
  "bus_reads ops bus a 0 w = Some ([], w)"
| "bus_reads ops bus a (Suc n) w = do {
    (v, w) \<leftarrow> i2c_read ops bus a w;
    (vs, w) \<leftarrow> bus_reads ops bus a n w;
    Some (v # vs, w)
  }"

fun bus_msg :: "'w i2c_ops \<Rightarrow> i2c_bus_t option \<Rightarrow> u8 \<Rightarrow> i2c_msg \<Rightarrow> 'w \<Rightarrow> (i2c_reply \<times> 'w) option" where
  "bus_msg ops bus a (Wr vs) w = do {
    (r, w) \<leftarrow> i2c_start ops bus a 0 w;
    (rs, w) \<leftarrow> bus_writes ops bus a vs w;
    Some (((r \<noteq> 0) # rs, []), w)
  }"
| "bus_msg ops bus a (Rd n) w = do {
    (r, w) \<leftarrow> i2c_start ops bus a 1 w;
    (vs, w) \<leftarrow> (if r \<noteq> 0 then bus_reads ops bus a (Suc n) w else Some ([], w));
    Some (([r \<noteq> 0], vs), w)
  }"

fun bus_msgs :: "'w i2c_ops \<Rightarrow> i2c_bus_t option \<Rightarrow> u8 \<Rightarrow> i2c_msg list \<Rightarrow> 'w \<Rightarrow> (i2c_reply list \<times> 'w) option" where
  "bus_msgs ops bus a [] w = Some ([], w)"
| "bus_msgs ops bus a (m # ms) w = do {
    (r, w) \<leftarrow> bus_msg ops bus a m w;
    (rs, w) \<leftarrow> bus_msgs ops bus a ms w;
    Some (r # rs, w)
  }"

definition bus_xfer :: "'w i2c_ops \<Rightarrow> i2c_bus_t option \<Rightarrow> u8 \<Rightarrow> i2c_msg list \<Rightarrow> 'w \<Rightarrow> (i2c_reply list \<times> 'w) option" where
  "bus_xfer ops bus a ms w = do {
    (rs, w) \<leftarrow> bus_msgs ops bus a ms w;
    w \<leftarrow> (if ms = [] then Some w else i2c_stop ops bus a w);
    Some (rs, w)
  }"

section \<open>Clocking bits\<close>

declare push_bit_Suc [simp del]

lemma bit_shift_in: "bit (shift_in v b) n \<longleftrightarrow> (if n = 0 then b else n < 8 \<and> bit v (n - 1))"
  by (auto simp: shift_in_def lvl_def bit_or_iff bit_push_bit_iff bit_1_iff Suc_le_eq)

lemma shift_in_bits [simp]: "foldl shift_in u (msb_bits v) = v"
proof (rule bit_word_eqI)
  fix n assume "n < LENGTH(8)"
  then have "n < 8" by simp
  from less_8_cases [OF this] show "bit (foldl shift_in u (msb_bits v)) n = bit v n"
    by (elim disjE) (simp_all add: msb_bits_def bit_shift_in)
qed

lemma of_msb_bits [simp]: "of_msb (msb_bits v) = v"
  by (simp add: of_msb_def)

lemma lnot_zero [simp]: "lnot v = 0 \<longleftrightarrow> v \<noteq> 0"
  by (simp add: lnot_def)

lemma lvl_eq [simp]: "lvl b = 0 \<longleftrightarrow> \<not> b" "lvl True = 1" "lvl False = 0"
  by (simp_all add: lvl_def)

text \<open>
  The state between two clocks: SCL low, a transfer started.  \<open>k\<close> bits of the byte have been
  clocked.
\<close>

definition mid_byte :: "nat \<Rightarrow> i2c_gpio_t \<Rightarrow> bool" where
  "mid_byte k dev \<longleftrightarrow>
    g_prev_scl dev = 0 \<and> g_started dev \<noteq> 0 \<and> g_pos dev = of_nat k \<and> g_slave_sda dev = 1"

lemmas wire_defs = clock_bit_def i2c_gpio_set_def rising_edge_def shift_data_def i2c_gpio_get_sda_def

lemma clock_bit_in:
  assumes "mid_byte k dev" and "k < 7" and "g_slave_read dev \<noteq> 1"
  shows "clock_bit ops b (dev, w) =
    Some (b, dev\<lparr>g_pos := of_nat (Suc k), g_byte := shift_in (g_byte dev) b, g_prev_sda := lvl b\<rparr>, w)"
proof -
  have "k < 8" using assms(2) by simp
  from less_8_cases [OF this] assms show ?thesis
    by (elim disjE) (simp_all add: wire_defs mid_byte_def shift_in_def)
qed

lemma clock_bits_in:
  assumes "mid_byte k dev" and "k + length bs < 8" and "g_slave_read dev \<noteq> 1"
  shows "\<exists>d. clock_bits ops bs (dev, w) = Some (bs, dev\<lparr>g_pos := of_nat (k + length bs),
    g_byte := foldl shift_in (g_byte dev) bs, g_prev_sda := d\<rparr>, w)"
  using assms
proof (induction bs arbitrary: k dev)
  case Nil
  then show ?case by (auto simp: mid_byte_def intro: exI [of _ "g_prev_sda dev"])
next
  case (Cons b bs)
  let ?d = "dev\<lparr>g_pos := of_nat (Suc k), g_byte := shift_in (g_byte dev) b, g_prev_sda := lvl b\<rparr>"
  have "mid_byte (Suc k) ?d" using Cons.prems by (simp add: mid_byte_def)
  from Cons.IH [OF this] Cons.prems clock_bit_in [of k dev ops b w] show ?case
    by fastforce
qed

text \<open>The 8th clock makes the call, and the 9th shows its result on SDA.\<close>

lemma clock_write:
  assumes "mid_byte 7 dev" and "g_slave_read dev = 0"
  shows "(do { (_, s) \<leftarrow> clock_bit ops b (dev, w); clock_bit ops True s }) =
    (do {
      (r, w) \<leftarrow> i2c_write ops (g_i2c dev) (g_slave_addr dev) (shift_in (g_byte dev) b) w;
      Some (r = 0, dev\<lparr>g_pos := 0, g_byte := shift_in (g_byte dev) b, g_prev_sda := 1\<rparr>, w)
    })"
  using assms
  by (cases "i2c_write ops (g_i2c dev) (g_slave_addr dev) (shift_in (g_byte dev) b) w")
    (auto simp: wire_defs mid_byte_def shift_in_def byte_done_def ack_clock_def)

lemma and_one_lvl: "v AND 1 = lvl (bit v 0)" for v :: u8
  by (simp add: lvl_def and_one_eq bit_0 odd_iff_mod_2_eq_one even_iff_mod_2_eq_zero)

lemma clock_address:
  assumes "mid_byte 7 dev" and "g_slave_read dev = 2" and v: "v = shift_in (g_byte dev) b"
  shows "(do { (_, s) \<leftarrow> clock_bit ops b (dev, w); clock_bit ops True s }) =
    (do {
      (r, w) \<leftarrow> i2c_start ops (g_i2c dev) (drop_bit 1 v) (lvl (bit v 0)) w;
      (u, w) \<leftarrow> (if r \<noteq> 0 \<and> bit v 0 then i2c_read ops (g_i2c dev) (drop_bit 1 v) w else Some (v, w));
      Some (r = 0, dev\<lparr>g_pos := 0, g_byte := u, g_prev_sda := 1, g_slave_addr := drop_bit 1 v,
        g_slave_read := lvl (bit v 0)\<rparr>, w)
    })"
proof -
  have byte: "push_bit 1 (g_byte dev) OR lvl b = v" by (simp add: v shift_in_def)
  show ?thesis
    using assms(1,2)
    apply (cases "i2c_start ops (g_i2c dev) (drop_bit 1 v) (lvl (bit v 0)) w")
     apply (simp add: wire_defs mid_byte_def byte_done_def ack_clock_def byte [simplified] and_one_lvl)
    apply (cases "i2c_read ops (g_i2c dev) (drop_bit 1 v) (snd (the (i2c_start ops (g_i2c dev) (drop_bit 1 v) (lvl (bit v 0)) w)))"; cases "bit v 0")
    apply (auto simp: wire_defs mid_byte_def byte_done_def ack_clock_def byte [simplified] and_one_lvl)
    done
qed

lemma clock_out:
  assumes "mid_byte k dev" and "k < 7" and "g_slave_read dev = 1"
  shows "clock_bit ops True (dev, w) =
    Some (bit (g_byte dev) 7, dev\<lparr>g_pos := of_nat (Suc k), g_byte := push_bit 1 (g_byte dev), g_prev_sda := 1\<rparr>, w)"
proof -
  have "k < 8" using assms(2) by simp
  from less_8_cases [OF this] assms show ?thesis
    by (elim disjE) (simp_all add: wire_defs mid_byte_def)
qed

lemma clock_out_last:
  assumes "mid_byte 7 dev" and "g_slave_read dev = 1"
  shows "(do { (r, s) \<leftarrow> clock_bit ops True (dev, w); (q, s) \<leftarrow> clock_bit ops (\<not> ack) s; Some (r, s) }) =
    (do {
      (u, w) \<leftarrow> (if ack then i2c_read ops (g_i2c dev) (g_slave_addr dev) w
                else Some (push_bit 1 (g_byte dev), w));
      Some (bit (g_byte dev) 7, dev\<lparr>g_pos := 0, g_byte := u, g_prev_sda := lvl (\<not> ack)\<rparr>, w)
    })"
  using assms
  by (cases ack; cases "i2c_read ops (g_i2c dev) (g_slave_addr dev) w")
    (auto simp: wire_defs mid_byte_def byte_done_def ack_clock_def)

section \<open>Bytes\<close>

lemma clock_bits_append:
  "clock_bits ops (xs @ ys) s = (do {
    (r, s) \<leftarrow> clock_bits ops xs s;
    (q, s) \<leftarrow> clock_bits ops ys s;
    Some (r @ q, s)
  })"
  by (induction xs arbitrary: s) (auto simp: case_prod_beta split: bind_splits)

lemma msb_bits_split: "msb_bits v = map (bit v) [7, 6, 5, 4, 3, 2, 1] @ [bit v 0]"
  by (simp add: msb_bits_def)

lemma send_byte_split:
  assumes "mid_byte 0 dev" and "g_slave_read dev \<noteq> 1"
  shows "\<exists>u d. v = shift_in u (bit v 0) \<and>
    send_byte ops v (dev, w) = map_option (\<lambda>(r, s). (\<not> r, s))
      (do { (_, s) \<leftarrow> clock_bit ops (bit v 0) (dev\<lparr>g_pos := 7, g_byte := u, g_prev_sda := d\<rparr>, w);
            clock_bit ops True s })"
proof -
  let ?bs = "map (bit v) [7, 6, 5, 4, 3, 2, 1]"
  let ?u = "foldl shift_in (g_byte dev) ?bs"
  from clock_bits_in [OF assms(1), of ?bs ops w] assms(2) obtain d where
    d: "clock_bits ops ?bs (dev, w) = Some (?bs, dev\<lparr>g_pos := 7, g_byte := ?u, g_prev_sda := d\<rparr>, w)"
    by auto
  have "shift_in ?u (bit v 0) = foldl shift_in (g_byte dev) (msb_bits v)"
    by (simp only: msb_bits_split foldl_append foldl.simps)
  then have "v = shift_in ?u (bit v 0)" by simp
  moreover have "send_byte ops v (dev, w) = map_option (\<lambda>(r, s). (\<not> r, s))
      (do { (_, s) \<leftarrow> clock_bit ops (bit v 0) (dev\<lparr>g_pos := 7, g_byte := ?u, g_prev_sda := d\<rparr>, w);
            clock_bit ops True s })"
    unfolding send_byte_def msb_bits_split clock_bits_append d
    by (auto simp: map_option_bind bind_assoc case_prod_beta comp_def split: bind_splits)
  ultimately show ?thesis by blast
qed

lemma mid_byte_7: "mid_byte 0 dev \<Longrightarrow> mid_byte 7 (dev\<lparr>g_pos := 7, g_byte := u, g_prev_sda := d\<rparr>)"
  by (simp add: mid_byte_def)

lemma mid_byte_pos: "mid_byte 0 dev \<Longrightarrow> dev\<lparr>g_pos := 0\<rparr> = dev"
  by (cases dev) (simp add: mid_byte_def)

lemma send_byte_write:
  assumes "mid_byte 0 dev" and "g_slave_read dev = 0"
  shows "send_byte ops v (dev, w) = (do {
      (r, w) \<leftarrow> i2c_write ops (g_i2c dev) (g_slave_addr dev) v w;
      Some (r \<noteq> 0, dev\<lparr>g_byte := v, g_prev_sda := 1\<rparr>, w)
    })"
proof -
  from assms send_byte_split [of dev v ops w] obtain u d where
    v: "v = shift_in u (bit v 0)" and
    s: "send_byte ops v (dev, w) = map_option (\<lambda>(r, s). (\<not> r, s))
      (do { (_, s) \<leftarrow> clock_bit ops (bit v 0) (dev\<lparr>g_pos := 7, g_byte := u, g_prev_sda := d\<rparr>, w);
            clock_bit ops True s })"
    by auto
  have "g_slave_read (dev\<lparr>g_pos := 7, g_byte := u, g_prev_sda := d\<rparr>) = 0" using assms(2) by simp
  note call = clock_write [OF mid_byte_7 [OF assms(1)] this, of ops "bit v 0" w]
  show ?thesis
    unfolding s call using assms(1) v [symmetric]
    by (auto simp: map_option_bind case_prod_beta comp_def mid_byte_def split: bind_splits)
qed

lemma send_byte_address:
  assumes "mid_byte 0 dev" and "g_slave_read dev = 2"
  shows "send_byte ops v (dev, w) = (do {
      (r, w) \<leftarrow> i2c_start ops (g_i2c dev) (drop_bit 1 v) (lvl (bit v 0)) w;
      (u, w) \<leftarrow> (if r \<noteq> 0 \<and> bit v 0 then i2c_read ops (g_i2c dev) (drop_bit 1 v) w else Some (v, w));
      Some (r \<noteq> 0, dev\<lparr>g_byte := u, g_prev_sda := 1, g_slave_addr := drop_bit 1 v,
        g_slave_read := lvl (bit v 0)\<rparr>, w)
    })"
proof -
  from assms send_byte_split [of dev v ops w] obtain u d where
    v: "v = shift_in u (bit v 0)" and
    s: "send_byte ops v (dev, w) = map_option (\<lambda>(r, s). (\<not> r, s))
      (do { (_, s) \<leftarrow> clock_bit ops (bit v 0) (dev\<lparr>g_pos := 7, g_byte := u, g_prev_sda := d\<rparr>, w);
            clock_bit ops True s })"
    by auto
  have rd: "g_slave_read (dev\<lparr>g_pos := 7, g_byte := u, g_prev_sda := d\<rparr>) = 2" using assms(2) by simp
  have u: "v = shift_in (g_byte (dev\<lparr>g_pos := 7, g_byte := u, g_prev_sda := d\<rparr>)) (bit v 0)"
    using v by simp
  note call = clock_address [OF mid_byte_7 [OF assms(1)] rd u, of ops w]
  show ?thesis
    unfolding s call using assms(1)
    by (auto simp: map_option_bind case_prod_beta comp_def mid_byte_def split: bind_splits)
qed

lemma clock_outs:
  assumes "mid_byte k dev" and "k + n < 8" and "g_slave_read dev = 1"
  shows "\<exists>d. clock_bits ops (replicate n True) (dev, w) =
    Some (map (\<lambda>i. bit (g_byte dev) (7 - i)) [0..<n],
      dev\<lparr>g_pos := of_nat (k + n), g_byte := push_bit n (g_byte dev), g_prev_sda := d\<rparr>, w)"
  using assms
proof (induction n arbitrary: k dev)
  case 0
  then show ?case by (auto simp: mid_byte_def intro: exI [of _ "g_prev_sda dev"])
next
  case (Suc n)
  let ?d = "dev\<lparr>g_pos := of_nat (Suc k), g_byte := push_bit 1 (g_byte dev), g_prev_sda := 1\<rparr>"
  have "mid_byte (Suc k) ?d" using Suc.prems by (simp add: mid_byte_def)
  from Suc.IH [OF this] Suc.prems obtain d where
    d: "clock_bits ops (replicate n True) (?d, w) =
    Some (map (\<lambda>i. bit (push_bit 1 (g_byte dev)) (7 - i)) [0..<n],
      ?d\<lparr>g_pos := of_nat (Suc k + n), g_byte := push_bit n (push_bit 1 (g_byte dev)), g_prev_sda := d\<rparr>, w)"
    by auto
  have "map (\<lambda>i. bit (push_bit 1 (g_byte dev)) (7 - i)) [0..<n] = map (\<lambda>i. bit (g_byte dev) (7 - Suc i)) [0..<n]"
    using Suc.prems(2) by (intro map_upt_cong) (auto simp: bit_push_bit_iff Suc_le_eq)
  with clock_out [of k dev ops w] d Suc.prems show ?case
    by (auto simp: map_upt_shift simp del: upt_Suc intro!: exI [of _ d])
qed

lemma msb_bits_upt: "msb_bits v = map (\<lambda>i. bit v (7 - i)) [0..<7] @ [bit v 0]"
  by (simp add: msb_bits_def upt_rec numeral_eq_Suc)

lemma recv_byte_read:
  assumes "mid_byte 0 dev" and "g_slave_read dev = 1"
  shows "recv_byte ops ack (dev, w) = (do {
      (u, w) \<leftarrow> (if ack then i2c_read ops (g_i2c dev) (g_slave_addr dev) w else Some (0, w));
      Some (g_byte dev, dev\<lparr>g_byte := u, g_prev_sda := lvl (\<not> ack)\<rparr>, w)
    })"
proof -
  let ?f = "\<lambda>d. dev\<lparr>g_pos := 7, g_byte := push_bit 7 (g_byte dev), g_prev_sda := d\<rparr>"
  let ?m = "map (\<lambda>i. bit (g_byte dev) (7 - i)) [0..<7]"
  from clock_outs [OF assms(1), of 7 ops w] assms(2) obtain d where
    d: "clock_bits ops (replicate 7 True) (dev, w) = Some (?m, ?f d, w)"
    by auto
  have rd: "g_slave_read (?f d) = 1" using assms(2) by simp
  note last = clock_out_last [OF mid_byte_7 [OF assms(1)] rd, of ops w ack]
  have "recv_byte ops ack (dev, w) = map_option (\<lambda>(r, s). (of_msb (?m @ [r]), s))
      (do { (r, s) \<leftarrow> clock_bit ops True (?f d, w); (q, s) \<leftarrow> clock_bit ops (\<not> ack) s; Some (r, s) })"
  proof -
    have "replicate 8 True = replicate 7 True @ [True]" by (simp add: numeral_eq_Suc)
    then show ?thesis
      unfolding recv_byte_def clock_bits_append d
      by (simp add: clock_bits_append d)
        (auto simp: map_option_bind case_prod_beta comp_def split: bind_splits)
  qed
  moreover have "push_bit 1 (push_bit 7 (g_byte dev)) = 0"
    by (rule bit_word_eqI) (simp add: bit_push_bit_iff)
  moreover have "of_msb (?m @ [bit (g_byte dev) 0]) = g_byte dev"
    by (simp only: msb_bits_upt [symmetric] of_msb_bits)
  ultimately show ?thesis
    unfolding last using assms(1)
    by (auto simp: map_option_bind case_prod_beta comp_def mid_byte_def bit_push_bit_iff split: bind_splits)
qed

section \<open>The adapter simulates the bus\<close>

text \<open>
  A run on the wire and a run on the bus agree when both fault, or both give the same reply and
  the same device state, with the adapter in a state that satisfies \<open>P\<close>.
\<close>

definition agree :: "(i2c_gpio_t \<Rightarrow> bool) \<Rightarrow> ('r \<times> 'w gpio) option \<Rightarrow> ('r \<times> 'w) option \<Rightarrow> bool" where
  "agree P x y \<longleftrightarrow>
    (case x of None \<Rightarrow> y = None | Some (r, d, w) \<Rightarrow> y = Some (r, w) \<and> P d)"

lemma agree_None [simp]: "agree P None None"
  and agree_Some [simp]: "agree P (Some (r, d, w)) (Some (q, z)) \<longleftrightarrow> r = q \<and> w = z \<and> P d"
  by (auto simp: agree_def)

lemma agree_bind:
  assumes "agree P x y" and "\<And>r d w. P d \<Longrightarrow> agree Q (f (r, d, w)) (g (r, w))"
  shows "agree Q (x \<bind> f) (y \<bind> g)"
proof (cases x)
  case None
  with assms(1) show ?thesis by (simp add: agree_def)
next
  case (Some p)
  obtain r d w where "p = (r, d, w)" by (cases p) auto
  with Some assms(1) assms(2) [of d r w] show ?thesis by (simp add: agree_def)
qed

lemma agree_map: "agree P x y \<Longrightarrow> (\<And>d. P d \<Longrightarrow> Q d) \<Longrightarrow>
    agree Q (x \<bind> (\<lambda>(r, s). Some (h r, s))) (y \<bind> (\<lambda>(r, w). Some (h r, w)))"
  by (erule agree_bind) simp

lemma agree_pair:
  assumes "agree P x y" and "\<And>d w. P d \<Longrightarrow> agree Q (f (d, w)) (g w)"
  shows "agree Q (x \<bind> (\<lambda>(r, s). f s \<bind> (\<lambda>(q, s). Some (h r q, s))))
    (y \<bind> (\<lambda>(r, w). g w \<bind> (\<lambda>(q, w). Some (h r q, w))))"
  by (rule agree_bind [OF assms(1)]) (simp add: agree_map [OF assms(2)])

definition at_byte :: "i2c_bus_t option \<Rightarrow> u8 \<Rightarrow> u8 \<Rightarrow> i2c_gpio_t \<Rightarrow> bool" where
  "at_byte bus a rd dev \<longleftrightarrow>
    mid_byte 0 dev \<and> g_slave_addr dev = a \<and> g_slave_read dev = rd \<and> g_i2c dev = bus"

definition idle :: "i2c_bus_t option \<Rightarrow> i2c_gpio_t \<Rightarrow> bool" where
  "idle bus dev \<longleftrightarrow> g_prev_scl dev = 1 \<and> g_prev_sda dev = 1 \<and> g_slave_sda dev = 1 \<and>
    g_started dev = 0 \<and> g_slave_addr dev = 0xff \<and> g_i2c dev = bus"

lemma at_byte_update [simp]:
  "at_byte bus a rd (dev\<lparr>g_byte := u, g_prev_sda := d\<rparr>) \<longleftrightarrow> at_byte bus a rd dev"
  by (simp add: at_byte_def mid_byte_def)

lemma send_bytes_agree:
  "at_byte bus a 0 dev \<Longrightarrow> agree (at_byte bus a 0) (send_bytes ops vs (dev, w)) (bus_writes ops bus a vs w)"
proof (induction vs arbitrary: dev w)
  case (Cons v vs)
  have "agree (at_byte bus a 0) (send_byte ops v (dev, w))
      (do { (r, w) \<leftarrow> i2c_write ops bus a v w; Some (r \<noteq> 0, w) })"
    using send_byte_write [of dev ops v w] Cons.prems
    by (cases "i2c_write ops bus a v w") (auto simp: at_byte_def mid_byte_def)
  from agree_pair [where f = "send_bytes ops vs" and g = "bus_writes ops bus a vs" and h = Cons, OF this Cons.IH]
  show ?case
    by (cases "i2c_write ops bus a v w") auto
qed simp

text \<open>The adapter has fetched the next byte when the master asks for it.\<close>

lemma recv_bytes_agree:
  "at_byte bus a 1 dev \<Longrightarrow> agree (at_byte bus a 1) (recv_bytes ops n (dev, w))
    (do { (vs, w) \<leftarrow> bus_reads ops bus a n w; Some (g_byte dev # vs, w) })"
proof (induction n arbitrary: dev w)
  case 0
  then show ?case
    using recv_byte_read [of dev ops False w] by (simp add: at_byte_def mid_byte_def)
next
  case (Suc n)
  have rd: "recv_byte ops True (dev, w) = (do {
      (u, w) \<leftarrow> i2c_read ops bus a w;
      Some (g_byte dev, dev\<lparr>g_byte := u, g_prev_sda := 0\<rparr>, w)
    })"
    using recv_byte_read [of dev ops True w] Suc.prems by (simp add: at_byte_def)
  show ?case
  proof (cases "i2c_read ops bus a w")
    case (Some p)
    let ?d = "dev\<lparr>g_byte := fst p, g_prev_sda := 0\<rparr>"
    have "agree (at_byte bus a 1)
        (do { (vs, s) \<leftarrow> recv_bytes ops n (?d, snd p); Some (g_byte dev # vs, s) })
        (do { (vs, w) \<leftarrow> (do { (vs, w) \<leftarrow> bus_reads ops bus a n (snd p); Some (g_byte ?d # vs, w) });
              Some (g_byte dev # vs, w) })"
      by (rule agree_bind [OF Suc.IH]) (use Suc.prems in auto)
    then show ?thesis using rd Some by (cases p) (auto simp: case_prod_beta)
  qed (use rd in simp)
qed

lemma send_start_effect:
  assumes "idle bus dev \<or> at_byte bus a rd dev"
  shows "\<exists>d. send_start ops (dev, w) = Some (d, w) \<and> at_byte bus 0xff 2 d"
  using assms
  by (cases "g_slave_read dev = 1")
    (auto simp: send_start_def i2c_gpio_set_def idle_def at_byte_def mid_byte_def rising_edge_def
      shift_data_def start_condition_def)

lemma send_stop_effect:
  assumes "at_byte bus a rd dev" and "a \<noteq> 0xff"
  shows "agree (idle bus) (map_option (\<lambda>s. ((), s)) (send_stop ops (dev, w)))
    (map_option (\<lambda>w. ((), w)) (i2c_stop ops bus a w))"
  using assms
  by (cases "i2c_stop ops bus a w"; cases "g_slave_read dev = 1")
    (auto simp: send_stop_def i2c_gpio_set_def idle_def at_byte_def mid_byte_def rising_edge_def
      shift_data_def stop_condition_def)

lemma address_byte:
  assumes "a < (128::u8)"
  shows "drop_bit 1 (push_bit 1 a) = a" and "drop_bit 1 (push_bit 1 a OR 1) = a"
    and "\<not> bit (push_bit 1 a) 0" and "bit (push_bit 1 a OR 1) 0"
proof -
  have "unat a div 128 = 0" using assms by (simp add: word_less_nat_alt)
  then have seven: "\<not> bit a 7" by (simp add: bit_iff_odd word_arith_nat_div flip: unat_div)
  have top: "n < 7" if "n < 8" and "bit a n" for n
  proof -
    have "n \<noteq> 7" using that seven by auto
    with that(1) show ?thesis by simp
  qed
  show "drop_bit 1 (push_bit 1 a) = a"
    by (rule bit_word_eqI) (auto simp: bit_drop_bit_eq bit_push_bit_iff dest: bit_imp_le_length top)
  show "drop_bit 1 (push_bit 1 a OR 1) = a"
    by (rule bit_word_eqI)
      (auto simp: bit_drop_bit_eq bit_push_bit_iff bit_or_iff bit_1_iff dest: bit_imp_le_length top)
qed (simp_all add: bit_push_bit_iff bit_or_iff)

lemma master_msg_agree:
  assumes "a < 128" and "idle bus dev \<or> at_byte bus a rd dev"
  shows "agree (\<lambda>d. \<exists>rd. at_byte bus a rd d) (master_msg ops a m (dev, w)) (bus_msg ops bus a m w)"
proof -
  from send_start_effect [OF assms(2), of ops w] obtain d where
    st: "send_start ops (dev, w) = Some (d, w)" and d: "at_byte bus 0xff 2 d" by blast
  from d have mid: "mid_byte 0 d" "g_slave_read d = 2" "g_i2c d = bus" by (simp_all add: at_byte_def)
  note ab = address_byte [OF assms(1)]
  let ?d = "\<lambda>u b. d\<lparr>g_byte := u, g_prev_sda := 1, g_slave_addr := a, g_slave_read := b\<rparr>"
  have at: "at_byte bus a b (?d u b)" for u b
    using d by (simp add: at_byte_def mid_byte_def)
  show ?thesis
  proof (cases m)
    case (Wr vs)
    have "send_byte ops (push_bit 1 a) (d, w) =
        (do { (r, w) \<leftarrow> i2c_start ops bus a 0 w; Some (r \<noteq> 0, ?d (push_bit 1 a) 0, w) })"
      using send_byte_address [OF mid(1,2), of ops "push_bit 1 a" w] mid ab
      by (auto simp del: One_nat_def split: bind_splits)
    then have "agree (at_byte bus a 0) (send_byte ops (push_bit 1 a) (d, w))
        (do { (r, w) \<leftarrow> i2c_start ops bus a 0 w; Some (r \<noteq> 0, w) })"
      using at by (cases "i2c_start ops bus a 0 w") auto
    from agree_map [OF agree_pair [where f = "send_bytes ops vs" and g = "bus_writes ops bus a vs" and h = Cons,
          OF this send_bytes_agree], where h = "\<lambda>as. (as, [])" and Q = "\<lambda>d. \<exists>rd. at_byte bus a rd d", OF _ exI]
    show ?thesis
      by (cases "i2c_start ops bus a 0 w") (auto simp: Wr st split: bind_splits)
  next
    case (Rd n)
    let ?v = "push_bit 1 a OR 1"
    have sb: "send_byte ops ?v (d, w) = (do {
        (r, w) \<leftarrow> i2c_start ops bus a 1 w;
        (u, w) \<leftarrow> (if r \<noteq> 0 then i2c_read ops bus a w else Some (?v, w));
        Some (r \<noteq> 0, ?d u 1, w) })"
      using send_byte_address [OF mid(1,2), of ops ?v w] mid ab
      by (auto simp del: One_nat_def split: bind_splits)
    show ?thesis
    proof (cases "i2c_start ops bus a 1 w")
      case None
      with sb show ?thesis by (simp add: Rd st)
    next
      case (Some p)
      obtain r z where p: "p = (r, z)" by force
      show ?thesis
      proof (cases "r = 0")
        case True
        with sb Some p at show ?thesis by (auto simp: Rd st)
      next
        case False
        show ?thesis
        proof (cases "i2c_read ops bus a z")
          case None
          with sb Some p False show ?thesis by (simp add: Rd st)
        next
          case (Some q)
          from agree_map [OF recv_bytes_agree [OF at [of 1 "fst q"], of ops n "snd q"],
              where h = "Pair [True]" and Q = "\<lambda>d. \<exists>rd. at_byte bus a rd d", OF exI]
          show ?thesis
            using sb \<open>i2c_start ops bus a 1 w = Some p\<close> p False Some
            by (cases q) (auto simp: Rd st case_prod_beta)
        qed
      qed
    qed
  qed
qed

lemma master_msgs_agree:
  assumes "a < 128" and "idle bus dev \<or> at_byte bus a rd dev"
  shows "agree (\<lambda>d. if ms = [] then d = dev else \<exists>rd. at_byte bus a rd d)
    (master_msgs ops a ms (dev, w)) (bus_msgs ops bus a ms w)"
  using assms(2)
proof (induction ms arbitrary: dev rd w)
  case (Cons m ms)
  have "agree (\<lambda>d. \<exists>rd. at_byte bus a rd d) (master_msgs ops a ms (d, w)) (bus_msgs ops bus a ms w)"
    if "\<exists>rd. at_byte bus a rd d" for d w
    using that Cons.IH [of d _ w] by (cases "ms = []") auto
  from agree_pair [where f = "master_msgs ops a ms" and g = "bus_msgs ops bus a ms" and h = Cons,
      OF master_msg_agree [OF assms(1) Cons.prems] this]
  show ?case
    by simp
qed simp

lemma master_xfer_agree:
  assumes "a < 128" and "idle bus dev"
  shows "agree (idle bus) (master_xfer ops a ms (dev, w)) (bus_xfer ops bus a ms w)"
proof (cases "ms = []")
  case True
  with assms(2) show ?thesis
    by (simp add: master_xfer_def bus_xfer_def send_stop_def i2c_gpio_set_def idle_def stop_condition_def)
next
  case False
  from assms(1) have "a \<noteq> 0xff" by auto
  from False have *: "agree (\<lambda>d. \<exists>rd. at_byte bus a rd d) (master_msgs ops a ms (dev, w)) (bus_msgs ops bus a ms w)"
    using master_msgs_agree [OF assms(1) disjI1 [OF assms(2)], of ms ops w] by simp
  have "agree (idle bus)
      (master_msgs ops a ms (dev, w) \<bind>
        (\<lambda>(rs, s). map_option (\<lambda>s. ((), s)) (send_stop ops s) \<bind> (\<lambda>(q, s). Some (rs, s))))
      (bus_msgs ops bus a ms w \<bind>
        (\<lambda>(rs, w). map_option (\<lambda>w. ((), w)) (i2c_stop ops bus a w) \<bind> (\<lambda>(q, w). Some (rs, w))))"
    by (rule agree_pair [OF *, where h = "\<lambda>r q. r"])
      (elim exE, rule send_stop_effect, assumption, rule \<open>a \<noteq> 0xff\<close>)
  with False show ?thesis
    by (simp add: master_xfer_def bus_xfer_def bind_map_option comp_def)
qed

text \<open>
  C2. Bit-banged transfers are bus transfers: on an idle adapter, driving SCL and SDA through any
  list of write and read messages to a 7-bit address (start conditions, repeated starts, address
  and data bits, acknowledge clocks, stop condition) has exactly the effect of one start call per
  message, one write call per byte sent, one read call per byte received and one stop call, in that
  order.  The acknowledgements and bytes the master samples on SDA are the results of those calls,
  a fault of a call is a fault of the run, and the adapter is idle again at the end.
\<close>

theorem gpio_transfer_refines_bus:
  assumes "idle bus dev" and "a < 128"
  shows "agree (idle bus) (master_xfer ops a ms (dev, w)) (bus_xfer ops bus a ms w)"
  using assms by (intro master_xfer_agree)

definition counter_ops :: "nat i2c_ops" where
  "counter_ops = \<lparr>o_start = (\<lambda>f addr rd priv w. Some (1, w)),
    o_read = (\<lambda>f addr priv w. Some (of_nat w, Suc w)),
    o_write = (\<lambda>f addr data priv w. Some (1, w + unat data)), o_stop = (\<lambda>f addr priv w. Some (Suc w))\<rparr>"

definition counter_dev :: i2c_t where
  "counter_dev = \<lparr>h_start = Some 0, h_read = Some 0, h_write = Some 0, h_stop = Some 0, h_priv = 0\<rparr>"

definition counter_gpio :: i2c_gpio_t where
  "counter_gpio = (i2c_gpio_init ''test'')\<lparr>g_i2c := i2c_sethandler (Some (i2c_addbus ''test'')) 0x50 1 counter_dev\<rparr>"

theorem gpio_transfer_refines_bus_witness:
  "agree (idle (g_i2c counter_gpio))
    (master_xfer counter_ops 0x50 [Wr [7], Rd 1] (counter_gpio, 3))
    (bus_xfer counter_ops (g_i2c counter_gpio) 0x50 [Wr [7], Rd 1] 3) \<and>
   map_option fst (bus_xfer counter_ops (g_i2c counter_gpio) 0x50 [Wr [7], Rd 1] 3) =
    Some [([True, True], []), ([True], [10, 11])]"
proof -
  have "idle (g_i2c counter_gpio) counter_gpio"
    by (simp add: idle_def counter_gpio_def i2c_gpio_init_def)
  moreover have "map_option fst (bus_xfer counter_ops (g_i2c counter_gpio) 0x50 [Wr [7], Rd 1] 3) =
    Some [([True, True], []), ([True], [10, 11])]"
    by code_simp
  ultimately show ?thesis
    using gpio_transfer_refines_bus [of "g_i2c counter_gpio" counter_gpio "0x50" counter_ops "[Wr [7], Rd 1]" 3]
    by simp
qed

section \<open>Arbitrary levels\<close>

text \<open>A device register can drive the two lines in any order; \<open>gpio_run\<close> is such a run.\<close>

fun gpio_run :: "'w i2c_ops \<Rightarrow> (u8 \<times> u8) list \<Rightarrow> 'w gpio \<Rightarrow> 'w gpio option" where
  "gpio_run ops [] s = Some s"
| "gpio_run ops ((scl, sda) # ls) s = do { s \<leftarrow> i2c_gpio_set ops scl sda s; gpio_run ops ls s }"

definition gpio_ok :: "i2c_gpio_t \<Rightarrow> bool" where
  "gpio_ok dev \<longleftrightarrow> bus_ok (g_i2c dev) \<and> g_pos dev \<le> 8 \<and>
    (g_slave_addr dev < 128 \<or> g_slave_addr dev = 0xff) \<and>
    (g_started dev \<noteq> 0 \<and> g_slave_read dev \<noteq> 2 \<longrightarrow> g_slave_addr dev < 128) \<and>
    (g_started dev \<noteq> 0 \<and> g_pos dev = 8 \<longrightarrow> g_slave_read dev \<noteq> 2)"

definition handlers_return :: "'w i2c_ops \<Rightarrow> bool" where
  "handlers_return ops \<longleftrightarrow>
    (\<forall>f addr rd priv w. o_start ops f addr rd priv w \<noteq> None) \<and>
    (\<forall>f addr priv w. o_read ops f addr priv w \<noteq> None) \<and>
    (\<forall>f addr data priv w. o_write ops f addr data priv w \<noteq> None) \<and>
    (\<forall>f addr priv w. o_stop ops f addr priv w \<noteq> None)"

lemma walks_return:
  assumes "handlers_return ops"
  shows "start_all ops addr rd ds r w \<noteq> None" and "read_first ops addr ds w \<noteq> None"
    and "write_all ops addr data ds r w \<noteq> None" and "stop_all ops addr ds w \<noteq> None"
proof -
  from assms have h: "o_start ops f addr rd p w \<noteq> None" "o_read ops f addr p w \<noteq> None"
    "o_write ops f addr data p w \<noteq> None" "o_stop ops f addr p w \<noteq> None" for f p w
    by (auto simp: handlers_return_def)
  show "start_all ops addr rd ds r w \<noteq> None"
    by (induction ds arbitrary: r w) (auto simp: h(1) simp del: not_None_eq split: option.splits bind_splits)
  show "read_first ops addr ds w \<noteq> None"
    by (induction ds arbitrary: w) (auto simp: h(2) simp del: not_None_eq split: option.splits bind_splits)
  show "write_all ops addr data ds r w \<noteq> None"
    by (induction ds arbitrary: r w) (auto simp: h(3) simp del: not_None_eq split: option.splits bind_splits)
  show "stop_all ops addr ds w \<noteq> None"
    by (induction ds arbitrary: w) (auto simp: h(4) simp del: not_None_eq split: option.splits bind_splits)
qed

lemma calls_return:
  assumes "handlers_return ops" and "bus_ok bus" and "addr < 128"
  obtains r1 w1 r2 w2 r3 w3 w4 where "i2c_start ops bus addr rd w = Some (r1, w1)"
    and "i2c_read ops bus addr w = Some (r2, w2)" and "i2c_write ops bus addr data w = Some (r3, w3)"
    and "i2c_stop ops bus addr w = Some w4"
proof -
  from bus_ok_devices [OF assms(2,3)] obtain ds where "devices_at bus addr = Some ds" by blast
  with walks_return [OF assms(1), where ds = ds and addr = addr] show ?thesis
    by (fastforce simp: i2c_start_def i2c_read_def i2c_write_def i2c_stop_def intro: that)
qed

lemma byte_addr [simp]: "drop_bit (Suc 0) v < (128 :: u8)" for v :: u8
proof -
  have "unat v < 256" using unsigned_less [of v, where ?'a = nat] by simp
  then show ?thesis by (simp add: word_less_nat_alt drop_bit_eq_div unat_div)
qed

lemma or_80_neq: "v OR 0x80 \<noteq> (2 :: u8)"
proof
  assume "v OR 0x80 = 2"
  then have "bit (v OR 0x80) 7 = bit (2 :: u8) 7" by simp
  then show False by (simp add: bit_or_iff)
qed

lemma byte_done_ok:
  assumes "handlers_return ops" and "gpio_ok (dev\<lparr>g_pos := 0\<rparr>)" and "g_started dev \<noteq> 0" and "g_pos dev = 8"
  shows "\<exists>d z. byte_done ops (dev, w) = Some (d, z) \<and> gpio_ok d"
proof -
  have bus: "bus_ok (g_i2c dev)" using assms(2) by (simp add: gpio_ok_def)
  consider "g_slave_read dev = 2" | "g_slave_read dev = 0" | "g_slave_read dev \<noteq> 2" "g_slave_read dev \<noteq> 0"
    by blast
  then show ?thesis
  proof cases
    case 1
    obtain r z where st: "i2c_start ops (g_i2c dev) (drop_bit (Suc 0) (g_byte dev)) (g_byte dev AND 1) w = Some (r, z)"
      using calls_return [OF assms(1) bus byte_addr] by metis
    obtain u y where "i2c_read ops (g_i2c dev) (drop_bit (Suc 0) (g_byte dev)) z = Some (u, y)"
      using calls_return [OF assms(1) bus byte_addr] by metis
    with 1 st bus assms(4) show ?thesis
      by (auto simp: byte_done_def gpio_ok_def or_80_neq Let_def)
  next
    case 2
    then have "g_slave_addr dev < 128" using assms(2,3) by (simp add: gpio_ok_def)
    then obtain r z where "i2c_write ops (g_i2c dev) (g_slave_addr dev) (g_byte dev) w = Some (r, z)"
      using calls_return [OF assms(1) bus] by metis
    with 2 assms(2-4) show ?thesis by (auto simp: byte_done_def gpio_ok_def)
  next
    case 3
    with assms(2-4) show ?thesis by (auto simp: byte_done_def gpio_ok_def)
  qed
qed

lemma ack_clock_ok:
  assumes "handlers_return ops" and "gpio_ok (dev\<lparr>g_pos := 8\<rparr>)" and "g_started dev \<noteq> 0"
  shows "\<exists>d z. ack_clock ops sda (dev, w) = Some (d, z) \<and> gpio_ok d"
proof -
  have bus: "bus_ok (g_i2c dev)" and a: "g_slave_addr dev < 128"
    using assms(2,3) by (simp_all add: gpio_ok_def)
  obtain u y where "i2c_read ops (g_i2c dev) (g_slave_addr dev) w = Some (u, y)"
    using calls_return [OF assms(1) bus a] by metis
  with bus a show ?thesis by (auto simp: ack_clock_def gpio_ok_def)
qed

lemma rising_edge_ok:
  assumes "handlers_return ops" and "gpio_ok dev" and "g_started dev \<noteq> 0"
  shows "\<exists>d z. rising_edge ops sda (dev, w) = Some (d, z) \<and> gpio_ok d"
proof -
  let ?d = "dev\<lparr>g_pos := g_pos dev + 1\<rparr>"
  have "unat (g_pos dev) \<le> 8" using assms(2) by (simp add: gpio_ok_def word_le_nat_alt)
  then have "unat (g_pos dev) < 7 \<or> unat (g_pos dev) = 7 \<or> unat (g_pos dev) = 8" by arith
  then consider "g_pos dev < 7" | "g_pos dev = 7" | "g_pos dev = 8"
    by (auto simp: word_less_nat_alt word_unat_eq_iff)
  then show ?thesis
  proof cases
    case 1
    then have "g_pos dev + 1 < 8" and "g_pos dev < 8" by unat_arith+
    with assms(2) show ?thesis
      by (auto simp: rising_edge_def shift_data_def gpio_ok_def Let_def)
  next
    case 2
    have "rising_edge ops sda (dev, w) = byte_done ops (shift_data sda ?d, w)"
      using 2 by (simp add: rising_edge_def shift_data_def)
    moreover have "gpio_ok ((shift_data sda ?d)\<lparr>g_pos := 0\<rparr>)" and "g_started (shift_data sda ?d) \<noteq> 0"
      and "g_pos (shift_data sda ?d) = 8"
      using assms 2 by (simp_all add: gpio_ok_def shift_data_def)
    ultimately show ?thesis using byte_done_ok [OF assms(1)] by simp
  next
    case 3
    have "rising_edge ops sda (dev, w) = ack_clock ops sda (?d, w)"
      using 3 by (simp add: rising_edge_def)
    moreover have "gpio_ok (?d\<lparr>g_pos := 8\<rparr>)" and "g_started ?d \<noteq> 0"
      using assms 3 by (simp_all add: gpio_ok_def)
    ultimately show ?thesis using ack_clock_ok [OF assms(1)] by simp
  qed
qed

lemma gpio_levels_ok: "gpio_ok (dev\<lparr>g_prev_scl := scl, g_prev_sda := sda\<rparr>) \<longleftrightarrow> gpio_ok dev"
  by (simp add: gpio_ok_def)

lemma stop_condition_ok:
  assumes "handlers_return ops" and "gpio_ok dev"
  shows "\<exists>d z. stop_condition ops (dev, w) = Some (d, z) \<and> gpio_ok d"
proof (cases "g_slave_addr dev = 0xff")
  case True
  with assms(2) show ?thesis by (auto simp: stop_condition_def gpio_ok_def)
next
  case False
  with assms(2) have "g_slave_addr dev < 128" and bus: "bus_ok (g_i2c dev)"
    by (auto simp: gpio_ok_def)
  then obtain z where "i2c_stop ops (g_i2c dev) (g_slave_addr dev) w = Some z"
    using calls_return [OF assms(1)] by metis
  with assms(2) False show ?thesis by (auto simp: stop_condition_def gpio_ok_def)
qed

lemma gpio_set_ok:
  assumes "handlers_return ops" and "gpio_ok dev"
  shows "\<exists>d z. i2c_gpio_set ops scl sda (dev, w) = Some (d, z) \<and> gpio_ok d"
proof -
  have set_ok: ?thesis
    if "\<exists>d z. (if g_prev_scl dev \<noteq> 0 \<and> scl \<noteq> 0 then
         (if g_prev_sda dev \<noteq> 0 \<and> sda = 0 then Some (start_condition dev, w)
          else if g_prev_sda dev = 0 \<and> sda \<noteq> 0 then stop_condition ops (dev, w)
          else Some (dev, w))
       else if g_prev_scl dev = 0 \<and> scl \<noteq> 0 \<and> g_started dev \<noteq> 0 then rising_edge ops sda (dev, w)
       else if g_prev_scl dev \<noteq> 0 \<and> scl = 0 \<and> g_pos dev \<noteq> 8 then Some (dev\<lparr>g_slave_sda := 1\<rparr>, w)
       else Some (dev, w)) = Some (d, z) \<and> gpio_ok d"
    using that unfolding i2c_gpio_set_def prod.case by (elim exE conjE) (simp add: gpio_levels_ok)
  show ?thesis
    by (rule set_ok)
      (use stop_condition_ok [OF assms, of w] rising_edge_ok [OF assms, of sda w] assms(2)
        in \<open>auto simp: gpio_ok_def start_condition_def\<close>)
qed

lemma gpio_run_ok:
  assumes "handlers_return ops" and "gpio_ok dev"
  shows "\<exists>d z. gpio_run ops ls (dev, w) = Some (d, z) \<and> gpio_ok d"
  using assms(2)
proof (induction ls arbitrary: dev w)
  case (Cons l ls)
  obtain d z where "i2c_gpio_set ops (fst l) (snd l) (dev, w) = Some (d, z)" and "gpio_ok d"
    using gpio_set_ok [OF assms(1) Cons.prems] by blast
  with Cons.IH [of d z] show ?case by (cases l) auto
qed simp

text \<open>
  The adapter stays inside the bus: from a fresh adapter, whatever levels a device register
  drives on the two lines and whatever devices are on the bus, every call the adapter makes names
  one of the 128 addresses, so no run faults unless a device handler does, and the bit position
  stays within a byte and its acknowledge bit.
\<close>

theorem gpio_levels_in_range:
  assumes "handlers_return ops" and "bus_ok bus"
  shows "\<exists>d z. gpio_run ops ls ((i2c_gpio_init name)\<lparr>g_i2c := bus\<rparr>, w) = Some (d, z) \<and> g_pos d \<le> 8"
proof -
  have "gpio_ok ((i2c_gpio_init name)\<lparr>g_i2c := bus\<rparr>)"
    using assms(2) by (simp add: gpio_ok_def i2c_gpio_init_def)
  from gpio_run_ok [OF assms(1) this] show ?thesis by (fastforce simp: gpio_ok_def)
qed

theorem gpio_levels_in_range_witness:
  "\<exists>d z. gpio_run counter_ops [(1, 0), (0, 0), (1, 4), (1, 0), (1, 1)]
    ((i2c_gpio_init ''test'')\<lparr>g_i2c := Some (i2c_addbus ''test'')\<rparr>, 3) = Some (d, z) \<and> g_pos d \<le> 8"
  by (rule gpio_levels_in_range)
    (simp_all add: handlers_return_def counter_ops_def bus_ok_def i2c_addbus_def)

section \<open>A register that drives SDA with another bit\<close>

text \<open>
  \<open>snd_cs423x.c\<close> passes \<open>val & 0x02\<close> as the SDA level, so a high SDA is 2 instead of 1.
\<close>

definition clock_level :: "'w i2c_ops \<Rightarrow> u8 \<Rightarrow> 'w gpio \<Rightarrow> 'w gpio option" where
  "clock_level ops x s = do {
    s \<leftarrow> i2c_gpio_set ops 0 x s;
    s \<leftarrow> i2c_gpio_set ops 1 x s;
    i2c_gpio_set ops 0 x s
  }"

fun clock_levels :: "'w i2c_ops \<Rightarrow> u8 list \<Rightarrow> 'w gpio \<Rightarrow> 'w gpio option" where
  "clock_levels ops [] s = Some s"
| "clock_levels ops (x # xs) s = do { s \<leftarrow> clock_level ops x s; clock_levels ops xs s }"

definition two :: "bool \<Rightarrow> u8" where
  "two b = (if b then 2 else 0)"

definition cs423x_levels :: "u8 \<Rightarrow> u8 list" where
  "cs423x_levels v = map two (msb_bits v)"

lemma clock_levels_in:
  assumes "mid_byte k dev" and "k + length xs < 8" and "g_slave_read dev \<noteq> 1"
  shows "\<exists>d. clock_levels ops xs (dev, w) = Some (dev\<lparr>g_pos := of_nat (k + length xs),
    g_byte := foldl (\<lambda>v x. push_bit 1 v OR x) (g_byte dev) xs, g_prev_sda := d\<rparr>, w)"
  using assms
proof (induction xs arbitrary: k dev)
  case Nil
  then show ?case by (auto simp: mid_byte_def intro: exI [of _ "g_prev_sda dev"])
next
  case (Cons x xs)
  let ?d = "dev\<lparr>g_pos := of_nat (Suc k), g_byte := push_bit 1 (g_byte dev) OR x, g_prev_sda := x\<rparr>"
  have "k < 8" and "k < 7" using Cons.prems(2) by simp_all
  from less_8_cases [OF this(1)] this(2) Cons.prems(1,3)
  have "clock_level ops x (dev, w) = Some (?d, w)"
    by (elim disjE) (simp_all add: clock_level_def wire_defs mid_byte_def)
  moreover have "mid_byte (Suc k) ?d" using Cons.prems by (simp add: mid_byte_def)
  ultimately show ?case using Cons.IH [of "Suc k" ?d] Cons.prems by fastforce
qed

definition shift_two :: "u8 \<Rightarrow> u8 \<Rightarrow> u8" where
  "shift_two v x = push_bit 1 v OR x"

lemma bit_shift_two:
  "bit (shift_two v (two b)) n \<longleftrightarrow> n < 8 \<and> n \<noteq> 0 \<and> (bit v (n - 1) \<or> n = 1 \<and> b)"
  by (auto simp: shift_two_def two_def bit_or_iff bit_push_bit_iff bit_2_iff Suc_le_eq)

lemma drop_push_7f: "drop_bit (Suc 0) (push_bit (Suc 0) v) = v AND 0x7f" for v :: u8
proof (rule bit_word_eqI)
  fix n assume "n < LENGTH(8)"
  then have "n < 8" by simp
  from less_8_cases [OF this] show "bit (drop_bit (Suc 0) (push_bit (Suc 0) v)) n = bit (v AND 0x7f) n"
    by (elim disjE) (simp_all add: bit_drop_bit_eq bit_push_bit_iff bit_and_iff numeral_2_eq_2)
qed

lemma shift_two_bits: "foldl (\<lambda>v x. push_bit 1 v OR x) u (cs423x_levels v) = push_bit 1 v"
proof -
  have "foldl shift_two u (cs423x_levels v) = push_bit 1 v"
  proof (rule bit_word_eqI)
    fix n assume "n < LENGTH(8)"
    then have "n < 8" by simp
    from less_8_cases [OF this] show "bit (foldl shift_two u (cs423x_levels v)) n = bit (push_bit 1 v) n"
      unfolding cs423x_levels_def msb_bits_def
      by (elim disjE) (simp_all add: bit_shift_two bit_push_bit_iff)
  qed
  then show ?thesis by (simp add: shift_two_def [abs_def])
qed

definition cs423x_start :: "'w i2c_ops \<Rightarrow> 'w gpio \<Rightarrow> 'w gpio option" where
  "cs423x_start ops s = do {
    s \<leftarrow> i2c_gpio_set ops 0 2 s;
    s \<leftarrow> i2c_gpio_set ops 1 2 s;
    s \<leftarrow> i2c_gpio_set ops 1 0 s;
    i2c_gpio_set ops 0 0 s
  }"

lemma cs423x_start_effect:
  assumes "idle bus dev"
  shows "\<exists>d. cs423x_start ops (dev, w) = Some (d, w) \<and> at_byte bus 0xff 2 d"
  using assms
  by (auto simp: cs423x_start_def i2c_gpio_set_def idle_def at_byte_def mid_byte_def start_condition_def)

lemma clock_level_address:
  assumes "mid_byte 7 dev" and "g_slave_read dev = 2"
    and "push_bit (Suc 0) (g_byte dev) OR x = b" and "b AND 1 = 0"
  shows "map_option snd (clock_level ops x (dev, w)) =
    map_option snd (i2c_start ops (g_i2c dev) (drop_bit (Suc 0) b) 0 w)"
  using assms
  by (cases "i2c_start ops (g_i2c dev) (drop_bit (Suc 0) b) 0 w")
    (auto simp: clock_level_def wire_defs mid_byte_def byte_done_def)

text \<open>
  A high SDA that is not 1 corrupts the byte: with SDA driven as 2, as the CS423x codec's
  control register does, the address byte \<open>v\<close> of a transfer reaches the bus shifted left by one,
  so the start call goes to address \<open>v AND 0x7f\<close> instead of \<open>v >> 1\<close>, and always as a write.
\<close>

theorem gpio_wide_sda_shifts:
  assumes "idle bus dev"
  shows "map_option snd (do { s \<leftarrow> cs423x_start ops (dev, w); clock_levels ops (cs423x_levels v) s }) =
    map_option snd (i2c_start ops bus (v AND 0x7f) 0 w)"
proof -
  from cs423x_start_effect [OF assms, of ops w] obtain d where
    st: "cs423x_start ops (dev, w) = Some (d, w)" and d: "at_byte bus 0xff 2 d" by blast
  let ?xs = "map two (map (bit v) [7, 6, 5, 4, 3, 2, 1])"
  let ?u = "foldl (\<lambda>v x. push_bit 1 v OR x) (g_byte d) ?xs"
  have split: "cs423x_levels v = ?xs @ [two (bit v 0)]" by (simp add: cs423x_levels_def msb_bits_def)
  have app: "clock_levels ops (xs @ ys) s = (clock_levels ops xs s \<bind> clock_levels ops ys)" for xs ys s
    by (induction xs arbitrary: s) (auto split: bind_splits)
  from d have mid: "mid_byte 0 d" "g_slave_read d = 2" "g_i2c d = bus" by (simp_all add: at_byte_def)
  from clock_levels_in [OF mid(1), of ?xs ops w] mid(2) obtain e where
    e: "clock_levels ops ?xs (d, w) = Some (d\<lparr>g_pos := 7, g_byte := ?u, g_prev_sda := e\<rparr>, w)" by auto
  have u: "push_bit (Suc 0) ?u OR two (bit v 0) = push_bit (Suc 0) v"
    using shift_two_bits [of "g_byte d" v] unfolding split by simp
  have a: "drop_bit (Suc 0) (push_bit (Suc 0) v) = v AND 0x7f" by (rule drop_push_7f)
  have r: "push_bit (Suc 0) v AND 1 = 0" by (simp add: and_one_lvl bit_push_bit_iff)
  let ?e = "d\<lparr>g_pos := 7, g_byte := ?u, g_prev_sda := e\<rparr>"
  have "mid_byte 7 ?e" and "g_slave_read ?e = 2" and "push_bit (Suc 0) (g_byte ?e) OR two (bit v 0) = push_bit (Suc 0) v"
    using mid u by (simp_all add: mid_byte_def)
  note last = clock_level_address [OF this r, of ops w]
  have "clock_levels ops [] = Some" by (rule ext) simp
  then show ?thesis
    unfolding split app st e bind.simps clock_levels.simps using last mid(3) a by simp
qed

theorem gpio_wide_sda_shifts_witness:
  "map_option snd (do { s \<leftarrow> cs423x_start counter_ops (counter_gpio, 3);
      clock_levels counter_ops (cs423x_levels 0xA0) s }) =
   map_option snd (i2c_start counter_ops (g_i2c counter_gpio) 0x20 0 3)"
proof -
  have "idle (g_i2c counter_gpio) counter_gpio"
    by (simp add: idle_def counter_gpio_def i2c_gpio_init_def)
  from gpio_wide_sda_shifts [OF this, of counter_ops 3 "0xA0"] show ?thesis by simp
qed

end
