(* ===== verification/Cell_Array.thy ===== *)
theory Cell_Array
  imports Prelude
begin

text \<open>
  The contract of a memory of numbered cells, shared by the serial EEPROMs: writing a cell changes
  that cell only, to the value as the memory keeps it (\<open>norm\<close>).  Its clients write and read consecutive cells with roll-over at the last one, or
  update every cell in a loop.
\<close>

fun store_seq :: "(nat \<Rightarrow> 'v \<Rightarrow> 'm \<Rightarrow> 'm) \<Rightarrow> nat \<Rightarrow> nat \<Rightarrow> 'v list \<Rightarrow> 'm \<Rightarrow> 'm" where
  "store_seq put n c [] m = m"
| "store_seq put n c (v # vs) m = store_seq put n (Suc c mod n) vs (put c v m)"

fun fetch_seq :: "('m \<Rightarrow> nat \<Rightarrow> 'v) \<Rightarrow> nat \<Rightarrow> nat \<Rightarrow> nat \<Rightarrow> 'm \<Rightarrow> 'v list" where
  "fetch_seq get n c 0 m = []"
| "fetch_seq get n c (Suc k) m = get m c # fetch_seq get n (Suc c mod n) k m"

fun update_from :: "('m \<Rightarrow> nat \<Rightarrow> 'v) \<Rightarrow> (nat \<Rightarrow> 'v \<Rightarrow> 'm \<Rightarrow> 'm) \<Rightarrow> ('v \<Rightarrow> 'v) \<Rightarrow> nat \<Rightarrow> nat \<Rightarrow> 'm \<Rightarrow> 'm" where
  "update_from get put f c 0 m = m"
| "update_from get put f c (Suc k) m = update_from get put f (Suc c) k (put c (f (get m c)) m)"

lemma length_fetch_seq [simp]: "length (fetch_seq get n c k m) = k"
  by (induction k arbitrary: c) simp_all

lemma fetch_seq_nth: "c < n \<Longrightarrow> i < k \<Longrightarrow> fetch_seq get n c k m ! i = get m ((c + i) mod n)"
proof (induction k arbitrary: c i)
  case (Suc k)
  have "Suc c mod n < n" using Suc.prems by simp
  with Suc.IH [of "Suc c mod n" "i - 1"] Suc.prems show ?case
    by (cases i) (simp_all add: mod_simps)
qed simp

locale cell_array =
  fixes get :: "'m \<Rightarrow> nat \<Rightarrow> 'v" and put :: "nat \<Rightarrow> 'v \<Rightarrow> 'm \<Rightarrow> 'm"
    and norm :: "'v \<Rightarrow> 'v" and ok :: "'m \<Rightarrow> bool" and cells :: nat
  assumes get_put: "ok m \<Longrightarrow> c < cells \<Longrightarrow> d < cells \<Longrightarrow> get (put c v m) d = (if d = c then norm v else get m d)"
    and ok_put: "ok m \<Longrightarrow> c < cells \<Longrightarrow> ok (put c v m)"
begin

lemma store_seq_ok: "ok m \<Longrightarrow> c < cells \<Longrightarrow> ok (store_seq put cells c vs m)"
  by (induction vs arbitrary: c m) (simp_all add: ok_put)

text \<open>A run of at most all cells leaves in cell \<open>c + i\<close> the \<open>i\<close>-th value, and the rest alone.\<close>

lemma get_store_seq:
  assumes "ok m" and "c < cells" and "length vs \<le> cells" and "d < cells"
  shows "get (store_seq put cells c vs m) d =
    (let i = (d + cells - c) mod cells in if i < length vs then norm (vs ! i) else get m d)"
  using assms
proof (induction vs arbitrary: c m)
  case (Cons v vs)
  let ?c = "Suc c mod cells"
  have c: "?c < cells" and len: "length vs \<le> cells" using Cons.prems by simp_all
  have IH: "get (store_seq put cells ?c vs (put c v m)) d =
    (let i = (d + cells - ?c) mod cells in if i < length vs then norm (vs ! i) else get (put c v m) d)"
    using Cons.IH [OF ok_put c len] Cons.prems by simp
  show ?case
  proof (cases "d = c")
    case True
    then have "(d + cells - c) mod cells = 0" by simp
    moreover have "(d + cells - ?c) mod cells = cells - 1"
      using True Cons.prems(2) by (cases "Suc c = cells") (auto simp: mod_if)
    moreover have "\<not> cells - 1 < length vs" using Cons.prems(3) by simp
    ultimately show ?thesis
      using IH True Cons.prems by (simp add: get_put Let_def)
  next
    case False
    have "(d + cells - c) mod cells = Suc ((d + cells - ?c) mod cells)"
      using False Cons.prems(2,4) by (cases "Suc c = cells"; cases "c \<le> d") (auto simp: mod_if)
    then show ?thesis using IH False Cons.prems by (simp add: get_put Let_def)
  qed
qed simp

lemma fetch_store_seq:
  assumes "ok m" and "c < cells" and "length vs \<le> cells"
  shows "fetch_seq get cells c (length vs) (store_seq put cells c vs m) = map norm vs"
proof (rule nth_equalityI)
  fix i assume "i < length (fetch_seq get cells c (length vs) (store_seq put cells c vs m))"
  then have i: "i < length vs" by simp
  have d: "(c + i) mod cells < cells" using assms(2) by simp
  have "((c + i) mod cells + cells - c) mod cells = i"
    using assms(2,3) i by (cases "c + i < cells") (auto simp: mod_if)
  with get_store_seq [OF assms d] i
  show "fetch_seq get cells c (length vs) (store_seq put cells c vs m) ! i = map norm vs ! i"
    by (simp add: fetch_seq_nth [OF assms(2)])
qed simp

lemma update_from_effect:
  assumes "ok m" and "c + k \<le> cells"
  shows "ok (update_from get put f c k m)"
    and "d < cells \<Longrightarrow> get (update_from get put f c k m) d =
      (if c \<le> d \<and> d < c + k then norm (f (get m d)) else get m d)"
  using assms by (induction k arbitrary: c m) (auto simp: get_put ok_put)

end

text \<open>A plain array of values.\<close>

interpretation list_cells: cell_array "(!)" "\<lambda>c v xs. xs[c := v]" "\<lambda>v. v" "\<lambda>xs. length xs = n" n for n
  by unfold_locales (simp_all add: nth_list_update)

end
