(* ===== verification/I2c_Eeprom.thy ===== *)
theory I2c_Eeprom
  imports I2c_Master Cell_Array
begin

text \<open>
  The I2C EEPROM of \<open>mem/i2c_eeprom.c\<close> (24Cxx).  The device structs live in a store indexed by
  the \<open>priv\<close> pointer of their bus entries, and \<open>eeprom_ops\<close> is the handlers' action on it; \<open>None\<close>
  is an access outside the data buffer.  On top of the model: one transfer addresses a cell and
  reads or writes consecutive cells with roll-over, also when driven bit by bit through the adapter.
\<close>

section \<open>State and operations\<close>

record i2c_eeprom_t =
  e_addr :: u8
  e_data :: "u8 list"
  e_writable :: u8
  e_addr_mask :: u32
  e_addr_register :: u32
  e_addr_len :: u8
  e_addr_pos :: u8

definition i2c_eeprom_start :: "u8 \<Rightarrow> u8 \<Rightarrow> i2c_eeprom_t \<Rightarrow> u8 \<times> i2c_eeprom_t" where
  "i2c_eeprom_start addr rd dev =
    (1, if rd = 0
        then dev\<lparr>e_addr_pos := 0,
          e_addr_register := push_bit (unat (e_addr_len dev)) (ucast addr) AND e_addr_mask dev\<rparr>
        else dev)"

definition next_cell :: "i2c_eeprom_t \<Rightarrow> i2c_eeprom_t" where
  "next_cell dev = dev\<lparr>e_addr_register := (e_addr_register dev + 1) AND e_addr_mask dev\<rparr>"

definition i2c_eeprom_read :: "u8 \<Rightarrow> i2c_eeprom_t \<Rightarrow> (u8 \<times> i2c_eeprom_t) option" where
  "i2c_eeprom_read addr dev =
    (if unat (e_addr_register dev) < length (e_data dev)
     then Some (e_data dev ! unat (e_addr_register dev), next_cell dev)
     else None)"

definition i2c_eeprom_write :: "u8 \<Rightarrow> u8 \<Rightarrow> i2c_eeprom_t \<Rightarrow> (u8 \<times> i2c_eeprom_t) option" where
  "i2c_eeprom_write addr data dev =
    (if e_addr_pos dev < e_addr_len dev then
       (let len = unat (e_addr_len dev);
            reg = push_bit 8 (e_addr_register dev);
            reg = reg OR ucast data;
            reg = reg AND (push_bit len 1 - 1);
            reg = reg OR push_bit len (ucast addr);
            reg = reg AND e_addr_mask dev
        in Some (1, dev\<lparr>e_addr_register := reg, e_addr_pos := e_addr_pos dev + 8\<rparr>))
     else if e_writable dev \<noteq> 0 then
       (if unat (e_addr_register dev) < length (e_data dev)
        then Some (e_writable dev,
          next_cell (dev\<lparr>e_data := (e_data dev)[unat (e_addr_register dev) := data]\<rparr>))
        else None)
     else Some (e_writable dev, next_cell dev))"

definition i2c_eeprom_stop :: "i2c_eeprom_t \<Rightarrow> i2c_eeprom_t" where
  "i2c_eeprom_stop dev = dev\<lparr>e_addr_pos := 0\<rparr>"

text \<open>The loop of \<open>log2i\<close>: the number of shifts until the value is 0.\<close>

function log2i :: "u32 \<Rightarrow> u8" where
  "log2i i = (let i = drop_bit 1 i in if i = 0 then 0 else log2i i + 1)"
  by auto
termination
proof (relation "measure unat")
  fix i x :: u32 assume "x = drop_bit 1 i" and "x \<noteq> 0"
  then have "unat x = unat i div 2" and "i \<noteq> 0"
    by (auto simp: drop_bit_eq_div unat_div)
  then show "(x, i) \<in> measure unat" by (simp add: unat_gt_0)
qed simp

declare log2i.simps [simp del]

definition eeprom_entry :: "nat \<Rightarrow> i2c_t" where
  "eeprom_entry priv = \<lparr>h_start = Some 0, h_read = Some 1, h_write = Some 2, h_stop = Some 3, h_priv = priv\<rparr>"

definition i2c_mask :: "i2c_eeprom_t \<Rightarrow> u8" where
  "i2c_mask dev = ucast (drop_bit (unat (e_addr_len dev)) (e_addr_mask dev))"

text \<open>Creation: the size is rounded up to a power of two and limited to 8 MB.\<close>

definition round_size :: "u32 \<Rightarrow> u32" where
  "round_size n =
    (let pow_size = push_bit (unat (log2i n)) 1;
         n = (if pow_size < n then push_bit 1 pow_size else n)
     in if n \<ge> 8388608 then 8388608 else n)"

definition i2c_eeprom_init ::
  "i2c_bus_t option \<Rightarrow> nat \<Rightarrow> u8 \<Rightarrow> u8 list \<Rightarrow> u32 \<Rightarrow> u8 \<Rightarrow> i2c_eeprom_t \<times> i2c_bus_t option" where
  "i2c_eeprom_init i2c priv addr data n writable =
    (let n = round_size n;
         dev = \<lparr>e_addr = addr, e_data = data, e_writable = writable, e_addr_mask = n - 1,
                e_addr_register = 0, e_addr_len = (if n \<ge> 4096 then 16 else 8), e_addr_pos = 0\<rparr>
     in (dev, i2c_sethandler i2c (e_addr dev AND NOT (i2c_mask dev)) (uint (i2c_mask dev) + 1) (eeprom_entry priv)))"

definition i2c_eeprom_close :: "i2c_bus_t option \<Rightarrow> nat \<Rightarrow> i2c_eeprom_t \<Rightarrow> i2c_bus_t option" where
  "i2c_eeprom_close i2c priv dev =
    i2c_removehandler i2c (e_addr dev AND NOT (i2c_mask dev)) (uint (i2c_mask dev) + 1) (eeprom_entry priv)"

section \<open>The handlers on the store of devices\<close>

type_synonym eeproms = "nat \<Rightarrow> i2c_eeprom_t option"

definition eeprom_ops :: "eeproms i2c_ops" where
  "eeprom_ops = \<lparr>
    o_start = (\<lambda>f addr rd p w. do {
      dev \<leftarrow> w p;
      let (r, dev) = i2c_eeprom_start addr rd dev;
      Some (r, w(p \<mapsto> dev)) }),
    o_read = (\<lambda>f addr p w. do {
      dev \<leftarrow> w p;
      (r, dev) \<leftarrow> i2c_eeprom_read addr dev;
      Some (r, w(p \<mapsto> dev)) }),
    o_write = (\<lambda>f addr data p w. do {
      dev \<leftarrow> w p;
      (r, dev) \<leftarrow> i2c_eeprom_write addr data dev;
      Some (r, w(p \<mapsto> dev)) }),
    o_stop = (\<lambda>f addr p w. do {
      dev \<leftarrow> w p;
      Some (w(p \<mapsto> i2c_eeprom_stop dev)) })\<rparr>"

section \<open>One device alone at its addresses\<close>

definition eeprom_ok :: "nat \<Rightarrow> i2c_eeprom_t \<Rightarrow> bool" where
  "eeprom_ok k dev \<longleftrightarrow> k \<le> 23 \<and> e_addr_mask dev = mask k \<and> length (e_data dev) = 2 ^ k \<and>
    e_addr_len dev = (if 12 \<le> k then 16 else 8) \<and> unat (e_addr_register dev) < 2 ^ k"

definition addr_word :: "u8 \<Rightarrow> u8 list \<Rightarrow> u32" where
  "addr_word a bs = foldl (\<lambda>r b. push_bit 8 r OR ucast b) (ucast a) bs"

text \<open>The cell that I2C address \<open>a\<close> and the address bytes \<open>bs\<close> select.\<close>

definition cell_of :: "nat \<Rightarrow> u8 \<Rightarrow> u8 list \<Rightarrow> nat" where
  "cell_of k a bs = unat (take_bit k (addr_word a bs))"

lemma mask_step:
  assumes "unat (r :: u32) < 2 ^ k" and "k \<le> 23"
  shows "unat ((r + 1) AND mask k) = Suc (unat r) mod 2 ^ k"
proof -
  have "(2::nat) ^ k \<le> 2 ^ 23" using assms(2) by (intro power_increasing) simp_all
  with assms(1) have "unat r + 1 < 2 ^ 32" by simp
  then have "unat (r + 1) = Suc (unat r)" by (simp add: unat_add_lem [where ?'a = 32, THEN iffD1])
  moreover have "unat (take_bit k (r + 1)) = take_bit k (unat (r + 1))" by (rule unsigned_take_bit_eq)
  ultimately show ?thesis
    by (simp add: take_bit_eq_mask [symmetric]) (simp add: take_bit_eq_mod)
qed

lemma next_cell_ok:
  assumes "eeprom_ok k dev"
  shows "eeprom_ok k (next_cell dev)"
    and "unat (e_addr_register (next_cell dev)) = Suc (unat (e_addr_register dev)) mod 2 ^ k"
  using assms mask_step [of "e_addr_register dev" k] by (auto simp: eeprom_ok_def next_cell_def)

lemma eeprom_calls:
  assumes "devices_at bus a = Some [eeprom_entry p]" and "w p = Some dev"
  shows "i2c_start eeprom_ops bus a rd w = Some (1, w(p \<mapsto> snd (i2c_eeprom_start a rd dev)))"
    and "i2c_read eeprom_ops bus a w = map_option (\<lambda>(r, d). (r, w(p \<mapsto> d))) (i2c_eeprom_read a dev)"
    and "i2c_write eeprom_ops bus a v w = map_option (\<lambda>(r, d). (r, w(p \<mapsto> d))) (i2c_eeprom_write a v dev)"
    and "i2c_stop eeprom_ops bus a w = Some (w(p \<mapsto> i2c_eeprom_stop dev))"
  using assms(2)
  by (auto simp: single_device [OF assms(1)] eeprom_entry_def eeprom_ops_def i2c_eeprom_start_def
      map_option_bind bind_map_option split: option.splits bind_splits)

section \<open>The address phase\<close>

lemma take_bit_ucast8: "8 \<le> n \<Longrightarrow> take_bit n (ucast (b :: u8)) = (ucast b :: u32)"
  by (rule bit_word_eqI) (auto simp: bit_take_bit_iff bit_ucast_iff dest: bit_imp_le_length)

lemma push_mask: "push_bit n 1 - 1 = (mask n :: u32)"
  by (simp add: mask_eq_exp_minus_1 push_bit_of_1)

lemma addr_byte_8:
  "((push_bit 8 r OR ucast b) AND mask 8 OR push_bit 8 (ucast a)) AND mask k =
    take_bit k (addr_word a [b])" for r :: u32
  by (rule bit_word_eqI)
    (auto simp: addr_word_def bit_simps dest: bit_imp_le_length)

lemma addr_byte_16:
  fixes r :: u32
  assumes "8 \<le> k"
  shows "((push_bit 8 (((push_bit 8 r OR ucast b) AND mask 16 OR push_bit 16 (ucast a)) AND mask k) OR ucast c)
      AND mask 16 OR push_bit 16 (ucast a)) AND mask k =
    take_bit k (addr_word a [b, c])"
proof (rule bit_word_eqI)
  fix n assume "n < LENGTH(32)"
  consider "n < 8" | "8 \<le> n" "n < 16" | "16 \<le> n" by linarith
  then show "bit (((push_bit 8 (((push_bit 8 r OR ucast b) AND mask 16 OR push_bit 16 (ucast a)) AND mask k) OR ucast c)
      AND mask 16 OR push_bit 16 (ucast a)) AND mask k) n = bit (take_bit k (addr_word a [b, c])) n"
    using assms by cases (auto simp: addr_word_def bit_simps dest: bit_imp_le_length)
qed

lemma bus_writes_append:
  "bus_writes ops bus a (us @ vs) w = (do {
    (r, w) \<leftarrow> bus_writes ops bus a us w;
    (q, w) \<leftarrow> bus_writes ops bus a vs w;
    Some (r @ q, w)
  })"
  by (induction us arbitrary: w) (auto simp: case_prod_beta split: bind_splits)

definition addressed :: "nat \<Rightarrow> u8 \<Rightarrow> u8 list \<Rightarrow> i2c_eeprom_t \<Rightarrow> i2c_eeprom_t" where
  "addressed k a bs dev = dev\<lparr>e_addr_register := take_bit k (addr_word a bs), e_addr_pos := e_addr_len dev\<rparr>"

lemma addressed_ok:
  assumes "eeprom_ok k dev"
  shows "eeprom_ok k (addressed k a bs dev)" and "unat (e_addr_register (addressed k a bs dev)) = cell_of k a bs"
    and "cell_of k a bs < 2 ^ k"
proof -
  have "unat (take_bit k (addr_word a bs)) = take_bit k (unat (addr_word a bs))" by (rule unsigned_take_bit_eq)
  then show "cell_of k a bs < 2 ^ k" by (simp add: cell_of_def)
  with assms show "eeprom_ok k (addressed k a bs dev)"
    by (simp add: eeprom_ok_def addressed_def cell_of_def)
qed (simp add: addressed_def cell_of_def)

lemma write_addr_8:
  assumes "e_addr_mask d = mask k" and "e_addr_len d = 8" and "e_addr_pos d = 0"
  shows "i2c_eeprom_write a b d =
    Some (1, d\<lparr>e_addr_register := take_bit k (addr_word a [b]), e_addr_pos := 8\<rparr>)"
  using assms addr_byte_8 [of "e_addr_register d" b a k]
  by (simp add: i2c_eeprom_write_def push_mask Let_def del: push_bit_of_1)

lemma write_addr_16:
  assumes "e_addr_mask d = mask k" and "e_addr_len d = 16" and "e_addr_pos d = 0" and "8 \<le> k"
  shows "\<exists>e. i2c_eeprom_write a b d = Some (1, e) \<and>
    i2c_eeprom_write a c e = Some (1, d\<lparr>e_addr_register := take_bit k (addr_word a [b, c]), e_addr_pos := 16\<rparr>)"
proof -
  let ?r = "((push_bit 8 (e_addr_register d) OR ucast b) AND mask 16 OR push_bit 16 (ucast a)) AND mask k"
  let ?e = "d\<lparr>e_addr_register := ?r, e_addr_pos := 8\<rparr>"
  have "i2c_eeprom_write a b d = Some (1, ?e)"
    using assms by (simp add: i2c_eeprom_write_def push_mask Let_def del: push_bit_of_1)
  moreover have "i2c_eeprom_write a c ?e =
      Some (1, d\<lparr>e_addr_register := take_bit k (addr_word a [b, c]), e_addr_pos := 16\<rparr>)"
    unfolding addr_byte_16 [OF assms(4), symmetric, of a b c "e_addr_register d"]
    using assms by (simp add: i2c_eeprom_write_def push_mask Let_def del: push_bit_of_1)
  ultimately show ?thesis by blast
qed

lemma address_phase:
  assumes dev: "devices_at bus a = Some [eeprom_entry p]" and "eeprom_ok k dev"
    and "length bs = (if 12 \<le> k then 2 else 1)"
    and w: "w p = Some (snd (i2c_eeprom_start a 0 dev))"
  shows "bus_writes eeprom_ops bus a bs w = Some (replicate (length bs) True, w(p \<mapsto> addressed k a bs dev))"
proof (cases "12 \<le> k")
  case False
  with assms(3) obtain b where bs: "bs = [b]" by (cases bs) auto
  have "i2c_eeprom_write a b (snd (i2c_eeprom_start a 0 dev)) = Some (1, addressed k a bs dev)"
    using assms(2) False
    by (subst write_addr_8 [of _ k]) (simp_all add: i2c_eeprom_start_def eeprom_ok_def addressed_def bs)
  with eeprom_calls(3) [where w = w and p = p, OF dev w] bs show ?thesis by simp
next
  case True
  with assms(3) obtain b c where bs: "bs = [b, c]" by (auto simp: length_Suc_conv numeral_2_eq_2)
  let ?d = "snd (i2c_eeprom_start a 0 dev)"
  have "e_addr_mask ?d = mask k" "e_addr_len ?d = 16" "e_addr_pos ?d = 0" "8 \<le> k"
    using assms(2) True by (simp_all add: i2c_eeprom_start_def eeprom_ok_def)
  from write_addr_16 [OF this, of a b c] obtain d where d: "i2c_eeprom_write a b ?d = Some (1, d)"
      "i2c_eeprom_write a c d = Some (1, addressed k a bs dev)"
    using assms(2) True by (auto simp: addressed_def bs i2c_eeprom_start_def eeprom_ok_def)
  then have "i2c_write eeprom_ops bus a b w = Some (1, w(p \<mapsto> d))"
    using eeprom_calls(3) [where w = w and p = p, OF dev w] by simp
  moreover have "i2c_write eeprom_ops bus a c (w(p \<mapsto> d)) = Some (1, w(p \<mapsto> addressed k a bs dev))"
    using eeprom_calls(3) [where w = "w(p \<mapsto> d)" and p = p, OF dev, of d] d by simp
  ultimately show ?thesis using bs by simp
qed

section \<open>The data phase\<close>

lemma data_phase_write:
  assumes dev: "devices_at bus a = Some [eeprom_entry p]"
  shows "w p = Some dev \<Longrightarrow> eeprom_ok k dev \<Longrightarrow> e_writable dev \<noteq> 0 \<Longrightarrow> \<not> e_addr_pos dev < e_addr_len dev \<Longrightarrow>
    \<exists>d. bus_writes eeprom_ops bus a vs w = Some (replicate (length vs) True, w(p \<mapsto> d)) \<and> eeprom_ok k d \<and>
      e_writable d = e_writable dev \<and>
      e_data d = store_seq (\<lambda>c v xs. xs[c := v]) (2 ^ k) (unat (e_addr_register dev)) vs (e_data dev)"
proof (induction vs arbitrary: w dev)
  case Nil
  then show ?case by (auto simp: map_upd_triv intro!: exI [of _ dev])
next
  case (Cons v vs)
  let ?r = "unat (e_addr_register dev)"
  let ?e = "dev\<lparr>e_data := (e_data dev)[?r := v]\<rparr>"
  have e: "eeprom_ok k ?e" using Cons.prems by (simp add: eeprom_ok_def)
  have "i2c_eeprom_write a v dev = Some (e_writable dev, next_cell ?e)"
    using Cons.prems by (simp add: i2c_eeprom_write_def eeprom_ok_def)
  then have wr: "i2c_write eeprom_ops bus a v w = Some (e_writable dev, w(p \<mapsto> next_cell ?e))"
    using eeprom_calls(3) [where w = w and p = p, OF dev Cons.prems(1)] by simp
  have f: "e_writable (next_cell ?e) = e_writable dev" "e_addr_pos (next_cell ?e) = e_addr_pos dev"
    "e_addr_len (next_cell ?e) = e_addr_len dev" "e_data (next_cell ?e) = (e_data dev)[?r := v]"
    by (simp_all add: next_cell_def)
  define z where "z = w(p \<mapsto> next_cell ?e)"
  have s: "z p = Some (next_cell ?e)" and upd: "z(p \<mapsto> d) = w(p \<mapsto> d)" for d
    by (simp_all add: z_def)
  have "\<exists>d. bus_writes eeprom_ops bus a vs z = Some (replicate (length vs) True, w(p \<mapsto> d)) \<and> eeprom_ok k d \<and>
      e_writable d = e_writable dev \<and>
      e_data d = store_seq (\<lambda>c v xs. xs[c := v]) (2 ^ k) (Suc ?r mod 2 ^ k) vs ((e_data dev)[?r := v])"
    using Cons.IH [of z, OF s next_cell_ok(1) [OF e]] Cons.prems(3,4) by (simp add: f upd next_cell_ok(2) [OF e] del: fun_upd_apply)
  with wr [folded z_def] Cons.prems(3) show ?case by (auto simp del: fun_upd_apply)
qed

lemma data_phase_protected:
  assumes dev: "devices_at bus a = Some [eeprom_entry p]"
  shows "w p = Some dev \<Longrightarrow> eeprom_ok k dev \<Longrightarrow> e_writable dev = 0 \<Longrightarrow> \<not> e_addr_pos dev < e_addr_len dev \<Longrightarrow>
    \<exists>d. bus_writes eeprom_ops bus a vs w = Some (replicate (length vs) False, w(p \<mapsto> d)) \<and> eeprom_ok k d \<and>
      e_data d = e_data dev"
proof (induction vs arbitrary: w dev)
  case Nil
  then show ?case by (auto simp: map_upd_triv intro!: exI [of _ dev])
next
  case (Cons v vs)
  have "i2c_eeprom_write a v dev = Some (0, next_cell dev)"
    using Cons.prems by (simp add: i2c_eeprom_write_def)
  then have wr: "i2c_write eeprom_ops bus a v w = Some (0, w(p \<mapsto> next_cell dev))"
    using eeprom_calls(3) [where w = w and p = p, OF dev Cons.prems(1)] by simp
  have f: "e_writable (next_cell dev) = e_writable dev" "e_addr_pos (next_cell dev) = e_addr_pos dev"
    "e_addr_len (next_cell dev) = e_addr_len dev" "e_data (next_cell dev) = e_data dev"
    by (simp_all add: next_cell_def)
  define z where "z = w(p \<mapsto> next_cell dev)"
  have s: "z p = Some (next_cell dev)" and upd: "z(p \<mapsto> d) = w(p \<mapsto> d)" for d
    by (simp_all add: z_def)
  have "\<exists>d. bus_writes eeprom_ops bus a vs z = Some (replicate (length vs) False, w(p \<mapsto> d)) \<and> eeprom_ok k d \<and>
      e_data d = e_data dev"
    using Cons.IH [of z, OF s next_cell_ok(1) [OF Cons.prems(2)]] Cons.prems(3,4) by (simp add: f upd del: fun_upd_apply)
  with wr [folded z_def] show ?case by (auto simp del: fun_upd_apply)
qed

lemma data_phase_read:
  assumes dev: "devices_at bus a = Some [eeprom_entry p]"
  shows "w p = Some dev \<Longrightarrow> eeprom_ok k dev \<Longrightarrow>
    \<exists>d. bus_reads eeprom_ops bus a n w =
      Some (fetch_seq (!) (2 ^ k) (unat (e_addr_register dev)) n (e_data dev), w(p \<mapsto> d)) \<and> eeprom_ok k d \<and>
      e_data d = e_data dev \<and> e_writable d = e_writable dev"
proof (induction n arbitrary: w dev)
  case 0
  then show ?case by (auto simp: map_upd_triv intro!: exI [of _ dev])
next
  case (Suc n)
  let ?r = "unat (e_addr_register dev)"
  have "i2c_eeprom_read a dev = Some (e_data dev ! ?r, next_cell dev)"
    using Suc.prems by (simp add: i2c_eeprom_read_def eeprom_ok_def)
  then have rd: "i2c_read eeprom_ops bus a w = Some (e_data dev ! ?r, w(p \<mapsto> next_cell dev))"
    using eeprom_calls(2) [where w = w and p = p, OF dev Suc.prems(1)] by simp
  have f: "e_data (next_cell dev) = e_data dev" "e_writable (next_cell dev) = e_writable dev"
    by (simp_all add: next_cell_def)
  define z where "z = w(p \<mapsto> next_cell dev)"
  have s: "z p = Some (next_cell dev)" and upd: "z(p \<mapsto> d) = w(p \<mapsto> d)" for d
    by (simp_all add: z_def)
  have "\<exists>d. bus_reads eeprom_ops bus a n z =
      Some (fetch_seq (!) (2 ^ k) (Suc ?r mod 2 ^ k) n (e_data dev), w(p \<mapsto> d)) \<and> eeprom_ok k d \<and>
      e_data d = e_data dev \<and> e_writable d = e_writable dev"
    using Suc.IH [of z, OF s next_cell_ok(1) [OF Suc.prems(2)]]
    by (simp add: f upd next_cell_ok(2) [OF Suc.prems(2)] del: fun_upd_apply)
  with rd [folded z_def] show ?case by (auto simp del: fun_upd_apply)
qed

section \<open>Whole transfers\<close>

lemma start_ok: "eeprom_ok k dev \<Longrightarrow> eeprom_ok k (snd (i2c_eeprom_start a 1 dev))"
  and start_read: "snd (i2c_eeprom_start a 1 dev) = dev"
  and stop_ok: "eeprom_ok k dev \<Longrightarrow> eeprom_ok k (i2c_eeprom_stop dev)"
  and stop_fields: "e_data (i2c_eeprom_stop dev) = e_data dev" "e_writable (i2c_eeprom_stop dev) = e_writable dev"
    "e_addr_register (i2c_eeprom_stop dev) = e_addr_register dev"
  by (simp_all add: i2c_eeprom_start_def i2c_eeprom_stop_def eeprom_ok_def)

lemma addressed_fields:
  "e_data (addressed k a bs dev) = e_data dev" "e_writable (addressed k a bs dev) = e_writable dev"
  "\<not> e_addr_pos (addressed k a bs dev) < e_addr_len (addressed k a bs dev)"
  by (simp_all add: addressed_def)

text \<open>A write message: the address phase followed by \<open>data_phase_write\<close>.\<close>

lemma msg_write:
  assumes dev: "devices_at bus a = Some [eeprom_entry p]" and w: "w p = Some dev" and ok: "eeprom_ok k dev"
    and len: "length bs = (if 12 \<le> k then 2 else 1)" and wr: "e_writable dev \<noteq> 0"
  shows "\<exists>d. bus_msg eeprom_ops bus a (Wr (bs @ vs)) w =
      Some ((replicate (Suc (length bs + length vs)) True, []), w(p \<mapsto> d)) \<and> eeprom_ok k d \<and>
      e_writable d = e_writable dev \<and>
      e_data d = store_seq (\<lambda>c v xs. xs[c := v]) (2 ^ k) (cell_of k a bs) vs (e_data dev)"
proof -
  define z where "z = w(p \<mapsto> snd (i2c_eeprom_start a 0 dev))"
  have z: "z p = Some (snd (i2c_eeprom_start a 0 dev))" and zu: "z(p \<mapsto> d) = w(p \<mapsto> d)" for d
    by (simp_all add: z_def)
  have st: "i2c_start eeprom_ops bus a 0 w = Some (1, z)"
    unfolding z_def by (rule eeprom_calls(1) [where w = w and p = p, OF dev w])
  note ap = address_phase [of bus a p k dev bs z, OF dev ok len z, unfolded zu]
  define y where "y = w(p \<mapsto> addressed k a bs dev)"
  have y: "y p = Some (addressed k a bs dev)" and yu: "y(p \<mapsto> d) = w(p \<mapsto> d)" for d
    by (simp_all add: y_def)
  obtain d where "bus_writes eeprom_ops bus a vs y = Some (replicate (length vs) True, w(p \<mapsto> d))" and
    "eeprom_ok k d \<and> e_writable d = e_writable dev \<and>
      e_data d = store_seq (\<lambda>c v xs. xs[c := v]) (2 ^ k) (cell_of k a bs) vs (e_data dev)"
    using data_phase_write [of bus a p y, OF dev y addressed_ok(1) [OF ok]] wr
    by (auto simp: addressed_fields addressed_ok(2) [OF ok] yu)
  moreover have "replicate (length bs) True @ replicate (length vs) True = replicate (length bs + length vs) True"
    by (simp add: replicate_add)
  ultimately show ?thesis
    by (auto simp: st bus_writes_append ap [folded y_def])
qed

lemma msg_read:
  assumes dev: "devices_at bus a = Some [eeprom_entry p]" and w: "w p = Some dev" and ok: "eeprom_ok k dev"
  shows "\<exists>d. bus_msg eeprom_ops bus a (Rd n) w =
      Some (([True], fetch_seq (!) (2 ^ k) (unat (e_addr_register dev)) (Suc n) (e_data dev)), w(p \<mapsto> d)) \<and>
      eeprom_ok k d \<and> e_data d = e_data dev"
proof -
  have st: "i2c_start eeprom_ops bus a 1 w = Some (1, w)"
    using eeprom_calls(1) [where w = w and p = p, OF dev w, of 1] w by (simp add: start_read map_upd_triv)
  obtain d where "bus_reads eeprom_ops bus a (Suc n) w =
      Some (fetch_seq (!) (2 ^ k) (unat (e_addr_register dev)) (Suc n) (e_data dev), w(p \<mapsto> d))" and
    "eeprom_ok k d \<and> e_data d = e_data dev"
    using data_phase_read [of bus a p w, OF dev w ok, of "Suc n"] by blast
  then show ?thesis by (auto simp: st simp del: bus_reads.simps fetch_seq.simps fun_upd_apply)
qed

lemma address_only:
  assumes dev: "devices_at bus a = Some [eeprom_entry p]" and w: "w p = Some dev" and ok: "eeprom_ok k dev"
    and len: "length bs = (if 12 \<le> k then 2 else 1)"
  shows "bus_msg eeprom_ops bus a (Wr bs) w =
      Some ((replicate (Suc (length bs)) True, []), w(p \<mapsto> addressed k a bs dev))"
proof -
  define z where "z = w(p \<mapsto> snd (i2c_eeprom_start a 0 dev))"
  have z: "z p = Some (snd (i2c_eeprom_start a 0 dev))" and zu: "z(p \<mapsto> d) = w(p \<mapsto> d)" for d
    by (simp_all add: z_def)
  have st: "i2c_start eeprom_ops bus a 0 w = Some (1, z)"
    unfolding z_def by (rule eeprom_calls(1) [where w = w and p = p, OF dev w])
  show ?thesis
    using address_phase [of bus a p k dev bs z, OF dev ok len z, unfolded zu] by (simp add: st)
qed

lemma stop_pos: "e_addr_pos (i2c_eeprom_stop dev) = 0"
  by (simp add: i2c_eeprom_stop_def)

lemma xfer_write:
  assumes dev: "devices_at bus a = Some [eeprom_entry p]" and w: "w p = Some dev" and ok: "eeprom_ok k dev"
    and len: "length bs = (if 12 \<le> k then 2 else 1)" and wr: "e_writable dev \<noteq> 0"
  shows "\<exists>d. bus_xfer eeprom_ops bus a [Wr (bs @ vs)] w =
      Some ([(replicate (Suc (length bs + length vs)) True, [])], w(p \<mapsto> d)) \<and> eeprom_ok k d \<and>
      e_writable d = e_writable dev \<and> e_addr_pos d = 0 \<and>
      e_data d = store_seq (\<lambda>c v xs. xs[c := v]) (2 ^ k) (cell_of k a bs) vs (e_data dev)"
proof -
  obtain d where m: "bus_msg eeprom_ops bus a (Wr (bs @ vs)) w =
      Some ((replicate (Suc (length bs + length vs)) True, []), w(p \<mapsto> d))" and d: "eeprom_ok k d"
      "e_writable d = e_writable dev"
      "e_data d = store_seq (\<lambda>c v xs. xs[c := v]) (2 ^ k) (cell_of k a bs) vs (e_data dev)"
    using msg_write [of bus a p w, OF dev w ok len wr] by blast
  define y where "y = w(p \<mapsto> d)"
  have y: "y p = Some d" and yu: "y(p \<mapsto> e) = w(p \<mapsto> e)" for e by (simp_all add: y_def)
  have "i2c_stop eeprom_ops bus a y = Some (w(p \<mapsto> i2c_eeprom_stop d))"
    using eeprom_calls(4) [where w = y and p = p, OF dev y] by (simp add: yu)
  then show ?thesis
    using m [folded y_def] d stop_ok [OF d(1)]
    by (auto simp: bus_xfer_def stop_fields stop_pos simp del: bus_msg.simps fun_upd_apply replicate_Suc)
qed

lemma xfer_read:
  assumes dev: "devices_at bus a = Some [eeprom_entry p]" and w: "w p = Some dev" and ok: "eeprom_ok k dev"
    and len: "length bs = (if 12 \<le> k then 2 else 1)"
  shows "\<exists>d. bus_xfer eeprom_ops bus a [Wr bs, Rd n] w =
      Some ([(replicate (Suc (length bs)) True, []),
        ([True], fetch_seq (!) (2 ^ k) (cell_of k a bs) (Suc n) (e_data dev))], w(p \<mapsto> d)) \<and>
      eeprom_ok k d \<and> e_data d = e_data dev"
proof -
  define z where "z = w(p \<mapsto> addressed k a bs dev)"
  have z: "z p = Some (addressed k a bs dev)" and zu: "z(p \<mapsto> d) = w(p \<mapsto> d)" for d
    by (simp_all add: z_def)
  note wr = address_only [of bus a p w, OF dev w ok len, folded z_def]
  obtain d where rd: "bus_msg eeprom_ops bus a (Rd n) z =
      Some (([True], fetch_seq (!) (2 ^ k) (cell_of k a bs) (Suc n) (e_data dev)), w(p \<mapsto> d))" and
    d: "eeprom_ok k d" "e_data d = e_data dev"
    using msg_read [of bus a p z, OF dev z addressed_ok(1) [OF ok], of n]
    unfolding zu addressed_ok(2) [OF ok] addressed_fields by blast
  define y where "y = w(p \<mapsto> d)"
  have y: "y p = Some d" and yu: "y(p \<mapsto> e) = w(p \<mapsto> e)" for e by (simp_all add: y_def)
  have "i2c_stop eeprom_ops bus a y = Some (w(p \<mapsto> i2c_eeprom_stop d))"
    using eeprom_calls(4) [where w = y and p = p, OF dev y] by (simp add: yu)
  then show ?thesis
    using wr rd [folded y_def] d stop_ok [OF d(1)]
    by (auto simp: bus_xfer_def stop_fields simp del: bus_msg.simps fetch_seq.simps fun_upd_apply replicate_Suc)
qed

section \<open>Correctness\<close>

lemma agree_SomeD: "agree P x (Some (r, w)) \<Longrightarrow> \<exists>d. x = Some (r, d, w) \<and> P d"
  by (auto simp: agree_def split: option.splits)

text \<open>
  C11. EEPROM round trip over the wire: on an idle bit-banged adapter whose bus has a writable
  EEPROM of \<open>2^k\<close> bytes alone at address \<open>a\<close>, clocking out the address bytes and any run of at most
  \<open>2^k\<close> data bytes is acknowledged byte by byte, and then clocking out the same address bytes, a
  repeated start and as many reads samples exactly these data bytes on SDA, also when the run rolls
  over the last cell.
\<close>

theorem eeprom_wire_roundtrip:
  assumes "idle bus g" and "a < 128" and "devices_at bus a = Some [eeprom_entry p]"
    and "w p = Some dev" and "eeprom_ok k dev" and "e_writable dev \<noteq> 0"
    and "length bs = (if 12 \<le> k then 2 else 1)" and "length vs = Suc n" and "length vs \<le> 2 ^ k"
  shows "\<exists>g1 w1 g2 w2.
    master_xfer eeprom_ops a [Wr (bs @ vs)] (g, w) =
      Some ([(replicate (Suc (length bs + length vs)) True, [])], g1, w1) \<and>
    master_xfer eeprom_ops a [Wr bs, Rd n] (g1, w1) =
      Some ([(replicate (Suc (length bs)) True, []), ([True], vs)], g2, w2)"
proof -
  obtain d where wr: "bus_xfer eeprom_ops bus a [Wr (bs @ vs)] w =
      Some ([(replicate (Suc (length bs + length vs)) True, [])], w(p \<mapsto> d))" and d: "eeprom_ok k d"
      "e_data d = store_seq (\<lambda>c v xs. xs[c := v]) (2 ^ k) (cell_of k a bs) vs (e_data dev)"
    using xfer_write [of bus a p w, OF assms(3-5,7,6)] by blast
  from master_xfer_agree [OF assms(2,1), of eeprom_ops "[Wr (bs @ vs)]" w, unfolded wr]
  obtain g1 where g1: "master_xfer eeprom_ops a [Wr (bs @ vs)] (g, w) =
      Some ([(replicate (Suc (length bs + length vs)) True, [])], g1, w(p \<mapsto> d))" and "idle bus g1"
    by (blast dest: agree_SomeD)
  define y where "y = w(p \<mapsto> d)"
  have y: "y p = Some d" by (simp add: y_def)
  have "length (e_data dev) = 2 ^ k" using assms(5) by (simp add: eeprom_ok_def)
  then have "fetch_seq (!) (2 ^ k) (cell_of k a bs) (Suc n) (e_data d) = vs"
    using list_cells.fetch_store_seq [of "e_data dev" "2 ^ k" "cell_of k a bs" vs] assms(8,9)
      addressed_ok(3) [OF assms(5), of a bs]
    by (simp add: d del: fetch_seq.simps)
  then obtain w2 where "bus_xfer eeprom_ops bus a [Wr bs, Rd n] y =
      Some ([(replicate (Suc (length bs)) True, []), ([True], vs)], w2)"
    using xfer_read [of bus a p y, OF assms(3) y d(1) assms(7), of n] by fastforce
  with master_xfer_agree [OF assms(2) \<open>idle bus g1\<close>, of eeprom_ops "[Wr bs, Rd n]" y]
  obtain g2 where "master_xfer eeprom_ops a [Wr bs, Rd n] (g1, y) =
      Some ([(replicate (Suc (length bs)) True, []), ([True], vs)], g2, w2)"
    by (metis agree_SomeD)
  with g1 show ?thesis unfolding y_def by blast
qed

text \<open>The setup of the witnesses: a 16-byte EEPROM at address 0x50 of a fresh adapter.\<close>

definition small_eeprom :: "u8 \<Rightarrow> i2c_eeprom_t \<times> i2c_bus_t option" where
  "small_eeprom writable = i2c_eeprom_init (Some (i2c_addbus ''x'')) 0 0x50 (replicate 16 0xee) 16 writable"

definition small_gpio :: "u8 \<Rightarrow> i2c_gpio_t" where
  "small_gpio writable = (i2c_gpio_init ''x'')\<lparr>g_i2c := snd (small_eeprom writable)\<rparr>"

lemma small_setup:
  "idle (g_i2c (small_gpio 1)) (small_gpio 1)"
  "devices_at (g_i2c (small_gpio 1)) 0x50 = Some [eeprom_entry 0]"
  "eeprom_ok 4 (fst (small_eeprom 1))" "e_writable (fst (small_eeprom 1)) = 1"
proof -
  show "idle (g_i2c (small_gpio 1)) (small_gpio 1)"
    by (simp add: idle_def small_gpio_def i2c_gpio_init_def)
  show "devices_at (g_i2c (small_gpio 1)) 0x50 = Some [eeprom_entry 0]" by code_simp
  show "eeprom_ok 4 (fst (small_eeprom 1))" by code_simp
  show "e_writable (fst (small_eeprom 1)) = 1" by code_simp
qed

theorem eeprom_wire_roundtrip_witness:
  "\<exists>g1 w1 g2 w2.
    master_xfer eeprom_ops 0x50 [Wr ([14] @ [1, 2, 3])] (small_gpio 1, [0 \<mapsto> fst (small_eeprom 1)]) =
      Some ([([True, True, True, True, True], [])], g1, w1) \<and>
    master_xfer eeprom_ops 0x50 [Wr [14], Rd 2] (g1, w1) =
      Some ([([True, True], []), ([True], [1, 2, 3])], g2, w2)"
  using eeprom_wire_roundtrip [of "g_i2c (small_gpio 1)" "small_gpio 1" "0x50" 0
      "[0 \<mapsto> fst (small_eeprom 1)]" "fst (small_eeprom 1)" 4 "[14]" "[1, 2, 3]" 2] small_setup
  by simp

text \<open>
  A protected EEPROM ignores writes: with \<open>writable\<close> 0, the address bytes of a write transfer
  are acknowledged, every data byte is refused, and no cell changes.
\<close>

theorem eeprom_protected:
  assumes "devices_at bus a = Some [eeprom_entry p]" and "w p = Some dev" and "eeprom_ok k dev"
    and "e_writable dev = 0" and "length bs = (if 12 \<le> k then 2 else 1)"
  shows "\<exists>d. bus_xfer eeprom_ops bus a [Wr (bs @ vs)] w =
      Some ([(replicate (Suc (length bs)) True @ replicate (length vs) False, [])], w(p \<mapsto> d)) \<and>
    e_data d = e_data dev"
proof -
  define z where "z = w(p \<mapsto> snd (i2c_eeprom_start a 0 dev))"
  have z: "z p = Some (snd (i2c_eeprom_start a 0 dev))" and zu: "z(p \<mapsto> d) = w(p \<mapsto> d)" for d
    by (simp_all add: z_def)
  have st: "i2c_start eeprom_ops bus a 0 w = Some (1, z)"
    unfolding z_def by (rule eeprom_calls(1) [where w = w and p = p, OF assms(1,2)])
  note ap = address_phase [of bus a p k dev bs z, OF assms(1,3,5) z, unfolded zu]
  define y where "y = w(p \<mapsto> addressed k a bs dev)"
  have y: "y p = Some (addressed k a bs dev)" and yu: "y(p \<mapsto> d) = w(p \<mapsto> d)" for d
    by (simp_all add: y_def)
  obtain d where wr: "bus_writes eeprom_ops bus a vs y = Some (replicate (length vs) False, w(p \<mapsto> d))"
    and d: "e_data d = e_data dev"
    using data_phase_protected [of bus a p y, OF assms(1) y addressed_ok(1) [OF assms(3)]] assms(4)
    by (auto simp: addressed_fields yu)
  define x where "x = w(p \<mapsto> d)"
  have x: "x p = Some d" and xu: "x(p \<mapsto> e) = w(p \<mapsto> e)" for e by (simp_all add: x_def)
  have "i2c_stop eeprom_ops bus a x = Some (w(p \<mapsto> i2c_eeprom_stop d))"
    using eeprom_calls(4) [where w = x and p = p, OF assms(1) x] by (simp add: xu)
  then show ?thesis
    using d wr [folded x_def]
    by (auto simp: bus_xfer_def st bus_writes_append ap [folded y_def] stop_fields
        simp del: fun_upd_apply)
qed

theorem eeprom_protected_witness:
  "\<exists>d. bus_xfer eeprom_ops (snd (small_eeprom 0)) 0x50 [Wr ([3] @ [1, 2])] [0 \<mapsto> fst (small_eeprom 0)] =
      Some ([([True, True, False, False], [])], [0 \<mapsto> fst (small_eeprom 0)](0 \<mapsto> d)) \<and>
    e_data d = e_data (fst (small_eeprom 0))"
proof -
  have "devices_at (snd (small_eeprom 0)) 0x50 = Some [eeprom_entry 0]" by code_simp
  moreover have "eeprom_ok 4 (fst (small_eeprom 0))" by code_simp
  moreover have "e_writable (fst (small_eeprom 0)) = 0" by code_simp
  moreover have "[0 \<mapsto> fst (small_eeprom 0)] 0 = Some (fst (small_eeprom 0))" by simp
  ultimately show ?thesis
    using eeprom_protected [of "snd (small_eeprom 0)" "0x50" 0 "[0 \<mapsto> fst (small_eeprom 0)]"
        "fst (small_eeprom 0)" 4 "[3]" "[1, 2]"] by simp
qed

section \<open>Creation\<close>

lemma log2i_bounds:
  "n \<noteq> 0 \<Longrightarrow> 2 ^ unat (log2i n) \<le> unat n \<and> unat n < 2 * 2 ^ unat (log2i n) \<and> unat (log2i n) < 32"
proof (induction n rule: log2i.induct)
  case (1 n)
  let ?m = "drop_bit 1 n"
  have m: "unat ?m = unat n div 2" by (simp add: drop_bit_eq_div unat_div)
  show ?case
  proof (cases "?m = 0")
    case True
    then have "unat n div 2 = 0" using m by simp
    moreover have "0 < unat n" using 1(2) by (simp add: unat_gt_0)
    moreover have "log2i n = 0" using True by (simp add: log2i.simps)
    ultimately show ?thesis by simp
  next
    case False
    with 1(1) have IH: "2 ^ unat (log2i ?m) \<le> unat n div 2" "unat n div 2 < 2 * 2 ^ unat (log2i ?m)"
      "unat (log2i ?m) < 32" by (simp_all add: m [simplified])
    have "unat (log2i ?m) \<noteq> 31"
    proof
      assume "unat (log2i ?m) = 31"
      with IH(1) have "2 ^ 31 \<le> unat n div 2" by simp
      moreover have "unat n < 2 ^ 32" using unsigned_less [of n, where ?'a = nat] by simp
      ultimately show False by simp
    qed
    with IH(3) have "unat (log2i ?m) < 31" by simp
    then have "unat (log2i ?m + 1) = Suc (unat (log2i ?m))" by (simp add: unat_add_lem [THEN iffD1])
    moreover have "log2i n = log2i ?m + 1" using False by (subst log2i.simps) simp
    ultimately show ?thesis using IH \<open>unat (log2i ?m) < 31\<close> by auto
  qed
qed

lemma push_one: "push_bit n 1 = (2 ^ n :: u32)"
  by (simp add: push_bit_eq_mult)

lemma unat_two_power: "k < 32 \<Longrightarrow> unat (2 ^ k :: u32) = 2 ^ k"
  using unat_of_nat [of "2 ^ k", where ?'a = 32] power_strict_increasing [of k 32 "2::nat"] by simp

lemma round_size_spec:
  assumes "0 < n" and "n \<le> 8388608"
  shows "\<exists>k \<le> 23. round_size n = 2 ^ k \<and> unat n \<le> 2 ^ k \<and> 2 ^ k < 2 * unat n"
proof -
  define L where "L = unat (log2i n)"
  have n: "0 < unat n" "unat n \<le> 2 ^ 23"
    using assms by (simp_all add: word_less_nat_alt word_le_nat_alt)
  have b: "2 ^ L \<le> unat n" "unat n < 2 * 2 ^ L" "L < 32" using log2i_bounds [of n] assms by (simp_all add: L_def)
  have "(2::nat) ^ L \<le> 2 ^ 23" using b(1) n(2) by (rule le_trans)
  then have L: "L \<le> 23" by (simp only: power_increasing_iff)
  have limit: "(if (2 ^ k :: u32) \<ge> 8388608 then 8388608 else 2 ^ k) = (2 ^ k :: u32)" if "k \<le> 23" for k
  proof (cases "k = 23")
    case False
    then have "(2::nat) ^ k < 2 ^ 23" using that by (intro power_strict_increasing) simp_all
    then have "\<not> (2 ^ k :: u32) \<ge> 8388608" using that by (simp add: word_le_nat_alt unat_two_power)
    then show ?thesis by simp
  qed simp
  show ?thesis
  proof (cases "unat n = 2 ^ L")
    case True
    then have eq: "n = 2 ^ L" using b(3) by (metis unat_two_power word_unat_eq_iff)
    then have "\<not> (2 ^ L :: u32) < n" by simp
    then have "round_size n = 2 ^ L"
      unfolding round_size_def push_one Let_def L_def [symmetric] using limit [OF L] eq by (auto split: if_splits)
    with True L n show ?thesis by (intro exI [of _ L]) simp
  next
    case False
    with b(1) have lt: "2 ^ L < unat n" by simp
    then have "(2 ^ L :: u32) < n" using b(3) by (simp add: word_less_nat_alt unat_two_power)
    have "(2::nat) ^ L < 2 ^ 23" using lt n(2) by simp
    then have L1: "Suc L \<le> 23" using power_strict_increasing_iff [of "2::nat" L 23] by simp
    have "push_bit 1 (2 ^ L :: u32) = 2 ^ Suc L" by (simp add: push_bit_eq_mult)
    then have "round_size n = 2 ^ Suc L"
      unfolding round_size_def push_one Let_def L_def [symmetric]
      using limit [OF L1] \<open>2 ^ L < n\<close> by (simp only: if_True)
    with L1 b(2) lt show ?thesis by (intro exI [of _ "Suc L"]) simp
  qed
qed

text \<open>
  Creation: for any size of at most 8 MB the EEPROM is given the next power of two as its
  capacity, less than twice the size asked for.  A buffer of that capacity makes the device
  well-formed: its address mask is the capacity minus one and its address length matches, so no
  access leaves the buffer.
\<close>

theorem eeprom_init_well_formed:
  assumes "0 < n" and "n \<le> 8388608" and "length data = unat (round_size n)"
  shows "\<exists>k. eeprom_ok k (fst (i2c_eeprom_init i2c p a data n writable)) \<and>
    unat n \<le> 2 ^ k \<and> 2 ^ k < 2 * unat n"
proof -
  from round_size_spec [OF assms(1,2)] obtain k where
    k: "k \<le> 23" "round_size n = 2 ^ k" "unat n \<le> 2 ^ k" "2 ^ k < 2 * unat n" by blast
  have u: "unat (2 ^ k :: u32) = 2 ^ k" using k(1) by (simp add: unat_two_power)
  have "(2 ^ k :: u32) \<ge> 4096 \<longleftrightarrow> (2::nat) ^ k \<ge> 2 ^ 12" by (simp add: word_le_nat_alt u)
  also have "\<dots> \<longleftrightarrow> 12 \<le> k" by (simp only: power_increasing_iff)
  finally have "eeprom_ok k (fst (i2c_eeprom_init i2c p a data n writable))"
    using k assms(3) u by (simp add: eeprom_ok_def i2c_eeprom_init_def Let_def mask_eq_exp_minus_1)
  with k show ?thesis by blast
qed

theorem eeprom_init_well_formed_witness:
  "\<exists>k. eeprom_ok k (fst (i2c_eeprom_init None 0 0x50 (replicate 128 0) 100 0)) \<and>
    unat (100 :: u32) \<le> 2 ^ k \<and> 2 ^ k < 2 * unat (100 :: u32)"
proof -
  have "length (replicate 128 (0::u8)) = unat (round_size 100)" by code_simp
  then show ?thesis
    using eeprom_init_well_formed [of 100 "replicate 128 0" None 0 "0x50" 0] by simp
qed

end
