(* ===== verification/Nmc93cxx.thy ===== *)
theory Nmc93cxx
  imports Cell_Array "HOL-Library.Monad_Syntax"
begin

text \<open>
  The Microwire serial EEPROMs of \<open>mem/nmc93cxx.c\<close> (NMC93Cxx, 8 or 16 bits per cell).  The struct
  is a record; \<open>array_data\<close> is kept as the list of its bytes on a little-endian host, so that the
  image file, the default contents and the 8-bit organisation are views of the same list.  Geometry
  fields, which \<open>init\<close> sets from a table and nothing changes, are natural numbers.  An access
  outside \<open>array_data\<close> and a failed assertion give \<open>None\<close>.  Arming the completion timer is recorded in
  \<open>n_cmd_timer\<close>; its callback is a definition of its own.
\<close>

section \<open>Types\<close>

datatype nmc93cxx_eeprom_type =
    NMC_93C06_x16_16 | NMC_93C46_x16_64 | NMC_93C56_x16_128 | NMC_93C57_x16_128
  | NMC_93C66_x16_256 | NMC_93C76_x16_512 | NMC_93C86_x16_1024
  | NMC_93C46_x8_128 | NMC_93C56_x8_256 | NMC_93C57_x8_256
  | NMC_93C66_x8_512 | NMC_93C76_x8_1024 | NMC_93C86_x8_2048

datatype EepromCommand =
    COMMAND_INVALID | COMMAND_READ | COMMAND_WRITE | COMMAND_ERASE | COMMAND_LOCK
  | COMMAND_UNLOCK | COMMAND_WRITEALL | COMMAND_ERASEALL
  | COMMAND_COPY_EEPROM_TO_RAM | COMMAND_COPY_RAM_TO_EEPROM

datatype EepromState =
    STATE_IN_RESET | STATE_WAIT_FOR_START_BIT | STATE_WAIT_FOR_COMMAND
  | STATE_READING_DATA | STATE_WAIT_FOR_DATA | STATE_WAIT_FOR_COMPLETION

datatype EepromEvent =
    EVENT_CS_RISING_EDGE | EVENT_CS_FALLING_EDGE | EVENT_CLK_RISING_EDGE | EVENT_CLK_FALLING_EDGE

record nmc93cxx_eeprom_t =
  n_cmd_timer :: "nat option"
  n_write_tick :: u32
  n_cs_state :: bool
  n_clk_state :: bool
  n_di_state :: bool
  n_is_busy :: bool
  n_state :: EepromState
  n_command_address_accum :: u32
  n_address :: u32
  n_shift_register :: u32
  n_bits_accum :: u32
  n_command :: EepromCommand
  n_cells :: nat
  n_data_bits :: nat
  n_command_address_bits :: nat
  n_address_bits :: nat
  n_is_locked :: bool
  n_last_cs_rising_edge_tick :: u32
  n_array :: "u8 list"

definition WRITE_TIME_US :: nat where "WRITE_TIME_US = 1750"
definition WRITE_ALL_TIME_US :: nat where "WRITE_ALL_TIME_US = 8000"
definition ERASE_TIME_US :: nat where "ERASE_TIME_US = 1000"
definition ERASE_ALL_TIME_US :: nat where "ERASE_ALL_TIME_US = 8000"

section \<open>Completion timer\<close>

definition nmc93cxx_eeprom_set_state :: "EepromState \<Rightarrow> nmc93cxx_eeprom_t \<Rightarrow> nmc93cxx_eeprom_t" where
  "nmc93cxx_eeprom_set_state st dev = dev\<lparr>n_state := st\<rparr>"

definition nmc93cxx_eeprom_cmd_complete_timer_callback :: "nmc93cxx_eeprom_t \<Rightarrow> nmc93cxx_eeprom_t" where
  "nmc93cxx_eeprom_cmd_complete_timer_callback dev = dev\<lparr>n_is_busy := False, n_cmd_timer := None\<rparr>"

definition nmc93cxx_eeprom_start_cmd_timer :: "nat \<Rightarrow> nmc93cxx_eeprom_t \<Rightarrow> nmc93cxx_eeprom_t" where
  "nmc93cxx_eeprom_start_cmd_timer period dev = dev\<lparr>n_is_busy := True, n_cmd_timer := Some period\<rparr>"

section \<open>Creation and closing\<close>

text \<open>Cells, address bits of a command and bits per cell of each type.\<close>

fun geometry :: "nmc93cxx_eeprom_type \<Rightarrow> nat \<times> nat \<times> nat" where
  "geometry NMC_93C06_x16_16 = (16, 6, 16)"
| "geometry NMC_93C46_x16_64 = (64, 6, 16)"
| "geometry NMC_93C56_x16_128 = (128, 8, 16)"
| "geometry NMC_93C57_x16_128 = (128, 7, 16)"
| "geometry NMC_93C66_x16_256 = (256, 8, 16)"
| "geometry NMC_93C76_x16_512 = (512, 10, 16)"
| "geometry NMC_93C86_x16_1024 = (1024, 10, 16)"
| "geometry NMC_93C46_x8_128 = (128, 7, 8)"
| "geometry NMC_93C56_x8_256 = (256, 9, 8)"
| "geometry NMC_93C57_x8_256 = (256, 8, 8)"
| "geometry NMC_93C66_x8_512 = (512, 9, 8)"
| "geometry NMC_93C76_x8_1024 = (1024, 11, 8)"
| "geometry NMC_93C86_x8_2048 = (1024, 11, 8)"

fun count_bits :: "nat \<Rightarrow> nat" where
  "count_bits count = (if count = 0 then 0 else Suc (count_bits (count div 2)))"

declare count_bits.simps [simp del]

text \<open>Copying a block over the start of the array.\<close>

definition overlay :: "u8 list \<Rightarrow> u8 list \<Rightarrow> u8 list" where
  "overlay bs arr = bs @ drop (length bs) arr"

text \<open>
  \<open>file\<close> is the contents of the image file, \<open>None\<close> when it cannot be opened; \<open>content\<close> the
  default buffer, \<open>None\<close> for NULL.
\<close>

definition nmc93cxx_eeprom_init ::
  "nmc93cxx_eeprom_type \<Rightarrow> u8 list option \<Rightarrow> u8 list option \<Rightarrow> nmc93cxx_eeprom_t option" where
  "nmc93cxx_eeprom_init type file content =
    (let (cells, addrbits, data_bits) = geometry type;
         nwords = (if data_bits = 16 then cells else cells div 2);
         block = cells * (data_bits div 8);
         arr = replicate (2 * nwords) 0;
         (arr, fill_default) =
           (case file of
              None \<Rightarrow> (arr, True)
            | Some bs \<Rightarrow> (let bs = take block bs in (overlay bs arr, length bs div (data_bits div 8) = 0)))
     in do {
       arr \<leftarrow> (case (fill_default, content) of
           (True, Some c) \<Rightarrow> if length c < block then None else Some (overlay (take block c) arr)
         | _ \<Rightarrow> Some arr);
       Some \<lparr>n_cmd_timer = None, n_write_tick = 0, n_cs_state = False, n_clk_state = False,
         n_di_state = False, n_is_busy = False, n_state = STATE_IN_RESET,
         n_command_address_accum = 0, n_address = 0, n_shift_register = 0, n_bits_accum = 0,
         n_command = COMMAND_INVALID, n_cells = cells, n_data_bits = data_bits,
         n_command_address_bits = addrbits, n_address_bits = count_bits (cells - 1),
         n_is_locked = True, n_last_cs_rising_edge_tick = 0, n_array = arr\<rparr>
     })"

text \<open>The bytes that closing writes to the image file.\<close>

definition nmc93cxx_eeprom_close :: "nmc93cxx_eeprom_t \<Rightarrow> u8 list" where
  "nmc93cxx_eeprom_close dev = take (n_cells dev * (n_data_bits dev div 8)) (n_array dev)"

definition nmc93cxx_eeprom_data :: "nmc93cxx_eeprom_t \<Rightarrow> u8 list" where
  "nmc93cxx_eeprom_data dev = n_array dev"

section \<open>Cells\<close>

text \<open>A 16-bit cell is a little-endian pair of bytes.\<close>

definition get16 :: "u8 list \<Rightarrow> nat \<Rightarrow> u16" where
  "get16 arr c = ucast (arr ! (2 * c)) OR push_bit 8 (ucast (arr ! (2 * c + 1)))"

definition put16 :: "nat \<Rightarrow> u16 \<Rightarrow> u8 list \<Rightarrow> u8 list" where
  "put16 c v arr = arr[2 * c := ucast v, 2 * c + 1 := ucast (drop_bit 8 v)]"

definition nmc93cxx_eeprom_cell_read :: "nmc93cxx_eeprom_t \<Rightarrow> u32 \<Rightarrow> u32 option" where
  "nmc93cxx_eeprom_cell_read dev address =
    (if n_data_bits dev = 16
     then (if 2 * unat address + 1 < length (n_array dev)
           then Some (ucast (get16 (n_array dev) (unat address))) else None)
     else (if unat address < length (n_array dev)
           then Some (ucast (n_array dev ! unat address)) else None))"

definition nmc93cxx_eeprom_cell_write :: "u32 \<Rightarrow> u32 \<Rightarrow> nmc93cxx_eeprom_t \<Rightarrow> nmc93cxx_eeprom_t option" where
  "nmc93cxx_eeprom_cell_write address data dev =
    (if n_data_bits dev = 16
     then (if 2 * unat address + 1 < length (n_array dev)
           then Some (dev\<lparr>n_array := put16 (unat address) (ucast data) (n_array dev)\<rparr>) else None)
     else (if unat address < length (n_array dev)
           then Some (dev\<lparr>n_array := (n_array dev)[unat address := ucast data]\<rparr>) else None))"

section \<open>Programming commands\<close>

definition nmc93cxx_eeprom_handle_cmd_write :: "u32 \<Rightarrow> u32 \<Rightarrow> nmc93cxx_eeprom_t \<Rightarrow> nmc93cxx_eeprom_t option" where
  "nmc93cxx_eeprom_handle_cmd_write address data dev = do {
    dev \<leftarrow> nmc93cxx_eeprom_cell_write address data dev;
    Some (nmc93cxx_eeprom_start_cmd_timer WRITE_TIME_US dev)
  }"

text \<open>The loops of the two commands on the whole chip: \<open>n\<close> cells from \<open>address\<close>.\<close>

fun write_all_loop :: "u32 \<Rightarrow> nat \<Rightarrow> u32 \<Rightarrow> nmc93cxx_eeprom_t \<Rightarrow> nmc93cxx_eeprom_t option" where
  "write_all_loop address 0 data dev = Some dev"
| "write_all_loop address (Suc n) data dev = do {
    v \<leftarrow> nmc93cxx_eeprom_cell_read dev address;
    dev \<leftarrow> nmc93cxx_eeprom_cell_write address (v AND data) dev;
    write_all_loop (address + 1) n data dev
  }"

definition nmc93cxx_eeprom_handle_cmd_write_all :: "u32 \<Rightarrow> nmc93cxx_eeprom_t \<Rightarrow> nmc93cxx_eeprom_t option" where
  "nmc93cxx_eeprom_handle_cmd_write_all data dev = do {
    dev \<leftarrow> write_all_loop 0 (2 ^ n_address_bits dev) data dev;
    Some (nmc93cxx_eeprom_start_cmd_timer WRITE_ALL_TIME_US dev)
  }"

definition nmc93cxx_eeprom_handle_cmd_erase :: "u32 \<Rightarrow> nmc93cxx_eeprom_t \<Rightarrow> nmc93cxx_eeprom_t option" where
  "nmc93cxx_eeprom_handle_cmd_erase address dev = do {
    dev \<leftarrow> nmc93cxx_eeprom_cell_write address (NOT 0) dev;
    Some (nmc93cxx_eeprom_start_cmd_timer ERASE_TIME_US dev)
  }"

fun erase_all_loop :: "u32 \<Rightarrow> nat \<Rightarrow> nmc93cxx_eeprom_t \<Rightarrow> nmc93cxx_eeprom_t option" where
  "erase_all_loop address 0 dev = Some dev"
| "erase_all_loop address (Suc n) dev = do {
    dev \<leftarrow> nmc93cxx_eeprom_cell_write address (NOT 0) dev;
    erase_all_loop (address + 1) n dev
  }"

definition nmc93cxx_eeprom_handle_cmd_erase_all :: "nmc93cxx_eeprom_t \<Rightarrow> nmc93cxx_eeprom_t option" where
  "nmc93cxx_eeprom_handle_cmd_erase_all dev = do {
    dev \<leftarrow> erase_all_loop 0 (2 ^ n_address_bits dev) dev;
    Some (nmc93cxx_eeprom_start_cmd_timer ERASE_ALL_TIME_US dev)
  }"

section \<open>The command state machine\<close>

definition nmc93cxx_eeprom_parse_command_and_address :: "nmc93cxx_eeprom_t \<Rightarrow> nmc93cxx_eeprom_t" where
  "nmc93cxx_eeprom_parse_command_and_address dev =
    (let bits = n_command_address_bits dev;
         address = n_command_address_accum dev AND (push_bit bits 1 - 1);
         opcode = drop_bit bits (n_command_address_accum dev);
         sub = drop_bit (bits - 2) address
     in if opcode = 0 then
          dev\<lparr>n_command := (if sub = 0 then COMMAND_LOCK else if sub = 1 then COMMAND_WRITEALL
                else if sub = 2 then COMMAND_ERASEALL else if sub = 3 then COMMAND_UNLOCK
                else n_command dev),
              n_address := 0\<rparr>
        else dev\<lparr>n_command := (if opcode = 1 then COMMAND_WRITE else if opcode = 2 then COMMAND_READ
                   else if opcode = 3 then COMMAND_ERASE else COMMAND_INVALID),
                 n_address := address\<rparr>)"

definition nmc93cxx_eeprom_execute_command :: "nmc93cxx_eeprom_t \<Rightarrow> nmc93cxx_eeprom_t option" where
  "nmc93cxx_eeprom_execute_command dev =
    (let dev = (nmc93cxx_eeprom_parse_command_and_address dev)\<lparr>n_bits_accum := 0\<rparr>
     in case n_command dev of
          COMMAND_READ \<Rightarrow> Some (nmc93cxx_eeprom_set_state STATE_READING_DATA (dev\<lparr>n_shift_register := 0\<rparr>))
        | COMMAND_WRITE \<Rightarrow> Some (nmc93cxx_eeprom_set_state STATE_WAIT_FOR_DATA (dev\<lparr>n_shift_register := 0\<rparr>))
        | COMMAND_WRITEALL \<Rightarrow> Some (nmc93cxx_eeprom_set_state STATE_WAIT_FOR_DATA (dev\<lparr>n_shift_register := 0\<rparr>))
        | COMMAND_ERASE \<Rightarrow>
            if n_is_locked dev then Some (nmc93cxx_eeprom_set_state STATE_IN_RESET dev)
            else map_option (nmc93cxx_eeprom_set_state STATE_WAIT_FOR_COMPLETION)
              (nmc93cxx_eeprom_handle_cmd_erase (n_address dev) dev)
        | COMMAND_LOCK \<Rightarrow> Some (nmc93cxx_eeprom_set_state STATE_IN_RESET (dev\<lparr>n_is_locked := True\<rparr>))
        | COMMAND_UNLOCK \<Rightarrow> Some (nmc93cxx_eeprom_set_state STATE_IN_RESET (dev\<lparr>n_is_locked := False\<rparr>))
        | COMMAND_ERASEALL \<Rightarrow>
            if n_is_locked dev then Some (nmc93cxx_eeprom_set_state STATE_IN_RESET dev)
            else map_option (nmc93cxx_eeprom_set_state STATE_WAIT_FOR_COMPLETION)
              (nmc93cxx_eeprom_handle_cmd_erase_all dev)
        | _ \<Rightarrow> None)"

definition nmc93cxx_eeprom_execute_write_command :: "nmc93cxx_eeprom_t \<Rightarrow> nmc93cxx_eeprom_t option" where
  "nmc93cxx_eeprom_execute_write_command dev =
    (case n_command dev of
       COMMAND_WRITE \<Rightarrow>
         if n_is_locked dev then Some (nmc93cxx_eeprom_set_state STATE_IN_RESET dev)
         else map_option (nmc93cxx_eeprom_set_state STATE_WAIT_FOR_COMPLETION)
           (nmc93cxx_eeprom_handle_cmd_write (n_address dev) (n_shift_register dev) dev)
     | COMMAND_WRITEALL \<Rightarrow>
         if n_is_locked dev then Some (nmc93cxx_eeprom_set_state STATE_IN_RESET dev)
         else map_option (nmc93cxx_eeprom_set_state STATE_WAIT_FOR_COMPLETION)
           (nmc93cxx_eeprom_handle_cmd_write_all (n_shift_register dev) dev)
     | _ \<Rightarrow> None)"

text \<open>The branches of \<open>nmc93cxx_eeprom_handle_event\<close>, one per state with work to do.\<close>

definition event_start_bit :: "EepromEvent \<Rightarrow> nmc93cxx_eeprom_t \<Rightarrow> nmc93cxx_eeprom_t" where
  "event_start_bit event dev =
    (if event = EVENT_CLK_RISING_EDGE \<and> n_di_state dev \<and> \<not> n_is_busy dev \<and>
        n_write_tick dev \<noteq> n_last_cs_rising_edge_tick dev
     then nmc93cxx_eeprom_set_state STATE_WAIT_FOR_COMMAND (dev\<lparr>n_command_address_accum := 0, n_bits_accum := 0\<rparr>)
     else if event = EVENT_CS_FALLING_EDGE then nmc93cxx_eeprom_set_state STATE_IN_RESET dev
     else dev)"

definition di :: "nmc93cxx_eeprom_t \<Rightarrow> u32" where
  "di dev = (if n_di_state dev then 1 else 0)"

definition event_command :: "EepromEvent \<Rightarrow> nmc93cxx_eeprom_t \<Rightarrow> nmc93cxx_eeprom_t option" where
  "event_command event dev =
    (if event = EVENT_CLK_RISING_EDGE then
       (let dev = dev\<lparr>n_command_address_accum := push_bit 1 (n_command_address_accum dev) OR di dev,
              n_bits_accum := n_bits_accum dev + 1\<rparr>
        in if n_bits_accum dev = of_nat (2 + n_command_address_bits dev)
           then nmc93cxx_eeprom_execute_command dev else Some dev)
     else if event = EVENT_CS_FALLING_EDGE then Some (nmc93cxx_eeprom_set_state STATE_IN_RESET dev)
     else Some dev)"

definition event_reading :: "EepromEvent \<Rightarrow> nmc93cxx_eeprom_t \<Rightarrow> nmc93cxx_eeprom_t option" where
  "event_reading event dev =
    (if event = EVENT_CLK_RISING_EDGE then
       (let bit_index = n_bits_accum dev;
            dev = dev\<lparr>n_bits_accum := n_bits_accum dev + 1\<rparr>
        in if bit_index mod of_nat (n_data_bits dev) = 0 \<and> bit_index = 0 then do {
             let addr = (n_address dev + n_bits_accum dev div of_nat (n_data_bits dev)) AND
                   (push_bit (n_address_bits dev) 1 - 1);
             data \<leftarrow> nmc93cxx_eeprom_cell_read dev addr;
             Some (dev\<lparr>n_shift_register := push_bit (32 - n_data_bits dev) data\<rparr>)
           }
           else Some (dev\<lparr>n_shift_register := push_bit 1 (n_shift_register dev) OR 1\<rparr>))
     else if event = EVENT_CS_FALLING_EDGE then Some (nmc93cxx_eeprom_set_state STATE_IN_RESET dev)
     else Some dev)"

definition event_data :: "EepromEvent \<Rightarrow> nmc93cxx_eeprom_t \<Rightarrow> nmc93cxx_eeprom_t option" where
  "event_data event dev =
    (if event = EVENT_CLK_RISING_EDGE then
       (let dev = dev\<lparr>n_shift_register := push_bit 1 (n_shift_register dev) OR di dev,
              n_bits_accum := n_bits_accum dev + 1\<rparr>
        in if n_bits_accum dev = of_nat (n_data_bits dev)
           then nmc93cxx_eeprom_execute_write_command dev else Some dev)
     else if event = EVENT_CS_FALLING_EDGE then Some (nmc93cxx_eeprom_set_state STATE_IN_RESET dev)
     else Some dev)"

definition nmc93cxx_eeprom_handle_event :: "EepromEvent \<Rightarrow> nmc93cxx_eeprom_t \<Rightarrow> nmc93cxx_eeprom_t option" where
  "nmc93cxx_eeprom_handle_event event dev =
    (case n_state dev of
       STATE_IN_RESET \<Rightarrow>
         Some (if event = EVENT_CS_RISING_EDGE then nmc93cxx_eeprom_set_state STATE_WAIT_FOR_START_BIT dev else dev)
     | STATE_WAIT_FOR_START_BIT \<Rightarrow> Some (event_start_bit event dev)
     | STATE_WAIT_FOR_COMMAND \<Rightarrow> event_command event dev
     | STATE_READING_DATA \<Rightarrow> event_reading event dev
     | STATE_WAIT_FOR_DATA \<Rightarrow> event_data event dev
     | STATE_WAIT_FOR_COMPLETION \<Rightarrow>
         Some (if event = EVENT_CS_FALLING_EDGE then nmc93cxx_eeprom_set_state STATE_IN_RESET dev else dev))"

section \<open>The pins\<close>

definition nmc93cxx_eeprom_write :: "bool \<Rightarrow> bool \<Rightarrow> bool \<Rightarrow> nmc93cxx_eeprom_t \<Rightarrow> nmc93cxx_eeprom_t option" where
  "nmc93cxx_eeprom_write eecs eesk eedi dev = do {
    let dev = dev\<lparr>n_write_tick := n_write_tick dev + 1\<rparr>;
    dev \<leftarrow>
      (if n_cs_state dev \<noteq> eecs
       then (let dev = dev\<lparr>n_cs_state := eecs\<rparr>;
                 dev = (if eecs then dev\<lparr>n_last_cs_rising_edge_tick := n_write_tick dev\<rparr> else dev)
             in nmc93cxx_eeprom_handle_event (if eecs then EVENT_CS_RISING_EDGE else EVENT_CS_FALLING_EDGE) dev)
       else Some dev);
    let dev = dev\<lparr>n_di_state := eedi\<rparr>;
    (if n_clk_state dev \<noteq> eesk
     then nmc93cxx_eeprom_handle_event (if eesk then EVENT_CLK_RISING_EDGE else EVENT_CLK_FALLING_EDGE)
       (dev\<lparr>n_clk_state := eesk\<rparr>)
     else Some dev)
  }"

definition nmc93cxx_eeprom_read :: "nmc93cxx_eeprom_t \<Rightarrow> bool" where
  "nmc93cxx_eeprom_read dev =
    (if n_state dev = STATE_WAIT_FOR_START_BIT then \<not> n_is_busy dev
     else if n_state dev = STATE_READING_DATA then n_shift_register dev AND 0x80000000 \<noteq> 0
     else True)"

end
