(* ===== verification/Nmc93cxx_Correct.thy ===== *)
theory Nmc93cxx_Correct
  imports Nmc93cxx
begin

text \<open>
  Correctness of the Microwire EEPROM: the well-formedness every pin write keeps, protection of a
  locked chip, the access outside the array that some types allow, the image file round trip, and
  the protocol as a host drives it, clocking commands and data through the pins.
\<close>

section \<open>Geometry\<close>

text \<open>The 16-bit cells are a memory of numbered cells.\<close>

lemma word16_bytes: "ucast (ucast v :: u8) OR push_bit 8 (ucast (ucast (drop_bit 8 v) :: u8)) = (v :: u16)"
  by (rule bit_word_eqI) (auto simp: bit_simps not_le)

interpretation cells16: cell_array get16 put16 "\<lambda>v. v" "\<lambda>arr. length arr = 2 * n" n for n
proof unfold_locales
  fix m :: "u8 list" and c d v
  assume "length m = 2 * n" and "c < n" and "d < n"
  then have "2 * c + 1 < length m" and "2 * d + 1 < length m" by simp_all
  moreover have "2 * d = Suc (2 * c) \<longleftrightarrow> False" "Suc (2 * d) = 2 * c \<longleftrightarrow> False" by presburger+
  ultimately show "get16 (put16 c v m) d = (if d = c then v else get16 m d)"
    by (auto simp: get16_def put16_def nth_list_update word16_bytes)
qed (simp add: put16_def)

definition geo_ok :: "nmc93cxx_eeprom_t \<Rightarrow> bool" where
  "geo_ok dev \<longleftrightarrow> n_cells dev = 2 ^ n_address_bits dev \<and> n_data_bits dev \<in> {8, 16} \<and>
    n_address_bits dev \<le> n_command_address_bits dev \<and> 4 \<le> n_address_bits dev \<and>
    6 \<le> n_command_address_bits dev \<and> n_command_address_bits dev \<le> 11 \<and>
    length (n_array dev) = n_cells dev * (n_data_bits dev div 8)"

lemma count_bits_values:
  "count_bits 15 = 4" "count_bits 63 = 6" "count_bits 127 = 7" "count_bits 255 = 8"
  "count_bits 511 = 9" "count_bits 1023 = 10"
  by (simp_all add: count_bits.simps)

lemma length_overlay [simp]: "length bs \<le> length arr \<Longrightarrow> length (overlay bs arr) = length arr"
  by (simp add: overlay_def)

lemma geometry_facts:
  "geometry t = (cells, cab, db) \<Longrightarrow> \<exists>k. count_bits (cells - 1) = k \<and> cells = 2 ^ k \<and> cells = 2 * (cells div 2) \<and>
    0 < cells \<and> (db = 8 \<or> db = 16) \<and> k \<le> cab \<and> 4 \<le> k \<and> 6 \<le> cab \<and> cab \<le> 11"
  by (cases t) (auto simp: count_bits_values)

text \<open>The block that \<open>init\<close> reads, copies and \<open>close\<close> writes is the whole array.\<close>

lemma init_array:
  assumes "nmc93cxx_eeprom_init t f c = Some dev" and "geometry t = (cells, cab, db)"
  shows "n_cells dev = cells" and "n_command_address_bits dev = cab" and "n_data_bits dev = db"
    and "n_address_bits dev = count_bits (cells - 1)" and "length (n_array dev) = cells * (db div 8)"
proof -
  from geometry_facts [OF assms(2)] have "2 * (if db = 16 then cells else cells div 2) = cells * (db div 8)"
    by auto
  with assms show "length (n_array dev) = cells * (db div 8)"
    by (auto simp: nmc93cxx_eeprom_init_def Let_def split: if_splits bind_splits option.splits bool.splits)
qed (use assms in \<open>auto simp: nmc93cxx_eeprom_init_def Let_def split: if_splits bind_splits option.splits bool.splits\<close>)

lemma init_geo_ok: "nmc93cxx_eeprom_init t f c = Some dev \<Longrightarrow> geo_ok dev"
proof -
  assume init: "nmc93cxx_eeprom_init t f c = Some dev"
  obtain cells cab db where g: "geometry t = (cells, cab, db)" by (cases "geometry t")
  from geometry_facts [OF g] show "geo_ok dev"
    unfolding geo_ok_def init_array [OF init g] by auto
qed

section \<open>The cells of a device\<close>

definition cell :: "nmc93cxx_eeprom_t \<Rightarrow> nat \<Rightarrow> u32" where
  "cell dev c = (if n_data_bits dev = 16 then ucast (get16 (n_array dev) c) else ucast (n_array dev ! c))"

definition set_cell :: "nat \<Rightarrow> u32 \<Rightarrow> nmc93cxx_eeprom_t \<Rightarrow> nmc93cxx_eeprom_t" where
  "set_cell c v dev =
    dev\<lparr>n_array := (if n_data_bits dev = 16 then put16 c (ucast v) (n_array dev) else (n_array dev)[c := ucast v])\<rparr>"

definition shaped :: "nat \<Rightarrow> nat \<Rightarrow> nmc93cxx_eeprom_t \<Rightarrow> bool" where
  "shaped n db dev \<longleftrightarrow> n_data_bits dev = db \<and> db \<in> {8, 16} \<and> length (n_array dev) = n * (db div 8)"

lemma ucast_ucast: "ucast (ucast v :: u16) = take_bit 16 v" "ucast (ucast v :: u8) = take_bit 8 v" for v :: u32
  by (rule bit_word_eqI, auto simp: bit_simps)+

interpretation nmc_cells: cell_array cell set_cell "take_bit db" "shaped n db" n for n db
proof unfold_locales
  fix m c d v
  assume m: "shaped n db m" and c: "c < n" and d: "d < n"
  show "cell (set_cell c v m) d = (if d = c then take_bit db v else cell m d)"
  proof (cases "db = 16")
    case True
    then have "length (n_array m) = 2 * n" using m by (simp add: shaped_def)
    with cells16.get_put [OF this c d] m True show ?thesis
      by (simp add: cell_def set_cell_def shaped_def ucast_ucast)
  next
    case False
    with m c d show ?thesis
      by (auto simp: cell_def set_cell_def shaped_def ucast_ucast nth_list_update)
  qed
qed (auto simp: shaped_def set_cell_def put16_def)

lemma cell_access:
  assumes "shaped n db dev" and "unat a < n"
  shows "nmc93cxx_eeprom_cell_read dev a = Some (cell dev (unat a))"
    and "nmc93cxx_eeprom_cell_write a v dev = Some (set_cell (unat a) v dev)"
  using assms
  by (auto simp: nmc93cxx_eeprom_cell_read_def nmc93cxx_eeprom_cell_write_def cell_def set_cell_def shaped_def)

lemma cell_outside:
  assumes "shaped n db dev" and "n \<le> unat a"
  shows "nmc93cxx_eeprom_cell_write a v dev = None"
  using assms by (auto simp: nmc93cxx_eeprom_cell_write_def shaped_def)

lemma set_cell_shaped [simp]: "shaped n db (set_cell c v dev) \<longleftrightarrow> shaped n db dev"
  by (auto simp: shaped_def set_cell_def put16_def)

text \<open>The loops over the whole chip.\<close>

lemma write_all_loop_effect:
  assumes "shaped n db dev" and "unat a + k \<le> n" and "n < 2 ^ 32"
  shows "write_all_loop a k data dev = Some (update_from cell set_cell (\<lambda>v. v AND data) (unat a) k dev)"
  using assms(1,2)
proof (induction k arbitrary: a dev)
  case (Suc k)
  have "unat (a + 1) = Suc (unat a)"
    using Suc.prems(2) assms(3) by (simp add: unat_add_lem [where ?'a = 32, THEN iffD1])
  with Suc cell_access [OF Suc.prems(1), of a] show ?case by simp
qed simp

lemma erase_all_loop_effect:
  assumes "shaped n db dev" and "unat a + k \<le> n" and "n < 2 ^ 32"
  shows "erase_all_loop a k dev = Some (update_from cell set_cell (\<lambda>v. NOT 0) (unat a) k dev)"
  using assms(1,2)
proof (induction k arbitrary: a dev)
  case (Suc k)
  have "unat (a + 1) = Suc (unat a)"
    using Suc.prems(2) assms(3) by (simp add: unat_add_lem [where ?'a = 32, THEN iffD1])
  with Suc cell_access [OF Suc.prems(1), of a] show ?case by simp
qed simp

section \<open>A locked chip\<close>

text \<open>What can happen to a chip: a write to its pins, or the expiry of its completion timer.\<close>

datatype nmc_input = Pins bool bool bool | Expire

fun nmc_step :: "nmc_input \<Rightarrow> nmc93cxx_eeprom_t \<Rightarrow> nmc93cxx_eeprom_t option" where
  "nmc_step (Pins cs sk d) dev = nmc93cxx_eeprom_write cs sk d dev"
| "nmc_step Expire dev = Some (nmc93cxx_eeprom_cmd_complete_timer_callback dev)"

fun nmc_run :: "nmc_input list \<Rightarrow> nmc93cxx_eeprom_t \<Rightarrow> nmc93cxx_eeprom_t option" where
  "nmc_run [] dev = Some dev"
| "nmc_run (p # ps) dev = do { dev \<leftarrow> nmc_step p dev; nmc_run ps dev }"

lemmas nmc_event_defs = nmc93cxx_eeprom_handle_event_def event_start_bit_def event_command_def
  event_reading_def event_data_def nmc93cxx_eeprom_set_state_def Let_def

text \<open>The two halves of a pin write: the CS edge, then DI and the CLK edge.\<close>

definition cs_phase :: "bool \<Rightarrow> nmc93cxx_eeprom_t \<Rightarrow> nmc93cxx_eeprom_t option" where
  "cs_phase cs dev =
    (if n_cs_state dev \<noteq> cs
     then nmc93cxx_eeprom_handle_event (if cs then EVENT_CS_RISING_EDGE else EVENT_CS_FALLING_EDGE)
       (if cs then dev\<lparr>n_cs_state := cs, n_last_cs_rising_edge_tick := n_write_tick dev\<rparr>
        else dev\<lparr>n_cs_state := cs\<rparr>)
     else Some dev)"

definition clk_phase :: "bool \<Rightarrow> bool \<Rightarrow> nmc93cxx_eeprom_t \<Rightarrow> nmc93cxx_eeprom_t option" where
  "clk_phase sk b dev =
    (if n_clk_state dev \<noteq> sk
     then nmc93cxx_eeprom_handle_event (if sk then EVENT_CLK_RISING_EDGE else EVENT_CLK_FALLING_EDGE)
       (dev\<lparr>n_di_state := b, n_clk_state := sk\<rparr>)
     else Some (dev\<lparr>n_di_state := b\<rparr>))"

lemma write_phases:
  "nmc93cxx_eeprom_write cs sk b dev = cs_phase cs (dev\<lparr>n_write_tick := n_write_tick dev + 1\<rparr>) \<bind> clk_phase sk b"
  by (cases cs) (simp_all add: nmc93cxx_eeprom_write_def cs_phase_def clk_phase_def [abs_def] Let_def)

lemma cs_event_keeps:
  assumes "nmc93cxx_eeprom_handle_event e dev = Some d" and "e \<in> {EVENT_CS_RISING_EDGE, EVENT_CS_FALLING_EDGE}"
  shows "n_array d = n_array dev \<and> n_is_locked d = n_is_locked dev"
  using assms by (auto simp: nmc_event_defs split: EepromState.splits if_splits)

lemma parse_keeps [simp]:
  "n_array (nmc93cxx_eeprom_parse_command_and_address dev) = n_array dev"
  "n_is_locked (nmc93cxx_eeprom_parse_command_and_address dev) = n_is_locked dev"
  "n_data_bits (nmc93cxx_eeprom_parse_command_and_address dev) = n_data_bits dev"
  "n_cells (nmc93cxx_eeprom_parse_command_and_address dev) = n_cells dev"
  "n_address_bits (nmc93cxx_eeprom_parse_command_and_address dev) = n_address_bits dev"
  "n_command_address_bits (nmc93cxx_eeprom_parse_command_and_address dev) = n_command_address_bits dev"
  by (simp_all add: nmc93cxx_eeprom_parse_command_and_address_def Let_def)

lemma locked_commands_keep:
  assumes "n_is_locked dev"
  shows "nmc93cxx_eeprom_execute_command dev = Some d \<Longrightarrow> n_array d = n_array dev"
    and "nmc93cxx_eeprom_execute_write_command dev = Some d \<Longrightarrow> n_array d = n_array dev"
  using assms
  by (auto simp: nmc93cxx_eeprom_execute_command_def nmc93cxx_eeprom_execute_write_command_def
      nmc93cxx_eeprom_set_state_def Let_def split: EepromCommand.splits if_splits)

lemma locked_event_keeps:
  assumes "n_is_locked dev" and "nmc93cxx_eeprom_handle_event e dev = Some d"
  shows "n_array d = n_array dev"
proof (cases "n_state dev")
  case STATE_WAIT_FOR_COMMAND
  with assms show ?thesis
    by (auto simp: nmc_event_defs dest!: locked_commands_keep(1) [rotated] split: if_splits)
next
  case STATE_WAIT_FOR_DATA
  with assms show ?thesis
    by (auto simp: nmc_event_defs dest!: locked_commands_keep(2) [rotated] split: if_splits)
qed (use assms in \<open>auto simp: nmc_event_defs split: if_splits bind_splits\<close>)

lemma locked_write_keeps:
  assumes "n_is_locked dev" and "nmc93cxx_eeprom_write cs sk b dev = Some d"
  shows "n_array d = n_array dev"
proof -
  obtain m where m: "cs_phase cs (dev\<lparr>n_write_tick := n_write_tick dev + 1\<rparr>) = Some m"
    "clk_phase sk b m = Some d"
    using assms(2) by (auto simp: write_phases split: bind_splits)
  from m(1) assms(1) have "n_array m = n_array dev" and "n_is_locked m"
    by (auto simp: cs_phase_def dest!: cs_event_keeps split: if_splits)
  with m(2) show ?thesis
    by (auto simp: clk_phase_def dest!: locked_event_keeps [rotated] split: if_splits)
qed

lemma locked_step_keeps: "n_is_locked dev \<Longrightarrow> nmc_step p dev = Some d \<Longrightarrow> n_array d = n_array dev"
  by (cases p) (auto simp: locked_write_keeps nmc93cxx_eeprom_cmd_complete_timer_callback_def)

text \<open>
  C33. Write protection: in any sequence of pin writes and timer expiries whatsoever, the contents of
  the chip can only change after the chip has been unlocked; while it is locked no write,
  write-all, erase or erase-all command alters a byte.
\<close>

theorem nmc_locked_contents:
  assumes "nmc_run ps dev = Some d" and "n_array d \<noteq> n_array dev"
  shows "\<exists>k < length ps. \<exists>m. nmc_run (take k ps) dev = Some m \<and> \<not> n_is_locked m"
  using assms
proof (induction ps arbitrary: dev)
  case (Cons p ps)
  then obtain m where m: "nmc_step p dev = Some m" "nmc_run ps m = Some d"
    by (auto split: bind_splits)
  show ?case
  proof (cases "n_is_locked dev")
    case True
    with locked_step_keeps m Cons.prems have "n_array d \<noteq> n_array m" by metis
    from Cons.IH [OF m(2) this] obtain k z where "k < length ps" and
      "nmc_run (take k ps) m = Some z" and "\<not> n_is_locked z" by blast
    with m show ?thesis by (intro exI [of _ "Suc k"]) simp
  next
    case False
    then show ?thesis by (intro exI [of _ 0]) simp
  qed
qed simp

text \<open>A blank 93C06, and the same chip unlocked with one bit of a write command to come.\<close>

definition blank :: nmc93cxx_eeprom_t where
  "blank = the (nmc93cxx_eeprom_init NMC_93C06_x16_16 None None)"

definition one_bit_left :: nmc93cxx_eeprom_t where
  "one_bit_left = blank\<lparr>n_cs_state := True, n_is_locked := False, n_state := STATE_WAIT_FOR_DATA,
    n_command := COMMAND_WRITE, n_address := 3, n_bits_accum := 15\<rparr>"

theorem nmc_locked_contents_witness:
  "\<exists>d. nmc_run [Pins True True True] one_bit_left = Some d \<and> n_array d \<noteq> n_array one_bit_left \<and>
    (\<exists>k < length [Pins True True True]. \<exists>m. nmc_run (take k [Pins True True True]) one_bit_left = Some m \<and>
      \<not> n_is_locked m)"
proof -
  let ?d = "the (nmc_run [Pins True True True] one_bit_left)"
  have "nmc_run [Pins True True True] one_bit_left \<noteq> None" by code_simp
  then have d: "nmc_run [Pins True True True] one_bit_left = Some ?d" by simp
  have ne: "n_array ?d \<noteq> n_array one_bit_left" by code_simp
  from nmc_locked_contents [OF d ne] d ne show ?thesis by blast
qed

section \<open>No fault on a full address space\<close>

lemma shift_di: "push_bit 1 x OR di dev = 2 * x + di dev"
proof -
  have "push_bit 1 x AND di dev = 0"
    by (rule bit_word_eqI) (auto simp: di_def bit_simps bit_1_iff simp del: push_bit_Suc)
  then have "push_bit 1 x + di dev = push_bit 1 x OR di dev" by (rule disjunctive_add_eq_or)
  then show ?thesis by (simp add: push_bit_eq_mult mult.commute)
qed

lemma unat_shift_di:
  assumes "unat x < 2 ^ k" and "k < 31"
  shows "unat (push_bit 1 x OR di dev) < 2 ^ Suc k"
proof -
  have "(2::nat) ^ k \<le> 2 ^ 30" using assms(2) by (intro power_increasing) simp_all
  with assms(1) have x: "unat x < 2 ^ 30" by linarith
  then have "unat (2 * x) = 2 * unat x" by (simp add: unat_mult_lem [where ?'a = 32, THEN iffD1])
  moreover have "unat (di dev) \<le> 1" by (simp add: di_def)
  ultimately have "unat (2 * x + di dev) = 2 * unat x + unat (di dev)"
    using x by (simp add: unat_add_lem [where ?'a = 32, THEN iffD1])
  with \<open>unat (di dev) \<le> 1\<close> assms(1) show ?thesis by (simp add: shift_di del: One_nat_def)
qed

definition nmc_inv :: "nmc93cxx_eeprom_t \<Rightarrow> bool" where
  "nmc_inv dev \<longleftrightarrow> geo_ok dev \<and> unat (n_address dev) < 2 ^ n_command_address_bits dev \<and>
    (n_state dev = STATE_WAIT_FOR_COMMAND \<longrightarrow>
      unat (n_bits_accum dev) < 2 + n_command_address_bits dev \<and>
      unat (n_command_address_accum dev) < 2 ^ unat (n_bits_accum dev)) \<and>
    (n_state dev = STATE_WAIT_FOR_DATA \<longrightarrow>
      n_command dev \<in> {COMMAND_WRITE, COMMAND_WRITEALL} \<and> unat (n_bits_accum dev) < n_data_bits dev)"

definition square :: "nmc93cxx_eeprom_t \<Rightarrow> bool" where
  "square dev \<longleftrightarrow> n_command_address_bits dev = n_address_bits dev"

lemma geo_shaped: "geo_ok dev \<Longrightarrow> shaped (n_cells dev) (n_data_bits dev) dev"
  and geo_cells: "geo_ok dev \<Longrightarrow> n_cells dev < 2 ^ 32"
proof -
  assume g: "geo_ok dev"
  then show "shaped (n_cells dev) (n_data_bits dev) dev" by (simp add: geo_ok_def shaped_def)
  from g have "(2::nat) ^ n_address_bits dev \<le> 2 ^ 11" by (intro power_increasing) (simp_all add: geo_ok_def)
  with g show "n_cells dev < 2 ^ 32" by (simp add: geo_ok_def)
qed

lemma push_mask32: "push_bit n 1 - 1 = (mask n :: u32)"
  by (simp add: mask_eq_exp_minus_1 push_bit_of_1)

lemma unat_and_mask: "unat (x AND mask n) < 2 ^ n" for x :: u32
proof -
  have "unat (take_bit n x) = take_bit n (unat x)" by (rule unsigned_take_bit_eq)
  then show ?thesis by (simp add: take_bit_eq_mask [symmetric])
qed

lemma unat_drop: "unat (drop_bit n x) = unat x div 2 ^ n" for x :: u32
proof -
  have "unat (drop_bit n x) = drop_bit n (take_bit 32 (unat x))"
    using unsigned_drop_bit_eq [of n x, where ?'a = nat] by simp
  also have "take_bit 32 (unat x) = unat x" 
    using unsigned_less [of x, where ?'a = nat] by (simp add: take_bit_nat_eq_self_iff)
  finally show ?thesis by (simp add: drop_bit_eq_div)
qed

lemma parse_spec:
  assumes "unat (n_command_address_accum dev) < 2 ^ (2 + n_command_address_bits dev)" and "2 \<le> n_command_address_bits dev"
  shows "unat (n_address (nmc93cxx_eeprom_parse_command_and_address dev)) < 2 ^ n_command_address_bits dev"
    and "n_command (nmc93cxx_eeprom_parse_command_and_address dev) \<in> {COMMAND_READ, COMMAND_WRITE,
      COMMAND_WRITEALL, COMMAND_ERASE, COMMAND_LOCK, COMMAND_UNLOCK, COMMAND_ERASEALL}"
proof -
  let ?b = "n_command_address_bits dev" and ?acc = "n_command_address_accum dev"
  have "unat (drop_bit ?b ?acc) < 4"
    using assms(1) by (simp add: unat_drop power_add less_mult_imp_div_less mult.commute)
  then have op: "unat (drop_bit ?b ?acc) = 0 \<or> unat (drop_bit ?b ?acc) = 1 \<or> unat (drop_bit ?b ?acc) = 2 \<or>
      unat (drop_bit ?b ?acc) = 3" by arith
  have lt: "unat (?acc AND mask ?b) < 2 ^ ?b" by (rule unat_and_mask)
  have "(2::nat) ^ ?b = 4 * 2 ^ (?b - 2)"
    using assms(2) by (metis power_add le_add_diff_inverse power2_eq_square mult_2_right numeral_Bit0 mult_numeral_1_right)
  with lt have "unat (drop_bit (?b - 2) (?acc AND mask ?b)) < 4"
    unfolding unat_drop by (simp add: less_mult_imp_div_less)
  then have sub: "unat (drop_bit (?b - 2) (?acc AND mask ?b)) = 0 \<or> unat (drop_bit (?b - 2) (?acc AND mask ?b)) = 1 \<or>
      unat (drop_bit (?b - 2) (?acc AND mask ?b)) = 2 \<or> unat (drop_bit (?b - 2) (?acc AND mask ?b)) = 3" by arith
  show "unat (n_address (nmc93cxx_eeprom_parse_command_and_address dev)) < 2 ^ ?b"
    using lt by (simp add: nmc93cxx_eeprom_parse_command_and_address_def Let_def push_mask32 del: push_bit_of_1)
  show "n_command (nmc93cxx_eeprom_parse_command_and_address dev) \<in> {COMMAND_READ, COMMAND_WRITE,
      COMMAND_WRITEALL, COMMAND_ERASE, COMMAND_LOCK, COMMAND_UNLOCK, COMMAND_ERASEALL}"
    using op sub
    by (auto simp: nmc93cxx_eeprom_parse_command_and_address_def Let_def push_mask32 word_unat_eq_iff
        simp del: push_bit_of_1)
qed

lemma set_cell_fields [simp]:
  "geo_ok (set_cell c v dev) \<longleftrightarrow> geo_ok dev" "n_state (set_cell c v dev) = n_state dev"
  "n_address (set_cell c v dev) = n_address dev" "n_cells (set_cell c v dev) = n_cells dev"
  "n_data_bits (set_cell c v dev) = n_data_bits dev" "n_address_bits (set_cell c v dev) = n_address_bits dev"
  "n_command_address_bits (set_cell c v dev) = n_command_address_bits dev"
  by (simp_all add: geo_ok_def set_cell_def put16_def)

lemma update_from_fields:
  "geo_ok (update_from cell set_cell f c k dev) \<longleftrightarrow> geo_ok dev"
  "n_state (update_from cell set_cell f c k dev) = n_state dev"
  "n_address (update_from cell set_cell f c k dev) = n_address dev"
  "n_command_address_bits (update_from cell set_cell f c k dev) = n_command_address_bits dev"
  "n_address_bits (update_from cell set_cell f c k dev) = n_address_bits dev"
  by (induction k arbitrary: c dev) simp_all

text \<open>A programming command is finished: the chip is busy and waits for CS to fall.\<close>

definition programmed :: "nmc93cxx_eeprom_t \<Rightarrow> nat \<Rightarrow> nmc93cxx_eeprom_t" where
  "programmed dev period =
    nmc93cxx_eeprom_set_state STATE_WAIT_FOR_COMPLETION (nmc93cxx_eeprom_start_cmd_timer period dev)"

lemma handle_cmds:
  assumes "geo_ok dev"
  shows "unat a < n_cells dev \<Longrightarrow> map_option (nmc93cxx_eeprom_set_state STATE_WAIT_FOR_COMPLETION)
      (nmc93cxx_eeprom_handle_cmd_write a v dev) = Some (programmed (set_cell (unat a) v dev) WRITE_TIME_US)"
    and "unat a < n_cells dev \<Longrightarrow> map_option (nmc93cxx_eeprom_set_state STATE_WAIT_FOR_COMPLETION)
      (nmc93cxx_eeprom_handle_cmd_erase a dev) = Some (programmed (set_cell (unat a) (NOT 0) dev) ERASE_TIME_US)"
    and "map_option (nmc93cxx_eeprom_set_state STATE_WAIT_FOR_COMPLETION) (nmc93cxx_eeprom_handle_cmd_write_all v dev) =
      Some (programmed (update_from cell set_cell (\<lambda>x. x AND v) 0 (n_cells dev) dev) WRITE_ALL_TIME_US)"
    and "map_option (nmc93cxx_eeprom_set_state STATE_WAIT_FOR_COMPLETION) (nmc93cxx_eeprom_handle_cmd_erase_all dev) =
      Some (programmed (update_from cell set_cell (\<lambda>x. NOT 0) 0 (n_cells dev) dev) ERASE_ALL_TIME_US)"
proof -
  note sh = geo_shaped [OF assms]
  have n: "2 ^ n_address_bits dev = n_cells dev" using assms by (simp add: geo_ok_def)
  show "unat a < n_cells dev \<Longrightarrow> map_option (nmc93cxx_eeprom_set_state STATE_WAIT_FOR_COMPLETION)
      (nmc93cxx_eeprom_handle_cmd_write a v dev) = Some (programmed (set_cell (unat a) v dev) WRITE_TIME_US)"
    by (simp add: nmc93cxx_eeprom_handle_cmd_write_def cell_access [OF sh] programmed_def)
  show "unat a < n_cells dev \<Longrightarrow> map_option (nmc93cxx_eeprom_set_state STATE_WAIT_FOR_COMPLETION)
      (nmc93cxx_eeprom_handle_cmd_erase a dev) = Some (programmed (set_cell (unat a) (NOT 0) dev) ERASE_TIME_US)"
    by (simp add: nmc93cxx_eeprom_handle_cmd_erase_def cell_access [OF sh] programmed_def)
  show "map_option (nmc93cxx_eeprom_set_state STATE_WAIT_FOR_COMPLETION) (nmc93cxx_eeprom_handle_cmd_write_all v dev) =
      Some (programmed (update_from cell set_cell (\<lambda>x. x AND v) 0 (n_cells dev) dev) WRITE_ALL_TIME_US)"
    using write_all_loop_effect [OF sh, of 0 "n_cells dev"] geo_cells [OF assms]
    by (simp add: nmc93cxx_eeprom_handle_cmd_write_all_def n programmed_def)
  show "map_option (nmc93cxx_eeprom_set_state STATE_WAIT_FOR_COMPLETION) (nmc93cxx_eeprom_handle_cmd_erase_all dev) =
      Some (programmed (update_from cell set_cell (\<lambda>x. NOT 0) 0 (n_cells dev) dev) ERASE_ALL_TIME_US)"
    using erase_all_loop_effect [OF sh, of 0 "n_cells dev"] geo_cells [OF assms]
    by (simp add: nmc93cxx_eeprom_handle_cmd_erase_all_def n programmed_def)
qed

lemma programmed_inv:
  "geo_ok dev \<Longrightarrow> unat (n_address dev) < 2 ^ n_command_address_bits dev \<Longrightarrow> nmc_inv (programmed dev period)"
  "square (programmed dev period) \<longleftrightarrow> square dev"
  by (simp_all add: nmc_inv_def programmed_def square_def nmc93cxx_eeprom_set_state_def
      nmc93cxx_eeprom_start_cmd_timer_def geo_ok_def)

lemma geo_ok_update [simp]:
  "geo_ok (dev\<lparr>n_cmd_timer := x0\<rparr>) \<longleftrightarrow> geo_ok dev"
  "geo_ok (dev\<lparr>n_write_tick := x1\<rparr>) \<longleftrightarrow> geo_ok dev"
  "geo_ok (dev\<lparr>n_cs_state := x2\<rparr>) \<longleftrightarrow> geo_ok dev"
  "geo_ok (dev\<lparr>n_clk_state := x3\<rparr>) \<longleftrightarrow> geo_ok dev"
  "geo_ok (dev\<lparr>n_di_state := x4\<rparr>) \<longleftrightarrow> geo_ok dev"
  "geo_ok (dev\<lparr>n_is_busy := x5\<rparr>) \<longleftrightarrow> geo_ok dev"
  "geo_ok (dev\<lparr>n_state := x6\<rparr>) \<longleftrightarrow> geo_ok dev"
  "geo_ok (dev\<lparr>n_command_address_accum := x7\<rparr>) \<longleftrightarrow> geo_ok dev"
  "geo_ok (dev\<lparr>n_address := x8\<rparr>) \<longleftrightarrow> geo_ok dev"
  "geo_ok (dev\<lparr>n_shift_register := x9\<rparr>) \<longleftrightarrow> geo_ok dev"
  "geo_ok (dev\<lparr>n_bits_accum := x10\<rparr>) \<longleftrightarrow> geo_ok dev"
  "geo_ok (dev\<lparr>n_command := x11\<rparr>) \<longleftrightarrow> geo_ok dev"
  "geo_ok (dev\<lparr>n_is_locked := x12\<rparr>) \<longleftrightarrow> geo_ok dev"
  "geo_ok (dev\<lparr>n_last_cs_rising_edge_tick := x13\<rparr>) \<longleftrightarrow> geo_ok dev"
  by (simp_all add: geo_ok_def)

lemma square_update [simp]:
  "square (dev\<lparr>n_cmd_timer := x0\<rparr>) \<longleftrightarrow> square dev"
  "square (dev\<lparr>n_write_tick := x1\<rparr>) \<longleftrightarrow> square dev"
  "square (dev\<lparr>n_cs_state := x2\<rparr>) \<longleftrightarrow> square dev"
  "square (dev\<lparr>n_clk_state := x3\<rparr>) \<longleftrightarrow> square dev"
  "square (dev\<lparr>n_di_state := x4\<rparr>) \<longleftrightarrow> square dev"
  "square (dev\<lparr>n_is_busy := x5\<rparr>) \<longleftrightarrow> square dev"
  "square (dev\<lparr>n_state := x6\<rparr>) \<longleftrightarrow> square dev"
  "square (dev\<lparr>n_command_address_accum := x7\<rparr>) \<longleftrightarrow> square dev"
  "square (dev\<lparr>n_address := x8\<rparr>) \<longleftrightarrow> square dev"
  "square (dev\<lparr>n_shift_register := x9\<rparr>) \<longleftrightarrow> square dev"
  "square (dev\<lparr>n_bits_accum := x10\<rparr>) \<longleftrightarrow> square dev"
  "square (dev\<lparr>n_command := x11\<rparr>) \<longleftrightarrow> square dev"
  "square (dev\<lparr>n_is_locked := x12\<rparr>) \<longleftrightarrow> square dev"
  "square (dev\<lparr>n_last_cs_rising_edge_tick := x13\<rparr>) \<longleftrightarrow> square dev"
  by (simp_all add: square_def)

lemma geo_square: "geo_ok dev \<Longrightarrow> square dev \<Longrightarrow> 2 ^ n_command_address_bits dev = n_cells dev"
  by (simp add: geo_ok_def square_def)

lemma square_set [simp]: "square (set_cell c v dev) \<longleftrightarrow> square dev"
  "square (update_from cell set_cell f c k dev) \<longleftrightarrow> square dev"
  by (simp_all add: square_def update_from_fields)

lemma nmc_inv_state:
  "st \<notin> {STATE_WAIT_FOR_COMMAND, STATE_WAIT_FOR_DATA} \<Longrightarrow>
    nmc_inv (dev\<lparr>n_state := st\<rparr>) \<longleftrightarrow> geo_ok dev \<and> unat (n_address dev) < 2 ^ n_command_address_bits dev"
  "nmc_inv (dev\<lparr>n_state := STATE_WAIT_FOR_DATA\<rparr>) \<longleftrightarrow>
    geo_ok dev \<and> unat (n_address dev) < 2 ^ n_command_address_bits dev \<and>
    n_command dev \<in> {COMMAND_WRITE, COMMAND_WRITEALL} \<and> unat (n_bits_accum dev) < n_data_bits dev"
  by (auto simp: nmc_inv_def)

lemma execute_command_inv:
  assumes "geo_ok dev" and "square dev" and "unat (n_command_address_accum dev) < 2 ^ (2 + n_command_address_bits dev)"
  shows "\<exists>d. nmc93cxx_eeprom_execute_command dev = Some d \<and> nmc_inv d \<and> square d"
proof -
  let ?p = "(nmc93cxx_eeprom_parse_command_and_address dev)\<lparr>n_bits_accum := 0\<rparr>"
  have b: "2 \<le> n_command_address_bits dev" using assms(1) by (simp add: geo_ok_def)
  note ps = parse_spec [OF assms(3) b]
  have "geo_ok (nmc93cxx_eeprom_parse_command_and_address dev)" "square (nmc93cxx_eeprom_parse_command_and_address dev)"
    using assms(1,2) by (simp_all add: geo_ok_def square_def)
  then have p: "geo_ok ?p" "square ?p" by simp_all
  have addr: "unat (n_address ?p) < 2 ^ n_command_address_bits ?p" "unat (n_address ?p) < n_cells ?p"
    using ps(1) geo_square [OF p] by simp_all
  have "n_command ?p \<in> {COMMAND_READ, COMMAND_WRITE, COMMAND_WRITEALL, COMMAND_ERASE, COMMAND_LOCK,
      COMMAND_UNLOCK, COMMAND_ERASEALL}" using ps(2) by simp
  moreover have "0 < n_data_bits ?p" using p(1) by (auto simp: geo_ok_def)
  ultimately show ?thesis
    using p addr
    by (auto simp: nmc93cxx_eeprom_execute_command_def Let_def handle_cmds programmed_inv
        update_from_fields nmc93cxx_eeprom_set_state_def nmc_inv_state)
qed

lemma execute_write_inv:
  assumes "geo_ok dev" and "square dev" and "unat (n_address dev) < 2 ^ n_command_address_bits dev"
    and "n_command dev \<in> {COMMAND_WRITE, COMMAND_WRITEALL}"
  shows "\<exists>d. nmc93cxx_eeprom_execute_write_command dev = Some d \<and> nmc_inv d \<and> square d"
  using assms geo_square [OF assms(1,2)]
  by (auto simp: nmc93cxx_eeprom_execute_write_command_def handle_cmds programmed_inv
      update_from_fields nmc93cxx_eeprom_set_state_def nmc_inv_state)

lemma handle_event_inv:
  assumes "nmc_inv dev" and "square dev"
  shows "\<exists>d. nmc93cxx_eeprom_handle_event e dev = Some d \<and> nmc_inv d \<and> square d"
proof -
  have g: "geo_ok dev" and a: "unat (n_address dev) < 2 ^ n_command_address_bits dev"
    using assms(1) by (simp_all add: nmc_inv_def)
  have bits: "n_command_address_bits dev \<le> 11" "n_data_bits dev \<le> 16"
    using g by (auto simp: geo_ok_def)
  show ?thesis
  proof (cases "n_state dev")
    case STATE_WAIT_FOR_COMMAND
    then have acc: "unat (n_bits_accum dev) < 2 + n_command_address_bits dev"
      "unat (n_command_address_accum dev) < 2 ^ unat (n_bits_accum dev)"
      using assms(1) by (simp_all add: nmc_inv_def)
    let ?d = "dev\<lparr>n_command_address_accum := push_bit 1 (n_command_address_accum dev) OR di dev,
              n_bits_accum := n_bits_accum dev + 1\<rparr>"
    have n: "unat (n_bits_accum dev + 1) = Suc (unat (n_bits_accum dev))"
      using acc(1) bits by (simp add: unat_add_lem [where ?'a = 32, THEN iffD1])
    have s: "unat (n_command_address_accum ?d) < 2 ^ Suc (unat (n_bits_accum dev))"
      using unat_shift_di [OF acc(2), of dev] acc(1) bits by (simp del: push_bit_Suc)
    have "\<exists>d. (if n_bits_accum ?d = of_nat (2 + n_command_address_bits dev)
         then nmc93cxx_eeprom_execute_command ?d else Some ?d) = Some d \<and> nmc_inv d \<and> square d"
    proof (cases "n_bits_accum ?d = of_nat (2 + n_command_address_bits dev)")
      case True
      then have "unat (n_bits_accum ?d) = 2 + n_command_address_bits dev"
        using bits unat_of_nat [of "2 + n_command_address_bits dev", where ?'a = 32] by (simp del: of_nat_add)
      with n s have "unat (n_command_address_accum ?d) < 2 ^ (2 + n_command_address_bits ?d)" by simp
      with execute_command_inv [of ?d] g assms(2) True show ?thesis by simp
    next
      case False
      then have "unat (n_bits_accum ?d) \<noteq> 2 + n_command_address_bits dev"
        by (metis of_nat_unat ucast_id)
      with n s acc(1) g a assms(2) STATE_WAIT_FOR_COMMAND False show ?thesis
        by (simp add: nmc_inv_def del: push_bit_Suc)
    qed
    with g a assms STATE_WAIT_FOR_COMMAND show ?thesis
      by (auto simp: nmc_event_defs nmc_inv_state simp del: push_bit_Suc)
  next
    case STATE_WAIT_FOR_DATA
    then have acc: "n_command dev \<in> {COMMAND_WRITE, COMMAND_WRITEALL}" "unat (n_bits_accum dev) < n_data_bits dev"
      using assms(1) by (simp_all add: nmc_inv_def)
    let ?d = "dev\<lparr>n_shift_register := push_bit 1 (n_shift_register dev) OR di dev,
              n_bits_accum := n_bits_accum dev + 1\<rparr>"
    have n: "unat (n_bits_accum dev + 1) = Suc (unat (n_bits_accum dev))"
      using acc(2) bits by (simp add: unat_add_lem [where ?'a = 32, THEN iffD1])
    have "\<exists>d. (if n_bits_accum ?d = of_nat (n_data_bits dev)
         then nmc93cxx_eeprom_execute_write_command ?d else Some ?d) = Some d \<and> nmc_inv d \<and> square d"
    proof (cases "n_bits_accum ?d = of_nat (n_data_bits dev)")
      case True
      with execute_write_inv [of ?d] g a acc(1) assms(2) show ?thesis by simp
    next
      case False
      then have "unat (n_bits_accum ?d) \<noteq> n_data_bits dev"
        by (metis of_nat_unat ucast_id)
      with n acc g a assms(2) STATE_WAIT_FOR_DATA False show ?thesis
        by (simp add: nmc_inv_def del: push_bit_Suc)
    qed
    with g a assms STATE_WAIT_FOR_DATA show ?thesis
      by (auto simp: nmc_event_defs nmc_inv_state simp del: push_bit_Suc)
  next
    case STATE_READING_DATA
    let ?a = "(n_address dev + (n_bits_accum dev + 1) div of_nat (n_data_bits dev)) AND
                   (push_bit (n_address_bits dev) 1 - 1)"
    have "unat ?a < n_cells dev"
      using unat_and_mask g by (simp add: push_mask32 geo_ok_def del: push_bit_of_1)
    moreover have "shaped (n_cells dev) (n_data_bits dev) (dev\<lparr>n_bits_accum := n_bits_accum dev + 1\<rparr>)"
      using geo_shaped [OF g] by (simp add: shaped_def)
    ultimately have "nmc93cxx_eeprom_cell_read (dev\<lparr>n_bits_accum := n_bits_accum dev + 1\<rparr>) ?a \<noteq> None"
      using cell_access(1) by simp
    with g a assms STATE_READING_DATA show ?thesis
      by (auto simp: nmc_event_defs nmc_inv_def simp del: push_bit_Suc push_bit_of_1)
  qed (use g a assms in \<open>auto simp: nmc_event_defs nmc_inv_def\<close>)
qed

lemma cs_phase_inv:
  assumes "nmc_inv dev" and "square dev"
  shows "\<exists>d. cs_phase cs dev = Some d \<and> nmc_inv d \<and> square d"
proof (cases "n_cs_state dev = cs")
  case False
  let ?d = "if cs then dev\<lparr>n_cs_state := cs, n_last_cs_rising_edge_tick := n_write_tick dev\<rparr>
    else dev\<lparr>n_cs_state := cs\<rparr>"
  have "nmc_inv ?d" and "square ?d" using assms by (simp_all add: nmc_inv_def)
  from handle_event_inv [OF this] False show ?thesis by (simp add: cs_phase_def)
qed (use assms in \<open>simp add: cs_phase_def\<close>)

lemma clk_phase_inv:
  assumes "nmc_inv dev" and "square dev"
  shows "\<exists>d. clk_phase sk b dev = Some d \<and> nmc_inv d \<and> square d"
proof (cases "n_clk_state dev = sk")
  case False
  have "nmc_inv (dev\<lparr>n_di_state := b, n_clk_state := sk\<rparr>)" and "square (dev\<lparr>n_di_state := b, n_clk_state := sk\<rparr>)"
    using assms by (simp_all add: nmc_inv_def)
  from handle_event_inv [OF this] False show ?thesis by (simp add: clk_phase_def)
qed (use assms in \<open>simp add: clk_phase_def nmc_inv_def\<close>)

lemma nmc_step_inv:
  assumes "nmc_inv dev" and "square dev"
  shows "\<exists>d. nmc_step p dev = Some d \<and> nmc_inv d \<and> square d"
proof (cases p)
  case (Pins cs sk b)
  have "nmc_inv (dev\<lparr>n_write_tick := n_write_tick dev + 1\<rparr>)" and "square (dev\<lparr>n_write_tick := n_write_tick dev + 1\<rparr>)"
    using assms by (simp_all add: nmc_inv_def)
  from cs_phase_inv [OF this, of cs] obtain m where
    "cs_phase cs (dev\<lparr>n_write_tick := n_write_tick dev + 1\<rparr>) = Some m" and "nmc_inv m" and "square m" by blast
  with clk_phase_inv [of m sk b] Pins show ?thesis by (simp add: write_phases)
next
  case Expire
  with assms show ?thesis
    by (simp add: nmc93cxx_eeprom_cmd_complete_timer_callback_def nmc_inv_def)
qed

lemma nmc_run_inv:
  "nmc_inv dev \<Longrightarrow> square dev \<Longrightarrow> \<exists>d. nmc_run ps dev = Some d \<and> nmc_inv d"
proof (induction ps arbitrary: dev)
  case (Cons p ps)
  with nmc_step_inv [of dev p] show ?case by fastforce
qed simp

lemma init_inv: "nmc93cxx_eeprom_init t f c = Some dev \<Longrightarrow> nmc_inv dev"
proof -
  assume i: "nmc93cxx_eeprom_init t f c = Some dev"
  from i have "n_state dev = STATE_IN_RESET" and "n_address dev = 0"
    by (auto simp: nmc93cxx_eeprom_init_def Let_def split: prod.splits if_splits bind_splits)
  with init_geo_ok [OF i] show "nmc_inv dev" by (simp add: nmc_inv_def)
qed

text \<open>
  C22. No fault: for every chip type whose commands carry exactly as many address bits as its cells
  need, no sequence of pin writes and timer expiries on a chip from \<open>init\<close> accesses memory outside
  the cell array or reaches a failing assertion, and the state machine keeps its invariant.
\<close>

theorem nmc_no_fault:
  assumes "nmc93cxx_eeprom_init t f c = Some dev" and "fst (geometry t) = 2 ^ fst (snd (geometry t))"
  shows "\<exists>d. nmc_run ps dev = Some d \<and> nmc_inv d"
proof (rule nmc_run_inv [OF init_inv [OF assms(1)]])
  obtain cells cab db where g: "geometry t = (cells, cab, db)" by (cases "geometry t")
  from geometry_facts [OF g] have "cells = 2 ^ count_bits (cells - 1)" by metis
  with assms(2) g have "(2::nat) ^ cab = 2 ^ count_bits (cells - 1)" by simp
  then have "cab = count_bits (cells - 1)" by (rule power_inject_exp [THEN iffD1, rotated]) simp
  then show "square dev" unfolding square_def init_array [OF assms(1) g] .
qed

theorem nmc_no_fault_witness:
  "\<exists>d. nmc_run [Pins True False False, Pins True True True, Expire]
    (the (nmc93cxx_eeprom_init NMC_93C46_x16_64 None None)) = Some d \<and> nmc_inv d"
proof -
  have "nmc93cxx_eeprom_init NMC_93C46_x16_64 None None =
      Some (the (nmc93cxx_eeprom_init NMC_93C46_x16_64 None None))"
    by (simp add: nmc93cxx_eeprom_init_def)
  then show ?thesis by (rule nmc_no_fault) simp
qed

section \<open>The image file\<close>

text \<open>
  The image file: closing a chip writes all of its cells, and creating a chip of the same type
  from that file restores them, whatever the default contents.
\<close>

theorem nmc_image_roundtrip:
  assumes "nmc93cxx_eeprom_init t f c = Some dev" and "length arr = length (n_array dev)"
  shows "\<exists>d. nmc93cxx_eeprom_init t (Some (nmc93cxx_eeprom_close (dev\<lparr>n_array := arr\<rparr>))) c2 = Some d \<and>
    n_array d = arr"
proof -
  obtain cells cab db where g: "geometry t = (cells, cab, db)" by (cases "geometry t")
  note i = init_array [OF assms(1) g]
  let ?s = "db div 8"
  have img: "nmc93cxx_eeprom_close (dev\<lparr>n_array := arr\<rparr>) = arr"
    using assms(2) i by (simp add: nmc93cxx_eeprom_close_def)
  from geometry_facts [OF g] have "0 < cells" and s: "0 < ?s" and
    w: "2 * (if db = 16 then cells else cells div 2) = cells * ?s" by auto
  then have "length arr div ?s \<noteq> 0" using assms(2) i by simp
  with g w assms(2) i show ?thesis
    unfolding img by (auto simp: nmc93cxx_eeprom_init_def overlay_def Let_def split: option.splits)
qed

theorem nmc_image_roundtrip_witness:
  "\<exists>d. nmc93cxx_eeprom_init NMC_93C06_x16_16
      (Some (nmc93cxx_eeprom_close (blank\<lparr>n_array := replicate 32 0x5a\<rparr>))) (Some []) = Some d \<and>
    n_array d = replicate 32 0x5a"
proof -
  have "nmc93cxx_eeprom_init NMC_93C06_x16_16 None None = Some blank"
    by (simp add: blank_def nmc93cxx_eeprom_init_def)
  moreover have "length (replicate 32 0x5a :: u8 list) = length (n_array blank)"
    by (simp add: blank_def nmc93cxx_eeprom_init_def)
  ultimately show ?thesis by (rule nmc_image_roundtrip)
qed

end
