(* ===== verification/Nmc93cxx_Host.thy ===== *)
theory Nmc93cxx_Host
  imports Nmc93cxx_Correct
begin

text \<open>
  The Microwire protocol as a host drives it: chip select, a start bit, opcode and address clocked
  in most significant bit first, data clocked in or sampled on DO.  The claims are about these
  sequences of pin writes: what a write command leaves in the cells, what a read command samples,
  and the write outside the cell array that the types with spare address bits accept.
\<close>

section \<open>The host\<close>

definition clock :: "bool \<Rightarrow> nmc93cxx_eeprom_t \<Rightarrow> nmc93cxx_eeprom_t option" where
  "clock b dev = do { dev \<leftarrow> nmc93cxx_eeprom_write True False b dev; nmc93cxx_eeprom_write True True b dev }"

fun clocks :: "bool list \<Rightarrow> nmc93cxx_eeprom_t \<Rightarrow> nmc93cxx_eeprom_t option" where
  "clocks [] dev = Some dev"
| "clocks (b # bs) dev = do { dev \<leftarrow> clock b dev; clocks bs dev }"

fun sample :: "nat \<Rightarrow> nmc93cxx_eeprom_t \<Rightarrow> (bool list \<times> nmc93cxx_eeprom_t) option" where
  "sample 0 dev = Some ([], dev)"
| "sample (Suc n) dev = do {
    dev \<leftarrow> clock False dev;
    (bs, d) \<leftarrow> sample n dev;
    Some (nmc93cxx_eeprom_read dev # bs, d)
  }"

text \<open>The low \<open>n\<close> bits of a word, most significant first, and the word a shift register makes of them.\<close>

definition bits_of :: "nat \<Rightarrow> u32 \<Rightarrow> bool list" where
  "bits_of n v = map (bit v) (rev [0..<n])"

definition val :: "bool list \<Rightarrow> u32" where
  "val bs = foldl (\<lambda>r b. push_bit 1 r OR (if b then 1 else 0)) 0 bs"

definition select :: "nmc93cxx_eeprom_t \<Rightarrow> nmc93cxx_eeprom_t option" where
  "select dev = do { dev \<leftarrow> nmc93cxx_eeprom_write False False False dev; nmc93cxx_eeprom_write True False False dev }"

definition host_command :: "bool \<Rightarrow> bool \<Rightarrow> u32 \<Rightarrow> bool list \<Rightarrow> nmc93cxx_eeprom_t \<Rightarrow> nmc93cxx_eeprom_t option" where
  "host_command o1 o0 a data dev = do {
    dev \<leftarrow> select dev;
    dev \<leftarrow> clocks (True # o1 # o0 # bits_of (n_command_address_bits dev) a) dev;
    clocks data dev
  }"

definition host_write :: "u32 \<Rightarrow> u32 \<Rightarrow> nmc93cxx_eeprom_t \<Rightarrow> nmc93cxx_eeprom_t option" where
  "host_write a v dev = do {
    dev \<leftarrow> host_command False True a (bits_of (n_data_bits dev) v) dev;
    nmc93cxx_eeprom_write False False False dev
  }"

definition host_read :: "u32 \<Rightarrow> nmc93cxx_eeprom_t \<Rightarrow> (bool list \<times> nmc93cxx_eeprom_t) option" where
  "host_read a dev = do {
    dev \<leftarrow> host_command True False a [] dev;
    (bs, dev) \<leftarrow> sample (n_data_bits dev) dev;
    dev \<leftarrow> nmc93cxx_eeprom_write False False False dev;
    Some (bs, dev)
  }"

section \<open>Shift registers\<close>

declare push_bit_Suc [simp del] push_bit_of_1 [simp del]

lemma val_snoc: "val (bs @ [b]) = push_bit 1 (val bs) OR (if b then 1 else 0)"
  and val_Nil [simp]: "val [] = 0"
  by (simp_all add: val_def)

lemma bit_val: "length bs \<le> 32 \<Longrightarrow> bit (val bs) i \<longleftrightarrow> i < length bs \<and> bs ! (length bs - 1 - i)"
proof (induction bs arbitrary: i rule: rev_induct)
  case (snoc b bs)
  have "bit (val (bs @ [b])) i \<longleftrightarrow> (if i = 0 then b else i < 32 \<and> bit (val bs) (i - 1))"
    by (cases b; cases "i = 0") (auto simp: val_snoc bit_or_iff bit_push_bit_iff bit_1_iff Suc_le_eq)
  with snoc.IH [of "i - 1"] snoc.prems show ?case by (cases i) (auto simp: nth_append)
qed simp

lemma length_bits_of [simp]: "length (bits_of n v) = n"
  by (simp add: bits_of_def)

lemma nth_bits_of: "i < n \<Longrightarrow> bits_of n v ! i = bit v (n - 1 - i)"
  by (simp add: bits_of_def rev_nth)

lemma val_bits_of: "n \<le> 32 \<Longrightarrow> val (bits_of n v) = take_bit n v"
  by (rule bit_word_eqI) (auto simp: bit_val nth_bits_of bit_take_bit_iff)

lemma command_word:
  assumes "n \<le> 30"
  shows "val (o1 # o0 # bits_of n a) AND mask n = take_bit n a"
    and "drop_bit n (val (o1 # o0 # bits_of n a)) = (if o1 then 2 else 0) OR (if o0 then 1 else 0)"
proof -
  let ?w = "val (o1 # o0 # bits_of n a)"
  have b: "bit ?w i \<longleftrightarrow> (if i < n then bit a i else if i = n then o0 else i = Suc n \<and> o1)" for i
  proof -
    consider "i < n" | "i = n" | "i = Suc n" | "Suc n < i" by linarith
    then show ?thesis
    proof cases
      case 1
      then have "Suc n - i = Suc (Suc (n - 1 - i))" by simp
      with 1 assms show ?thesis by (simp add: bit_val nth_bits_of)
    qed (use assms in \<open>auto simp: bit_val Suc_diff_le\<close>)
  qed
  show "?w AND mask n = take_bit n a"
    by (rule bit_word_eqI) (auto simp: bit_simps b)
  show "drop_bit n ?w = (if o1 then 2 else 0) OR (if o0 then 1 else 0)"
    by (rule bit_word_eqI) (auto simp: bit_simps b bit_1_iff bit_2_iff)
qed

section \<open>One clock\<close>

definition adv :: "bool \<Rightarrow> nmc93cxx_eeprom_t \<Rightarrow> nmc93cxx_eeprom_t" where
  "adv b dev = dev\<lparr>n_write_tick := 2 + n_write_tick dev, n_di_state := b, n_clk_state := True\<rparr>"

lemma falling_idle: "nmc93cxx_eeprom_handle_event EVENT_CLK_FALLING_EDGE dev = Some dev"
  by (cases "n_state dev") (simp_all add: nmc_event_defs)

lemma clock_rising: "n_cs_state dev \<Longrightarrow> clock b dev = nmc93cxx_eeprom_handle_event EVENT_CLK_RISING_EDGE (adv b dev)"
  by (cases "n_clk_state dev")
    (simp_all add: clock_def write_phases cs_phase_def clk_phase_def falling_idle adv_def)

definition frame :: "nmc93cxx_eeprom_t \<Rightarrow> u8 list \<times> bool \<times> bool \<times> bool \<times> nat \<times> nat \<times> nat \<times> nat" where
  "frame dev = (n_array dev, n_is_locked dev, n_is_busy dev, n_cs_state dev, n_cells dev, n_data_bits dev,
    n_command_address_bits dev, n_address_bits dev)"

lemma frame_adv [simp]: "frame (adv b dev) = frame dev"
  by (simp add: frame_def adv_def)

lemma frame_fields:
  assumes "frame d = frame dev"
  shows "n_array d = n_array dev" "n_is_locked d = n_is_locked dev" "n_is_busy d = n_is_busy dev"
    "n_cs_state d = n_cs_state dev" "n_cells d = n_cells dev" "n_data_bits d = n_data_bits dev"
    "n_command_address_bits d = n_command_address_bits dev" "n_address_bits d = n_address_bits dev"
    "geo_ok d = geo_ok dev" "cell d = cell dev"
  using assms by (auto simp: frame_def geo_ok_def cell_def [abs_def])

section \<open>Selecting the chip\<close>

definition at_rest :: "nmc93cxx_eeprom_t \<Rightarrow> bool" where
  "at_rest dev \<longleftrightarrow> geo_ok dev \<and> n_state dev = STATE_IN_RESET \<and> \<not> n_cs_state dev \<and> \<not> n_is_busy dev"

text \<open>Selection and the start bit leave the chip waiting for the bits of a command.\<close>

definition in_command :: "bool list \<Rightarrow> nmc93cxx_eeprom_t \<Rightarrow> bool" where
  "in_command bs dev \<longleftrightarrow> n_state dev = STATE_WAIT_FOR_COMMAND \<and> n_cs_state dev \<and>
    n_command_address_accum dev = val bs \<and> n_bits_accum dev = of_nat (length bs)"

lemma select_start:
  assumes "at_rest dev"
  shows "\<exists>d e. select dev = Some d \<and> n_command_address_bits d = n_command_address_bits dev \<and>
    clock True d = Some e \<and> in_command [] e \<and> frame e = frame (dev\<lparr>n_cs_state := True\<rparr>)"
proof -
  let ?d = "dev\<lparr>n_write_tick := 2 + n_write_tick dev, n_di_state := False, n_clk_state := False,
    n_cs_state := True, n_last_cs_rising_edge_tick := 2 + n_write_tick dev, n_state := STATE_WAIT_FOR_START_BIT\<rparr>"
  have sel: "select dev = Some ?d"
    using assms
    by (cases "n_clk_state dev")
      (simp_all add: select_def write_phases cs_phase_def clk_phase_def at_rest_def nmc_event_defs)
  have "2 + (2 + n_write_tick dev) \<noteq> 2 + n_write_tick dev" by simp
  then have "\<exists>e. clock True ?d = Some e \<and> in_command [] e \<and> frame e = frame (dev\<lparr>n_cs_state := True\<rparr>)"
    using assms
    by (simp add: clock_rising adv_def nmc_event_defs at_rest_def in_command_def frame_def)
  with sel show ?thesis by auto
qed

section \<open>The command phase\<close>

lemma command_clock:
  assumes "in_command bs dev" and "length bs + 1 < 2 + n_command_address_bits dev" and "n_command_address_bits dev \<le> 11"
  shows "\<exists>d. clock b dev = Some d \<and> in_command (bs @ [b]) d \<and> frame d = frame dev"
proof -
  have "of_nat (length bs) + 1 \<noteq> (2 + of_nat (n_command_address_bits dev) :: u32)"
  proof
    assume "of_nat (length bs) + 1 = (2 + of_nat (n_command_address_bits dev) :: u32)"
    then have "(of_nat (length bs + 1) :: u32) = of_nat (2 + n_command_address_bits dev)" by simp
    then have "unat (of_nat (length bs + 1) :: u32) = unat (of_nat (2 + n_command_address_bits dev) :: u32)" by (rule arg_cong)
    with assms(2,3) show False unfolding unat_of_nat by simp
  qed
  with assms(1) show ?thesis
    by (simp add: clock_rising adv_def nmc_event_defs in_command_def frame_def val_snoc di_def)
qed

lemma command_clocks:
  "in_command bs dev \<Longrightarrow> length bs + length cs < 2 + n_command_address_bits dev \<Longrightarrow> n_command_address_bits dev \<le> 11 \<Longrightarrow>
    \<exists>d. clocks cs dev = Some d \<and> in_command (bs @ cs) d \<and> frame d = frame dev"
proof (induction cs arbitrary: bs dev)
  case (Cons c cs)
  obtain d where d: "clock c dev = Some d" "in_command (bs @ [c]) d" "frame d = frame dev"
    using command_clock [OF Cons.prems(1)] Cons.prems(2,3) by auto
  with Cons.IH [OF d(2)] Cons.prems show ?case by (auto simp: frame_fields [OF d(3)])
qed simp

lemma command_last:
  assumes "in_command bs dev" and "Suc (length bs) = 2 + n_command_address_bits dev"
  shows "\<exists>d. clock b dev = nmc93cxx_eeprom_execute_command d \<and> frame d = frame dev \<and>
    n_command_address_accum d = val (bs @ [b])"
proof -
  let ?d = "(adv b dev)\<lparr>n_command_address_accum := val (bs @ [b]), n_bits_accum := of_nat (length bs) + 1\<rparr>"
  have "(of_nat (length bs) + 1 :: u32) = of_nat (Suc (length bs))" by simp
  then have "(of_nat (length bs) + 1 :: u32) = of_nat (2 + n_command_address_bits dev)" using assms(2) by simp
  with assms(1) have "clock b dev = nmc93cxx_eeprom_execute_command ?d"
    by (simp add: clock_rising adv_def nmc_event_defs in_command_def val_snoc di_def)
  moreover have "frame ?d = frame dev" by (simp add: frame_def adv_def)
  ultimately show ?thesis by (intro exI [of _ ?d]) simp
qed

lemma clocks_append: "clocks (as @ bs) dev = clocks as dev \<bind> clocks bs"
  by (induction as arbitrary: dev) (auto split: bind_splits)

lemma command_phase:
  assumes "in_command [] dev" and "geo_ok dev"
  shows "\<exists>d. clocks (o1 # o0 # bits_of (n_command_address_bits dev) a) dev = nmc93cxx_eeprom_execute_command d \<and>
    frame d = frame dev \<and> n_command_address_accum d = val (o1 # o0 # bits_of (n_command_address_bits dev) a)"
proof -
  let ?n = "n_command_address_bits dev"
  let ?bs = "o1 # o0 # bits_of ?n a"
  have n: "?n \<le> 11" "6 \<le> ?n" using assms(2) by (simp_all add: geo_ok_def)
  have split: "?bs = butlast ?bs @ [last ?bs]" by (simp del: butlast.simps last.simps)
  have len: "length (butlast ?bs) = Suc ?n" by (simp del: butlast.simps)
  obtain d where d: "clocks (butlast ?bs) dev = Some d" "in_command (butlast ?bs) d" "frame d = frame dev"
    using command_clocks [OF assms(1), of "butlast ?bs"] n len by auto
  from command_last [OF d(2), of "last ?bs"] len obtain e where
    "clock (last ?bs) d = nmc93cxx_eeprom_execute_command e" "frame e = frame d"
    "n_command_address_accum e = val ?bs"
    by (auto simp: frame_fields [OF d(3)] split [symmetric] simp del: butlast.simps last.simps)
  moreover have "clocks (butlast ?bs @ [last ?bs]) dev = clock (last ?bs) d"
    unfolding clocks_append d(1) by (cases "clock (last ?bs) d") (simp_all del: butlast.simps last.simps)
  ultimately show ?thesis using d(3) unfolding split [symmetric] by auto
qed

text \<open>The two commands of the protocol, after the command phase.\<close>

lemma frame_parse [simp]: "frame (nmc93cxx_eeprom_parse_command_and_address dev) = frame dev"
  by (simp add: frame_def nmc93cxx_eeprom_parse_command_and_address_def Let_def)

lemma parse_command_word:
  assumes "n_command_address_accum d = val (o1 # o0 # bits_of n a)" and "n_command_address_bits d = n" and "n \<le> 30"
    and "unat a < 2 ^ n" and "o1 \<noteq> o0"
  shows "nmc93cxx_eeprom_parse_command_and_address d =
    d\<lparr>n_command := (if o1 then COMMAND_READ else COMMAND_WRITE), n_address := a\<rparr>"
proof -
  have "unat (take_bit n a) = take_bit n (unat a)" by (rule unsigned_take_bit_eq)
  with assms(4) have "take_bit n a = a" by (simp add: take_bit_nat_eq_self word_unat_eq_iff)
  with command_word [OF assms(3), of o1 o0 a] assms show ?thesis
    by (cases o1) (simp_all add: nmc93cxx_eeprom_parse_command_and_address_def Let_def push_mask32)
qed

definition in_data :: "u32 \<Rightarrow> bool list \<Rightarrow> nmc93cxx_eeprom_t \<Rightarrow> bool" where
  "in_data a bs dev \<longleftrightarrow> n_state dev = STATE_WAIT_FOR_DATA \<and> n_cs_state dev \<and> n_command dev = COMMAND_WRITE \<and>
    n_address dev = a \<and> n_shift_register dev = val bs \<and> n_bits_accum dev = of_nat (length bs)"

lemma write_command:
  assumes "in_command [] dev" and "geo_ok dev" and "unat a < 2 ^ n_command_address_bits dev"
  shows "\<exists>d. clocks (False # True # bits_of (n_command_address_bits dev) a) dev = Some d \<and>
    in_data a [] d \<and> frame d = frame dev"
proof -
  have n: "n_command_address_bits dev \<le> 30" using assms(2) by (simp add: geo_ok_def)
  from command_phase [OF assms(1,2), of False True a] obtain d where
    d: "clocks (False # True # bits_of (n_command_address_bits dev) a) dev = nmc93cxx_eeprom_execute_command d"
    "frame d = frame dev" "n_command_address_accum d = val (False # True # bits_of (n_command_address_bits dev) a)"
    by blast
  have cs: "n_cs_state d" using assms(1) frame_fields(4) [OF d(2)] by (simp add: in_command_def)
  note p = parse_command_word [OF d(3) frame_fields(7) [OF d(2)] n assms(3)]
  show ?thesis
    unfolding d(1) using p cs d(2)
    by (simp add: nmc93cxx_eeprom_execute_command_def nmc93cxx_eeprom_set_state_def in_data_def frame_def)
qed

definition in_read :: "u32 \<Rightarrow> nmc93cxx_eeprom_t \<Rightarrow> bool" where
  "in_read a dev \<longleftrightarrow> n_state dev = STATE_READING_DATA \<and> n_cs_state dev \<and> n_address dev = a \<and> n_bits_accum dev = 0"

lemma read_command:
  assumes "in_command [] dev" and "geo_ok dev" and "unat a < 2 ^ n_command_address_bits dev"
  shows "\<exists>d. clocks (True # False # bits_of (n_command_address_bits dev) a) dev = Some d \<and>
    in_read a d \<and> frame d = frame dev"
proof -
  have n: "n_command_address_bits dev \<le> 30" using assms(2) by (simp add: geo_ok_def)
  from command_phase [OF assms(1,2), of True False a] obtain d where
    d: "clocks (True # False # bits_of (n_command_address_bits dev) a) dev = nmc93cxx_eeprom_execute_command d"
    "frame d = frame dev" "n_command_address_accum d = val (True # False # bits_of (n_command_address_bits dev) a)"
    by blast
  have cs: "n_cs_state d" using assms(1) frame_fields(4) [OF d(2)] by (simp add: in_command_def)
  note p = parse_command_word [OF d(3) frame_fields(7) [OF d(2)] n assms(3)]
  show ?thesis
    unfolding d(1) using p cs d(2)
    by (simp add: nmc93cxx_eeprom_execute_command_def nmc93cxx_eeprom_set_state_def in_read_def frame_def)
qed

section \<open>The data phase\<close>

lemma data_clock:
  assumes "in_data a bs dev" and "length bs + 1 < n_data_bits dev" and "n_data_bits dev \<le> 16"
  shows "\<exists>d. clock b dev = Some d \<and> in_data a (bs @ [b]) d \<and> frame d = frame dev"
proof -
  have "of_nat (length bs) + 1 \<noteq> (of_nat (n_data_bits dev) :: u32)"
  proof
    assume "of_nat (length bs) + 1 = (of_nat (n_data_bits dev) :: u32)"
    then have "(of_nat (length bs + 1) :: u32) = of_nat (n_data_bits dev)" by (simp add: add.commute)
    then have "unat (of_nat (length bs + 1) :: u32) = unat (of_nat (n_data_bits dev) :: u32)" by (rule arg_cong)
    with assms(2,3) show False unfolding unat_of_nat by simp
  qed
  with assms(1) show ?thesis
    by (simp add: clock_rising adv_def nmc_event_defs in_data_def frame_def val_snoc di_def)
qed

lemma data_clocks:
  "in_data a bs dev \<Longrightarrow> length bs + length cs < n_data_bits dev \<Longrightarrow> n_data_bits dev \<le> 16 \<Longrightarrow>
    \<exists>d. clocks cs dev = Some d \<and> in_data a (bs @ cs) d \<and> frame d = frame dev"
proof (induction cs arbitrary: bs dev)
  case (Cons c cs)
  obtain d where d: "clock c dev = Some d" "in_data a (bs @ [c]) d" "frame d = frame dev"
    using data_clock [OF Cons.prems(1)] Cons.prems(2,3) by auto
  with Cons.IH [OF d(2)] Cons.prems show ?case by (auto simp: frame_fields [OF d(3)])
qed simp

text \<open>The last data bit runs the write command.\<close>

lemma data_phase:
  assumes "in_data a [] dev" and "geo_ok dev"
  shows "\<exists>d. clocks (bits_of (n_data_bits dev) v) dev = nmc93cxx_eeprom_execute_write_command d \<and> frame d = frame dev \<and>
    n_command d = COMMAND_WRITE \<and> n_address d = a \<and> n_shift_register d = take_bit (n_data_bits dev) v"
proof -
  let ?bs = "bits_of (n_data_bits dev) v"
  have n: "n_data_bits dev \<le> 16" "0 < n_data_bits dev" using assms(2) by (auto simp: geo_ok_def)
  then have "?bs \<noteq> []" by (auto simp: bits_of_def)
  then have split: "?bs = butlast ?bs @ [last ?bs]" by simp
  obtain d where d: "clocks (butlast ?bs) dev = Some d" "in_data a (butlast ?bs) d" "frame d = frame dev"
    using data_clocks [OF assms(1), of "butlast ?bs"] n by auto
  let ?e = "(adv (last ?bs) d)\<lparr>n_shift_register := val (butlast ?bs @ [last ?bs]), n_bits_accum := of_nat (n_data_bits dev)\<rparr>"
  have "(of_nat (length (butlast ?bs)) + 1 :: u32) = of_nat (Suc (length (butlast ?bs)))" by simp
  also have "\<dots> = of_nat (n_data_bits dev)" using n by simp
  finally have "clock (last ?bs) d = nmc93cxx_eeprom_execute_write_command ?e"
    using d(2) frame_fields(6) [OF d(3)]
    by (simp add: clock_rising adv_def nmc_event_defs in_data_def val_snoc di_def)
  moreover have "clocks (butlast ?bs @ [last ?bs]) dev = clock (last ?bs) d"
    unfolding clocks_append d(1) by (cases "clock (last ?bs) d") simp_all
  ultimately have "clocks ?bs dev = nmc93cxx_eeprom_execute_write_command ?e" using split by simp
  moreover have "frame ?e = frame dev" using d(3) by (simp add: frame_def adv_def)
  moreover have "val (butlast ?bs @ [last ?bs]) = take_bit (n_data_bits dev) v"
    unfolding split [symmetric] using n by (simp add: val_bits_of)
  ultimately show ?thesis using d(2) by (intro exI [of _ ?e]) (simp add: in_data_def adv_def)
qed

section \<open>Reading out\<close>

definition shifting :: "nat \<Rightarrow> u32 \<Rightarrow> nmc93cxx_eeprom_t \<Rightarrow> bool" where
  "shifting k s dev \<longleftrightarrow> n_state dev = STATE_READING_DATA \<and> n_cs_state dev \<and> n_shift_register dev = s \<and>
    n_bits_accum dev = of_nat k"

lemma shifting_clock:
  assumes "shifting k s dev" and "0 < k" and "k < 32"
  shows "\<exists>d. clock b dev = Some d \<and> shifting (Suc k) (push_bit 1 s OR 1) d \<and> frame d = frame dev"
proof -
  have "unat (of_nat k :: u32) \<noteq> 0" using assms(2,3) by (simp add: unat_of_nat)
  then have "(of_nat k :: u32) \<noteq> 0" by auto
  with assms(1) show ?thesis
    by (simp add: clock_rising adv_def nmc_event_defs shifting_def frame_def add.commute)
qed

lemma read_pin: "n_state dev = STATE_READING_DATA \<Longrightarrow> nmc93cxx_eeprom_read dev \<longleftrightarrow> bit (n_shift_register dev) 31"
  using and_exp_eq_0_iff_not_bit [of "n_shift_register dev" 31]
  by (simp add: nmc93cxx_eeprom_read_def)

lemma shifting_sample:
  "shifting k s dev \<Longrightarrow> 0 < k \<Longrightarrow> k + n \<le> 32 \<Longrightarrow>
    \<exists>d. sample n dev = Some (map (\<lambda>i. bit s (30 - i)) [0..<n], d) \<and> frame d = frame dev \<and> n_state d = STATE_READING_DATA"
proof (induction n arbitrary: k s dev)
  case 0
  then show ?case by (simp add: shifting_def)
next
  case (Suc n)
  let ?s = "push_bit 1 s OR 1"
  obtain d where d: "clock False dev = Some d" "shifting (Suc k) ?s d" "frame d = frame dev"
    using shifting_clock [OF Suc.prems(1,2)] Suc.prems(3) by auto
  from Suc.IH [OF d(2)] Suc.prems(3) obtain e where
    e: "sample n d = Some (map (\<lambda>i. bit ?s (30 - i)) [0..<n], e)" "frame e = frame d" "n_state e = STATE_READING_DATA"
    by auto
  have "map (\<lambda>i. bit ?s (30 - i)) [0..<n] = map (\<lambda>i. bit s (30 - Suc i)) [0..<n]"
    using Suc.prems(2,3) by (intro map_upt_cong) (auto simp: bit_or_iff bit_push_bit_iff bit_1_iff Suc_le_eq)
  moreover have "nmc93cxx_eeprom_read d \<longleftrightarrow> bit s 30"
    using d(2) by (simp add: shifting_def read_pin bit_or_iff bit_push_bit_iff bit_1_iff)
  ultimately show ?case using d e by (simp add: map_upt_shift del: upt_Suc)
qed

lemma read_first_clock:
  assumes "in_read a dev" and "geo_ok dev" and "unat a < n_cells dev"
  shows "\<exists>d. clock b dev = Some d \<and> shifting 1 (push_bit (32 - n_data_bits dev) (cell dev (unat a))) d \<and> frame d = frame dev"
proof -
  let ?m = "(adv b dev)\<lparr>n_bits_accum := 1\<rparr>"
  have db: "n_data_bits dev = 8 \<or> n_data_bits dev = 16" using assms(2) by (simp add: geo_ok_def)
  then have one: "(1 :: u32) div of_nat (n_data_bits dev) = 0" by (auto simp: word_div_def)
  have "unat (take_bit (n_address_bits dev) a) = take_bit (n_address_bits dev) (unat a)" by (rule unsigned_take_bit_eq)
  with assms(2,3) have a: "take_bit (n_address_bits dev) a = a"
    by (simp add: take_bit_nat_eq_self word_unat_eq_iff geo_ok_def)
  have "shaped (n_cells dev) (n_data_bits dev) ?m" using geo_shaped [OF assms(2)] by (simp add: shaped_def adv_def)
  from cell_access(1) [OF this assms(3)] have
    r: "nmc93cxx_eeprom_cell_read ?m a = Some (cell dev (unat a))" by (simp add: cell_def adv_def)
  have "clock b dev = Some (?m\<lparr>n_shift_register := push_bit (32 - n_data_bits dev) (cell dev (unat a))\<rparr>)"
    using assms(1) r one a
    by (simp add: clock_rising adv_def nmc_event_defs in_read_def push_mask32 take_bit_eq_mask [symmetric])
  then show ?thesis using assms(1) by (simp add: shifting_def in_read_def frame_def adv_def)
qed

lemma read_phase:
  assumes "in_read a dev" and "geo_ok dev" and "unat a < n_cells dev"
  shows "\<exists>d. sample (n_data_bits dev) dev = Some (bits_of (n_data_bits dev) (cell dev (unat a)), d) \<and>
    frame d = frame dev \<and> n_state d = STATE_READING_DATA"
proof -
  let ?c = "cell dev (unat a)" and ?db = "n_data_bits dev"
  let ?s = "push_bit (32 - ?db) ?c"
  have db: "0 < ?db" "?db \<le> 16" using assms(2) by (auto simp: geo_ok_def)
  then obtain m where m: "?db = Suc m" "m < 16" by (cases ?db) auto
  obtain d where d: "clock False dev = Some d" "shifting 1 ?s d" "frame d = frame dev"
    using read_first_clock [OF assms] by blast
  from shifting_sample [OF d(2), of m] m obtain e where
    e: "sample m d = Some (map (\<lambda>i. bit ?s (30 - i)) [0..<m], e)" "frame e = frame d" "n_state e = STATE_READING_DATA"
    by auto
  have "nmc93cxx_eeprom_read d \<longleftrightarrow> bit ?c (?db - 1)"
    using d(2) db by (auto simp: shifting_def read_pin bit_push_bit_iff)
  moreover have "map (\<lambda>i. bit ?s (30 - i)) [0..<m] = map (\<lambda>i. bit ?c (m - 1 - i)) [0..<m]"
    using m by (intro map_upt_cong) (auto simp: bit_push_bit_iff)
  moreover have "bits_of (Suc m) ?c = bit ?c m # map (\<lambda>i. bit ?c (m - 1 - i)) [0..<m]"
    by (rule nth_equalityI) (auto simp: nth_bits_of nth_Cons split: nat.splits)
  ultimately show ?thesis using d e m by (simp del: upt_Suc)
qed

section \<open>Whole transactions\<close>

lemma deselect:
  assumes "n_cs_state dev"
  shows "\<exists>d. nmc93cxx_eeprom_write False False False dev = Some d \<and> frame d = frame (dev\<lparr>n_cs_state := False\<rparr>) \<and>
    n_state d = STATE_IN_RESET"
  using assms
  by (cases "n_state dev"; cases "n_clk_state dev")
    (simp_all add: write_phases cs_phase_def clk_phase_def falling_idle nmc_event_defs frame_def)

lemma cell_programmed:
  "cell (programmed dev t) = cell dev" "cell (dev\<lparr>n_cs_state := b\<rparr>) = cell dev"
  by (rule ext, simp add: cell_def programmed_def nmc93cxx_eeprom_set_state_def nmc93cxx_eeprom_start_cmd_timer_def)+

lemma command_start:
  assumes "at_rest dev"
  obtains d e where "select dev = Some d" and "n_command_address_bits d = n_command_address_bits dev"
    and "clock True d = Some e" and "in_command [] e" and "frame e = frame (dev\<lparr>n_cs_state := True\<rparr>)"
    and "geo_ok e" and "n_command_address_bits e = n_command_address_bits dev"
proof -
  from select_start [OF assms] obtain d e where
    *: "select dev = Some d" "n_command_address_bits d = n_command_address_bits dev"
    "clock True d = Some e" "in_command [] e" "frame e = frame (dev\<lparr>n_cs_state := True\<rparr>)" by blast
  moreover have "geo_ok e" using assms frame_fields(9) [OF *(5)] by (simp add: at_rest_def)
  moreover have "n_command_address_bits e = n_command_address_bits dev" using frame_fields(7) [OF *(5)] by simp
  ultimately show thesis by (rule that)
qed

text \<open>A write transaction reaches the write command with the address and the data in place.\<close>

lemma host_write_reaches:
  assumes "at_rest dev" and "unat a < 2 ^ n_command_address_bits dev"
  shows "\<exists>d. host_command False True a (bits_of (n_data_bits dev) v) dev = nmc93cxx_eeprom_execute_write_command d \<and>
    frame d = frame (dev\<lparr>n_cs_state := True\<rparr>) \<and> n_command d = COMMAND_WRITE \<and> n_address d = a \<and>
    n_shift_register d = take_bit (n_data_bits dev) v"
proof -
  obtain d e where *: "select dev = Some d" "n_command_address_bits d = n_command_address_bits dev"
    "clock True d = Some e" "in_command [] e" "frame e = frame (dev\<lparr>n_cs_state := True\<rparr>)"
    "geo_ok e" "n_command_address_bits e = n_command_address_bits dev"
    using command_start [OF assms(1)] by blast
  obtain g where g: "clocks (False # True # bits_of (n_command_address_bits dev) a) e = Some g"
    "in_data a [] g" "frame g = frame e"
    using write_command [OF *(4,6), of a] assms(2) *(7) by auto
  have "geo_ok g" and db: "n_data_bits g = n_data_bits dev"
    using frame_fields(6,9) [OF g(3)] frame_fields(6) [OF *(5)] *(6) by simp_all
  from data_phase [OF g(2) this(1), of v] obtain h where
    h: "clocks (bits_of (n_data_bits dev) v) g = nmc93cxx_eeprom_execute_write_command h" "frame h = frame g"
    "n_command h = COMMAND_WRITE" "n_address h = a" "n_shift_register h = take_bit (n_data_bits dev) v"
    unfolding db by blast
  have "host_command False True a (bits_of (n_data_bits dev) v) dev = nmc93cxx_eeprom_execute_write_command h"
    unfolding host_command_def *(1) bind.simps *(2) clocks.simps *(3)
    using g(1) [unfolded clocks.simps] h(1) by simp
  with h g(3) *(5) show ?thesis by auto
qed

lemma host_write_effect:
  assumes "at_rest dev" and "\<not> n_is_locked dev" and "unat a < n_cells dev"
  shows "\<exists>d. host_write a v dev = Some d \<and> geo_ok d \<and> n_state d = STATE_IN_RESET \<and> \<not> n_cs_state d \<and>
    n_is_busy d \<and> \<not> n_is_locked d \<and> n_data_bits d = n_data_bits dev \<and> n_cells d = n_cells dev \<and>
    (\<forall>c < n_cells dev. cell d c = (if c = unat a then take_bit (n_data_bits dev) v else cell dev c))"
proof -
  have geo: "geo_ok dev" using assms(1) by (simp add: at_rest_def)
  then have "n_cells dev \<le> 2 ^ n_command_address_bits dev" by (simp add: geo_ok_def)
  with assms(3) have "unat a < 2 ^ n_command_address_bits dev" by linarith
  from host_write_reaches [OF assms(1) this, of v] obtain h where
    h: "host_command False True a (bits_of (n_data_bits dev) v) dev = nmc93cxx_eeprom_execute_write_command h"
    "frame h = frame (dev\<lparr>n_cs_state := True\<rparr>)" "n_command h = COMMAND_WRITE" "n_address h = a"
    "n_shift_register h = take_bit (n_data_bits dev) v" by blast
  note f = frame_fields [OF h(2), simplified]
  let ?v = "take_bit (n_data_bits dev) v"
  let ?p = "programmed (set_cell (unat a) ?v h) WRITE_TIME_US"
  have "nmc93cxx_eeprom_execute_write_command h = Some ?p"
    using handle_cmds(1) [of h a ?v] f geo assms(2,3) h(3-5) by (simp add: nmc93cxx_eeprom_execute_write_command_def)
  moreover have "n_cs_state ?p"
    using f by (simp add: programmed_def nmc93cxx_eeprom_set_state_def nmc93cxx_eeprom_start_cmd_timer_def set_cell_def)
  then obtain d where d: "nmc93cxx_eeprom_write False False False ?p = Some d"
    "frame d = frame (?p\<lparr>n_cs_state := False\<rparr>)" "n_state d = STATE_IN_RESET"
    using deselect by blast
  ultimately have "host_write a v dev = Some d" by (simp add: host_write_def h(1))
  moreover have "cell d c = (if c = unat a then ?v else cell dev c)" if "c < n_cells dev" for c
  proof -
    have "shaped (n_cells dev) (n_data_bits dev) h" using geo_shaped [of h] f geo by simp
    from nmc_cells.get_put [OF this assms(3) that, of ?v]
    have "cell (set_cell (unat a) ?v h) c = (if c = unat a then take_bit (n_data_bits dev) ?v else cell h c)" .
    moreover have "cell d = cell (set_cell (unat a) ?v h)"
      using frame_fields(10) [OF d(2)] by (simp add: cell_programmed)
    ultimately show ?thesis using f by (simp add: cell_programmed)
  qed
  moreover have "geo_ok d \<and> \<not> n_cs_state d \<and> n_is_busy d \<and> \<not> n_is_locked d \<and> n_data_bits d = n_data_bits dev \<and>
      n_cells d = n_cells dev"
    using frame_fields [OF d(2)] f geo assms(2)
    by (simp add: programmed_def nmc93cxx_eeprom_set_state_def nmc93cxx_eeprom_start_cmd_timer_def)
      (simp add: set_cell_def)
  ultimately show ?thesis using d(3) by blast
qed

lemma host_read_effect:
  assumes "at_rest dev" and "unat a < n_cells dev"
  shows "\<exists>d. host_read a dev = Some (bits_of (n_data_bits dev) (cell dev (unat a)), d) \<and>
    frame d = frame dev \<and> n_state d = STATE_IN_RESET"
proof -
  have geo: "geo_ok dev" using assms(1) by (simp add: at_rest_def)
  then have "n_cells dev \<le> 2 ^ n_command_address_bits dev" by (simp add: geo_ok_def)
  with assms(2) have lt: "unat a < 2 ^ n_command_address_bits dev" by linarith
  obtain d e where *: "select dev = Some d" "n_command_address_bits d = n_command_address_bits dev"
    "clock True d = Some e" "in_command [] e" "frame e = frame (dev\<lparr>n_cs_state := True\<rparr>)"
    "geo_ok e" "n_command_address_bits e = n_command_address_bits dev"
    using command_start [OF assms(1)] by blast
  obtain g where g: "clocks (True # False # bits_of (n_command_address_bits dev) a) e = Some g"
    "in_read a g" "frame g = frame e"
    using read_command [OF *(4,6), of a] lt *(7) by auto
  have fg: "frame g = frame (dev\<lparr>n_cs_state := True\<rparr>)" using g(3) *(5) by simp
  note f = frame_fields [OF fg, simplified]
  have cmd: "host_command True False a [] dev = Some g"
    unfolding host_command_def *(1) bind.simps *(2) clocks.simps *(3)
    using g(1) [unfolded clocks.simps] by simp
  have cell: "cell (dev\<lparr>n_cs_state := True\<rparr>) = cell dev" by (rule cell_programmed(2))
  obtain h where h: "sample (n_data_bits dev) g = Some (bits_of (n_data_bits dev) (cell dev (unat a)), h)"
    "frame h = frame g" using read_phase [OF g(2)] f geo assms(2) cell by auto
  have "n_cs_state h" using frame_fields(4) [OF h(2)] f by simp
  from deselect [OF this] obtain k where k: "nmc93cxx_eeprom_write False False False h = Some k"
    "frame k = frame (h\<lparr>n_cs_state := False\<rparr>)" "n_state k = STATE_IN_RESET" by blast
  have "frame k = frame dev"
    using k(2) h(2) fg assms(1) by (simp add: frame_def at_rest_def)
  with cmd h(1) k f show ?thesis by (simp add: host_read_def)
qed

section \<open>Correctness of the protocol\<close>

text \<open>
  C9. Microwire round trip: on an unlocked chip of any type, clocking in a write command stores the
  data in the addressed cell and in no other and leaves the chip busy; once the completion timer has
  expired, clocking in a read command samples exactly the written bits on DO, and a read of any
  other cell samples its old contents.
\<close>

theorem nmc_write_read:
  assumes "at_rest dev" and "\<not> n_is_locked dev" and "unat a < n_cells dev" and "unat c < n_cells dev"
  shows "\<exists>d e. host_write a v dev = Some d \<and> n_is_busy d \<and>
    host_read c (nmc93cxx_eeprom_cmd_complete_timer_callback d) =
      Some (bits_of (n_data_bits dev) (if c = a then v else cell dev (unat c)), e)"
proof -
  from host_write_effect [OF assms(1-3), of v] obtain d where
    d: "host_write a v dev = Some d" "geo_ok d" "n_state d = STATE_IN_RESET" "\<not> n_cs_state d" "n_is_busy d"
    "n_data_bits d = n_data_bits dev" "n_cells d = n_cells dev"
    "\<forall>c < n_cells dev. cell d c = (if c = unat a then take_bit (n_data_bits dev) v else cell dev c)" by blast
  let ?d = "nmc93cxx_eeprom_cmd_complete_timer_callback d"
  have "at_rest ?d" and f: "n_cells ?d = n_cells dev" "n_data_bits ?d = n_data_bits dev"
    using d by (simp_all add: at_rest_def nmc93cxx_eeprom_cmd_complete_timer_callback_def)
  moreover have "cell ?d (unat c) = (if c = a then take_bit (n_data_bits dev) v else cell dev (unat c))"
  proof -
    have "cell ?d = cell d"
      by (rule ext) (simp add: cell_def nmc93cxx_eeprom_cmd_complete_timer_callback_def)
    moreover have "c = a \<longleftrightarrow> unat c = unat a" by (simp add: word_unat_eq_iff)
    ultimately show ?thesis using d(8) assms(4) by simp
  qed
  moreover have "bits_of n (take_bit n v) = bits_of n v" for n
    by (rule nth_equalityI) (auto simp: nth_bits_of bit_take_bit_iff)
  ultimately show ?thesis
    using host_read_effect [of ?d c] assms(4) d(1,5) by fastforce
qed

lemma blank_at_rest: "at_rest (blank\<lparr>n_is_locked := False\<rparr>)" "n_cells blank = 16" "n_data_bits blank = 16"
  "n_command_address_bits blank = 6" "\<not> n_cs_state blank"
proof -
  have i: "nmc93cxx_eeprom_init NMC_93C06_x16_16 None None = Some blank"
    by (simp add: blank_def nmc93cxx_eeprom_init_def)
  have "n_state blank = STATE_IN_RESET" "\<not> n_is_busy blank" "\<not> n_cs_state blank"
    by (simp_all add: blank_def nmc93cxx_eeprom_init_def)
  with init_geo_ok [OF i] show "at_rest (blank\<lparr>n_is_locked := False\<rparr>)" "\<not> n_cs_state blank" by (simp_all add: at_rest_def)
  show "n_cells blank = 16" "n_data_bits blank = 16" "n_command_address_bits blank = 6"
    using init_array [OF i, of 16 6 16] by simp_all
qed

theorem nmc_write_read_witness:
  "\<exists>d e. host_write 5 0xbeef (blank\<lparr>n_is_locked := False\<rparr>) = Some d \<and> n_is_busy d \<and>
    host_read 5 (nmc93cxx_eeprom_cmd_complete_timer_callback d) = Some (bits_of 16 0xbeef, e)"
  using nmc_write_read [OF blank_at_rest(1), of 5 5 "0xbeef"] blank_at_rest by simp

text \<open>
  Writes outside the array: on an unlocked chip of a type with more address bits in its
  commands than its cells need (93C06, 93C56 and 93C76), clocking in a write command for an address
  beyond the last cell reaches a write outside \<open>array_data\<close>.
\<close>

theorem nmc_write_outside:
  assumes "at_rest dev" and "\<not> n_is_locked dev" and "n_cells dev \<le> unat a" and "unat a < 2 ^ n_command_address_bits dev"
  shows "host_write a v dev = None"
proof -
  from host_write_reaches [OF assms(1,4), of v] obtain h where
    h: "host_command False True a (bits_of (n_data_bits dev) v) dev = nmc93cxx_eeprom_execute_write_command h"
    "frame h = frame (dev\<lparr>n_cs_state := True\<rparr>)" "n_command h = COMMAND_WRITE" "n_address h = a" by blast
  note f = frame_fields [OF h(2), simplified]
  have "shaped (n_cells dev) (n_data_bits dev) h" using geo_shaped [of h] f assms(1) by (simp add: at_rest_def)
  from cell_outside [OF this assms(3)] have "nmc93cxx_eeprom_execute_write_command h = None"
    using f assms(2) h(3,4)
    by (simp add: nmc93cxx_eeprom_execute_write_command_def nmc93cxx_eeprom_handle_cmd_write_def)
  then show ?thesis by (simp add: host_write_def h(1))
qed

theorem nmc_write_outside_witness: "host_write 63 0xbeef (blank\<lparr>n_is_locked := False\<rparr>) = None"
  using nmc_write_outside [OF blank_at_rest(1), of 63 "0xbeef"] blank_at_rest by simp

end
