(* ===== verification/X86_Flags.thy ===== *)
theory X86_Flags
  imports Prelude
begin

text \<open>
  The lazily evaluated arithmetic flags of the x86 interpreter, \<open>cpu/x86_flags.h\<close>: an instruction
  stores its operands, its result and the kind of operation, and each flag is computed when it is
  asked for.  The record holds the five fields of \<open>cpu_state\<close> involved and the global \<open>tempc\<close>, the
  carry that went into an add or subtract with carry.  Flag queries, which C returns as zero or
  non-zero, are booleans.  The queries and the setters are those of the build with the new dynamic
  recompiler; the setters of the other build that compute the flags at once carry the suffix
  \<open>_eager\<close>.  The conditions of the jump instructions come from \<open>cpu/x86_ops_jump.h\<close>, the parity
  tables from \<open>cpu/x86.c\<close>.
\<close>

section \<open>State\<close>

datatype flags_op =
    FLAGS_UNKNOWN
  | FLAGS_ZN8 | FLAGS_ZN16 | FLAGS_ZN32
  | FLAGS_ADD8 | FLAGS_ADD16 | FLAGS_ADD32
  | FLAGS_SUB8 | FLAGS_SUB16 | FLAGS_SUB32
  | FLAGS_SHL8 | FLAGS_SHL16 | FLAGS_SHL32
  | FLAGS_SHR8 | FLAGS_SHR16 | FLAGS_SHR32
  | FLAGS_SAR8 | FLAGS_SAR16 | FLAGS_SAR32
  | FLAGS_ROL8 | FLAGS_ROL16 | FLAGS_ROL32
  | FLAGS_ROR8 | FLAGS_ROR16 | FLAGS_ROR32
  | FLAGS_INC8 | FLAGS_INC16 | FLAGS_INC32
  | FLAGS_DEC8 | FLAGS_DEC16 | FLAGS_DEC32
  | FLAGS_ADC8 | FLAGS_ADC16 | FLAGS_ADC32
  | FLAGS_SBC8 | FLAGS_SBC16 | FLAGS_SBC32

record cpu_flags =
  v_flags :: u16
  v_flags_op :: flags_op
  v_flags_res :: u32
  v_flags_op1 :: u32
  v_flags_op2 :: u32
  v_tempc :: bool

definition C_FLAG :: u16 where "C_FLAG = 0x0001"
definition P_FLAG :: u16 where "P_FLAG = 0x0004"
definition A_FLAG :: u16 where "A_FLAG = 0x0010"
definition Z_FLAG :: u16 where "Z_FLAG = 0x0040"
definition N_FLAG :: u16 where "N_FLAG = 0x0080"
definition V_FLAG :: u16 where "V_FLAG = 0x0800"

definition tempc :: "cpu_flags \<Rightarrow> u32" where
  "tempc s = (if v_tempc s then 1 else 0)"

text \<open>Entries of the two tables that \<open>makeznptable\<close> fills; parity is that of the low 8 bits in both.\<close>

definition ones8 :: "u32 \<Rightarrow> nat" where
  "ones8 c = length (filter (\<lambda>e. tst c (push_bit e 1)) [0..<8])"

definition znptable8 :: "u32 \<Rightarrow> u16" where
  "znptable8 c = (if odd (ones8 c) then 0 else P_FLAG) OR (if c = 0 then Z_FLAG else 0) OR
    (if tst c 0x80 then N_FLAG else 0)"

definition znptable16 :: "u32 \<Rightarrow> u16" where
  "znptable16 c = (if odd (ones8 c) then 0 else P_FLAG) OR (if c = 0 then Z_FLAG else 0) OR
    (if tst c 0x8000 then N_FLAG else 0)"

section \<open>Queries\<close>

definition ZF_SET :: "cpu_flags \<Rightarrow> bool" where
  "ZF_SET s =
    (case v_flags_op s of
       FLAGS_ROL8 \<Rightarrow> tst (v_flags s) Z_FLAG | FLAGS_ROL16 \<Rightarrow> tst (v_flags s) Z_FLAG
     | FLAGS_ROL32 \<Rightarrow> tst (v_flags s) Z_FLAG | FLAGS_ROR8 \<Rightarrow> tst (v_flags s) Z_FLAG
     | FLAGS_ROR16 \<Rightarrow> tst (v_flags s) Z_FLAG | FLAGS_ROR32 \<Rightarrow> tst (v_flags s) Z_FLAG
     | FLAGS_UNKNOWN \<Rightarrow> tst (v_flags s) Z_FLAG
     | _ \<Rightarrow> v_flags_res s = 0)"

text \<open>The sign bit of the width of an operation.\<close>

fun sign_mask :: "flags_op \<Rightarrow> u32" where
  "sign_mask FLAGS_ZN8 = 0x80" | "sign_mask FLAGS_ADD8 = 0x80" | "sign_mask FLAGS_SUB8 = 0x80"
| "sign_mask FLAGS_SHL8 = 0x80" | "sign_mask FLAGS_SHR8 = 0x80" | "sign_mask FLAGS_SAR8 = 0x80"
| "sign_mask FLAGS_INC8 = 0x80" | "sign_mask FLAGS_DEC8 = 0x80" | "sign_mask FLAGS_ADC8 = 0x80"
| "sign_mask FLAGS_SBC8 = 0x80"
| "sign_mask FLAGS_ZN16 = 0x8000" | "sign_mask FLAGS_ADD16 = 0x8000" | "sign_mask FLAGS_SUB16 = 0x8000"
| "sign_mask FLAGS_SHL16 = 0x8000" | "sign_mask FLAGS_SHR16 = 0x8000" | "sign_mask FLAGS_SAR16 = 0x8000"
| "sign_mask FLAGS_INC16 = 0x8000" | "sign_mask FLAGS_DEC16 = 0x8000" | "sign_mask FLAGS_ADC16 = 0x8000"
| "sign_mask FLAGS_SBC16 = 0x8000"
| "sign_mask _ = 0x80000000"

definition flags_res_valid :: "cpu_flags \<Rightarrow> bool" where
  "flags_res_valid s = (v_flags_op s \<notin> {FLAGS_UNKNOWN, FLAGS_ROL8, FLAGS_ROL16, FLAGS_ROL32,
    FLAGS_ROR8, FLAGS_ROR16, FLAGS_ROR32})"

definition NF_SET :: "cpu_flags \<Rightarrow> bool" where
  "NF_SET s =
    (case v_flags_op s of
       FLAGS_ROL8 \<Rightarrow> tst (v_flags s) N_FLAG | FLAGS_ROL16 \<Rightarrow> tst (v_flags s) N_FLAG
     | FLAGS_ROL32 \<Rightarrow> tst (v_flags s) N_FLAG | FLAGS_ROR8 \<Rightarrow> tst (v_flags s) N_FLAG
     | FLAGS_ROR16 \<Rightarrow> tst (v_flags s) N_FLAG | FLAGS_ROR32 \<Rightarrow> tst (v_flags s) N_FLAG
     | FLAGS_UNKNOWN \<Rightarrow> tst (v_flags s) N_FLAG
     | op \<Rightarrow> tst (v_flags_res s) (sign_mask op))"

definition PF_SET :: "cpu_flags \<Rightarrow> bool" where
  "PF_SET s =
    (case v_flags_op s of
       FLAGS_ROL8 \<Rightarrow> tst (v_flags s) P_FLAG | FLAGS_ROL16 \<Rightarrow> tst (v_flags s) P_FLAG
     | FLAGS_ROL32 \<Rightarrow> tst (v_flags s) P_FLAG | FLAGS_ROR8 \<Rightarrow> tst (v_flags s) P_FLAG
     | FLAGS_ROR16 \<Rightarrow> tst (v_flags s) P_FLAG | FLAGS_ROR32 \<Rightarrow> tst (v_flags s) P_FLAG
     | FLAGS_UNKNOWN \<Rightarrow> tst (v_flags s) P_FLAG
     | _ \<Rightarrow> tst (znptable8 (v_flags_res s AND 0xff)) P_FLAG)"

text \<open>Overflow of additions, subtractions and left shifts, for the sign bit \<open>m\<close>.\<close>

definition add_overflow :: "u32 \<Rightarrow> cpu_flags \<Rightarrow> bool" where
  "add_overflow m s \<longleftrightarrow>
    \<not> tst (v_flags_op1 s XOR v_flags_op2 s) m \<and> tst (v_flags_op1 s XOR v_flags_res s) m"

definition sub_overflow :: "u32 \<Rightarrow> cpu_flags \<Rightarrow> bool" where
  "sub_overflow m s \<longleftrightarrow>
    (v_flags_op1 s XOR v_flags_op2 s) AND (v_flags_op1 s XOR v_flags_res s) AND m \<noteq> 0"

definition shl_overflow :: "u32 \<Rightarrow> cpu_flags \<Rightarrow> bool" where
  "shl_overflow m s \<longleftrightarrow>
    tst (push_bit (unat (v_flags_op2 s)) (v_flags_op1 s) XOR push_bit (unat (v_flags_op2 s - 1)) (v_flags_op1 s)) m"

definition VF_SET :: "cpu_flags \<Rightarrow> bool" where
  "VF_SET s =
    (case v_flags_op s of
       FLAGS_ZN8 \<Rightarrow> False | FLAGS_ZN16 \<Rightarrow> False | FLAGS_ZN32 \<Rightarrow> False
     | FLAGS_SAR8 \<Rightarrow> False | FLAGS_SAR16 \<Rightarrow> False | FLAGS_SAR32 \<Rightarrow> False
     | FLAGS_ADC8 \<Rightarrow> add_overflow 0x80 s | FLAGS_ADD8 \<Rightarrow> add_overflow 0x80 s
     | FLAGS_INC8 \<Rightarrow> add_overflow 0x80 s
     | FLAGS_ADC16 \<Rightarrow> add_overflow 0x8000 s | FLAGS_ADD16 \<Rightarrow> add_overflow 0x8000 s
     | FLAGS_INC16 \<Rightarrow> add_overflow 0x8000 s
     | FLAGS_ADC32 \<Rightarrow> add_overflow 0x80000000 s | FLAGS_ADD32 \<Rightarrow> add_overflow 0x80000000 s
     | FLAGS_INC32 \<Rightarrow> add_overflow 0x80000000 s
     | FLAGS_SBC8 \<Rightarrow> sub_overflow 0x80 s | FLAGS_SUB8 \<Rightarrow> sub_overflow 0x80 s
     | FLAGS_DEC8 \<Rightarrow> sub_overflow 0x80 s
     | FLAGS_SBC16 \<Rightarrow> sub_overflow 0x8000 s | FLAGS_SUB16 \<Rightarrow> sub_overflow 0x8000 s
     | FLAGS_DEC16 \<Rightarrow> sub_overflow 0x8000 s
     | FLAGS_SBC32 \<Rightarrow> sub_overflow 0x80000000 s | FLAGS_SUB32 \<Rightarrow> sub_overflow 0x80000000 s
     | FLAGS_DEC32 \<Rightarrow> sub_overflow 0x80000000 s
     | FLAGS_SHL8 \<Rightarrow> shl_overflow 0x80 s | FLAGS_SHL16 \<Rightarrow> shl_overflow 0x8000 s
     | FLAGS_SHL32 \<Rightarrow> shl_overflow 0x80000000 s
     | FLAGS_SHR8 \<Rightarrow> v_flags_op2 s = 1 \<and> tst (v_flags_op1 s) 0x80
     | FLAGS_SHR16 \<Rightarrow> v_flags_op2 s = 1 \<and> tst (v_flags_op1 s) 0x8000
     | FLAGS_SHR32 \<Rightarrow> v_flags_op2 s = 1 \<and> tst (v_flags_op1 s) 0x80000000
     | FLAGS_ROL8 \<Rightarrow> tst (v_flags_res s XOR drop_bit 7 (v_flags_res s)) 1
     | FLAGS_ROL16 \<Rightarrow> tst (v_flags_res s XOR drop_bit 15 (v_flags_res s)) 1
     | FLAGS_ROL32 \<Rightarrow> tst (v_flags_res s XOR drop_bit 31 (v_flags_res s)) 1
     | FLAGS_ROR8 \<Rightarrow> tst (v_flags_res s XOR drop_bit 1 (v_flags_res s)) 0x40
     | FLAGS_ROR16 \<Rightarrow> tst (v_flags_res s XOR drop_bit 1 (v_flags_res s)) 0x4000
     | FLAGS_ROR32 \<Rightarrow> tst (v_flags_res s XOR drop_bit 1 (v_flags_res s)) 0x40000000
     | FLAGS_UNKNOWN \<Rightarrow> tst (v_flags s) V_FLAG)"

definition add_half :: "cpu_flags \<Rightarrow> bool" where
  "add_half s \<longleftrightarrow> tst ((v_flags_op1 s AND 0xf) + (v_flags_op2 s AND 0xf)) 0x10"

definition sub_half :: "cpu_flags \<Rightarrow> bool" where
  "sub_half s \<longleftrightarrow> tst ((v_flags_op1 s AND 0xf) - (v_flags_op2 s AND 0xf)) 0x10"

definition adc_half :: "u32 \<Rightarrow> cpu_flags \<Rightarrow> bool" where
  "adc_half m s \<longleftrightarrow> v_flags_res s AND 0xf < v_flags_op1 s AND 0xf \<or>
    v_flags_res s AND 0xf = v_flags_op1 s AND 0xf \<and> v_flags_op2 s = m"

definition sbc_half :: "cpu_flags \<Rightarrow> bool" where
  "sbc_half s \<longleftrightarrow> v_flags_op1 s AND 0xf < v_flags_op2 s AND 0xf \<or>
    v_flags_op1 s AND 0xf = v_flags_op2 s AND 0xf \<and> v_flags_res s AND 0xf \<noteq> 0"

definition AF_SET :: "cpu_flags \<Rightarrow> bool" where
  "AF_SET s =
    (case v_flags_op s of
       FLAGS_ADD8 \<Rightarrow> add_half s | FLAGS_ADD16 \<Rightarrow> add_half s | FLAGS_ADD32 \<Rightarrow> add_half s
     | FLAGS_INC8 \<Rightarrow> add_half s | FLAGS_INC16 \<Rightarrow> add_half s | FLAGS_INC32 \<Rightarrow> add_half s
     | FLAGS_ADC8 \<Rightarrow> adc_half 0xff s | FLAGS_ADC16 \<Rightarrow> adc_half 0xffff s
     | FLAGS_ADC32 \<Rightarrow> adc_half 0xffffffff s
     | FLAGS_SUB8 \<Rightarrow> sub_half s | FLAGS_SUB16 \<Rightarrow> sub_half s | FLAGS_SUB32 \<Rightarrow> sub_half s
     | FLAGS_DEC8 \<Rightarrow> sub_half s | FLAGS_DEC16 \<Rightarrow> sub_half s | FLAGS_DEC32 \<Rightarrow> sub_half s
     | FLAGS_SBC8 \<Rightarrow> sbc_half s | FLAGS_SBC16 \<Rightarrow> sbc_half s | FLAGS_SBC32 \<Rightarrow> sbc_half s
     | FLAGS_ROL8 \<Rightarrow> tst (v_flags s) A_FLAG | FLAGS_ROL16 \<Rightarrow> tst (v_flags s) A_FLAG
     | FLAGS_ROL32 \<Rightarrow> tst (v_flags s) A_FLAG | FLAGS_ROR8 \<Rightarrow> tst (v_flags s) A_FLAG
     | FLAGS_ROR16 \<Rightarrow> tst (v_flags s) A_FLAG | FLAGS_ROR32 \<Rightarrow> tst (v_flags s) A_FLAG
     | FLAGS_UNKNOWN \<Rightarrow> tst (v_flags s) A_FLAG
     | _ \<Rightarrow> False)"

definition adc_carry :: "u32 \<Rightarrow> cpu_flags \<Rightarrow> bool" where
  "adc_carry m s \<longleftrightarrow> v_flags_res s < v_flags_op1 s \<or> v_flags_res s = v_flags_op1 s \<and> v_flags_op2 s = m"

definition sbc_carry :: "cpu_flags \<Rightarrow> bool" where
  "sbc_carry s \<longleftrightarrow> v_flags_op1 s < v_flags_op2 s \<or> v_flags_op1 s = v_flags_op2 s \<and> v_flags_res s \<noteq> 0"

definition shl_carry :: "u32 \<Rightarrow> cpu_flags \<Rightarrow> bool" where
  "shl_carry m s \<longleftrightarrow> tst (push_bit (unat (v_flags_op2 s - 1)) (v_flags_op1 s)) m"

definition shr_carry :: "cpu_flags \<Rightarrow> bool" where
  "shr_carry s \<longleftrightarrow> tst (drop_bit (unat (v_flags_op2 s - 1)) (v_flags_op1 s)) 1"

text \<open>The signed right shift on the operand read back as an 8, 16 or 32-bit integer.\<close>

definition sar_carry8 :: "cpu_flags \<Rightarrow> bool" where
  "sar_carry8 s \<longleftrightarrow> odd (drop_bit (unat (v_flags_op2 s - 1)) (sint (ucast (v_flags_op1 s) :: u8)))"

definition sar_carry16 :: "cpu_flags \<Rightarrow> bool" where
  "sar_carry16 s \<longleftrightarrow> odd (drop_bit (unat (v_flags_op2 s - 1)) (sint (ucast (v_flags_op1 s) :: u16)))"

definition sar_carry32 :: "cpu_flags \<Rightarrow> bool" where
  "sar_carry32 s \<longleftrightarrow> odd (drop_bit (unat (v_flags_op2 s - 1)) (sint (v_flags_op1 s)))"

definition CF_SET :: "cpu_flags \<Rightarrow> bool" where
  "CF_SET s =
    (case v_flags_op s of
       FLAGS_ADD8 \<Rightarrow> tst (v_flags_op1 s + v_flags_op2 s) 0x100
     | FLAGS_ADD16 \<Rightarrow> tst (v_flags_op1 s + v_flags_op2 s) 0x10000
     | FLAGS_ADD32 \<Rightarrow> v_flags_res s < v_flags_op1 s
     | FLAGS_ADC8 \<Rightarrow> adc_carry 0xff s | FLAGS_ADC16 \<Rightarrow> adc_carry 0xffff s
     | FLAGS_ADC32 \<Rightarrow> adc_carry 0xffffffff s
     | FLAGS_SUB8 \<Rightarrow> v_flags_op1 s < v_flags_op2 s | FLAGS_SUB16 \<Rightarrow> v_flags_op1 s < v_flags_op2 s
     | FLAGS_SUB32 \<Rightarrow> v_flags_op1 s < v_flags_op2 s
     | FLAGS_SBC8 \<Rightarrow> sbc_carry s | FLAGS_SBC16 \<Rightarrow> sbc_carry s | FLAGS_SBC32 \<Rightarrow> sbc_carry s
     | FLAGS_SHL8 \<Rightarrow> shl_carry 0x80 s | FLAGS_SHL16 \<Rightarrow> shl_carry 0x8000 s
     | FLAGS_SHL32 \<Rightarrow> shl_carry 0x80000000 s
     | FLAGS_SHR8 \<Rightarrow> shr_carry s | FLAGS_SHR16 \<Rightarrow> shr_carry s | FLAGS_SHR32 \<Rightarrow> shr_carry s
     | FLAGS_SAR8 \<Rightarrow> sar_carry8 s | FLAGS_SAR16 \<Rightarrow> sar_carry16 s | FLAGS_SAR32 \<Rightarrow> sar_carry32 s
     | FLAGS_ZN8 \<Rightarrow> False | FLAGS_ZN16 \<Rightarrow> False | FLAGS_ZN32 \<Rightarrow> False
     | FLAGS_ROL8 \<Rightarrow> tst (v_flags_res s) 1 | FLAGS_ROL16 \<Rightarrow> tst (v_flags_res s) 1
     | FLAGS_ROL32 \<Rightarrow> tst (v_flags_res s) 1
     | FLAGS_ROR8 \<Rightarrow> tst (v_flags_res s) 0x80 | FLAGS_ROR16 \<Rightarrow> tst (v_flags_res s) 0x8000
     | FLAGS_ROR32 \<Rightarrow> tst (v_flags_res s) 0x80000000
     | _ \<Rightarrow> tst (v_flags s) C_FLAG)"

section \<open>Materialising the flags\<close>

definition flag_if :: "bool \<Rightarrow> u16 \<Rightarrow> u16" where
  "flag_if b m = (if b then m else 0)"

definition flags_rebuild :: "cpu_flags \<Rightarrow> cpu_flags" where
  "flags_rebuild s =
    (if v_flags_op s \<noteq> FLAGS_UNKNOWN then
       let tempf = flag_if (CF_SET s) C_FLAG OR flag_if (PF_SET s) P_FLAG OR flag_if (AF_SET s) A_FLAG OR
             flag_if (ZF_SET s) Z_FLAG OR flag_if (NF_SET s) N_FLAG OR flag_if (VF_SET s) V_FLAG
       in s\<lparr>v_flags := (v_flags s AND NOT 0x8d5) OR tempf, v_flags_op := FLAGS_UNKNOWN\<rparr>
     else s)"

definition flags_rebuild_zpna :: "cpu_flags \<Rightarrow> cpu_flags" where
  "flags_rebuild_zpna s =
    (if v_flags_op s \<noteq> FLAGS_UNKNOWN then
       let tempf = flag_if (PF_SET s) P_FLAG OR flag_if (AF_SET s) A_FLAG OR
             flag_if (ZF_SET s) Z_FLAG OR flag_if (NF_SET s) N_FLAG
       in s\<lparr>v_flags := (v_flags s AND NOT 0xd4) OR tempf, v_flags_op := FLAGS_UNKNOWN\<rparr>
     else s)"

definition flags_extract :: "cpu_flags \<Rightarrow> cpu_flags" where
  "flags_extract s = s\<lparr>v_flags_op := FLAGS_UNKNOWN\<rparr>"

definition flags_rebuild_c :: "cpu_flags \<Rightarrow> cpu_flags" where
  "flags_rebuild_c s =
    (if v_flags_op s \<noteq> FLAGS_UNKNOWN then
       (if CF_SET s then s\<lparr>v_flags := v_flags s OR C_FLAG\<rparr>
        else s\<lparr>v_flags := v_flags s AND NOT C_FLAG\<rparr>)
     else s)"

section \<open>Setters\<close>

definition setznp8 :: "u8 \<Rightarrow> cpu_flags \<Rightarrow> cpu_flags" where
  "setznp8 val s = s\<lparr>v_flags_op := FLAGS_ZN8, v_flags_res := ucast val\<rparr>"

definition setznp16 :: "u16 \<Rightarrow> cpu_flags \<Rightarrow> cpu_flags" where
  "setznp16 val s = s\<lparr>v_flags_op := FLAGS_ZN16, v_flags_res := ucast val\<rparr>"

definition setznp32 :: "u32 \<Rightarrow> cpu_flags \<Rightarrow> cpu_flags" where
  "setznp32 val s = s\<lparr>v_flags_op := FLAGS_ZN32, v_flags_res := val\<rparr>"

definition set_flags_shift :: "flags_op \<Rightarrow> u32 \<Rightarrow> u32 \<Rightarrow> u32 \<Rightarrow> cpu_flags \<Rightarrow> cpu_flags" where
  "set_flags_shift op orig shift res s =
    s\<lparr>v_flags_op := op, v_flags_res := res, v_flags_op1 := orig, v_flags_op2 := shift\<rparr>"

definition set_flags_rotate :: "flags_op \<Rightarrow> u32 \<Rightarrow> cpu_flags \<Rightarrow> cpu_flags" where
  "set_flags_rotate op res s = s\<lparr>v_flags_op := op, v_flags_res := res\<rparr>"

text \<open>The common shape of the arithmetic setters: two operands, the result, the operation.\<close>

definition set_arith :: "flags_op \<Rightarrow> u32 \<Rightarrow> u32 \<Rightarrow> u32 \<Rightarrow> cpu_flags \<Rightarrow> cpu_flags" where
  "set_arith op a b r s =
    s\<lparr>v_flags_op1 := a, v_flags_op2 := b, v_flags_res := r, v_flags_op := op\<rparr>"

definition setadd8 :: "u8 \<Rightarrow> u8 \<Rightarrow> cpu_flags \<Rightarrow> cpu_flags" where
  "setadd8 a b = set_arith FLAGS_ADD8 (ucast a) (ucast b) ((ucast a + ucast b) AND 0xff)"

definition setadd16 :: "u16 \<Rightarrow> u16 \<Rightarrow> cpu_flags \<Rightarrow> cpu_flags" where
  "setadd16 a b = set_arith FLAGS_ADD16 (ucast a) (ucast b) ((ucast a + ucast b) AND 0xffff)"

definition setadd32 :: "u32 \<Rightarrow> u32 \<Rightarrow> cpu_flags \<Rightarrow> cpu_flags" where
  "setadd32 a b = set_arith FLAGS_ADD32 a b (a + b)"

definition setadd8nc :: "u8 \<Rightarrow> u8 \<Rightarrow> cpu_flags \<Rightarrow> cpu_flags" where
  "setadd8nc a b s =
    set_arith FLAGS_INC8 (ucast a) (ucast b) ((ucast a + ucast b) AND 0xff) (flags_rebuild_c s)"

definition setadd16nc :: "u16 \<Rightarrow> u16 \<Rightarrow> cpu_flags \<Rightarrow> cpu_flags" where
  "setadd16nc a b s =
    set_arith FLAGS_INC16 (ucast a) (ucast b) ((ucast a + ucast b) AND 0xffff) (flags_rebuild_c s)"

definition setadd32nc :: "u32 \<Rightarrow> u32 \<Rightarrow> cpu_flags \<Rightarrow> cpu_flags" where
  "setadd32nc a b s = set_arith FLAGS_INC32 a b (a + b) (flags_rebuild_c s)"

definition setsub8 :: "u8 \<Rightarrow> u8 \<Rightarrow> cpu_flags \<Rightarrow> cpu_flags" where
  "setsub8 a b = set_arith FLAGS_SUB8 (ucast a) (ucast b) ((ucast a - ucast b) AND 0xff)"

definition setsub16 :: "u16 \<Rightarrow> u16 \<Rightarrow> cpu_flags \<Rightarrow> cpu_flags" where
  "setsub16 a b = set_arith FLAGS_SUB16 (ucast a) (ucast b) ((ucast a - ucast b) AND 0xffff)"

definition setsub32 :: "u32 \<Rightarrow> u32 \<Rightarrow> cpu_flags \<Rightarrow> cpu_flags" where
  "setsub32 a b = set_arith FLAGS_SUB32 a b (a - b)"

definition setsub8nc :: "u8 \<Rightarrow> u8 \<Rightarrow> cpu_flags \<Rightarrow> cpu_flags" where
  "setsub8nc a b s =
    set_arith FLAGS_DEC8 (ucast a) (ucast b) ((ucast a - ucast b) AND 0xff) (flags_rebuild_c s)"

definition setsub16nc :: "u16 \<Rightarrow> u16 \<Rightarrow> cpu_flags \<Rightarrow> cpu_flags" where
  "setsub16nc a b s =
    set_arith FLAGS_DEC16 (ucast a) (ucast b) ((ucast a - ucast b) AND 0xffff) (flags_rebuild_c s)"

definition setsub32nc :: "u32 \<Rightarrow> u32 \<Rightarrow> cpu_flags \<Rightarrow> cpu_flags" where
  "setsub32nc a b s = set_arith FLAGS_DEC32 a b (a - b) (flags_rebuild_c s)"

definition setadc8 :: "u8 \<Rightarrow> u8 \<Rightarrow> cpu_flags \<Rightarrow> cpu_flags" where
  "setadc8 a b s =
    set_arith FLAGS_ADC8 (ucast a) (ucast b) ((ucast a + ucast b + tempc s) AND 0xff) s"

definition setadc16 :: "u16 \<Rightarrow> u16 \<Rightarrow> cpu_flags \<Rightarrow> cpu_flags" where
  "setadc16 a b s =
    set_arith FLAGS_ADC16 (ucast a) (ucast b) ((ucast a + ucast b + tempc s) AND 0xffff) s"

definition setadc32 :: "u32 \<Rightarrow> u32 \<Rightarrow> cpu_flags \<Rightarrow> cpu_flags" where
  "setadc32 a b s = set_arith FLAGS_ADC32 a b (a + b + tempc s) s"

definition setsbc8 :: "u8 \<Rightarrow> u8 \<Rightarrow> cpu_flags \<Rightarrow> cpu_flags" where
  "setsbc8 a b s =
    set_arith FLAGS_SBC8 (ucast a) (ucast b) ((ucast a - (ucast b + tempc s)) AND 0xff) s"

definition setsbc16 :: "u16 \<Rightarrow> u16 \<Rightarrow> cpu_flags \<Rightarrow> cpu_flags" where
  "setsbc16 a b s =
    set_arith FLAGS_SBC16 (ucast a) (ucast b) ((ucast a - (ucast b + tempc s)) AND 0xffff) s"

definition setsbc32 :: "u32 \<Rightarrow> u32 \<Rightarrow> cpu_flags \<Rightarrow> cpu_flags" where
  "setsbc32 a b s = set_arith FLAGS_SBC32 a b (a - (b + tempc s)) s"

text \<open>
  The setters of the other build: the flags are computed at once, into the six arithmetic bits of
  \<open>flags\<close>.  \<open>c\<close> is kept at 32 bits, of which the sources read no more than bit 16; the 8-bit versions,
  which hold it in 16 bits, read no more than bit 8.
\<close>

definition set_eager :: "u16 \<Rightarrow> bool \<Rightarrow> bool \<Rightarrow> bool \<Rightarrow> cpu_flags \<Rightarrow> cpu_flags" where
  "set_eager znp cf vf af s =
    s\<lparr>v_flags_op := FLAGS_UNKNOWN,
      v_flags := (v_flags s AND NOT 0x8D5) OR znp OR flag_if cf C_FLAG OR flag_if vf V_FLAG OR flag_if af A_FLAG\<rparr>"

definition setadc8_eager :: "u8 \<Rightarrow> u8 \<Rightarrow> cpu_flags \<Rightarrow> cpu_flags" where
  "setadc8_eager x y s =
    (let a = ucast x; b = ucast y; c = a + b + tempc s in
     set_eager (znptable8 (c AND 0xFF)) (tst c 0x100)
       (\<not> tst (a XOR b) 0x80 \<and> tst (a XOR c) 0x80)
       (tst ((a AND 0xF) + (b AND 0xF) + tempc s) 0x10) s)"

definition setadc16_eager :: "u16 \<Rightarrow> u16 \<Rightarrow> cpu_flags \<Rightarrow> cpu_flags" where
  "setadc16_eager x y s =
    (let a = ucast x; b = ucast y; c = a + b + tempc s in
     set_eager (znptable16 (c AND 0xFFFF)) (tst c 0x10000)
       (\<not> tst (a XOR b) 0x8000 \<and> tst (a XOR c) 0x8000)
       (tst ((a AND 0xF) + (b AND 0xF) + tempc s) 0x10) s)"

definition znp32 :: "u32 \<Rightarrow> u16" where
  "znp32 c = (if tst c 0x80000000 then N_FLAG else if c = 0 then Z_FLAG else 0) OR
    (znptable8 (c AND 0xFF) AND P_FLAG)"

definition setadc32_eager :: "u32 \<Rightarrow> u32 \<Rightarrow> cpu_flags \<Rightarrow> cpu_flags" where
  "setadc32_eager a b s =
    (let c = a + b + tempc s in
     set_eager (znp32 c) (c < a \<or> c = a \<and> v_tempc s)
       (\<not> tst (a XOR b) 0x80000000 \<and> tst (a XOR c) 0x80000000)
       (tst ((a AND 0xF) + (b AND 0xF) + tempc s) 0x10) s)"

definition setsbc8_eager :: "u8 \<Rightarrow> u8 \<Rightarrow> cpu_flags \<Rightarrow> cpu_flags" where
  "setsbc8_eager x y s =
    (let a = ucast x; b = ucast y; c = a - (b + tempc s) in
     set_eager (znptable8 (c AND 0xFF)) (tst c 0x100)
       ((a XOR b) AND (a XOR c) AND 0x80 \<noteq> 0)
       (tst ((a AND 0xF) - ((b AND 0xF) + tempc s)) 0x10) s)"

definition setsbc16_eager :: "u16 \<Rightarrow> u16 \<Rightarrow> cpu_flags \<Rightarrow> cpu_flags" where
  "setsbc16_eager x y s =
    (let a = ucast x; b = ucast y; c = a - (b + tempc s) in
     set_eager ((znptable16 (c AND 0xFFFF) AND NOT 4) OR (znptable8 (c AND 0xFF) AND 4)) (tst c 0x10000)
       ((a XOR b) AND (a XOR c) AND 0x8000 \<noteq> 0)
       (tst ((a AND 0xF) - ((b AND 0xF) + tempc s)) 0x10) s)"

definition setsbc32_eager :: "u32 \<Rightarrow> u32 \<Rightarrow> cpu_flags \<Rightarrow> cpu_flags" where
  "setsbc32_eager a b s =
    (let c = a - (b + tempc s) in
     set_eager (znp32 c) (a < c \<or> c = a \<and> v_tempc s)
       ((a XOR b) AND (a XOR c) AND 0x80000000 \<noteq> 0)
       (tst ((a AND 0xF) - ((b AND 0xF) + tempc s)) 0x10) s)"

section \<open>Jump conditions\<close>

definition cond_O :: "cpu_flags \<Rightarrow> bool" where "cond_O s = VF_SET s"
definition cond_NO :: "cpu_flags \<Rightarrow> bool" where "cond_NO s = (\<not> VF_SET s)"
definition cond_B :: "cpu_flags \<Rightarrow> bool" where "cond_B s = CF_SET s"
definition cond_NB :: "cpu_flags \<Rightarrow> bool" where "cond_NB s = (\<not> CF_SET s)"
definition cond_E :: "cpu_flags \<Rightarrow> bool" where "cond_E s = ZF_SET s"
definition cond_NE :: "cpu_flags \<Rightarrow> bool" where "cond_NE s = (\<not> ZF_SET s)"
definition cond_BE :: "cpu_flags \<Rightarrow> bool" where "cond_BE s = (CF_SET s \<or> ZF_SET s)"
definition cond_NBE :: "cpu_flags \<Rightarrow> bool" where "cond_NBE s = (\<not> CF_SET s \<and> \<not> ZF_SET s)"
definition cond_S :: "cpu_flags \<Rightarrow> bool" where "cond_S s = NF_SET s"
definition cond_NS :: "cpu_flags \<Rightarrow> bool" where "cond_NS s = (\<not> NF_SET s)"
definition cond_P :: "cpu_flags \<Rightarrow> bool" where "cond_P s = PF_SET s"
definition cond_NP :: "cpu_flags \<Rightarrow> bool" where "cond_NP s = (\<not> PF_SET s)"
definition cond_L :: "cpu_flags \<Rightarrow> bool" where "cond_L s = (NF_SET s \<noteq> VF_SET s)"
definition cond_NL :: "cpu_flags \<Rightarrow> bool" where "cond_NL s = (NF_SET s = VF_SET s)"
definition cond_LE :: "cpu_flags \<Rightarrow> bool" where "cond_LE s = (NF_SET s \<noteq> VF_SET s \<or> ZF_SET s)"
definition cond_NLE :: "cpu_flags \<Rightarrow> bool" where "cond_NLE s = (NF_SET s = VF_SET s \<and> \<not> ZF_SET s)"

end
