(* ===== verification/X86_Flags_Correct.thy ===== *)
theory X86_Flags_Correct
  imports X86_Flags
begin

text \<open>
  The arithmetic flags of \<open>cpu/x86_flags.h\<close> against the architecture: what carry, half carry,
  parity, zero, sign and overflow mean for an addition or a subtraction with carry of n-bit words,
  over the unbounded integers the words stand for, and that the lazy evaluation (and the eager
  setters of the other build) computes exactly these.  The facts that do not depend on the width
  are proved once, in a locale for an operand width, and used at 8, 16 and 32 bits.
\<close>

section \<open>The architectural flags\<close>

record arith_flags =
  a_cf :: bool
  a_pf :: bool
  a_af :: bool
  a_zf :: bool
  a_sf :: bool
  a_of :: bool

definition flags_of :: "cpu_flags \<Rightarrow> arith_flags" where
  "flags_of s = \<lparr>a_cf = CF_SET s, a_pf = PF_SET s, a_af = AF_SET s, a_zf = ZF_SET s, a_sf = NF_SET s,
    a_of = VF_SET s\<rparr>"

definition even_parity :: "'a::len word \<Rightarrow> bool" where
  "even_parity r = even (length (filter (bit r) [0..<8]))"

definition arch_add :: "'a::len word \<Rightarrow> 'a word \<Rightarrow> bool \<Rightarrow> arith_flags" where
  "arch_add a b c =
    (let r = a + b + of_bool c in
     \<lparr>a_cf = 2 ^ LENGTH('a) \<le> uint a + uint b + of_bool c, a_pf = even_parity r,
      a_af = 16 \<le> uint a mod 16 + uint b mod 16 + of_bool c, a_zf = (r = 0), a_sf = sint r < 0,
      a_of = sint r \<noteq> sint a + sint b + of_bool c\<rparr>)"

definition arch_sub :: "'a::len word \<Rightarrow> 'a word \<Rightarrow> bool \<Rightarrow> arith_flags" where
  "arch_sub a b c =
    (let r = a - b - of_bool c in
     \<lparr>a_cf = uint a < uint b + of_bool c, a_pf = even_parity r,
      a_af = uint a mod 16 < uint b mod 16 + of_bool c, a_zf = (r = 0), a_sf = sint r < 0,
      a_of = sint r \<noteq> sint a - sint b - of_bool c\<rparr>)"

section \<open>Carries and borrows of integers\<close>

lemma bit_carry:
  fixes x :: int
  assumes "0 \<le> x" and "x < 2 * 2 ^ n"
  shows "bit x n \<longleftrightarrow> 2 ^ n \<le> x"
proof (cases "2 ^ n \<le> x")
  case True
  then have "x div 2 ^ n = 1" using assms by (intro div_pos_geq [THEN trans]) (auto simp: div_pos_pos_trivial)
  with True show ?thesis by (simp add: bit_iff_odd)
next
  case False
  with assms show ?thesis by (simp add: bit_iff_odd div_pos_pos_trivial)
qed

lemma bit_borrow:
  fixes x :: int
  assumes "- (2 ^ n) \<le> x" and "x < 2 ^ n"
  shows "bit x n \<longleftrightarrow> x < 0"
proof (cases "x < 0")
  case True
  have "(x + 2 ^ n) div 2 ^ n = x div 2 ^ n + 1" by (simp add: div_add_self2)
  moreover have "(x + 2 ^ n) div 2 ^ n = 0" using True assms by (simp add: div_pos_pos_trivial)
  ultimately have "x div 2 ^ n = -1" by linarith
  with True show ?thesis by (simp add: bit_iff_odd)
next
  case False
  with assms show ?thesis by (simp add: bit_iff_odd div_pos_pos_trivial)
qed

lemma mod_sum3: "(x mod 16 + y mod 16 + z) mod 16 = (x + y + z) mod 16" for x y z :: int
  by (rule mod_add_cong) (simp_all add: mod_simps)

lemma mod_diff3: "(x mod 16 - y mod 16 - z) mod 16 = (x - y - z) mod 16" for x y z :: int
  by (rule mod_diff_cong) (simp_all add: mod_simps)

lemma mod_carry:
  fixes x y w :: int
  assumes "0 \<le> x" "x < w" "0 \<le> y" "y < w"
  shows "(x + y + of_bool c) mod w = (if w \<le> x + y + of_bool c then x + y + of_bool c - w else x + y + of_bool c)"
proof -
  let ?k = "x + y + of_bool c"
  have "0 \<le> ?k" "?k < 2 * w" using assms by (cases c; simp)+
  moreover have "(?k - w) mod w = ?k mod w" by (rule minus_mod_self2)
  ultimately show ?thesis using mod_pos_pos_trivial [of "?k - w" w] mod_pos_pos_trivial [of ?k w] by auto
qed

lemma carry_from_result:
  fixes x y w :: int
  assumes "0 \<le> x" "x < w" "0 \<le> y" "y < w" "1 < w"
  shows "(x + y + of_bool c) mod w < x \<or> (x + y + of_bool c) mod w = x \<and> y = w - 1 \<longleftrightarrow> w \<le> x + y + of_bool c"
  using assms unfolding mod_carry [OF assms(1-4)] by (cases c) auto

text \<open>Whether the signed result is the true result is told by the three signs.\<close>

lemma sint_wrap:
  fixes x :: int
  defines "N \<equiv> 2 ^ (LENGTH('a::len) - 1)"
  assumes "- (3 * N) \<le> x" and "x < 3 * N"
  shows "sint (word_of_int x :: 'a word) =
    (if x < - N then x + 2 * N else if N \<le> x then x - 2 * N else x)"
proof -
  have N: "2 ^ LENGTH('a) = 2 * N" by (simp add: N_def power_eq_if)
  have "sint (word_of_int x :: 'a word) = (x + N) mod (2 * N) - N"
    by (simp add: int_word_sint N N_def)
  moreover have "(x + N) mod (2 * N) =
    (if x < - N then x + 3 * N else if N \<le> x then x - N else x + N)"
    using assms(2,3) by (auto simp: mod_pos_pos_trivial mod_pos_geq mod_neg_neg_trivial
      intro: trans [OF mod_add_self2 [symmetric]])
  ultimately show ?thesis by auto
qed

lemma sint_range: "- (2 ^ (LENGTH('a) - 1)) \<le> sint a" "sint a < 2 ^ (LENGTH('a) - 1)"
  for a :: "'a::len word"
  by (rule sint_ge, rule sint_lt)

lemma add_of_int: "a + b + of_bool c = word_of_int (sint a + sint b + of_bool c)" for a :: "'a::len word"
  by simp

lemma sub_of_int: "a - b - of_bool c = word_of_int (sint a - sint b - of_bool c)" for a :: "'a::len word"
  by simp

lemma signed_add_overflow:
  fixes a b :: "'a::len word" and c :: bool
  defines "r \<equiv> a + b + of_bool c"
  shows "sint r \<noteq> sint a + sint b + of_bool c \<longleftrightarrow>
    (sint a < 0 \<longleftrightarrow> sint b < 0) \<and> (sint a < 0 \<longleftrightarrow> \<not> sint r < 0)"
  using sint_range [of a] sint_range [of b] sint_wrap [where ?'a = 'a, of "sint a + sint b + of_bool c"]
  unfolding r_def add_of_int by (cases c) (auto split: if_splits)

lemma signed_sub_overflow:
  fixes a b :: "'a::len word" and c :: bool
  defines "r \<equiv> a - b - of_bool c"
  shows "sint r \<noteq> sint a - sint b - of_bool c \<longleftrightarrow>
    (sint a < 0 \<longleftrightarrow> \<not> sint b < 0) \<and> (sint a < 0 \<longleftrightarrow> \<not> sint r < 0)"
  using sint_range [of a] sint_range [of b] sint_wrap [where ?'a = 'a, of "sint a - sint b - of_bool c"]
  unfolding r_def sub_of_int by (cases c) (auto split: if_splits)

section \<open>Operands of one width inside a 32-bit field\<close>

text \<open>
  An operand of n bits (at least 8, at most 32) sits zero-extended in a 32-bit field; \<open>m\<close> is the mask
  of its sign bit and \<open>full\<close> the mask of its width.
\<close>

locale flag_width =
  fixes ty :: "'a::len itself" and m :: u32 and full :: u32
  assumes wide: "8 \<le> LENGTH('a)" and narrow: "LENGTH('a) \<le> 32"
    and sign_bit: "m = 2 ^ (LENGTH('a) - 1)" and all_bits: "full = mask LENGTH('a)"
begin

lemma sign_up: "tst (ucast a) m \<longleftrightarrow> sint a < 0" for a :: "'a word"
  using narrow by (simp add: sign_bit tst_bit bit_last_iff [symmetric] bit_simps)

lemma sign_xor: "tst (ucast a XOR ucast b) m \<longleftrightarrow> (sint a < 0) \<noteq> (sint b < 0)" for a b :: "'a word"
  using sign_up [of a] sign_up [of b] by (simp add: sign_bit tst_bit bit_simps)

lemma sign_and: "(ucast a XOR ucast b) AND (ucast a XOR ucast r) AND m \<noteq> 0 \<longleftrightarrow>
    (sint a < 0) \<noteq> (sint b < 0) \<and> (sint a < 0) \<noteq> (sint r < 0)" for a b r :: "'a word"
  using sign_xor [of a b] sign_xor [of a r]
  by (simp add: sign_bit tst_def and_exp_eq_0_iff_not_bit bit_simps flip: and.assoc)

lemma low_up: "x AND full = ucast (ucast x :: 'a word)"
  using narrow by (intro bit_word_eqI) (auto simp: all_bits bit_simps)

lemma add_up: "ucast a + ucast b + of_bool c = (word_of_int (uint a + uint b + of_bool c) :: u32)"
  for a b :: "'a word"
  by (cases c) (simp_all only: ucast_eq of_int_add of_bool_eq of_int_0 of_int_1)

lemma sub_up: "ucast a - (ucast b + of_bool c) = (word_of_int (uint a - uint b - of_bool c) :: u32)"
  for a b :: "'a word"
  by (cases c) (simp_all only: ucast_eq of_int_diff of_int_add of_bool_eq of_int_0 of_int_1 diff_diff_add)

lemma down_of_int: "ucast (word_of_int k :: u32) = (word_of_int k :: 'a word)"
  using narrow by (simp add: ucast_down_wi is_down)

lemma add_low: "(ucast a + ucast b + of_bool c) AND full = (ucast (a + b + of_bool c) :: u32)"
  for a b :: "'a word"
  unfolding add_up low_up down_of_int by simp

lemma sub_low: "(ucast a - (ucast b + of_bool c)) AND full = (ucast (a - b - of_bool c) :: u32)"
  for a b :: "'a word"
  unfolding sub_up low_up down_of_int by simp

lemma carry_up:
  fixes a b :: "'a word"
  assumes "LENGTH('a) < 32"
  shows "tst (ucast a + ucast b + of_bool c :: u32) (2 ^ LENGTH('a)) \<longleftrightarrow>
    2 ^ LENGTH('a) \<le> uint a + uint b + of_bool c"
proof -
  have "0 \<le> uint a + uint b + of_bool c" and "uint a + uint b + of_bool c < 2 * 2 ^ LENGTH('a)"
    using uint_lt2p [of a] uint_lt2p [of b] by (cases c; linarith?; simp)+
  then show ?thesis
    using assms by (simp only: add_up tst_bit bit_word_of_int_iff bit_carry) simp
qed

lemma borrow_up:
  fixes a b :: "'a word"
  assumes "LENGTH('a) < 32"
  shows "tst (ucast a - (ucast b + of_bool c) :: u32) (2 ^ LENGTH('a)) \<longleftrightarrow> uint a < uint b + of_bool c"
proof -
  have "- (2 ^ LENGTH('a)) \<le> uint a - uint b - of_bool c" and "uint a - uint b - of_bool c < 2 ^ LENGTH('a)"
    using uint_lt2p [of a] uint_lt2p [of b] uint_ge_0 [of a] uint_ge_0 [of b] by (cases c; linarith?; simp)+
  then show ?thesis
    using assms by (simp only: sub_up tst_bit bit_word_of_int_iff bit_borrow) (simp, linarith)
qed

lemma uint_up: "uint (ucast a :: u32) = uint a" for a :: "'a word"
  using narrow by (simp add: uint_up_ucast is_up)

lemma nibble_up: "(ucast a AND 0xf :: u32) = word_of_int (uint a mod 16)" for a :: "'a word"
proof -
  have "(ucast a AND 0xf :: u32) = take_bit 4 (ucast a)" by (simp add: take_bit_eq_mask mask_eq_exp_minus_1)
  then have "uint (ucast a AND 0xf :: u32) = uint a mod 16"
    by (simp only: unsigned_take_bit_eq uint_up) (simp add: take_bit_eq_mod)
  then show ?thesis by (metis word_of_int_uint)
qed

lemma nibble_carry: "tst ((ucast a AND 0xf) + (ucast b AND 0xf) + of_bool c :: u32) 0x10 \<longleftrightarrow>
    16 \<le> uint a mod 16 + uint b mod 16 + of_bool c" for a b :: "'a word"
proof -
  have "(ucast a AND 0xf) + (ucast b AND 0xf) + of_bool c =
      (word_of_int (uint a mod 16 + uint b mod 16 + of_bool c) :: u32)"
    by (cases c) (simp_all only: nibble_up of_int_add of_bool_eq of_int_0 of_int_1)
  then show ?thesis
    by (simp only: tst_mask_bits bit_word_of_int_iff) (subst bit_carry, auto)
qed

lemma nibble_borrow: "tst ((ucast a AND 0xf) - ((ucast b AND 0xf) + of_bool c) :: u32) 0x10 \<longleftrightarrow>
    uint a mod 16 < uint b mod 16 + of_bool c" for a b :: "'a word"
proof -
  have "(ucast a AND 0xf) - ((ucast b AND 0xf) + of_bool c) =
      (word_of_int (uint a mod 16 - (uint b mod 16 + of_bool c)) :: u32)"
    by (cases c) (simp_all only: nibble_up of_int_add of_int_diff of_bool_eq of_int_0 of_int_1)
  moreover have "0 \<le> uint a mod 16" "uint a mod 16 < 16" "0 \<le> uint b mod 16" "uint b mod 16 < 16" by simp_all
  ultimately show ?thesis
    by (simp only: tst_mask_bits bit_word_of_int_iff) (subst bit_borrow, auto)
qed

lemma less_up: "(ucast a :: u32) < ucast b \<longleftrightarrow> uint a < uint b" for a b :: "'a word"
  by (simp only: word_less_def uint_up)

lemma eq_up: "(ucast a :: u32) = ucast b \<longleftrightarrow> a = b" for a b :: "'a word"
  by (metis uint_up word_uint_eqI)

lemma full_up: "(ucast b :: u32) = full \<longleftrightarrow> uint b = 2 ^ LENGTH('a) - 1" for b :: "'a word"
proof -
  have "full = ucast (- 1 :: 'a word)" using low_up [of full] narrow
    by (simp add: all_bits) (intro bit_word_eqI, auto simp: bit_simps)
  then have "(ucast b :: u32) = full \<longleftrightarrow> uint b = uint (- 1 :: 'a word)" by (metis eq_up word_uint_eqI)
  then show ?thesis by (simp add: unsigned_minus_1_eq_mask mask_eq_exp_minus_1)
qed

lemma uint_nibble: "uint (ucast a AND 0xf :: u32) = uint a mod 16" for a :: "'a word"
  unfolding nibble_up by (simp add: uint_word_of_int take_bit_eq_mod)

lemma nibble_less: "(ucast a AND 0xf :: u32) < ucast b AND 0xf \<longleftrightarrow> uint a mod 16 < uint b mod 16"
  for a b :: "'a word"
  by (simp only: word_less_def uint_nibble)

lemma nibble_eq: "(ucast a AND 0xf :: u32) = ucast b AND 0xf \<longleftrightarrow> uint a mod 16 = uint b mod 16"
  for a b :: "'a word"
  by (metis uint_nibble word_uint_eqI)

lemma nibble_zero: "(ucast a AND 0xf :: u32) = 0 \<longleftrightarrow> uint a mod 16 = 0" for a :: "'a word"
  by (metis uint_nibble uint_0_iff)

lemma dvd_width: "(16::int) dvd 2 ^ LENGTH('a)"
  using le_imp_power_dvd [of 4 "LENGTH('a)" "2::int"] wide by simp

lemma uint_sum: "uint (a + b + of_bool c) = (uint a + uint b + of_bool c) mod 2 ^ LENGTH('a)" for a b :: "'a word"
  by (cases c) (simp_all add: uint_word_ariths mod_simps)

lemma uint_difference: "uint (a - b - of_bool c) = (uint a - uint b - of_bool c) mod 2 ^ LENGTH('a)" for a b :: "'a word"
  by (cases c) (simp_all add: uint_word_ariths mod_simps)

lemma sum_nibble: "uint (a + b + of_bool c) mod 16 = (uint a mod 16 + uint b mod 16 + of_bool c) mod 16" for a b :: "'a word"
  by (simp only: uint_sum mod_mod_cancel [OF dvd_width] mod_sum3)

lemma difference_nibble: "uint (a - b - of_bool c) mod 16 = (uint a mod 16 - uint b mod 16 - of_bool c) mod 16" for a b :: "'a word"
  by (simp only: uint_difference mod_mod_cancel [OF dvd_width] mod_diff3)

text \<open>The lazily computed carries, from the operands and the truncated result alone.\<close>

lemma adc_carry_up:
  fixes a b :: "'a word"
  assumes "v_flags_op1 s = ucast a" "v_flags_op2 s = ucast b" "v_flags_res s = ucast (a + b + of_bool c)"
  shows "adc_carry full s \<longleftrightarrow> 2 ^ LENGTH('a) \<le> uint a + uint b + of_bool c"
  unfolding adc_carry_def assms less_up eq_up full_up word_uint_eq_iff [of "a + b + of_bool c"] uint_sum
  using wide by (intro carry_from_result) simp_all

lemma sbc_carry_up:
  fixes a b :: "'a word"
  assumes "v_flags_op1 s = ucast a" "v_flags_op2 s = ucast b" "v_flags_res s = ucast (a - b - of_bool c)"
  shows "sbc_carry s \<longleftrightarrow> uint a < uint b + of_bool c"
proof -
  have "(ucast (a - b - of_bool c) :: u32) = 0 \<longleftrightarrow> a - b - of_bool c = 0" by (metis eq_up unsigned_0)
  then show ?thesis unfolding sbc_carry_def assms less_up eq_up
    by (cases c) (auto simp: le_less dest: word_uint_eqI)
qed

lemma sbc_half_up:
  fixes a b :: "'a word"
  assumes "v_flags_op1 s = ucast a" "v_flags_op2 s = ucast b" "v_flags_res s = ucast (a - b - of_bool c)"
  shows "sbc_half s \<longleftrightarrow> uint a mod 16 < uint b mod 16 + of_bool c"
  unfolding sbc_half_def assms nibble_less nibble_eq nibble_zero difference_nibble
  by (cases c) auto

text \<open>Half carry of an addition with carry: right but for a low nibble of 15 and an incoming carry.\<close>

lemma adc_half_up:
  fixes a b :: "'a word"
  assumes "v_flags_op1 s = ucast a" "v_flags_op2 s = ucast b" "v_flags_res s = ucast (a + b + of_bool c)"
  shows "adc_half full s \<longleftrightarrow>
    16 \<le> uint a mod 16 + uint b mod 16 + of_bool c \<and> \<not> (c \<and> uint b mod 16 = 15 \<and> uint b \<noteq> 2 ^ LENGTH('a) - 1)"
proof -
  have "uint b mod 16 = 15" if "uint b = 2 ^ LENGTH('a) - 1"
    unfolding that using mod_diff_eq [of "2 ^ LENGTH('a) :: int" 16 1] dvd_width by simp
  then have "adc_half full s \<longleftrightarrow> (uint a mod 16 + uint b mod 16 + of_bool c) mod 16 < uint a mod 16 \<or>
      (uint a mod 16 + uint b mod 16 + of_bool c) mod 16 = uint a mod 16 \<and> uint b mod 16 = 16 - 1 \<and>
      uint b = 2 ^ LENGTH('a) - 1"
    unfolding adc_half_def assms nibble_less nibble_eq full_up sum_nibble by auto
  then show ?thesis
    using carry_from_result [of "uint a mod 16" 16 "uint b mod 16" c] mod_carry [of "uint a mod 16" 16 "uint b mod 16" c]
    by (cases c) (auto split: if_splits)
qed

lemma parity_up: "tst (znptable8 (ucast r AND 0xff)) P_FLAG \<longleftrightarrow> even_parity r" for r :: "'a word"
proof -
  have "ones8 (ucast r AND 0xff) = length (filter (bit r) [0..<8])"
    unfolding ones8_def using wide narrow
    by (intro arg_cong [where f = length] filter_cong)
      (auto simp: tst_push_bit bit_simps simp del: push_bit_of_1 dest!: less_8_cases)
  then show ?thesis
    by (simp add: znptable8_def tst_def P_FLAG_def Z_FLAG_def N_FLAG_def even_parity_def)
qed

lemma zero_up: "(ucast r :: u32) = 0 \<longleftrightarrow> r = 0" for r :: "'a word"
  by (metis eq_up unsigned_0)

lemma add_overflow_up:
  fixes a b :: "'a word"
  assumes "v_flags_op1 s = ucast a" "v_flags_op2 s = ucast b" "v_flags_res s = ucast (a + b + of_bool c)"
  shows "add_overflow m s \<longleftrightarrow> sint (a + b + of_bool c) \<noteq> sint a + sint b + of_bool c"
  unfolding add_overflow_def assms sign_xor signed_add_overflow by blast

lemma sub_overflow_up:
  fixes a b :: "'a word"
  assumes "v_flags_op1 s = ucast a" "v_flags_op2 s = ucast b" "v_flags_res s = ucast (a - b - of_bool c)"
  shows "sub_overflow m s \<longleftrightarrow> sint (a - b - of_bool c) \<noteq> sint a - sint b - of_bool c"
  unfolding sub_overflow_def assms sign_and signed_sub_overflow by blast

lemmas result_up = sign_up parity_up zero_up
lemmas half_up = nibble_carry [where c = False, simplified] nibble_borrow [where c = False, simplified]

lemma sign_xor_low: "tst (ucast a XOR x) m \<longleftrightarrow> (sint a < 0) \<noteq> (sint (ucast x :: 'a word) < 0)" for a :: "'a word"
proof -
  have "tst (ucast a XOR x) m \<longleftrightarrow> tst (ucast a XOR (x AND full)) m"
    using narrow by (simp add: sign_bit all_bits tst_bit bit_simps)
  then show ?thesis unfolding low_up sign_xor .
qed

lemma sign_and_low: "(ucast a XOR ucast b) AND (ucast a XOR x) AND m \<noteq> 0 \<longleftrightarrow>
    (sint a < 0) \<noteq> (sint b < 0) \<and> (sint a < 0) \<noteq> (sint (ucast x :: 'a word) < 0)" for a b :: "'a word"
  using sign_xor [of a b] sign_xor_low [of a x]
  by (simp add: sign_bit tst_def and_exp_eq_0_iff_not_bit bit_simps flip: and.assoc)

lemma parity_low: "tst (znptable8 (x AND 0xff)) P_FLAG \<longleftrightarrow> even_parity (ucast x :: 'a word)"
proof -
  have "bit (0xff :: u32) n \<Longrightarrow> n < 8" for n
    using bit_mask_iff [of 8 n, where ?'a = u32] by (simp add: mask_eq_exp_minus_1)
  then have "x AND 0xff = (x AND full) AND 0xff"
    using wide by (intro bit_word_eqI) (auto simp: all_bits bit_simps dest: less_le_trans)
  then show ?thesis by (simp only: low_up parity_up)
qed

lemma add_down: "ucast (ucast a + ucast b + of_bool c :: u32) = a + b + of_bool c" for a b :: "'a word"
  unfolding add_up down_of_int by simp

lemma sub_down: "ucast (ucast a - (ucast b + of_bool c) :: u32) = a - b - of_bool c" for a b :: "'a word"
  unfolding sub_up down_of_int by simp

lemma up_down: "ucast (ucast a :: u32) = a" for a :: "'a word"
  using low_up [of "ucast a"] narrow by (simp add: ucast_up_ucast_id is_up)

lemmas eager_up = sign_xor sign_xor_low sign_and_low low_up sign_up zero_up nibble_carry nibble_borrow
  add_down sub_down up_down

end


interpretation byte: flag_width "TYPE(8)" "0x80" "0xff"
  by unfold_locales (simp_all add: mask_eq_exp_minus_1)

interpretation half: flag_width "TYPE(16)" "0x8000" "0xffff"
  by unfold_locales (simp_all add: mask_eq_exp_minus_1)

interpretation full: flag_width "TYPE(32)" "0x80000000" "0xffffffff"
  by unfold_locales (simp_all add: mask_eq_exp_minus_1)

section \<open>Lazy flags of additions and subtractions\<close>

lemma tempc_of_bool: "tempc s = of_bool (v_tempc s)"
  by (simp add: tempc_def)

lemma set_arith_fields [simp]:
  "v_flags_op1 (set_arith op a b r s) = a" "v_flags_op2 (set_arith op a b r s) = b"
  "v_flags_res (set_arith op a b r s) = r" "v_flags_op (set_arith op a b r s) = op"
  "v_flags (set_arith op a b r s) = v_flags s" "v_tempc (set_arith op a b r s) = v_tempc s"
  by (simp_all add: set_arith_def)

lemmas queries = flags_of_def CF_SET_def PF_SET_def AF_SET_def ZF_SET_def NF_SET_def VF_SET_def

lemmas setters = setadd8_def setadd16_def setadd32_def setsub8_def setsub16_def setsub32_def
  setadd8nc_def setadd16nc_def setadd32nc_def setsub8nc_def setsub16nc_def setsub32nc_def
  setadc8_def setadc16_def setadc32_def setsbc8_def setsbc16_def setsbc32_def

lemmas byte_up = byte.sign_up [simplified] byte.parity_up byte.zero_up byte.half_up [simplified] byte.less_up
lemmas half_word_up = half.sign_up half.parity_up half.zero_up half.half_up [simplified] half.less_up
lemmas word_up = full.sign_up [unfolded ucast_id] full.parity_up [unfolded ucast_id] full.half_up [unfolded ucast_id, simplified]

lemma rebuild_c_fields [simp]: "v_tempc (flags_rebuild_c s) = v_tempc s"
  by (simp add: flags_rebuild_c_def)

lemma rebuild_c_carry: "tst (v_flags (flags_rebuild_c s)) C_FLAG \<longleftrightarrow> CF_SET s"
  by (auto simp: flags_rebuild_c_def C_FLAG_def bit_simps CF_SET_def [of s])

lemma add8_flags: "flags_of (setadd8 a b s) = arch_add a b False"
  and inc8_flags: "flags_of (setadd8nc a b s) = (arch_add a b False)\<lparr>a_cf := CF_SET s\<rparr>"
  using byte.add_overflow_up [of "setadd8 a b s" a b False] byte.add_overflow_up [of "setadd8nc a b s" a b False]
    byte.add_low [of a b False] byte.carry_up [of a b False]
  by (simp_all add: queries setters arch_add_def byte_up add_half_def Let_def rebuild_c_carry [unfolded CF_SET_def])

lemma add16_flags: "flags_of (setadd16 a b s) = arch_add a b False"
  and inc16_flags: "flags_of (setadd16nc a b s) = (arch_add a b False)\<lparr>a_cf := CF_SET s\<rparr>"
  using half.add_overflow_up [of "setadd16 a b s" a b False] half.add_overflow_up [of "setadd16nc a b s" a b False]
    half.add_low [of a b False] half.carry_up [of a b False]
  by (simp_all add: queries setters arch_add_def half_word_up add_half_def Let_def rebuild_c_carry [unfolded CF_SET_def])

lemma sum_less: "a + b < a \<longleftrightarrow> 2 ^ LENGTH('a) \<le> uint a + uint b" for a b :: "'a::len word"
  using mod_carry [of "uint a" "2 ^ LENGTH('a)" "uint b" False] uint_lt2p [of b] uint_ge_0 [of b]
  by (simp add: word_less_def uint_word_ariths)

lemma add32_flags: "flags_of (setadd32 a b s) = arch_add a b False"
  and inc32_flags: "flags_of (setadd32nc a b s) = (arch_add a b False)\<lparr>a_cf := CF_SET s\<rparr>"
  using full.add_overflow_up [of "setadd32 a b s" a b False] full.add_overflow_up [of "setadd32nc a b s" a b False]
    sum_less [of a b]
  by (simp_all add: queries setters arch_add_def word_up add_half_def Let_def rebuild_c_carry [unfolded CF_SET_def])

lemma sub8_flags: "flags_of (setsub8 a b s) = arch_sub a b False"
  and dec8_flags: "flags_of (setsub8nc a b s) = (arch_sub a b False)\<lparr>a_cf := CF_SET s\<rparr>"
  using byte.sub_overflow_up [of "setsub8 a b s" a b False] byte.sub_overflow_up [of "setsub8nc a b s" a b False]
    byte.sub_low [of a b False]
  by (simp_all add: queries setters arch_sub_def byte_up sub_half_def Let_def rebuild_c_carry [unfolded CF_SET_def]
    del: right_minus_eq)

lemma sub16_flags: "flags_of (setsub16 a b s) = arch_sub a b False"
  and dec16_flags: "flags_of (setsub16nc a b s) = (arch_sub a b False)\<lparr>a_cf := CF_SET s\<rparr>"
  using half.sub_overflow_up [of "setsub16 a b s" a b False] half.sub_overflow_up [of "setsub16nc a b s" a b False]
    half.sub_low [of a b False]
  by (simp_all add: queries setters arch_sub_def half_word_up sub_half_def Let_def rebuild_c_carry [unfolded CF_SET_def]
    del: right_minus_eq)

lemma sub32_flags: "flags_of (setsub32 a b s) = arch_sub a b False"
  and dec32_flags: "flags_of (setsub32nc a b s) = (arch_sub a b False)\<lparr>a_cf := CF_SET s\<rparr>"
  using full.sub_overflow_up [of "setsub32 a b s" a b False] full.sub_overflow_up [of "setsub32nc a b s" a b False]
  by (simp_all add: queries setters arch_sub_def word_up sub_half_def Let_def rebuild_c_carry [unfolded CF_SET_def]
    word_less_def)

text \<open>
  Additions and subtractions with carry.  \<open>adc_af_lost\<close> are the additions whose half carry the lazy
  evaluation misses.
\<close>

definition adc_af_lost :: "'a::len word \<Rightarrow> bool \<Rightarrow> bool" where
  "adc_af_lost b c \<longleftrightarrow> c \<and> uint b mod 16 = 15 \<and> uint b \<noteq> 2 ^ LENGTH('a) - 1"

definition adc_lazy :: "'a::len word \<Rightarrow> 'a word \<Rightarrow> bool \<Rightarrow> arith_flags" where
  "adc_lazy a b c = (arch_add a b c)\<lparr>a_af := a_af (arch_add a b c) \<and> \<not> adc_af_lost b c\<rparr>"

lemmas adc_defs = adc_lazy_def adc_af_lost_def arch_add_def arch_sub_def tempc_of_bool Let_def

lemma adc8_flags: "flags_of (setadc8 a b s) = adc_lazy a b (v_tempc s)"
  using byte.add_overflow_up [of "setadc8 a b s" a b "v_tempc s"] byte.add_low [of a b "v_tempc s"]
    byte.adc_carry_up [of "setadc8 a b s" a b "v_tempc s"] byte.adc_half_up [of "setadc8 a b s" a b "v_tempc s"]
  by (simp add: queries setters byte_up adc_defs)

lemma adc16_flags: "flags_of (setadc16 a b s) = adc_lazy a b (v_tempc s)"
  using half.add_overflow_up [of "setadc16 a b s" a b "v_tempc s"] half.add_low [of a b "v_tempc s"]
    half.adc_carry_up [of "setadc16 a b s" a b "v_tempc s"] half.adc_half_up [of "setadc16 a b s" a b "v_tempc s"]
  by (simp add: queries setters half_word_up adc_defs)

lemma adc32_flags: "flags_of (setadc32 a b s) = adc_lazy a b (v_tempc s)"
  using full.add_overflow_up [of "setadc32 a b s" a b "v_tempc s"]
    full.adc_carry_up [of "setadc32 a b s" a b "v_tempc s"] full.adc_half_up [of "setadc32 a b s" a b "v_tempc s"]
  by (simp add: queries setters word_up adc_defs)

lemma sbc8_flags: "flags_of (setsbc8 a b s) = arch_sub a b (v_tempc s)"
  using byte.sub_overflow_up [of "setsbc8 a b s" a b "v_tempc s"] byte.sub_low [of a b "v_tempc s"]
    byte.sbc_carry_up [of "setsbc8 a b s" a b "v_tempc s"] byte.sbc_half_up [of "setsbc8 a b s" a b "v_tempc s"]
  by (simp add: queries setters byte_up adc_defs)

lemma sbc16_flags: "flags_of (setsbc16 a b s) = arch_sub a b (v_tempc s)"
  using half.sub_overflow_up [of "setsbc16 a b s" a b "v_tempc s"] half.sub_low [of a b "v_tempc s"]
    half.sbc_carry_up [of "setsbc16 a b s" a b "v_tempc s"] half.sbc_half_up [of "setsbc16 a b s" a b "v_tempc s"]
  by (simp add: queries setters half_word_up adc_defs)

lemma sbc32_flags: "flags_of (setsbc32 a b s) = arch_sub a b (v_tempc s)"
  using full.sub_overflow_up [of "setsbc32 a b s" a b "v_tempc s"]
    full.sbc_carry_up [of "setsbc32 a b s" a b "v_tempc s"] full.sbc_half_up [of "setsbc32 a b s" a b "v_tempc s"]
  by (simp add: queries setters word_up adc_defs diff_diff_add)

section \<open>Eager flags\<close>

lemma eager_flags:
  "flags_of (set_eager (flag_if p P_FLAG OR flag_if z Z_FLAG OR flag_if n N_FLAG) cf vf af s) =
    \<lparr>a_cf = cf, a_pf = p, a_af = af, a_zf = z, a_sf = n, a_of = vf\<rparr>"
  using tst_bit [of _ 11, where ?'a = 16]
  by (simp add: queries set_eager_def flag_if_def C_FLAG_def P_FLAG_def A_FLAG_def Z_FLAG_def N_FLAG_def V_FLAG_def
    bit_simps)

lemma znptable8_flags: "znptable8 c =
    flag_if (tst (znptable8 c) P_FLAG) P_FLAG OR flag_if (c = 0) Z_FLAG OR flag_if (tst c 0x80) N_FLAG"
  by (simp add: znptable8_def flag_if_def P_FLAG_def Z_FLAG_def N_FLAG_def bit_simps)

lemma znptable16_flags: "znptable16 c =
    flag_if (tst (znptable8 (c AND 0xff)) P_FLAG) P_FLAG OR flag_if (c = 0) Z_FLAG OR flag_if (tst c 0x8000) N_FLAG"
  (is "_ = ?r")
proof -
  have "ones8 (c AND 0xff) = ones8 c"
    unfolding ones8_def
    by (intro arg_cong [where f = length] filter_cong)
      (auto simp: tst_push_bit bit_simps simp del: push_bit_of_1 dest!: less_8_cases)
  then show ?thesis
    by (simp add: znptable8_def znptable16_def flag_if_def P_FLAG_def Z_FLAG_def N_FLAG_def bit_simps)
qed

lemma znptable16_mix: "(znptable16 c AND NOT 4) OR (znptable8 (d AND 0xff) AND 4) =
    flag_if (tst (znptable8 (d AND 0xff)) P_FLAG) P_FLAG OR flag_if (c = 0) Z_FLAG OR flag_if (tst c 0x8000) N_FLAG"
  by (simp add: znptable8_def znptable16_def flag_if_def P_FLAG_def Z_FLAG_def N_FLAG_def bit_simps)

lemma znp32_flags: "znp32 c =
    flag_if (tst (znptable8 (c AND 0xff)) P_FLAG) P_FLAG OR flag_if (c = 0) Z_FLAG OR flag_if (tst c 0x80000000) N_FLAG"
  by (simp add: znp32_def znptable8_def flag_if_def P_FLAG_def Z_FLAG_def N_FLAG_def bit_simps)

lemma eager_table:
  "flags_of (set_eager (znptable8 c) cf vf af s) =
    \<lparr>a_cf = cf, a_pf = tst (znptable8 c) P_FLAG, a_af = af, a_zf = c = 0, a_sf = tst c 0x80, a_of = vf\<rparr>"
  "flags_of (set_eager (znptable16 d) cf vf af s) =
    \<lparr>a_cf = cf, a_pf = tst (znptable8 (d AND 0xff)) P_FLAG, a_af = af, a_zf = d = 0, a_sf = tst d 0x8000, a_of = vf\<rparr>"
  "flags_of (set_eager ((znptable16 d AND NOT 4) OR (znptable8 (e AND 0xff) AND 4)) cf vf af s) =
    \<lparr>a_cf = cf, a_pf = tst (znptable8 (e AND 0xff)) P_FLAG, a_af = af, a_zf = d = 0, a_sf = tst d 0x8000, a_of = vf\<rparr>"
  "flags_of (set_eager (znp32 e) cf vf af s) =
    \<lparr>a_cf = cf, a_pf = tst (znptable8 (e AND 0xff)) P_FLAG, a_af = af, a_zf = e = 0, a_sf = tst e 0x80000000, a_of = vf\<rparr>"
  by (subst znptable8_flags znptable16_flags znptable16_mix znp32_flags, rule eager_flags)+

lemma carry_256: "tst (ucast a + ucast b + of_bool c :: u32) 0x100 \<longleftrightarrow> 2 ^ LENGTH(8) \<le> uint a + uint b + of_bool c"
    "tst (ucast a - (ucast b + of_bool c) :: u32) 0x100 \<longleftrightarrow> uint a < uint b + of_bool c" for a b :: u8
  using byte.carry_up [of a b c] byte.borrow_up [of a b c] by simp_all

lemma carry_65536: "tst (ucast a + ucast b + of_bool c :: u32) 0x10000 \<longleftrightarrow> 2 ^ LENGTH(16) \<le> uint a + uint b + of_bool c"
    "tst (ucast a - (ucast b + of_bool c) :: u32) 0x10000 \<longleftrightarrow> uint a < uint b + of_bool c" for a b :: u16
  using half.carry_up [of a b c] half.borrow_up [of a b c] by simp_all

lemma adc8_eager: "flags_of (setadc8_eager a b s) = arch_add a b (v_tempc s)"
  unfolding setadc8_eager_def Let_def eager_table tempc_of_bool arch_add_def signed_add_overflow carry_256
    byte.parity_low
  unfolding byte.eager_up by simp

lemma adc16_eager: "flags_of (setadc16_eager a b s) = arch_add a b (v_tempc s)"
  unfolding setadc16_eager_def Let_def eager_table tempc_of_bool arch_add_def signed_add_overflow carry_65536
    half.parity_low
  unfolding half.eager_up by simp

lemma sbc8_eager: "flags_of (setsbc8_eager a b s) = arch_sub a b (v_tempc s)"
  unfolding setsbc8_eager_def Let_def eager_table tempc_of_bool arch_sub_def signed_sub_overflow carry_256
    byte.parity_low
  unfolding byte.eager_up by simp

lemma sbc16_eager: "flags_of (setsbc16_eager a b s) = arch_sub a b (v_tempc s)"
  unfolding setsbc16_eager_def Let_def eager_table tempc_of_bool arch_sub_def signed_sub_overflow carry_65536
    half.parity_low
  unfolding half.eager_up by simp

lemma mod_borrow:
  fixes x y w :: int
  assumes "0 \<le> x" "x < w" "0 \<le> y" "y < w"
  shows "(x - y - of_bool c) mod w = (if x < y + of_bool c then x - y - of_bool c + w else x - y - of_bool c)"
proof -
  let ?k = "x - y - of_bool c"
  have "- w \<le> ?k" "?k < w" using assms by (cases c; simp)+
  moreover have "(?k + w) mod w = ?k mod w" by (rule mod_add_self2)
  ultimately show ?thesis
    using mod_pos_pos_trivial [of "?k + w" w] mod_pos_pos_trivial [of ?k w] by auto
qed

lemma carry_borrow_int:
  fixes x y w :: int
  assumes "0 \<le> x" "x < w" "0 \<le> y" "y < w"
  shows "(x + y + of_bool c) mod w < x \<or> (x + y + of_bool c) mod w = x \<and> c \<longleftrightarrow> w \<le> x + y + of_bool c"
    and "x < (x - y - of_bool c) mod w \<or> (x - y - of_bool c) mod w = x \<and> c \<longleftrightarrow> x < y + of_bool c"
  using assms unfolding mod_carry [OF assms] mod_borrow [OF assms] by (cases c; auto)+

lemma carry_with_tempc:
  fixes a b :: u32
  shows "a + b + of_bool c < a \<or> a + b + of_bool c = a \<and> c \<longleftrightarrow> 2 ^ LENGTH(32) \<le> uint a + uint b + of_bool c"
  unfolding word_less_def word_uint_eq_iff [of "_ + _"] full.uint_sum
  by (rule carry_borrow_int) (rule uint_ge_0 uint_lt2p)+

lemma borrow_with_tempc:
  fixes a b :: u32
  shows "a < a - b - of_bool c \<or> a - b - of_bool c = a \<and> c \<longleftrightarrow> uint a < uint b + of_bool c"
  unfolding word_less_def word_uint_eq_iff [of "_ - _"] full.uint_difference
  by (rule carry_borrow_int) (rule uint_ge_0 uint_lt2p)+

lemma adc32_eager: "flags_of (setadc32_eager a b s) = arch_add a b (v_tempc s)"
  unfolding setadc32_eager_def Let_def eager_table tempc_of_bool arch_add_def signed_add_overflow carry_with_tempc
    full.parity_low [unfolded ucast_id]
  unfolding full.sign_xor [unfolded ucast_id] full.sign_and [unfolded ucast_id]
  unfolding full.sign_up [unfolded ucast_id]
    full.nibble_carry [unfolded ucast_id] full.nibble_borrow [unfolded ucast_id diff_diff_add [symmetric]] by simp

lemma sbc32_eager: "flags_of (setsbc32_eager a b s) = arch_sub a b (v_tempc s)"
  unfolding setsbc32_eager_def Let_def eager_table tempc_of_bool arch_sub_def signed_sub_overflow diff_diff_add [symmetric]
    borrow_with_tempc full.parity_low [unfolded ucast_id]
  unfolding full.sign_xor [unfolded ucast_id] full.sign_and [unfolded ucast_id]
  unfolding full.sign_up [unfolded ucast_id]
    full.nibble_carry [unfolded ucast_id] full.nibble_borrow [unfolded ucast_id diff_diff_add [symmetric]] by simp

section \<open>Materialising the flags\<close>

text \<open>The six arithmetic bits of \<open>flags\<close>, read one by one.\<close>

lemma arith_bits:
  "tst f C_FLAG \<longleftrightarrow> bit f 0" "tst f P_FLAG \<longleftrightarrow> bit f 2" "tst f A_FLAG \<longleftrightarrow> bit f 4"
  "tst f Z_FLAG \<longleftrightarrow> bit f 6" "tst f N_FLAG \<longleftrightarrow> bit f 7" "tst f V_FLAG \<longleftrightarrow> bit f 11"
  using tst_bit [of f 11]
  by (simp_all add: C_FLAG_def P_FLAG_def A_FLAG_def Z_FLAG_def N_FLAG_def V_FLAG_def)

lemma flags_of_unknown: "v_flags_op s = FLAGS_UNKNOWN \<Longrightarrow> flags_of s =
    \<lparr>a_cf = bit (v_flags s) 0, a_pf = bit (v_flags s) 2, a_af = bit (v_flags s) 4, a_zf = bit (v_flags s) 6,
     a_sf = bit (v_flags s) 7, a_of = bit (v_flags s) 11\<rparr>"
  by (simp add: queries arith_bits)

lemmas flag_masks = C_FLAG_def P_FLAG_def A_FLAG_def Z_FLAG_def N_FLAG_def V_FLAG_def flag_if_def

lemma rebuild_flags: "flags_of (flags_rebuild s) = flags_of s"
proof (cases "v_flags_op s = FLAGS_UNKNOWN")
  case False
  have "v_flags_op (flags_rebuild s) = FLAGS_UNKNOWN" using False by (simp add: flags_rebuild_def Let_def)
  moreover have "v_flags (flags_rebuild s) = (v_flags s AND NOT 0x8d5) OR flag_if (CF_SET s) C_FLAG OR
      flag_if (PF_SET s) P_FLAG OR flag_if (AF_SET s) A_FLAG OR flag_if (ZF_SET s) Z_FLAG OR
      flag_if (NF_SET s) N_FLAG OR flag_if (VF_SET s) V_FLAG" (is "_ = ?f")
    using False by (simp add: flags_rebuild_def Let_def or.assoc)
  moreover have "bit ?f 0 = CF_SET s" "bit ?f 2 = PF_SET s" "bit ?f 4 = AF_SET s" "bit ?f 6 = ZF_SET s"
    "bit ?f 7 = NF_SET s" "bit ?f 11 = VF_SET s"
    by (simp_all add: flag_masks bit_simps)
  ultimately show ?thesis by (simp add: flags_of_unknown) (simp add: flags_of_def)
qed (simp add: flags_rebuild_def)

lemma rebuild_other_bits: "v_flags (flags_rebuild s) AND NOT 0x8d5 = v_flags s AND NOT 0x8d5"
proof -
  have "flag_if b m AND NOT 0x8d5 = 0" if "m \<in> {C_FLAG, P_FLAG, A_FLAG, Z_FLAG, N_FLAG, V_FLAG}" for b m
    using that by (auto simp: flag_masks)
  then show ?thesis by (simp add: flags_rebuild_def Let_def bit.conj_disj_distrib2 and.assoc)
qed

lemma rebuild_op [simp]: "v_flags_op (flags_rebuild s) = FLAGS_UNKNOWN"
  by (simp add: flags_rebuild_def Let_def)

text \<open>A rotate needs no more than the partial rebuild: carry and overflow come from its result.\<close>

definition is_rotate :: "flags_op \<Rightarrow> bool" where
  "is_rotate op \<longleftrightarrow> op \<in> {FLAGS_ROL8, FLAGS_ROL16, FLAGS_ROL32, FLAGS_ROR8, FLAGS_ROR16, FLAGS_ROR32}"

lemma rebuild_zpna_bits:
  "bit (v_flags (flags_rebuild_zpna s)) 2 = PF_SET s" "bit (v_flags (flags_rebuild_zpna s)) 4 = AF_SET s"
  "bit (v_flags (flags_rebuild_zpna s)) 6 = ZF_SET s" "bit (v_flags (flags_rebuild_zpna s)) 7 = NF_SET s"
proof -
  have "bit ((v_flags s AND NOT 0xd4) OR flag_if (PF_SET s) P_FLAG OR flag_if (AF_SET s) A_FLAG OR
    flag_if (ZF_SET s) Z_FLAG OR flag_if (NF_SET s) N_FLAG) n =
    (if n = 2 then PF_SET s else if n = 4 then AF_SET s else if n = 6 then ZF_SET s else NF_SET s)"
    if "n \<in> {2, 4, 6, 7}" for n
    using that by (elim insertE) (simp_all add: flag_masks bit_simps)
  then show "bit (v_flags (flags_rebuild_zpna s)) 2 = PF_SET s" "bit (v_flags (flags_rebuild_zpna s)) 4 = AF_SET s"
  "bit (v_flags (flags_rebuild_zpna s)) 6 = ZF_SET s" "bit (v_flags (flags_rebuild_zpna s)) 7 = NF_SET s"
    using flags_of_unknown [of s] by (auto simp: flags_rebuild_zpna_def Let_def or.assoc flags_of_def)
qed

lemma rotate_flags:
  assumes "is_rotate op"
  shows "flags_of (set_flags_rotate op r s) =
    \<lparr>a_cf = CF_SET (set_flags_rotate op r t), a_pf = bit (v_flags s) 2, a_af = bit (v_flags s) 4,
     a_zf = bit (v_flags s) 6, a_sf = bit (v_flags s) 7, a_of = VF_SET (set_flags_rotate op r t)\<rparr>"
  using assms unfolding is_rotate_def
  by (elim insertE) (simp_all add: queries set_flags_rotate_def arith_bits)

section \<open>Comparisons\<close>

lemma signed_less: "sint (a - b) < 0 \<longleftrightarrow> sint (a - b) = sint a - sint b \<longleftrightarrow> sint a < sint b" for a b :: "'a::len word"
  using sint_range [of a] sint_range [of b] sint_range [of "a - b"] signed_sub_overflow [of a b False]
  by (simp, linarith)

lemma compare_conds:
  assumes "flags_of s = arch_sub a b False"
  shows "map (\<lambda>p. p s) [cond_E, cond_NE, cond_B, cond_NB, cond_BE, cond_NBE, cond_L, cond_NL, cond_LE, cond_NLE] =
    [a = b, a \<noteq> b, a < b, b \<le> a, a \<le> b, b < a,
     sint a < sint b, sint b \<le> sint a, sint a \<le> sint b, sint b < sint a]"
proof -
  have "ZF_SET s \<longleftrightarrow> a = b" "CF_SET s \<longleftrightarrow> a < b" "(NF_SET s \<noteq> VF_SET s) \<longleftrightarrow> sint a < sint b"
    using assms signed_less [of a b] by (auto simp: flags_of_def arch_sub_def word_less_def)
  moreover have "a = b \<longleftrightarrow> sint a = sint b" by (metis signed_word_eqI)
  ultimately show ?thesis
    by (auto simp: cond_E_def cond_NE_def cond_B_def cond_NB_def cond_BE_def cond_NBE_def cond_L_def cond_NL_def
      cond_LE_def cond_NLE_def)
qed

section \<open>The properties\<close>

text \<open>
  C4.  The lazy flags are the architectural ones.  After each add or subtract of 8, 16 or 32 bits the
  six flag queries return exactly the carry, parity, half carry, zero, sign and overflow of the
  operation on the integers the operands stand for; after each increment or decrement they do too,
  but for the carry, which is the one from before the instruction, whatever the operation pending
  then.
\<close>

theorem lazy_arith_flags:
  "flags_of (setadd8 a b s) = arch_add a b False \<and> flags_of (setsub8 a b s) = arch_sub a b False \<and>
   flags_of (setadd16 c d s) = arch_add c d False \<and> flags_of (setsub16 c d s) = arch_sub c d False \<and>
   flags_of (setadd32 e f s) = arch_add e f False \<and> flags_of (setsub32 e f s) = arch_sub e f False \<and>
   flags_of (setadd8nc a b s) = (arch_add a b False)\<lparr>a_cf := CF_SET s\<rparr> \<and>
   flags_of (setsub8nc a b s) = (arch_sub a b False)\<lparr>a_cf := CF_SET s\<rparr> \<and>
   flags_of (setadd16nc c d s) = (arch_add c d False)\<lparr>a_cf := CF_SET s\<rparr> \<and>
   flags_of (setsub16nc c d s) = (arch_sub c d False)\<lparr>a_cf := CF_SET s\<rparr> \<and>
   flags_of (setadd32nc e f s) = (arch_add e f False)\<lparr>a_cf := CF_SET s\<rparr> \<and>
   flags_of (setsub32nc e f s) = (arch_sub e f False)\<lparr>a_cf := CF_SET s\<rparr>"
  by (intro conjI add8_flags add16_flags add32_flags sub8_flags sub16_flags sub32_flags inc8_flags inc16_flags
    inc32_flags dec8_flags dec16_flags dec32_flags)

text \<open>
  C23.  The two builds of add and subtract with carry.  The setters that compute the flags at once give
  the architectural flags of the operation with the incoming carry; so do the lazy subtractions.  The
  lazy additions give them too, except for the half carry, which is lost exactly when a carry comes
  in, the low nibble of the second operand is 15 and its other bits are not all ones.
\<close>

theorem carry_arith_flags:
  "flags_of (setadc8_eager a b s) = arch_add a b (v_tempc s) \<and> flags_of (setsbc8_eager a b s) = arch_sub a b (v_tempc s) \<and>
   flags_of (setadc16_eager c d s) = arch_add c d (v_tempc s) \<and> flags_of (setsbc16_eager c d s) = arch_sub c d (v_tempc s) \<and>
   flags_of (setadc32_eager e f s) = arch_add e f (v_tempc s) \<and> flags_of (setsbc32_eager e f s) = arch_sub e f (v_tempc s) \<and>
   flags_of (setsbc8 a b s) = arch_sub a b (v_tempc s) \<and> flags_of (setadc8 a b s) = adc_lazy a b (v_tempc s) \<and>
   flags_of (setsbc16 c d s) = arch_sub c d (v_tempc s) \<and> flags_of (setadc16 c d s) = adc_lazy c d (v_tempc s) \<and>
   flags_of (setsbc32 e f s) = arch_sub e f (v_tempc s) \<and> flags_of (setadc32 e f s) = adc_lazy e f (v_tempc s)"
  by (intro conjI adc8_eager sbc8_eager adc16_eager sbc16_eager adc32_eager sbc32_eager sbc8_flags sbc16_flags
    sbc32_flags adc8_flags adc16_flags adc32_flags)

text \<open>
  C14.  Comparisons decide the conditional jumps.  After a compare (a subtract) the jump conditions E, NE,
  B, NB, BE, NBE hold as the operands compare as unsigned numbers, and L, NL, LE, NLE as they compare
  as signed ones, at each of the three widths.
\<close>

theorem compare_jumps:
  "(let t = setsub8 a b s in
    map (\<lambda>p. p t) [cond_E, cond_NE, cond_B, cond_NB, cond_BE, cond_NBE, cond_L, cond_NL, cond_LE, cond_NLE] =
    [a = b, a \<noteq> b, a < b, b \<le> a, a \<le> b, b < a, sint a < sint b, sint b \<le> sint a, sint a \<le> sint b, sint b < sint a]) \<and>
   (let t = setsub16 c d s in
    map (\<lambda>p. p t) [cond_E, cond_NE, cond_B, cond_NB, cond_BE, cond_NBE, cond_L, cond_NL, cond_LE, cond_NLE] =
    [c = d, c \<noteq> d, c < d, d \<le> c, c \<le> d, d < c, sint c < sint d, sint d \<le> sint c, sint c \<le> sint d, sint d < sint c]) \<and>
   (let t = setsub32 e f s in
    map (\<lambda>p. p t) [cond_E, cond_NE, cond_B, cond_NB, cond_BE, cond_NBE, cond_L, cond_NL, cond_LE, cond_NLE] =
    [e = f, e \<noteq> f, e < f, f \<le> e, e \<le> f, f < e, sint e < sint f, sint f \<le> sint e, sint e \<le> sint f, sint f < sint e])"
  unfolding Let_def by (intro conjI compare_conds sub8_flags sub16_flags sub32_flags)

text \<open>
  C24.  Materialising the flags is invisible.  Writing the pending flags into \<open>flags\<close> changes no flag query
  and no other bit of \<open>flags\<close>, and leaves nothing pending.  The partial rebuild that omits carry and
  overflow is enough in front of a rotate: the flags after the rotate are the same as with the full one.
\<close>

theorem rebuild_invisible:
  "flags_of (flags_rebuild s) = flags_of s \<and>
   v_flags (flags_rebuild s) AND NOT 0x8d5 = v_flags s AND NOT 0x8d5 \<and> v_flags_op (flags_rebuild s) = FLAGS_UNKNOWN \<and>
   (\<forall>op r. is_rotate op \<longrightarrow>
     flags_of (set_flags_rotate op r (flags_rebuild_zpna s)) = flags_of (set_flags_rotate op r (flags_rebuild s)))"
proof (intro conjI allI impI rebuild_flags rebuild_other_bits rebuild_op)
  fix op r assume "is_rotate op"
  then show "flags_of (set_flags_rotate op r (flags_rebuild_zpna s)) = flags_of (set_flags_rotate op r (flags_rebuild s))"
    using rebuild_flags [of s] flags_of_unknown [OF rebuild_op [of s]]
    by (simp add: rotate_flags [of op r _ s] rebuild_zpna_bits) (simp add: flags_of_def)
qed

theorem rebuild_invisible_witness:
  "let s = setsub8 3 5 \<lparr>v_flags = 2, v_flags_op = FLAGS_UNKNOWN, v_flags_res = 0, v_flags_op1 = 0, v_flags_op2 = 0, v_tempc = False\<rparr>
   in is_rotate FLAGS_ROL8 \<and>
      flags_of (set_flags_rotate FLAGS_ROL8 0x81 (flags_rebuild_zpna s)) =
      flags_of (set_flags_rotate FLAGS_ROL8 0x81 (flags_rebuild s))"
  using rebuild_invisible [of "setsub8 3 5 \<lparr>v_flags = 2, v_flags_op = FLAGS_UNKNOWN, v_flags_res = 0, v_flags_op1 = 0,
    v_flags_op2 = 0, v_tempc = False\<rparr>"]
  by (simp add: Let_def is_rotate_def)

text \<open>The lost half carry, on concrete operands: 0 + 0x0f with a carry coming in.\<close>

lemma adc_half_carry_lost:
  "let s = \<lparr>v_flags = 2, v_flags_op = FLAGS_UNKNOWN, v_flags_res = 0, v_flags_op1 = 0, v_flags_op2 = 0, v_tempc = True\<rparr>
   in \<not> AF_SET (setadc8 0 0x0f s) \<and> AF_SET (setadc8_eager 0 0x0f s) \<and> a_af (arch_add (0 :: u8) 0x0f True)"
  by (simp add: Let_def AF_SET_def setadc8_def adc_half_def tempc_def setadc8_eager_def set_eager_def znptable8_def
    flag_masks ones8_def arch_add_def uint_word_of_int bit_simps)

end
