(* ===== verification/X86_Shift.thy ===== *)
theory X86_Shift
  imports X86_Flags_Correct
begin

text \<open>
  The shift and rotate group of the x86 interpreter, the macros \<open>OP_SHIFT_b\<close>, \<open>OP_SHIFT_w\<close> and
  \<open>OP_SHIFT_l\<close> of \<open>cpu/x86_ops_shift.h\<close> and the double shifts \<open>SHLD\<close> and \<open>SHRD\<close>, and their
  correctness: each rotate is the rotate of the word (or of the word with the carry), each shift the
  shift, with the flags the architecture asks for.

  The macros work on the operand \<open>temp\<close> just read, the count \<open>c\<close> (masked to five bits by every
  caller) and the mod/rm byte; they write the result back with \<open>seteab\<close>, \<open>seteaw\<close> or \<open>seteal\<close>,
  which may fault.  Whether it faults is the argument \<open>abrt\<close>; the value passed to it, the state after
  the macro and whether it returned with a fault are the result.  The cycle and prefetch accounting is
  left out.
\<close>

section \<open>The macros\<close>

type_synonym 'a shift_result = "'a word option \<times> cpu_flags \<times> bool"

text \<open>Write back \<open>v\<close>; on a fault the macro returns before the flags \<open>t\<close> are set.\<close>

definition write_back :: "bool \<Rightarrow> 'a word \<Rightarrow> cpu_flags \<Rightarrow> cpu_flags \<Rightarrow> 'a shift_result" where
  "write_back abrt v s t = (Some v, if abrt then s else t, abrt)"

text \<open>The rotates through carry, bit by bit: the operand and \<open>temp2\<close>, the bit last shifted out.\<close>

fun rcl_loop :: "nat \<Rightarrow> 'a::len word \<Rightarrow> bool \<Rightarrow> 'a word \<times> bool" where
  "rcl_loop 0 temp temp2 = (temp, temp2)"
| "rcl_loop (Suc c) temp temp2 =
    rcl_loop c (push_bit 1 temp OR of_bool temp2) (bit temp (LENGTH('a) - 1))"

fun rcr_loop :: "nat \<Rightarrow> 'a::len word \<Rightarrow> bool \<Rightarrow> 'a word \<times> bool" where
  "rcr_loop 0 temp temp2 = (temp, temp2)"
| "rcr_loop (Suc c) temp temp2 =
    rcr_loop c (drop_bit 1 temp OR push_bit (LENGTH('a) - 1) (of_bool temp2)) (bit temp 0)"

definition set_cv :: "bool \<Rightarrow> bool \<Rightarrow> cpu_flags \<Rightarrow> cpu_flags" where
  "set_cv cf vf s =
    s\<lparr>v_flags := (v_flags s AND NOT (C_FLAG OR V_FLAG)) OR flag_if cf C_FLAG OR flag_if vf V_FLAG\<rparr>"

definition rol_flags :: "bool \<Rightarrow> flags_op \<Rightarrow> 'a::len word \<Rightarrow> cpu_flags \<Rightarrow> cpu_flags" where
  "rol_flags lazy op r s =
    (if lazy then set_flags_rotate op (ucast r) s
     else set_cv (bit r 0) (bit (r XOR drop_bit (LENGTH('a) - 1) r) 0) s)"

definition ror_flags :: "bool \<Rightarrow> flags_op \<Rightarrow> 'a::len word \<Rightarrow> cpu_flags \<Rightarrow> cpu_flags" where
  "ror_flags lazy op r s =
    (if lazy then set_flags_rotate op (ucast r) s
     else set_cv (bit r (LENGTH('a) - 1)) (bit (r XOR drop_bit 1 r) (LENGTH('a) - 2)) s)"

text \<open>The operation codes one macro uses.\<close>

record shift_ops =
  o_rol :: flags_op
  o_ror :: flags_op
  o_shl :: flags_op
  o_shr :: flags_op
  o_sar :: flags_op

text \<open>
  The body the three macros share; \<open>OP_SHIFT_l\<close> omits the reduction of the rotate count, which is below
  32 there, and reads the carry for RCL with \<open>CF_SET\<close>, which is the bit of \<open>flags\<close> after
  \<open>flags_rebuild\<close>.  The macros exist twice: the build with the new dynamic recompiler leaves the flags
  of a plain rotate pending (\<open>lazy\<close>), the other one writes carry and overflow into \<open>flags\<close>.
\<close>

definition op_shift :: "bool \<Rightarrow> shift_ops \<Rightarrow> bool \<Rightarrow> u32 \<Rightarrow> nat \<Rightarrow> 'a::len word \<Rightarrow> cpu_flags \<Rightarrow> 'a shift_result" where
  "op_shift lazy k abrt rmdat c temp s0 =
    (if c = 0 then (None, s0, False) else
     let s = flags_rebuild s0; d = c mod LENGTH('a); sel = rmdat AND 0x38 in
     if sel = 0x00 then
       let r = push_bit d temp OR drop_bit (LENGTH('a) - d) temp
       in write_back abrt r s (rol_flags lazy (o_rol k) r s)
     else if sel = 0x08 then
       let r = drop_bit d temp OR push_bit (LENGTH('a) - d) temp
       in write_back abrt r s (ror_flags lazy (o_ror k) r s)
     else if sel = 0x10 then
       let (r, cf) = rcl_loop c temp (tst (v_flags s) C_FLAG)
       in write_back abrt r s (set_cv cf (cf \<noteq> bit r (LENGTH('a) - 1)) s)
     else if sel = 0x18 then
       let (r, cf) = rcr_loop c temp (tst (v_flags s) C_FLAG)
       in write_back abrt r s (set_cv cf (bit (r XOR drop_bit 1 r) (LENGTH('a) - 2)) s)
     else if sel = 0x20 \<or> sel = 0x30 then
       write_back abrt (push_bit c temp) s
         (set_flags_shift (o_shl k) (ucast temp) (of_nat c) (ucast (push_bit c temp)) s)
     else if sel = 0x28 then
       write_back abrt (drop_bit c temp) s
         (set_flags_shift (o_shr k) (ucast temp) (of_nat c) (ucast (drop_bit c temp)) s)
     else
       write_back abrt (signed_drop_bit c temp) s
         (set_flags_shift (o_sar k) (ucast temp) (of_nat c) (ucast (signed_drop_bit c temp)) s))"

definition ops_b :: shift_ops where
  "ops_b = \<lparr>o_rol = FLAGS_ROL8, o_ror = FLAGS_ROR8, o_shl = FLAGS_SHL8, o_shr = FLAGS_SHR8, o_sar = FLAGS_SAR8\<rparr>"

definition ops_w :: shift_ops where
  "ops_w = \<lparr>o_rol = FLAGS_ROL16, o_ror = FLAGS_ROR16, o_shl = FLAGS_SHL16, o_shr = FLAGS_SHR16, o_sar = FLAGS_SAR16\<rparr>"

definition ops_l :: shift_ops where
  "ops_l = \<lparr>o_rol = FLAGS_ROL32, o_ror = FLAGS_ROR32, o_shl = FLAGS_SHL32, o_shr = FLAGS_SHR32, o_sar = FLAGS_SAR32\<rparr>"

definition op_shift_b :: "bool \<Rightarrow> u32 \<Rightarrow> nat \<Rightarrow> u8 \<Rightarrow> cpu_flags \<Rightarrow> 8 shift_result" where
  "op_shift_b = op_shift True ops_b"

definition op_shift_b_eager :: "bool \<Rightarrow> u32 \<Rightarrow> nat \<Rightarrow> u8 \<Rightarrow> cpu_flags \<Rightarrow> 8 shift_result" where
  "op_shift_b_eager = op_shift False ops_b"

definition op_shift_w :: "bool \<Rightarrow> u32 \<Rightarrow> nat \<Rightarrow> u16 \<Rightarrow> cpu_flags \<Rightarrow> 16 shift_result" where
  "op_shift_w = op_shift True ops_w"

definition op_shift_w_eager :: "bool \<Rightarrow> u32 \<Rightarrow> nat \<Rightarrow> u16 \<Rightarrow> cpu_flags \<Rightarrow> 16 shift_result" where
  "op_shift_w_eager = op_shift False ops_w"

definition op_shift_l :: "bool \<Rightarrow> u32 \<Rightarrow> nat \<Rightarrow> u32 \<Rightarrow> cpu_flags \<Rightarrow> 32 shift_result" where
  "op_shift_l = op_shift True ops_l"

definition op_shift_l_eager :: "bool \<Rightarrow> u32 \<Rightarrow> nat \<Rightarrow> u32 \<Rightarrow> cpu_flags \<Rightarrow> 32 shift_result" where
  "op_shift_l_eager = op_shift False ops_l"

section \<open>Double shifts\<close>

text \<open>Common tail: \<open>setznp\<close> of the result, materialised, and the carry added.\<close>

definition double_flags :: "bool \<Rightarrow> cpu_flags \<Rightarrow> cpu_flags" where
  "double_flags cf s = (let t = flags_rebuild s in if cf then t\<lparr>v_flags := v_flags t OR C_FLAG\<rparr> else t)"

definition SHLD_w :: "bool \<Rightarrow> nat \<Rightarrow> u16 \<Rightarrow> u16 \<Rightarrow> cpu_flags \<Rightarrow> 16 shift_result" where
  "SHLD_w abrt count tempw reg s =
    (if count = 0 then (None, s, False) else
     let cf = bit (push_bit (count - 1) tempw) 15;
         templ = push_bit 16 (ucast tempw) OR ucast reg :: u32;
         r = (if count \<le> 16 then ucast (drop_bit (16 - count) templ) else ucast (drop_bit 16 (push_bit count templ)))
     in write_back abrt r s (double_flags cf (setznp16 r s)))"

definition SHLD_l :: "bool \<Rightarrow> nat \<Rightarrow> u32 \<Rightarrow> u32 \<Rightarrow> cpu_flags \<Rightarrow> 32 shift_result" where
  "SHLD_l abrt count templ reg s =
    (if count = 0 then (None, s, False) else
     let cf = bit (push_bit (count - 1) templ) 31; r = push_bit count templ OR drop_bit (32 - count) reg
     in write_back abrt r s (double_flags cf (setznp32 r s)))"

definition SHRD_w :: "bool \<Rightarrow> nat \<Rightarrow> u16 \<Rightarrow> u16 \<Rightarrow> cpu_flags \<Rightarrow> 16 shift_result" where
  "SHRD_w abrt count tempw reg s =
    (if count = 0 then (None, s, False) else
     let cf = bit tempw (count - 1); templ = ucast tempw OR push_bit 16 (ucast reg) :: u32;
         r = ucast (drop_bit count templ)
     in write_back abrt r s (double_flags cf (setznp16 r s)))"

definition SHRD_l :: "bool \<Rightarrow> nat \<Rightarrow> u32 \<Rightarrow> u32 \<Rightarrow> cpu_flags \<Rightarrow> 32 shift_result" where
  "SHRD_l abrt count templ reg s =
    (if count = 0 then (None, s, False) else
     let cf = bit templ (count - 1); r = drop_bit count templ OR push_bit (32 - count) reg
     in write_back abrt r s (double_flags cf (setznp32 r s)))"

section \<open>What the instructions compute\<close>

text \<open>The carry as the top bit of the operand: a rotate through carry rotates this list.\<close>

definition carry_bits :: "'a::len word \<Rightarrow> bool \<Rightarrow> bool list" where
  "carry_bits v cf = map (bit v) [0..<LENGTH('a)] @ [cf]"

definition arch_rcl :: "nat \<Rightarrow> 'a::len word \<Rightarrow> bool \<Rightarrow> 'a word \<times> bool" where
  "arch_rcl c v cf =
    (let l = rotate (LENGTH('a) + 1 - c mod (LENGTH('a) + 1)) (carry_bits v cf)
     in (horner_sum of_bool 2 (butlast l), last l))"

definition arch_rcr :: "nat \<Rightarrow> 'a::len word \<Rightarrow> bool \<Rightarrow> 'a word \<times> bool" where
  "arch_rcr c v cf = (let l = rotate c (carry_bits v cf) in (horner_sum of_bool 2 (butlast l), last l))"

lemma length_carry_bits [simp]: "length (carry_bits v cf) = Suc LENGTH('a)" for v :: "'a::len word"
  by (simp add: carry_bits_def)

lemma carry_bits_parts: "horner_sum of_bool 2 (butlast (carry_bits v cf)) = v" "last (carry_bits v cf) = cf"
  for v :: "'a::len word"
  by (simp_all add: carry_bits_def horner_sum_bit_eq_take_bit)

lemma rcl_step: "rotate1 (carry_bits (push_bit 1 v OR of_bool cf) (bit v (LENGTH('a) - 1))) = carry_bits v cf"
  for v :: "'a::len word"
proof (rule nth_equalityI)
  fix i assume "i < length (rotate1 (carry_bits (push_bit 1 v OR of_bool cf) (bit v (LENGTH('a) - 1))))"
  then consider "Suc i < LENGTH('a)" | "Suc i = LENGTH('a)" "LENGTH('a) - 1 = i" | "i = LENGTH('a)" by fastforce
  then show "rotate1 (carry_bits (push_bit 1 v OR of_bool cf) (bit v (LENGTH('a) - 1))) ! i = carry_bits v cf ! i"
    by cases (auto simp: nth_rotate1 carry_bits_def nth_append bit_simps simp del: push_bit_Suc One_nat_def)
qed simp

lemma rcr_step: "carry_bits (drop_bit 1 v OR push_bit (LENGTH('a) - 1) (of_bool cf)) (bit v 0) = rotate1 (carry_bits v cf)"
  for v :: "'a::len word"
proof (rule nth_equalityI)
  fix i assume "i < length (carry_bits (drop_bit 1 v OR push_bit (LENGTH('a) - 1) (of_bool cf)) (bit v 0))"
  then consider "Suc i < LENGTH('a)" | "Suc i = LENGTH('a)" | "i = LENGTH('a)" by fastforce
  then show "carry_bits (drop_bit 1 v OR push_bit (LENGTH('a) - 1) (of_bool cf)) (bit v 0) ! i = rotate1 (carry_bits v cf) ! i"
    by cases (auto simp: nth_rotate1 carry_bits_def nth_append bit_simps dest: bit_imp_le_length)
qed simp

lemma rcl_loop_bits: "rotate c (case rcl_loop c v cf of (r, cf') \<Rightarrow> carry_bits r cf') = carry_bits v cf"
proof (induction c v cf rule: rcl_loop.induct)
  case (2 c v cf)
  have "rotate (Suc c) (case rcl_loop (Suc c) v cf of (r, cf') \<Rightarrow> carry_bits r cf') =
      rotate1 (rotate c (case rcl_loop c (push_bit 1 v OR of_bool cf) (bit v (LENGTH('a) - 1)) of (r, cf') \<Rightarrow> carry_bits r cf'))"
    by (simp only: rcl_loop.simps rotate_Suc)
  then show ?case using rcl_step [of v cf] 2 by simp
qed simp

lemma rcr_loop_bits: "(case rcr_loop c v cf of (r, cf') \<Rightarrow> carry_bits r cf') = rotate c (carry_bits v cf)"
proof (induction c v cf rule: rcr_loop.induct)
  case (2 c v cf)
  have "rotate (Suc c) (carry_bits v cf) = rotate c (rotate1 (carry_bits v cf))" by (simp add: rotate1_rotate_swap)
  then show ?case using 2 rcr_step [of v cf] by simp
qed simp

lemma rcl_correct: "rcl_loop c v cf = arch_rcl c v cf" for v :: "'a::len word"
proof -
  let ?n = "LENGTH('a) + 1" and ?l = "case rcl_loop c v cf of (r, cf') \<Rightarrow> carry_bits r cf'"
  have len: "length ?l = ?n" by (simp split: prod.split)
  have "rotate (?n - c mod ?n) (carry_bits v cf) = rotate (?n - c mod ?n + c) ?l"
    using rcl_loop_bits [of c v cf] by (metis rotate_rotate)
  moreover have "?n dvd ?n - c mod ?n + c"
  proof -
    have "?n - c mod ?n + c = ?n * (1 + c div ?n)"
      using mod_less_divisor [of ?n c] mult_div_mod_eq [of ?n c] by (simp add: algebra_simps)
    then show ?thesis by (metis dvd_triv_left)
  qed
  ultimately have "rotate (?n - c mod ?n) (carry_bits v cf) = ?l"
    using len by (simp add: rotate_id)
  then show ?thesis
    unfolding arch_rcl_def Let_def by (auto simp: carry_bits_parts split: prod.splits)
qed

lemma rcr_correct: "rcr_loop c v cf = arch_rcr c v cf"
  unfolding arch_rcr_def Let_def rcr_loop_bits [symmetric] by (simp add: carry_bits_parts split: prod.split)

lemma rcl_rcr: "(case rcl_loop c v cf of (r, cf') \<Rightarrow> rcr_loop c r cf') = (v, cf)"
proof -
  obtain r cf' where rc: "rcl_loop c v cf = (r, cf')" by fastforce
  then have "rotate c (carry_bits r cf') = carry_bits v cf" using rcl_loop_bits [of c v cf] by simp
  then show ?thesis using rc by (simp add: rcr_correct arch_rcr_def carry_bits_parts)
qed

section \<open>Plain rotates\<close>

lemma rol_correct: "push_bit (c mod LENGTH('a)) v OR drop_bit (LENGTH('a) - c mod LENGTH('a)) v = word_rotl c v"
  for v :: "'a::len word"
proof (rule bit_word_eqI)
  fix i assume i: "i < LENGTH('a)"
  define d where "d = c mod LENGTH('a)"
  have "d < LENGTH('a)" by (simp add: d_def)
  then show "bit (push_bit (c mod LENGTH('a)) v OR drop_bit (LENGTH('a) - c mod LENGTH('a)) v) i = bit (word_rotl c v) i"
    using i unfolding d_def [symmetric] bit_word_rotl_iff
    by (cases "d \<le> i") (auto simp: bit_simps mod_if le_diff_conv2 ac_simps dest: bit_imp_le_length)
qed

lemma ror_correct: "drop_bit (c mod LENGTH('a)) v OR push_bit (LENGTH('a) - c mod LENGTH('a)) v = word_rotr c v"
  for v :: "'a::len word"
proof (rule bit_word_eqI)
  fix i assume i: "i < LENGTH('a)"
  define d where "d = c mod LENGTH('a)"
  have "d < LENGTH('a)" by (simp add: d_def)
  moreover have "(i + c) mod LENGTH('a) = (i + d) mod LENGTH('a)" by (simp add: d_def mod_simps)
  ultimately show "bit (drop_bit (c mod LENGTH('a)) v OR push_bit (LENGTH('a) - c mod LENGTH('a)) v) i = bit (word_rotr c v) i"
    using i unfolding d_def [symmetric] bit_word_rotr_iff
    by (cases "i + d < LENGTH('a)") (auto simp: bit_simps mod_if ac_simps dest: bit_imp_le_length)
qed

section \<open>Flags of the shifts\<close>

text \<open>
  The whole group, by mod/rm selector: the result and the flags, given the flags before.  The carry of a
  shift is the last bit shifted out of the unbounded value.
\<close>

definition result_flags :: "'a::len word \<Rightarrow> bool \<Rightarrow> bool \<Rightarrow> arith_flags" where
  "result_flags r cf vf =
    \<lparr>a_cf = cf, a_pf = even_parity r, a_af = False, a_zf = (r = 0), a_sf = sint r < 0, a_of = vf\<rparr>"

definition arch_shift :: "u32 \<Rightarrow> nat \<Rightarrow> 'a::len word \<Rightarrow> arith_flags \<Rightarrow> 'a word \<times> arith_flags" where
  "arch_shift sel c v f =
    (if sel = 0x00 then
       let r = word_rotl c v in (r, f\<lparr>a_cf := bit r 0, a_of := bit r 0 \<noteq> bit r (LENGTH('a) - 1)\<rparr>)
     else if sel = 0x08 then
       let r = word_rotr c v
       in (r, f\<lparr>a_cf := bit r (LENGTH('a) - 1), a_of := bit r (LENGTH('a) - 1) \<noteq> bit r (LENGTH('a) - 2)\<rparr>)
     else if sel = 0x10 then
       let (r, cf) = arch_rcl c v (a_cf f) in (r, f\<lparr>a_cf := cf, a_of := cf \<noteq> bit r (LENGTH('a) - 1)\<rparr>)
     else if sel = 0x18 then
       let (r, cf) = arch_rcr c v (a_cf f)
       in (r, f\<lparr>a_cf := cf, a_of := bit r (LENGTH('a) - 1) \<noteq> bit r (LENGTH('a) - 2)\<rparr>)
     else if sel = 0x20 \<or> sel = 0x30 then
       let r = push_bit c v; cf = bit (push_bit c (uint v)) LENGTH('a) in (r, result_flags r cf (cf \<noteq> (sint r < 0)))
     else if sel = 0x28 then
       let r = drop_bit c v in (r, result_flags r (bit (uint v) (c - 1)) (c = 1 \<and> sint v < 0))
     else
       let r = signed_drop_bit c v in (r, result_flags r (bit (sint v) (c - 1)) False))"

lemma count_pred: "0 < c \<Longrightarrow> c < 32 \<Longrightarrow> unat (of_nat c - 1 :: u32) = c - 1"
  by (simp add: unat_sub word_le_nat_alt unat_of_nat)

lemma count_eq: "c < 32 \<Longrightarrow> unat (of_nat c :: u32) = c" "c < 32 \<Longrightarrow> (of_nat c :: u32) = 1 \<longleftrightarrow> c = 1"
  by (simp_all add: unat_of_nat word_unat_eq_iff)

context flag_width
begin

lemma shl_carry_up:
  fixes v :: "'a word"
  assumes "0 < c" "c < 32" "v_flags_op1 s = ucast v" "v_flags_op2 s = of_nat c"
  shows "shl_carry m s \<longleftrightarrow> bit (push_bit c (uint v)) LENGTH('a)"
  using assms wide narrow
  by (auto simp: shl_carry_def count_pred sign_bit tst_bit bit_simps Suc_diff_le dest: bit_imp_le_length)

lemma shl_overflow_up:
  fixes v :: "'a word"
  assumes "0 < c" "c < 32" "v_flags_op1 s = ucast v" "v_flags_op2 s = of_nat c"
  shows "shl_overflow m s \<longleftrightarrow> bit (push_bit c (uint v)) LENGTH('a) \<noteq> (sint (push_bit c v) < 0)"
proof -
  have "tst (push_bit c (ucast v :: u32)) m \<longleftrightarrow> sint (push_bit c v) < 0"
    using narrow by (simp add: sign_bit tst_bit bit_last_iff [symmetric] bit_simps) (auto dest: bit_imp_le_length)
  then show ?thesis
    using shl_carry_up [OF assms] assms
    by (auto simp: shl_overflow_def shl_carry_def count_eq sign_bit tst_bit bit_simps)
qed

lemma shr_carry_up:
  fixes v :: "'a word"
  assumes "0 < c" "c < 32" "v_flags_op1 s = ucast v" "v_flags_op2 s = of_nat c"
  shows "shr_carry s \<longleftrightarrow> bit (uint v) (c - 1)"
  using assms by (simp add: shr_carry_def count_pred bit_simps) (auto dest: bit_imp_le_length)

end

lemma set_cv_flags:
  assumes "v_flags_op s = FLAGS_UNKNOWN"
  shows "flags_of (set_cv cf vf s) = (flags_of s)\<lparr>a_cf := cf, a_of := vf\<rparr>"
  using assms by (simp add: flags_of_unknown set_cv_def flag_masks bit_simps)

text \<open>What the flag queries make of the pending operations of one width.\<close>

locale shift_width = flag_width ty m full for ty :: "'a::len itself" and m full +
  fixes k :: shift_ops
  assumes rol_pending: "v_flags_op s = FLAGS_UNKNOWN \<Longrightarrow>
      flags_of (set_flags_rotate (o_rol k) (ucast (r :: 'a word)) s) =
      (flags_of s)\<lparr>a_cf := bit r 0, a_of := bit r 0 \<noteq> bit r (LENGTH('a) - 1)\<rparr>"
    and ror_pending: "v_flags_op s = FLAGS_UNKNOWN \<Longrightarrow>
      flags_of (set_flags_rotate (o_ror k) (ucast (r :: 'a word)) s) =
      (flags_of s)\<lparr>a_cf := bit r (LENGTH('a) - 1), a_of := bit r (LENGTH('a) - 1) \<noteq> bit r (LENGTH('a) - 2)\<rparr>"
    and shl_pending: "0 < c \<Longrightarrow> c < 32 \<Longrightarrow>
      flags_of (set_flags_shift (o_shl k) (ucast (v :: 'a word)) (of_nat c) (ucast (push_bit c v)) s) =
      result_flags (push_bit c v) (bit (push_bit c (uint v)) LENGTH('a))
        (bit (push_bit c (uint v)) LENGTH('a) \<noteq> (sint (push_bit c v) < 0))"
    and shr_pending: "0 < c \<Longrightarrow> c < 32 \<Longrightarrow>
      flags_of (set_flags_shift (o_shr k) (ucast (v :: 'a word)) (of_nat c) (ucast (drop_bit c v)) s) =
      result_flags (drop_bit c v) (bit (uint v) (c - 1)) (c = 1 \<and> sint v < 0)"
    and sar_pending: "0 < c \<Longrightarrow> c < 32 \<Longrightarrow>
      flags_of (set_flags_shift (o_sar k) (ucast (v :: 'a word)) (of_nat c) (ucast (signed_drop_bit c v)) s) =
      result_flags (signed_drop_bit c v) (bit (sint v) (c - 1)) False"
begin

lemma rol_flags_correct: "v_flags_op s = FLAGS_UNKNOWN \<Longrightarrow> flags_of (rol_flags lazy (o_rol k) r s) =
    (flags_of s)\<lparr>a_cf := bit r 0, a_of := bit r 0 \<noteq> bit r (LENGTH('a) - 1)\<rparr>" for r :: "'a word"
  using rol_pending [of s r] by (simp add: rol_flags_def set_cv_flags bit_simps)

lemma top_two_bits: "bit (r XOR drop_bit 1 r) (LENGTH('a) - 2) \<longleftrightarrow> bit r (LENGTH('a) - 1) \<noteq> bit r (LENGTH('a) - 2)"
  for r :: "'a word"
proof -
  have "Suc (LENGTH('a) - 2) = LENGTH('a) - 1" using wide by simp
  then show ?thesis by (auto simp: bit_simps)
qed

lemma ror_flags_correct: "v_flags_op s = FLAGS_UNKNOWN \<Longrightarrow> flags_of (ror_flags lazy (o_ror k) r s) =
    (flags_of s)\<lparr>a_cf := bit r (LENGTH('a) - 1), a_of := bit r (LENGTH('a) - 1) \<noteq> bit r (LENGTH('a) - 2)\<rparr>"
  for r :: "'a word"
  using ror_pending [of s r] unfolding ror_flags_def top_two_bits by (simp add: set_cv_flags)

lemma op_shift_correct:
  fixes v :: "'a word"
  assumes "0 < c" and "c < 32"
  shows "\<exists>t. op_shift lazy k False rmdat c v s = (Some (fst (arch_shift (rmdat AND 0x38) c v (flags_of s))), t, False) \<and>
    flags_of t = snd (arch_shift (rmdat AND 0x38) c v (flags_of s))"
proof -
  have cf: "tst (v_flags (flags_rebuild s)) C_FLAG \<longleftrightarrow> a_cf (flags_of s)"
    using rebuild_flags [of s] flags_of_unknown [OF rebuild_op [of s]]
    by (metis arith_bits(1) arith_flags.select_convs(1))
  show ?thesis
    unfolding op_shift_def arch_shift_def Let_def write_back_def rol_correct ror_correct rcl_correct rcr_correct
      top_two_bits cf
    using assms
    by (simp add: rol_flags_correct ror_flags_correct set_cv_flags shl_pending shr_pending sar_pending rebuild_flags
      split: prod.split)
qed

end

lemma tst_words: "tst v 0x4000 \<longleftrightarrow> bit v 14" "tst v 0x8000 \<longleftrightarrow> bit v 15" "tst v 0x40000000 \<longleftrightarrow> bit v 30"
  "tst v 0x80000000 \<longleftrightarrow> bit v 31" for v :: "'a::len word"
  using tst_bit [of v 14] tst_bit [of v 15] tst_bit [of v 30] tst_bit [of v 31] by simp_all

lemmas shift_defs = queries set_flags_rotate_def set_flags_shift_def result_flags_def

interpretation shift_b: shift_width "TYPE(8)" "0x80" "0xff" ops_b
proof (unfold_locales, goal_cases)
  case (1 s r) then show ?case by (simp add: shift_defs ops_b_def bit_simps)
next
  case (2 s r) then show ?case by (auto simp: shift_defs ops_b_def bit_simps)
next
  case (3 c v s)
  let ?t = "set_flags_shift FLAGS_SHL8 (ucast v) (of_nat c) (ucast (push_bit c v)) s"
  show ?case using byte.shl_carry_up [OF 3, of ?t v] byte.shl_overflow_up [OF 3, of ?t v]
    by (simp add: shift_defs ops_b_def byte_up)
next
  case (4 c v s)
  let ?t = "set_flags_shift FLAGS_SHR8 (ucast v) (of_nat c) (ucast (drop_bit c v)) s"
  show ?case using byte.shr_carry_up [OF 4, of ?t v] 4
    by (simp add: shift_defs ops_b_def byte_up count_eq)
next
  case (5 c v s)
  then show ?case
    by (simp add: shift_defs ops_b_def byte_up sar_carry8_def count_pred byte.up_down bit_iff_odd_drop_bit [of "sint v"])
qed

interpretation shift_w: shift_width "TYPE(16)" "0x8000" "0xffff" ops_w
proof (unfold_locales, goal_cases)
  case (1 s r) then show ?case by (simp add: shift_defs ops_w_def bit_simps tst_words)
next
  case (2 s r) then show ?case by (auto simp: shift_defs ops_w_def bit_simps tst_words)
next
  case (3 c v s)
  let ?t = "set_flags_shift FLAGS_SHL16 (ucast v) (of_nat c) (ucast (push_bit c v)) s"
  show ?case using half.shl_carry_up [OF 3, of ?t v] half.shl_overflow_up [OF 3, of ?t v]
    by (simp add: shift_defs ops_w_def half_word_up)
next
  case (4 c v s)
  let ?t = "set_flags_shift FLAGS_SHR16 (ucast v) (of_nat c) (ucast (drop_bit c v)) s"
  show ?case using half.shr_carry_up [OF 4, of ?t v] 4
    by (simp add: shift_defs ops_w_def half_word_up count_eq)
next
  case (5 c v s)
  then show ?case
    by (simp add: shift_defs ops_w_def half_word_up sar_carry16_def count_pred half.up_down bit_iff_odd_drop_bit [of "sint v"])
qed

interpretation shift_l: shift_width "TYPE(32)" "0x80000000" "0xffffffff" ops_l
proof (unfold_locales, goal_cases)
  case (1 s r) then show ?case by (simp add: shift_defs ops_l_def bit_simps tst_words)
next
  case (2 s r) then show ?case by (auto simp: shift_defs ops_l_def bit_simps tst_words)
next
  case (3 c v s)
  let ?t = "set_flags_shift FLAGS_SHL32 (ucast v) (of_nat c) (ucast (push_bit c v)) s"
  show ?case using full.shl_carry_up [OF 3, of ?t v] full.shl_overflow_up [OF 3, of ?t v]
    by (simp add: shift_defs ops_l_def word_up)
next
  case (4 c v s)
  let ?t = "set_flags_shift FLAGS_SHR32 (ucast v) (of_nat c) (ucast (drop_bit c v)) s"
  show ?case using full.shr_carry_up [OF 4, of ?t v] 4
    by (simp add: shift_defs ops_l_def word_up count_eq)
next
  case (5 c v s)
  then show ?case
    by (simp add: shift_defs ops_l_def word_up sar_carry32_def count_pred  bit_iff_odd_drop_bit [of "sint v"])
qed

section \<open>Double shifts against a shift of the joined operands\<close>

lemma double_flags_correct:
  assumes "flags_of s = result_flags r False False"
  shows "flags_of (double_flags cf s) = result_flags r cf False"
proof -
  let ?t = "flags_rebuild s"
  have t: "flags_of ?t = result_flags r False False" using assms by (simp add: rebuild_flags)
  have "flags_of (?t\<lparr>v_flags := v_flags ?t OR C_FLAG\<rparr>) = (flags_of ?t)\<lparr>a_cf := True\<rparr>"
    by (simp add: flags_of_unknown flag_masks bit_simps)
  then show ?thesis using t by (simp add: double_flags_def Let_def result_flags_def)
qed

lemma znp16_flags: "flags_of (setznp16 r s) = result_flags r False False"
  by (simp add: queries setznp16_def result_flags_def half_word_up)

lemma znp32_pending: "flags_of (setznp32 r s) = result_flags r False False"
  by (simp add: queries setznp32_def result_flags_def word_up)

lemma shld_bits: "(if count \<le> 16 then ucast (drop_bit (16 - count) t) else ucast (drop_bit 16 (push_bit count t))) =
    (ucast (drop_bit 16 (push_bit count t)) :: u16)" for t :: u32
  by (rule bit_word_eqI) (auto simp: bit_simps)

definition performs :: "'a shift_result \<Rightarrow> 'a word \<times> arith_flags \<Rightarrow> bool" where
  "performs res spec \<longleftrightarrow> (case res of (v, t, fault) \<Rightarrow> v = Some (fst spec) \<and> flags_of t = snd spec \<and> \<not> fault)"

lemma shld_w_correct: "0 < count \<Longrightarrow> performs (SHLD_w False count v reg s)
    (let r = ucast (drop_bit 16 (push_bit count (word_cat v reg :: u32))) in (r, result_flags r (bit (push_bit (count - 1) v) 15) False))"
proof -
  have "push_bit 16 (ucast v) OR ucast reg = (word_cat v reg :: u32)"
    by (rule bit_word_eqI) (auto simp: bit_simps dest: bit_imp_le_length)
  then show "0 < count \<Longrightarrow> ?thesis"
    by (simp add: SHLD_w_def performs_def write_back_def shld_bits double_flags_correct znp16_flags Let_def)
qed

lemma shrd_w_correct: "0 < count \<Longrightarrow> performs (SHRD_w False count v reg s)
    (let r = ucast (drop_bit count (word_cat reg v :: u32)) in (r, result_flags r (bit v (count - 1)) False))"
proof -
  have "ucast v OR push_bit 16 (ucast reg) = (word_cat reg v :: u32)"
    by (rule bit_word_eqI) (auto simp: bit_simps dest: bit_imp_le_length)
  then show "0 < count \<Longrightarrow> ?thesis"
    by (simp add: SHRD_w_def performs_def write_back_def double_flags_correct znp16_flags Let_def)
qed

lemma shld_l_correct: "0 < count \<Longrightarrow> count < 32 \<Longrightarrow> performs (SHLD_l False count v reg s)
    (let r = ucast (drop_bit 32 (push_bit count (word_cat v reg :: u64))) in (r, result_flags r (bit (push_bit (count - 1) v) 31) False))"
proof -
  assume c: "0 < count" "count < 32"
  have "push_bit count v OR drop_bit (32 - count) reg = ucast (drop_bit 32 (push_bit count (word_cat v reg :: u64)))"
  proof (rule bit_word_eqI)
    fix i assume "i < LENGTH(32)"
    moreover have "32 - count + i = 32 + i - count" "32 + i - count - 32 = i - count" using c by simp_all
    ultimately show "bit (push_bit count v OR drop_bit (32 - count) reg) i =
        bit (ucast (drop_bit 32 (push_bit count (word_cat v reg :: u64))) :: u32) i"
      using c bit_imp_le_length [of reg "32 - count + i"] by (cases "i < count") (auto simp: bit_simps)
  qed
  then show ?thesis using c
    by (simp add: SHLD_l_def performs_def write_back_def double_flags_correct znp32_pending Let_def)
qed

lemma shrd_l_correct: "0 < count \<Longrightarrow> count < 32 \<Longrightarrow> performs (SHRD_l False count v reg s)
    (let r = ucast (drop_bit count (word_cat reg v :: u64)) in (r, result_flags r (bit v (count - 1)) False))"
proof -
  assume c: "0 < count" "count < 32"
  have "drop_bit count v OR push_bit (32 - count) reg = ucast (drop_bit count (word_cat reg v :: u64))"
  proof (rule bit_word_eqI)
    fix i assume "i < LENGTH(32)"
    moreover have "i - (32 - count) = count + i - 32" using c by simp
    ultimately show "bit (drop_bit count v OR push_bit (32 - count) reg) i =
        bit (ucast (drop_bit count (word_cat reg v :: u64)) :: u32) i"
      using c bit_imp_le_length [of v "count + i"] by (cases "count + i < 32") (auto simp: bit_simps)
  qed
  then show ?thesis using c
    by (simp add: SHRD_l_def performs_def write_back_def double_flags_correct znp32_pending Let_def)
qed

lemma op_shift_fault:
  "case op_shift lazy k abrt rmdat c v s of (w, t, fault) \<Rightarrow> fault = (abrt \<and> c \<noteq> 0) \<and>
    (abrt \<or> c = 0 \<longrightarrow> flags_of t = flags_of s \<and> v_flags t AND NOT 0x8d5 = v_flags s AND NOT 0x8d5) \<and>
    (c = 0 \<longrightarrow> w = None \<and> t = s)"
  by (simp add: op_shift_def write_back_def Let_def rebuild_flags rebuild_other_bits [simplified] split: prod.split)
lemma performs_shift: "(\<exists>t. res = (Some (fst spec), t, False) \<and> flags_of t = snd spec) \<Longrightarrow> performs res spec"
  by (auto simp: performs_def)

lemma rcl_rcr_width:
  assumes "0 < c" "c < 32" and "shift_width TYPE('a::len) m full k"
    and "op_shift lazy k False 0x10 c (v :: 'a word) s = (Some r, t, False)"
  shows "\<exists>u. op_shift lazy k False 0x18 c r t = (Some v, u, False) \<and> CF_SET u = CF_SET s"
proof -
  have a: "arch_rcl c v (CF_SET s) = (r, CF_SET t)"
    using shift_width.op_shift_correct [OF assms(3,1,2), of lazy "0x10" v s] assms(4)
    by (auto simp: arch_shift_def flags_of_def split: prod.splits)
  then have "arch_rcr c r (CF_SET t) = (v, CF_SET s)"
    using rcl_rcr [of c v "CF_SET s"] by (simp add: rcl_correct rcr_correct)
  then show ?thesis
    using shift_width.op_shift_correct [OF assms(3,1,2), of lazy "0x18" r t]
    by (auto simp: arch_shift_def flags_of_def split: prod.splits)
qed

section \<open>The properties\<close>

text \<open>
  C10.  The shift and rotate group.  For every count from 1 to 31 and every selector in the mod/rm byte the
  macro writes back the rotated (through carry or not), shifted or arithmetically shifted operand, and
  the flag queries then return the flags of the operation: carry the last bit shifted out, the others
  kept by a rotate and set from the result by a shift.  Both builds of the macros do, at all three
  widths.
\<close>

theorem shift_group_correct:
  assumes "0 < c" and "c < 32"
  shows "performs (op_shift_b False rmdat c x s) (arch_shift (rmdat AND 0x38) c x (flags_of s)) \<and>
    performs (op_shift_w False rmdat c y s) (arch_shift (rmdat AND 0x38) c y (flags_of s)) \<and>
    performs (op_shift_l False rmdat c z s) (arch_shift (rmdat AND 0x38) c z (flags_of s)) \<and>
    performs (op_shift_b_eager False rmdat c x s) (arch_shift (rmdat AND 0x38) c x (flags_of s)) \<and>
    performs (op_shift_w_eager False rmdat c y s) (arch_shift (rmdat AND 0x38) c y (flags_of s)) \<and>
    performs (op_shift_l_eager False rmdat c z s) (arch_shift (rmdat AND 0x38) c z (flags_of s))"
  unfolding op_shift_b_def op_shift_w_def op_shift_l_def op_shift_b_eager_def op_shift_w_eager_def op_shift_l_eager_def
  by (intro conjI performs_shift shift_b.op_shift_correct shift_w.op_shift_correct shift_l.op_shift_correct assms)

theorem shift_group_correct_witness:
  "let s = \<lparr>v_flags = 3, v_flags_op = FLAGS_UNKNOWN, v_flags_res = 0, v_flags_op1 = 0, v_flags_op2 = 0, v_tempc = False\<rparr>
   in 0 < (4 :: nat) \<and> (4 :: nat) < 32 \<and> performs (op_shift_b False 0xe8 4 0x98 s) (arch_shift 0x28 4 0x98 (flags_of s)) \<and>
      fst (arch_shift 0x28 4 (0x98 :: u8) (flags_of s)) = 0x09 \<and> a_cf (snd (arch_shift 0x28 4 (0x98 :: u8) (flags_of s)))"
  using shift_group_correct [of 4 "0xe8" "0x98" "\<lparr>v_flags = 3, v_flags_op = FLAGS_UNKNOWN, v_flags_res = 0, v_flags_op1 = 0,
    v_flags_op2 = 0, v_tempc = False\<rparr>"]
  by (simp add: Let_def arch_shift_def result_flags_def bit_iff_odd)

text \<open>
  C39.  A faulting write-back leaves the flags alone.  Whatever the operation and the count, when the
  write-back faults the macro returns with the fault, and no flag query and no other bit of \<open>flags\<close>
  has changed; with a count of zero nothing is written and the state is the same.
\<close>

theorem shift_fault_precise:
  "(case op_shift_b abrt rmdat c x s of (v, t, fault) \<Rightarrow> fault = (abrt \<and> c \<noteq> 0) \<and>
      (abrt \<or> c = 0 \<longrightarrow> flags_of t = flags_of s \<and> v_flags t AND NOT 0x8d5 = v_flags s AND NOT 0x8d5) \<and>
      (c = 0 \<longrightarrow> v = None \<and> t = s)) \<and>
   (case op_shift_w abrt rmdat c y s of (v, t, fault) \<Rightarrow> fault = (abrt \<and> c \<noteq> 0) \<and>
      (abrt \<or> c = 0 \<longrightarrow> flags_of t = flags_of s \<and> v_flags t AND NOT 0x8d5 = v_flags s AND NOT 0x8d5) \<and>
      (c = 0 \<longrightarrow> v = None \<and> t = s)) \<and>
   (case op_shift_l abrt rmdat c z s of (v, t, fault) \<Rightarrow> fault = (abrt \<and> c \<noteq> 0) \<and>
      (abrt \<or> c = 0 \<longrightarrow> flags_of t = flags_of s \<and> v_flags t AND NOT 0x8d5 = v_flags s AND NOT 0x8d5) \<and>
      (c = 0 \<longrightarrow> v = None \<and> t = s))"
  unfolding op_shift_b_def op_shift_w_def op_shift_l_def
  by (intro conjI op_shift_fault)

theorem shift_fault_precise_witness:
  "let s = \<lparr>v_flags = 3, v_flags_op = FLAGS_UNKNOWN, v_flags_res = 0, v_flags_op1 = 0, v_flags_op2 = 0, v_tempc = False\<rparr>
   in flags_of (fst (snd (op_shift_b True 0xe0 1 0x80 s))) = flags_of s \<and> snd (snd (op_shift_b True 0xe0 1 0x80 s))"
  using shift_fault_precise [where abrt = True and rmdat = "0xe0" and c = 1 and x = "0x80" and s = "\<lparr>v_flags = 3, v_flags_op = FLAGS_UNKNOWN, v_flags_res = 0,
    v_flags_op1 = 0, v_flags_op2 = 0, v_tempc = False\<rparr>"]
  by (simp add: Let_def case_prod_beta)

text \<open>
  The rotates through carry undo each other.  After RCL by a count from 1 to 31, RCR by the same count
  restores the operand and the carry.
\<close>

theorem rcl_rcr_roundtrip:
  assumes "0 < c" and "c < 32"
  shows "(op_shift_b False 0x10 c x s = (Some r, t, False) \<longrightarrow>
      (\<exists>u. op_shift_b False 0x18 c r t = (Some x, u, False) \<and> CF_SET u = CF_SET s)) \<and>
    (op_shift_w False 0x10 c y s = (Some r', t, False) \<longrightarrow>
      (\<exists>u. op_shift_w False 0x18 c r' t = (Some y, u, False) \<and> CF_SET u = CF_SET s)) \<and>
    (op_shift_l False 0x10 c z s = (Some r'', t, False) \<longrightarrow>
      (\<exists>u. op_shift_l False 0x18 c r'' t = (Some z, u, False) \<and> CF_SET u = CF_SET s))"
  unfolding op_shift_b_def op_shift_w_def op_shift_l_def
  using rcl_rcr_width [OF assms shift_b.shift_width_axioms] rcl_rcr_width [OF assms shift_w.shift_width_axioms]
    rcl_rcr_width [OF assms shift_l.shift_width_axioms] by blast

theorem rcl_rcr_roundtrip_witness:
  "let s = \<lparr>v_flags = 3, v_flags_op = FLAGS_UNKNOWN, v_flags_res = 0, v_flags_op1 = 0, v_flags_op2 = 0, v_tempc = False\<rparr>;
       t = fst (snd (op_shift_b False 0x10 3 0xa5 s))
   in op_shift_b False 0x10 3 0xa5 s = (Some 0x2e, t, False) \<and>
      (\<exists>u. op_shift_b False 0x18 3 0x2e t = (Some 0xa5, u, False) \<and> CF_SET u = CF_SET s)"
proof -
  let ?s = "\<lparr>v_flags = 3, v_flags_op = FLAGS_UNKNOWN, v_flags_res = 0, v_flags_op1 = 0, v_flags_op2 = 0, v_tempc = False\<rparr>"
  have "rcl_loop 3 (0xa5 :: u8) True = (0x2e, True)" by (simp add: numeral_3_eq_3)
  then have "op_shift_b False 0x10 3 0xa5 ?s = (Some 0x2e, fst (snd (op_shift_b False 0x10 3 0xa5 ?s)), False)"
    by (simp add: op_shift_b_def op_shift_def flags_rebuild_def write_back_def C_FLAG_def Let_def)
  then show ?thesis
    using rcl_rcr_roundtrip [where c = 3 and x = "0xa5" and s = ?s and r = "0x2e"] by (simp add: Let_def)
qed

lemma joined_carry_left:
  fixes v :: "'a::len word" and reg :: "'a word"
  assumes "0 < count" and "LENGTH('b::len) = 2 * LENGTH('a)" and "count < LENGTH('b)"
  shows "bit (push_bit (count - 1) v) (LENGTH('a) - 1) \<longleftrightarrow>
    count \<le> LENGTH('a) \<and> bit (word_cat v reg :: 'b word) (LENGTH('b) - count)"
  using assms by (auto simp: bit_push_bit_iff bit_word_cat_iff dest: bit_imp_le_length)

lemma joined_carry_right:
  fixes v :: "'a::len word" and reg :: "'a word"
  assumes "0 < count" and "LENGTH('b::len) = 2 * LENGTH('a)" and "count < LENGTH('b)"
  shows "bit v (count - 1) \<longleftrightarrow>
    count \<le> LENGTH('a) \<and> bit (word_cat reg v :: 'b word) (count - 1)"
  using assms by (auto simp: bit_word_cat_iff dest: bit_imp_le_length)

text \<open>
  C38.  The double shifts.  SHLD and SHRD write back the upper or lower half of the two operands joined
  and shifted as one value, for every count from 1 to 31 at 16 and at 32 bits; zero, sign and parity
  follow the result, half carry and overflow are cleared.  At 32 bits, and at 16 bits for counts up to
  16, carry is the last bit shifted out of the joined operands; at 16 bits for counts from 17 to 31,
  where that would be a bit of the register operand, the code always clears it.
\<close>

theorem double_shift_correct:
  assumes "0 < count" and "count < 32"
  shows "performs (SHLD_w False count v reg s)
      (let joined = word_cat v reg :: u32; r = ucast (drop_bit 16 (push_bit count joined))
       in (r, result_flags r (count \<le> 16 \<and> bit joined (32 - count)) False)) \<and>
    performs (SHRD_w False count v reg s)
      (let joined = word_cat reg v :: u32; r = ucast (drop_bit count joined)
       in (r, result_flags r (count \<le> 16 \<and> bit joined (count - 1)) False)) \<and>
    performs (SHLD_l False count w reg' s)
      (let joined = word_cat w reg' :: u64; r = ucast (drop_bit 32 (push_bit count joined))
       in (r, result_flags r (bit joined (64 - count)) False)) \<and>
    performs (SHRD_l False count w reg' s)
      (let joined = word_cat reg' w :: u64; r = ucast (drop_bit count joined)
       in (r, result_flags r (bit joined (count - 1)) False))"
proof -
  note left = joined_carry_left [OF assms(1), where 'b = 32, of v reg]
    joined_carry_left [OF assms(1), where 'b = 64, of w reg']
  note right = joined_carry_right [OF assms(1), where 'b = 32, of v reg]
    joined_carry_right [OF assms(1), where 'b = 64, of w reg']
  show ?thesis
    using shld_w_correct [OF assms(1), of v reg s] shrd_w_correct [OF assms(1), of v reg s]
      shld_l_correct [OF assms, of w reg' s] shrd_l_correct [OF assms, of w reg' s] left right assms
    by (simp add: Let_def)
qed

theorem double_shift_correct_witness:
  "let s = \<lparr>v_flags = 3, v_flags_op = FLAGS_UNKNOWN, v_flags_res = 0, v_flags_op1 = 0, v_flags_op2 = 0, v_tempc = False\<rparr>
   in 0 < (4 :: nat) \<and> (4 :: nat) < 32 \<and> performs (SHLD_w False 4 0x1234 0xabcd s) (0x234a, result_flags (0x234a :: u16) True False)"
proof -
  let ?s = "\<lparr>v_flags = 3, v_flags_op = FLAGS_UNKNOWN, v_flags_res = 0, v_flags_op1 = 0, v_flags_op2 = 0, v_tempc = False\<rparr>"
  have "(word_cat (0x1234 :: u16) (0xabcd :: u16) :: u32) = 0x1234abcd" by (simp add: word_cat_eq)
  moreover have "bit (0x1234abcd :: u32) 28" by (simp add: bit_iff_odd)
  ultimately show ?thesis
    using double_shift_correct [where count = 4 and v = "0x1234" and reg = "0xabcd" and s = ?s and w = 0 and reg' = 0] by (simp add: Let_def)
qed

text \<open>
  A one-bit double shift that changes the sign sets no overflow, which the architecture asks for there.
\<close>

lemma double_shift_no_overflow:
  "let s = \<lparr>v_flags = 2, v_flags_op = FLAGS_UNKNOWN, v_flags_res = 0, v_flags_op1 = 0, v_flags_op2 = 0, v_tempc = False\<rparr>
   in case SHLD_w False 1 0x4000 0 s of (v, t, fault) \<Rightarrow> v = Some 0x8000 \<and> \<not> VF_SET t"
  using shld_w_correct [of 1 "0x4000" 0 "\<lparr>v_flags = 2, v_flags_op = FLAGS_UNKNOWN, v_flags_res = 0, v_flags_op1 = 0,
    v_flags_op2 = 0, v_tempc = False\<rparr>"]
  by (auto simp: performs_def flags_of_def result_flags_def Let_def word_cat_eq)

end
