(* ===== verification/Upi42.thy ===== *)
theory Upi42
  imports Prelude
begin

text \<open>
  The MCS-48 microcontroller core of the keyboard controllers, \<open>upi42.c\<close> (8041, 8042, 80C42).
  \<open>upi42_t\<close> is the C structure, with \<open>ram\<close>, the ports and the ROM as lists, the 5-bit prescaler as a
  5-bit word and the one-bit fields as booleans.  One definition per instruction, in the order of
  the source: it takes the two fetched bytes and the state and returns the amount to add to the
  program counter and the new state.  The static table of function pointers is a list of functions,
  with \<open>None\<close> for NULL; the copy of it in the structure, of which entries are set to NULL, is the list
  of the entries that are still there.  Reading outside the ROM or outside \<open>ram\<close> and
  the call of \<open>fatal\<close> for an unknown instruction are the result \<open>None\<close>.

  The host side is the port, data buffer, status and command functions and the register window of
  \<open>upi42_write\<close> and \<open>upi42_read\<close>, with its bus master transfer between the ROM and guest memory: the
  function that reads guest memory is a parameter, the writes to it are returned as a list.  The test
  monitor of the stand-alone build is not modelled.
\<close>

section \<open>State\<close>

record upi42_t =
  m_ops :: "bool list"
  m_type :: u32
  m_ram :: "u8 list"
  m_rom :: "u8 list"
  m_ports_in :: "u8 list"
  m_ports_out :: "u8 list"
  m_dbb_in :: u8
  m_dbb_out :: u8
  m_rammask :: u8
  m_a :: u8
  m_t :: u8
  m_psw :: u8
  m_sts :: u8
  m_pc :: u16
  m_rommask :: u16
  m_prescaler :: "5 word"
  m_tf :: bool
  m_skip_timer_inc :: bool
  m_run_timer :: bool
  m_run_counter :: bool
  m_tcnti :: bool
  m_i :: bool
  m_i_raise :: bool
  m_tcnti_raise :: bool
  m_irq_mask :: bool
  m_t0 :: bool
  m_t1 :: bool
  m_flags :: bool
  m_dbf :: bool
  m_suspend :: bool
  m_cycs :: int
  m_ram_index :: u8
  m_rom_index :: u16
  m_ram_addr :: u32
  m_bm_stat :: u8

type_synonym op_result = "(nat \<times> upi42_t) option"

definition UPI42_8048 :: u32 where "UPI42_8048 = 1023 OR push_bit 16 63"
definition UPI42_8049 :: u32 where "UPI42_8049 = 2047 OR push_bit 16 127"
definition UPI42_8041 :: u32 where "UPI42_8041 = 1023 OR push_bit 16 127 OR push_bit 24 1"
definition UPI42_8042 :: u32 where "UPI42_8042 = 2047 OR push_bit 16 255 OR push_bit 24 1"
definition UPI42_80C42 :: u32 where "UPI42_80C42 = 4095 OR push_bit 16 255 OR push_bit 24 1 OR push_bit 25 1"
definition UPI42_EXT_C42 :: u32 where "UPI42_EXT_C42 = push_bit 25 1"

section \<open>Operands\<close>

text \<open>
  \<open>reg\<close> is the cell of a register in the selected bank (the macro \<open>UPI42_REG\<close>), \<open>ind\<close> the cell most
  indirect instructions address, through the first two cells whatever the bank, and \<open>reg_ind\<close> the
  one the additions address, through the register of the selected bank.
\<close>

definition reg :: "upi42_t \<Rightarrow> u32 \<Rightarrow> nat" where
  "reg u f = (if tst (m_psw u) 0x10 then 24 + unat (f AND 7) else unat (f AND 7))"

definition ind :: "upi42_t \<Rightarrow> u32 \<Rightarrow> nat" where
  "ind u f = unat (m_ram u ! unat (f AND 1) AND m_rammask u)"

definition reg_ind :: "upi42_t \<Rightarrow> u32 \<Rightarrow> nat" where
  "reg_ind u f = unat (m_ram u ! reg u f AND m_rammask u)"

definition imm :: "u32 \<Rightarrow> u8" where
  "imm f = ucast (drop_bit 8 f)"

definition port :: "u32 \<Rightarrow> nat" where
  "port f = unat (f AND 3)"

definition rom_at :: "u16 \<Rightarrow> upi42_t \<Rightarrow> u8 option" where
  "rom_at a u = (if unat a < length (m_rom u) then Some (m_rom u ! unat a) else None)"

definition cyc :: "upi42_t \<Rightarrow> upi42_t" where
  "cyc u = u\<lparr>m_cycs := m_cycs u - 1\<rparr>"

definition upi42_mirror_f0 :: "upi42_t \<Rightarrow> upi42_t" where
  "upi42_mirror_f0 u = u\<lparr>m_sts := drop_bit 3 (m_psw u AND 0x20) OR (m_sts u AND NOT 0x04)\<rparr>"

text \<open>The carry bit of the program status word after an addition with result \<open>res\<close>.\<close>

definition carry_psw :: "u8 \<Rightarrow> u32 \<Rightarrow> u8" where
  "carry_psw psw res = ucast (drop_bit 1 res AND 0x80) OR (psw AND NOT 0x80)"

definition add_to_a :: "u8 \<Rightarrow> u8 \<Rightarrow> upi42_t \<Rightarrow> op_result" where
  "add_to_a c v u =
    (let res = (ucast (m_a u) + ucast c + ucast v :: u32)
     in Some (1, u\<lparr>m_a := ucast res, m_psw := carry_psw (m_psw u) res\<rparr>))"

definition jump_target :: "u32 \<Rightarrow> upi42_t \<Rightarrow> u16" where
  "jump_target f u = push_bit 11 (of_bool (m_dbf u)) OR ucast (push_bit 3 f AND 0x0700) OR ucast (drop_bit 8 f AND 0xff)"

definition page_jump :: "u32 \<Rightarrow> upi42_t \<Rightarrow> upi42_t" where
  "page_jump f u = u\<lparr>m_pc := (m_pc u AND 0xff00) OR ucast (drop_bit 8 f AND 0xff)\<rparr>"

text \<open>
  \<open>UPI42_COND_JMP_IMM\<close>: the condition is evaluated before the jump and again, after \<open>post\<close>, for the
  amount to add to the program counter.
\<close>

definition cond_jump :: "(upi42_t \<Rightarrow> bool) \<Rightarrow> (upi42_t \<Rightarrow> upi42_t) \<Rightarrow> u32 \<Rightarrow> upi42_t \<Rightarrow> op_result" where
  "cond_jump cond post f u =
    (let u = post (if cond u then page_jump f u else u) in Some (if cond u then 0 else 2, cyc u))"

section \<open>Instructions\<close>

named_theorems insn_defs \<open>the definitions of the instructions\<close>

definition upi42_op_MOV_A_Rr :: "u32 \<Rightarrow> upi42_t \<Rightarrow> op_result" where [insn_defs]:
  "upi42_op_MOV_A_Rr f u = Some (1, u\<lparr>m_a := m_ram u ! reg u f\<rparr>)"

definition upi42_op_MOV_Rr_A :: "u32 \<Rightarrow> upi42_t \<Rightarrow> op_result" where [insn_defs]:
  "upi42_op_MOV_Rr_A f u = Some (1, u\<lparr>m_ram := (m_ram u)[reg u f := m_a u]\<rparr>)"

definition upi42_op_MOV_A_indRr :: "u32 \<Rightarrow> upi42_t \<Rightarrow> op_result" where [insn_defs]:
  "upi42_op_MOV_A_indRr f u = Some (1, u\<lparr>m_a := m_ram u ! ind u f\<rparr>)"

definition upi42_op_MOV_indRr_A :: "u32 \<Rightarrow> upi42_t \<Rightarrow> op_result" where [insn_defs]:
  "upi42_op_MOV_indRr_A f u = Some (1, u\<lparr>m_ram := (m_ram u)[ind u f := m_a u]\<rparr>)"

definition upi42_op_MOV_Rr_imm :: "u32 \<Rightarrow> upi42_t \<Rightarrow> op_result" where [insn_defs]:
  "upi42_op_MOV_Rr_imm f u = Some (2, cyc (u\<lparr>m_ram := (m_ram u)[reg u f := imm f]\<rparr>))"

definition upi42_op_MOV_indRr_imm :: "u32 \<Rightarrow> upi42_t \<Rightarrow> op_result" where [insn_defs]:
  "upi42_op_MOV_indRr_imm f u = Some (2, cyc (u\<lparr>m_ram := (m_ram u)[ind u f := imm f]\<rparr>))"

definition upi42_op_MOV_A_imm :: "u32 \<Rightarrow> upi42_t \<Rightarrow> op_result" where [insn_defs]:
  "upi42_op_MOV_A_imm f u = Some (2, cyc (u\<lparr>m_a := imm f\<rparr>))"

definition upi42_op_MOV_A_PSW :: "u32 \<Rightarrow> upi42_t \<Rightarrow> op_result" where [insn_defs]:
  "upi42_op_MOV_A_PSW f u = Some (1, upi42_mirror_f0 (u\<lparr>m_a := m_psw u\<rparr>))"

definition upi42_op_MOV_PSW_A :: "u32 \<Rightarrow> upi42_t \<Rightarrow> op_result" where [insn_defs]:
  "upi42_op_MOV_PSW_A f u = Some (1, upi42_mirror_f0 (u\<lparr>m_psw := m_a u\<rparr>))"

definition upi42_op_MOV_A_T :: "u32 \<Rightarrow> upi42_t \<Rightarrow> op_result" where [insn_defs]:
  "upi42_op_MOV_A_T f u = Some (1, u\<lparr>m_a := m_t u\<rparr>)"

definition upi42_op_MOV_T_A :: "u32 \<Rightarrow> upi42_t \<Rightarrow> op_result" where [insn_defs]:
  "upi42_op_MOV_T_A f u = Some (1, u\<lparr>m_t := m_a u\<rparr>)"

definition upi42_op_MOV_STS_A :: "u32 \<Rightarrow> upi42_t \<Rightarrow> op_result" where [insn_defs]:
  "upi42_op_MOV_STS_A f u = Some (1, u\<lparr>m_sts := (m_a u AND 0xf0) OR (m_sts u AND 0x0f)\<rparr>)"

definition upi42_op_MOVP_A_indA :: "u32 \<Rightarrow> upi42_t \<Rightarrow> op_result" where [insn_defs]:
  "upi42_op_MOVP_A_indA f u = (case rom_at ((m_pc u AND 0xff00) OR ucast (m_a u)) u of None \<Rightarrow> None | Some v \<Rightarrow> Some (1, cyc (u\<lparr>m_a := v\<rparr>)))"

definition upi42_op_MOVP3_A_indA :: "u32 \<Rightarrow> upi42_t \<Rightarrow> op_result" where [insn_defs]:
  "upi42_op_MOVP3_A_indA f u = (case rom_at (0x300 OR ucast (m_a u)) u of None \<Rightarrow> None | Some v \<Rightarrow> Some (1, cyc (u\<lparr>m_a := v\<rparr>)))"

definition upi42_op_XCH_A_Rr :: "u32 \<Rightarrow> upi42_t \<Rightarrow> op_result" where [insn_defs]:
  "upi42_op_XCH_A_Rr f u = Some (1, u\<lparr>m_a := m_ram u ! reg u f, m_ram := (m_ram u)[reg u f := m_a u]\<rparr>)"

definition upi42_op_XCH_A_indRr :: "u32 \<Rightarrow> upi42_t \<Rightarrow> op_result" where [insn_defs]:
  "upi42_op_XCH_A_indRr f u = Some (1, u\<lparr>m_a := m_ram u ! ind u f, m_ram := (m_ram u)[ind u f := m_a u]\<rparr>)"

definition upi42_op_XCHD_A_indRr :: "u32 \<Rightarrow> upi42_t \<Rightarrow> op_result" where [insn_defs]:
  "upi42_op_XCHD_A_indRr f u = Some (1, u\<lparr>m_a := (m_a u AND 0xf0) OR (m_ram u ! ind u f AND 0x0f), m_ram := (m_ram u)[ind u f := (m_ram u ! ind u f AND 0xf0) OR (m_a u AND 0x0f)]\<rparr>)"

definition upi42_op_SWAP_A :: "u32 \<Rightarrow> upi42_t \<Rightarrow> op_result" where [insn_defs]:
  "upi42_op_SWAP_A f u = Some (1, u\<lparr>m_a := push_bit 4 (m_a u) OR drop_bit 4 (m_a u)\<rparr>)"

definition upi42_op_IN_A_Pp :: "u32 \<Rightarrow> upi42_t \<Rightarrow> op_result" where [insn_defs]:
  "upi42_op_IN_A_Pp f u = Some (1, cyc (u\<lparr>m_a := m_ports_in u ! port f AND m_ports_out u ! port f\<rparr>))"

definition upi42_op_IN_A_DBB :: "u32 \<Rightarrow> upi42_t \<Rightarrow> op_result" where [insn_defs]:
  "upi42_op_IN_A_DBB f u = Some (1, u\<lparr>m_a := m_dbb_in u, m_sts := m_sts u AND NOT 0x02\<rparr>)"

definition upi42_op_OUTL_Pp_A :: "u32 \<Rightarrow> upi42_t \<Rightarrow> op_result" where [insn_defs]:
  "upi42_op_OUTL_Pp_A f u = Some (1, cyc (u\<lparr>m_ports_out := (m_ports_out u)[port f := m_a u]\<rparr>))"

definition upi42_op_OUT_DBB_A :: "u32 \<Rightarrow> upi42_t \<Rightarrow> op_result" where [insn_defs]:
  "upi42_op_OUT_DBB_A f u = Some (1, u\<lparr>m_dbb_out := m_a u, m_sts := m_sts u OR 0x01\<rparr>)"

definition upi42_op_MOVD_A_Pp :: "u32 \<Rightarrow> upi42_t \<Rightarrow> op_result" where [insn_defs]:
  "upi42_op_MOVD_A_Pp f u = Some (1, cyc (u\<lparr>m_a := m_ports_in u ! (4 + port f) AND m_ports_out u ! (4 + port f) AND 0x0f\<rparr>))"

definition upi42_op_MOVD_Pp_A :: "u32 \<Rightarrow> upi42_t \<Rightarrow> op_result" where [insn_defs]:
  "upi42_op_MOVD_Pp_A f u = Some (1, cyc (u\<lparr>m_ports_out := (m_ports_out u)[4 + port f := m_a u AND 0x0f]\<rparr>))"

definition upi42_op_ANL_A_Rr :: "u32 \<Rightarrow> upi42_t \<Rightarrow> op_result" where [insn_defs]:
  "upi42_op_ANL_A_Rr f u = Some (1, u\<lparr>m_a := m_a u AND m_ram u ! reg u f\<rparr>)"

definition upi42_op_ORL_A_Rr :: "u32 \<Rightarrow> upi42_t \<Rightarrow> op_result" where [insn_defs]:
  "upi42_op_ORL_A_Rr f u = Some (1, u\<lparr>m_a := m_a u OR m_ram u ! reg u f\<rparr>)"

definition upi42_op_XRL_A_Rr :: "u32 \<Rightarrow> upi42_t \<Rightarrow> op_result" where [insn_defs]:
  "upi42_op_XRL_A_Rr f u = Some (1, u\<lparr>m_a := m_a u XOR m_ram u ! reg u f\<rparr>)"

definition upi42_op_ANL_A_indRr :: "u32 \<Rightarrow> upi42_t \<Rightarrow> op_result" where [insn_defs]:
  "upi42_op_ANL_A_indRr f u = Some (1, u\<lparr>m_a := m_a u AND m_ram u ! ind u f\<rparr>)"

definition upi42_op_ORL_A_indRr :: "u32 \<Rightarrow> upi42_t \<Rightarrow> op_result" where [insn_defs]:
  "upi42_op_ORL_A_indRr f u = Some (1, u\<lparr>m_a := m_a u OR m_ram u ! ind u f\<rparr>)"

definition upi42_op_XRL_A_indRr :: "u32 \<Rightarrow> upi42_t \<Rightarrow> op_result" where [insn_defs]:
  "upi42_op_XRL_A_indRr f u = Some (1, u\<lparr>m_a := m_a u XOR m_ram u ! ind u f\<rparr>)"

definition upi42_op_ANL_A_imm :: "u32 \<Rightarrow> upi42_t \<Rightarrow> op_result" where [insn_defs]:
  "upi42_op_ANL_A_imm f u = Some (2, cyc (u\<lparr>m_a := m_a u AND imm f\<rparr>))"

definition upi42_op_ORL_A_imm :: "u32 \<Rightarrow> upi42_t \<Rightarrow> op_result" where [insn_defs]:
  "upi42_op_ORL_A_imm f u = Some (2, cyc (u\<lparr>m_a := m_a u OR imm f\<rparr>))"

definition upi42_op_XRL_A_imm :: "u32 \<Rightarrow> upi42_t \<Rightarrow> op_result" where [insn_defs]:
  "upi42_op_XRL_A_imm f u = Some (2, cyc (u\<lparr>m_a := m_a u XOR imm f\<rparr>))"

definition upi42_op_ANL_Pp_imm :: "u32 \<Rightarrow> upi42_t \<Rightarrow> op_result" where [insn_defs]:
  "upi42_op_ANL_Pp_imm f u = Some (2, cyc (u\<lparr>m_ports_out := (m_ports_out u)[port f := m_ports_out u ! port f AND imm f]\<rparr>))"

definition upi42_op_ORL_Pp_imm :: "u32 \<Rightarrow> upi42_t \<Rightarrow> op_result" where [insn_defs]:
  "upi42_op_ORL_Pp_imm f u = Some (2, cyc (u\<lparr>m_ports_out := (m_ports_out u)[port f := m_ports_out u ! port f OR imm f]\<rparr>))"

definition upi42_op_ANLD_Pp_A :: "u32 \<Rightarrow> upi42_t \<Rightarrow> op_result" where [insn_defs]:
  "upi42_op_ANLD_Pp_A f u = Some (1, cyc (u\<lparr>m_ports_out := (m_ports_out u)[4 + port f := m_ports_out u ! (4 + port f) AND m_a u]\<rparr>))"

definition upi42_op_ORLD_Pp_A :: "u32 \<Rightarrow> upi42_t \<Rightarrow> op_result" where [insn_defs]:
  "upi42_op_ORLD_Pp_A f u = Some (1, cyc (u\<lparr>m_ports_out := (m_ports_out u)[4 + port f := m_ports_out u ! (4 + port f) OR m_a u]\<rparr>))"

definition upi42_op_RR_A :: "u32 \<Rightarrow> upi42_t \<Rightarrow> op_result" where [insn_defs]:
  "upi42_op_RR_A f u = Some (1, u\<lparr>m_a := push_bit 7 (m_a u) OR drop_bit 1 (m_a u)\<rparr>)"

definition upi42_op_RL_A :: "u32 \<Rightarrow> upi42_t \<Rightarrow> op_result" where [insn_defs]:
  "upi42_op_RL_A f u = Some (1, u\<lparr>m_a := drop_bit 7 (m_a u) OR push_bit 1 (m_a u)\<rparr>)"

definition upi42_op_RRC_A :: "u32 \<Rightarrow> upi42_t \<Rightarrow> op_result" where [insn_defs]:
  "upi42_op_RRC_A f u = Some (1, u\<lparr>m_a := (m_psw u AND 0x80) OR drop_bit 1 (m_a u), m_psw := push_bit 7 (m_a u) OR (m_psw u AND NOT 0x80)\<rparr>)"

definition upi42_op_RLC_A :: "u32 \<Rightarrow> upi42_t \<Rightarrow> op_result" where [insn_defs]:
  "upi42_op_RLC_A f u = Some (1, u\<lparr>m_a := push_bit 1 (m_a u) OR drop_bit 7 (m_psw u), m_psw := (m_a u AND 0x80) OR (m_psw u AND NOT 0x80)\<rparr>)"

definition upi42_op_INC_A :: "u32 \<Rightarrow> upi42_t \<Rightarrow> op_result" where [insn_defs]:
  "upi42_op_INC_A f u = Some (1, u\<lparr>m_a := m_a u + 1\<rparr>)"

definition upi42_op_INC_Rr :: "u32 \<Rightarrow> upi42_t \<Rightarrow> op_result" where [insn_defs]:
  "upi42_op_INC_Rr f u = Some (1, u\<lparr>m_ram := (m_ram u)[reg u f := m_ram u ! reg u f + 1]\<rparr>)"

definition upi42_op_INC_indRr :: "u32 \<Rightarrow> upi42_t \<Rightarrow> op_result" where [insn_defs]:
  "upi42_op_INC_indRr f u = Some (1, u\<lparr>m_ram := (m_ram u)[ind u f := m_ram u ! ind u f + 1]\<rparr>)"

definition upi42_op_DEC_A :: "u32 \<Rightarrow> upi42_t \<Rightarrow> op_result" where [insn_defs]:
  "upi42_op_DEC_A f u = Some (1, u\<lparr>m_a := m_a u - 1\<rparr>)"

definition upi42_op_DEC_Rr :: "u32 \<Rightarrow> upi42_t \<Rightarrow> op_result" where [insn_defs]:
  "upi42_op_DEC_Rr f u = Some (1, u\<lparr>m_ram := (m_ram u)[reg u f := m_ram u ! reg u f - 1]\<rparr>)"

definition upi42_op_DJNZ_Rr_imm :: "u32 \<Rightarrow> upi42_t \<Rightarrow> op_result" where [insn_defs]:
  "upi42_op_DJNZ_Rr_imm f u = (let v = m_ram u ! reg u f - 1; u = cyc (u\<lparr>m_ram := (m_ram u)[reg u f := v]\<rparr>) in
     if v \<noteq> 0 then Some (0, page_jump f u) else Some (2, u))"

definition upi42_op_ADD_A_Rr :: "u32 \<Rightarrow> upi42_t \<Rightarrow> op_result" where [insn_defs]:
  "upi42_op_ADD_A_Rr f u = add_to_a 0 (m_ram u ! reg u f) u"

definition upi42_op_ADDC_A_Rr :: "u32 \<Rightarrow> upi42_t \<Rightarrow> op_result" where [insn_defs]:
  "upi42_op_ADDC_A_Rr f u = add_to_a (drop_bit 7 (m_psw u)) (m_ram u ! reg u f) u"

definition upi42_op_ADD_A_indRr :: "u32 \<Rightarrow> upi42_t \<Rightarrow> op_result" where [insn_defs]:
  "upi42_op_ADD_A_indRr f u = add_to_a 0 (m_ram u ! reg_ind u f) u"

definition upi42_op_ADDC_A_indRr :: "u32 \<Rightarrow> upi42_t \<Rightarrow> op_result" where [insn_defs]:
  "upi42_op_ADDC_A_indRr f u = add_to_a (drop_bit 7 (m_psw u)) (m_ram u ! reg_ind u f) u"

definition upi42_op_ADD_A_imm :: "u32 \<Rightarrow> upi42_t \<Rightarrow> op_result" where [insn_defs]:
  "upi42_op_ADD_A_imm f u = map_option (\<lambda>(_, u). (2, cyc u)) (add_to_a 0 (imm f) u)"

definition upi42_op_ADDC_A_imm :: "u32 \<Rightarrow> upi42_t \<Rightarrow> op_result" where [insn_defs]:
  "upi42_op_ADDC_A_imm f u = map_option (\<lambda>(_, u). (2, cyc u)) (add_to_a (drop_bit 7 (m_psw u)) (imm f) u)"

definition upi42_op_CLR_A :: "u32 \<Rightarrow> upi42_t \<Rightarrow> op_result" where [insn_defs]:
  "upi42_op_CLR_A f u = Some (1, u\<lparr>m_a := 0\<rparr>)"

definition upi42_op_CPL_A :: "u32 \<Rightarrow> upi42_t \<Rightarrow> op_result" where [insn_defs]:
  "upi42_op_CPL_A f u = Some (1, u\<lparr>m_a := NOT (m_a u)\<rparr>)"

definition upi42_op_DA_A :: "u32 \<Rightarrow> upi42_t \<Rightarrow> op_result" where [insn_defs]:
  "upi42_op_DA_A f u = (let a = (if m_a u AND 0x0f > 9 \<or> tst (m_psw u) 0x40 then m_a u + 6 else m_a u) in
     if drop_bit 4 a > 9 \<or> tst (m_psw u) 0x80 then
       (let res = (ucast a + 0x60 :: u32) in Some (1, u\<lparr>m_a := ucast res, m_psw := carry_psw (m_psw u) res\<rparr>))
     else Some (1, u\<lparr>m_a := a\<rparr>))"

definition upi42_op_CLR_C :: "u32 \<Rightarrow> upi42_t \<Rightarrow> op_result" where [insn_defs]:
  "upi42_op_CLR_C f u = Some (1, u\<lparr>m_psw := m_psw u AND NOT 0x80\<rparr>)"

definition upi42_op_CPL_C :: "u32 \<Rightarrow> upi42_t \<Rightarrow> op_result" where [insn_defs]:
  "upi42_op_CPL_C f u = Some (1, u\<lparr>m_psw := m_psw u XOR 0x80\<rparr>)"

definition upi42_op_CLR_F0 :: "u32 \<Rightarrow> upi42_t \<Rightarrow> op_result" where [insn_defs]:
  "upi42_op_CLR_F0 f u = Some (1, upi42_mirror_f0 (u\<lparr>m_psw := m_psw u AND NOT 0x20\<rparr>))"

definition upi42_op_CPL_F0 :: "u32 \<Rightarrow> upi42_t \<Rightarrow> op_result" where [insn_defs]:
  "upi42_op_CPL_F0 f u = Some (1, upi42_mirror_f0 (u\<lparr>m_psw := m_psw u XOR 0x20\<rparr>))"

definition upi42_op_CLR_F1 :: "u32 \<Rightarrow> upi42_t \<Rightarrow> op_result" where [insn_defs]:
  "upi42_op_CLR_F1 f u = Some (1, u\<lparr>m_sts := m_sts u AND NOT 0x08\<rparr>)"

definition upi42_op_CPL_F1 :: "u32 \<Rightarrow> upi42_t \<Rightarrow> op_result" where [insn_defs]:
  "upi42_op_CPL_F1 f u = Some (1, u\<lparr>m_sts := m_sts u XOR 0x08\<rparr>)"

definition upi42_op_EN_I :: "u32 \<Rightarrow> upi42_t \<Rightarrow> op_result" where [insn_defs]:
  "upi42_op_EN_I f u = Some (1, u\<lparr>m_i := True, m_skip_timer_inc := True\<rparr>)"

definition upi42_op_DIS_I :: "u32 \<Rightarrow> upi42_t \<Rightarrow> op_result" where [insn_defs]:
  "upi42_op_DIS_I f u = Some (1, u\<lparr>m_i := False, m_skip_timer_inc := True\<rparr>)"

definition upi42_op_EN_TCNTI :: "u32 \<Rightarrow> upi42_t \<Rightarrow> op_result" where [insn_defs]:
  "upi42_op_EN_TCNTI f u = Some (1, u\<lparr>m_tcnti := True\<rparr>)"

definition upi42_op_DIS_TCNTI :: "u32 \<Rightarrow> upi42_t \<Rightarrow> op_result" where [insn_defs]:
  "upi42_op_DIS_TCNTI f u = Some (1, u\<lparr>m_tcnti := False, m_tcnti_raise := False\<rparr>)"

definition upi42_op_STRT_T :: "u32 \<Rightarrow> upi42_t \<Rightarrow> op_result" where [insn_defs]:
  "upi42_op_STRT_T f u = Some (1, u\<lparr>m_run_timer := True, m_prescaler := 0, m_skip_timer_inc := True\<rparr>)"

definition upi42_op_STRT_CNT :: "u32 \<Rightarrow> upi42_t \<Rightarrow> op_result" where [insn_defs]:
  "upi42_op_STRT_CNT f u = Some (1, u\<lparr>m_run_counter := True, m_skip_timer_inc := True\<rparr>)"

definition upi42_op_STOP_TCNT :: "u32 \<Rightarrow> upi42_t \<Rightarrow> op_result" where [insn_defs]:
  "upi42_op_STOP_TCNT f u = Some (1, u\<lparr>m_run_timer := False, m_run_counter := False, m_skip_timer_inc := True\<rparr>)"

definition upi42_op_SEL_PMB0 :: "u32 \<Rightarrow> upi42_t \<Rightarrow> op_result" where [insn_defs]:
  "upi42_op_SEL_PMB0 f u = Some (1, u\<lparr>m_dbf := False\<rparr>)"

definition upi42_op_SEL_PMB1 :: "u32 \<Rightarrow> upi42_t \<Rightarrow> op_result" where [insn_defs]:
  "upi42_op_SEL_PMB1 f u = Some (1, u\<lparr>m_dbf := True\<rparr>)"

definition upi42_op_SEL_RB0 :: "u32 \<Rightarrow> upi42_t \<Rightarrow> op_result" where [insn_defs]:
  "upi42_op_SEL_RB0 f u = Some (1, u\<lparr>m_psw := m_psw u AND NOT 0x10\<rparr>)"

definition upi42_op_SEL_RB1 :: "u32 \<Rightarrow> upi42_t \<Rightarrow> op_result" where [insn_defs]:
  "upi42_op_SEL_RB1 f u = Some (1, u\<lparr>m_psw := m_psw u OR 0x10\<rparr>)"

definition upi42_op_NOP :: "u32 \<Rightarrow> upi42_t \<Rightarrow> op_result" where [insn_defs]:
  "upi42_op_NOP f u = Some (1, u)"

definition upi42_op_CALL_imm :: "u32 \<Rightarrow> upi42_t \<Rightarrow> op_result" where [insn_defs]:
  "upi42_op_CALL_imm f u = (let sp = 2 * unat (m_psw u AND 0x07);
         u = u\<lparr>m_ram := (m_ram u)[8 + sp := ucast (m_pc u + 2),
               8 + (sp + 1) := (m_psw u AND 0xf0) OR (ucast (drop_bit 8 (m_pc u)) AND 0x07)],
             m_psw := (m_psw u AND 0xf8) OR of_nat ((sp + 2) div 2)\<rparr>
     in Some (0, cyc (u\<lparr>m_pc := jump_target f u\<rparr>)))"

definition upi42_op_RET :: "u32 \<Rightarrow> upi42_t \<Rightarrow> op_result" where [insn_defs]:
  "upi42_op_RET f u = (let sp = 2 * unat (m_psw u AND 0x07) in
     if sp = 0 then None
     else
       (let frame1 = m_ram u ! (8 + (sp - 1)); frame0 = m_ram u ! (8 + (sp - 2));
            u = u\<lparr>m_psw := (m_psw u AND 0xf8) OR of_nat ((sp - 2) div 2),
                m_pc := push_bit 8 (ucast (frame1 AND 0x0f)) OR ucast frame0\<rparr>;
            u = (if tst f 0x10 then
                   (upi42_mirror_f0 (u\<lparr>m_psw := (frame1 AND 0xf0) OR (m_psw u AND 0x0f)\<rparr>))\<lparr>m_irq_mask := False\<rparr>
                 else u)
        in Some (0, cyc u)))"

definition upi42_op_JMP_imm :: "u32 \<Rightarrow> upi42_t \<Rightarrow> op_result" where [insn_defs]:
  "upi42_op_JMP_imm f u = Some (0, cyc (u\<lparr>m_pc := jump_target f u\<rparr>))"

definition upi42_op_JMPP_indA :: "u32 \<Rightarrow> upi42_t \<Rightarrow> op_result" where [insn_defs]:
  "upi42_op_JMPP_indA f u = Some (0, cyc (u\<lparr>m_pc := (m_pc u AND 0xff00) OR ucast (m_a u)\<rparr>))"

definition upi42_op_JC_imm :: "u32 \<Rightarrow> upi42_t \<Rightarrow> op_result" where [insn_defs]:
  "upi42_op_JC_imm f u = cond_jump (\<lambda>u. tst (m_psw u) 0x80) (\<lambda>u. u) f u"

definition upi42_op_JNC_imm :: "u32 \<Rightarrow> upi42_t \<Rightarrow> op_result" where [insn_defs]:
  "upi42_op_JNC_imm f u = cond_jump (\<lambda>u. \<not> tst (m_psw u) 0x80) (\<lambda>u. u) f u"

definition upi42_op_JZ_imm :: "u32 \<Rightarrow> upi42_t \<Rightarrow> op_result" where [insn_defs]:
  "upi42_op_JZ_imm f u = cond_jump (\<lambda>u. m_a u = 0) (\<lambda>u. u) f u"

definition upi42_op_JNZ_imm :: "u32 \<Rightarrow> upi42_t \<Rightarrow> op_result" where [insn_defs]:
  "upi42_op_JNZ_imm f u = cond_jump (\<lambda>u. m_a u \<noteq> 0) (\<lambda>u. u) f u"

definition upi42_op_JT0_imm :: "u32 \<Rightarrow> upi42_t \<Rightarrow> op_result" where [insn_defs]:
  "upi42_op_JT0_imm f u = cond_jump (\<lambda>u. m_t0 u) (\<lambda>u. u) f u"

definition upi42_op_JNT0_imm :: "u32 \<Rightarrow> upi42_t \<Rightarrow> op_result" where [insn_defs]:
  "upi42_op_JNT0_imm f u = cond_jump (\<lambda>u. \<not> m_t0 u) (\<lambda>u. u) f u"

definition upi42_op_JT1_imm :: "u32 \<Rightarrow> upi42_t \<Rightarrow> op_result" where [insn_defs]:
  "upi42_op_JT1_imm f u = cond_jump (\<lambda>u. m_t1 u) (\<lambda>u. u) f u"

definition upi42_op_JNT1_imm :: "u32 \<Rightarrow> upi42_t \<Rightarrow> op_result" where [insn_defs]:
  "upi42_op_JNT1_imm f u = cond_jump (\<lambda>u. \<not> m_t1 u) (\<lambda>u. u) f u"

definition upi42_op_JF0_imm :: "u32 \<Rightarrow> upi42_t \<Rightarrow> op_result" where [insn_defs]:
  "upi42_op_JF0_imm f u = cond_jump (\<lambda>u. tst (m_psw u) 0x20) (\<lambda>u. u) f u"

definition upi42_op_JF1_imm :: "u32 \<Rightarrow> upi42_t \<Rightarrow> op_result" where [insn_defs]:
  "upi42_op_JF1_imm f u = cond_jump (\<lambda>u. tst (m_sts u) 0x08) (\<lambda>u. u) f u"

definition upi42_op_JTF_imm :: "u32 \<Rightarrow> upi42_t \<Rightarrow> op_result" where [insn_defs]:
  "upi42_op_JTF_imm f u = cond_jump (\<lambda>u. \<not> m_tf u) (\<lambda>u. u\<lparr>m_tf := False\<rparr>) f u"

definition upi42_op_JBb_imm :: "u32 \<Rightarrow> upi42_t \<Rightarrow> op_result" where [insn_defs]:
  "upi42_op_JBb_imm f u = cond_jump (\<lambda>u. tst (m_a u) (push_bit (unat (drop_bit 5 f AND 7)) 1)) (\<lambda>u. u) f u"

definition upi42_op_JNIBF_imm :: "u32 \<Rightarrow> upi42_t \<Rightarrow> op_result" where [insn_defs]:
  "upi42_op_JNIBF_imm f u = cond_jump (\<lambda>u. \<not> tst (m_sts u) 0x02) (\<lambda>u. u) f u"

definition upi42_op_JOBF_imm :: "u32 \<Rightarrow> upi42_t \<Rightarrow> op_result" where [insn_defs]:
  "upi42_op_JOBF_imm f u = cond_jump (\<lambda>u. tst (m_sts u) 0x01) (\<lambda>u. u) f u"

definition upi42_op_EN_A20 :: "u32 \<Rightarrow> upi42_t \<Rightarrow> op_result" where [insn_defs]:
  "upi42_op_EN_A20 f u = Some (1, u)"

definition upi42_op_EN_DMA :: "u32 \<Rightarrow> upi42_t \<Rightarrow> op_result" where [insn_defs]:
  "upi42_op_EN_DMA f u = Some (1, u)"

definition upi42_op_EN_FLAGS :: "u32 \<Rightarrow> upi42_t \<Rightarrow> op_result" where [insn_defs]:
  "upi42_op_EN_FLAGS f u = Some (1, u\<lparr>m_flags := True\<rparr>)"

definition upi42_op_SUSPEND :: "u32 \<Rightarrow> upi42_t \<Rightarrow> op_result" where [insn_defs]:
  "upi42_op_SUSPEND f u = Some (1, u\<lparr>m_suspend := True\<rparr>)"

definition ops_80c42 :: "(u32 \<Rightarrow> upi42_t \<Rightarrow> op_result) option list" where
  "ops_80c42 =
    [
     Some upi42_op_NOP, None, Some upi42_op_OUT_DBB_A, Some upi42_op_ADD_A_imm,
     Some upi42_op_JMP_imm, Some upi42_op_EN_I, None, Some upi42_op_DEC_A,
     Some upi42_op_IN_A_Pp, Some upi42_op_IN_A_Pp, Some upi42_op_IN_A_Pp, None,
     Some upi42_op_MOVD_A_Pp, Some upi42_op_MOVD_A_Pp, Some upi42_op_MOVD_A_Pp, Some upi42_op_MOVD_A_Pp,
     Some upi42_op_INC_indRr, Some upi42_op_INC_indRr, Some upi42_op_JBb_imm, Some upi42_op_ADDC_A_imm,
     Some upi42_op_CALL_imm, Some upi42_op_DIS_I, Some upi42_op_JTF_imm, Some upi42_op_INC_A,
     Some upi42_op_INC_Rr, Some upi42_op_INC_Rr, Some upi42_op_INC_Rr, Some upi42_op_INC_Rr,
     Some upi42_op_INC_Rr, Some upi42_op_INC_Rr, Some upi42_op_INC_Rr, Some upi42_op_INC_Rr,
     Some upi42_op_XCH_A_indRr, Some upi42_op_XCH_A_indRr, Some upi42_op_IN_A_DBB, Some upi42_op_MOV_A_imm,
     Some upi42_op_JMP_imm, Some upi42_op_EN_TCNTI, Some upi42_op_JNT0_imm, Some upi42_op_CLR_A,
     Some upi42_op_XCH_A_Rr, Some upi42_op_XCH_A_Rr, Some upi42_op_XCH_A_Rr, Some upi42_op_XCH_A_Rr,
     Some upi42_op_XCH_A_Rr, Some upi42_op_XCH_A_Rr, Some upi42_op_XCH_A_Rr, Some upi42_op_XCH_A_Rr,
     Some upi42_op_XCHD_A_indRr, Some upi42_op_XCHD_A_indRr, Some upi42_op_JBb_imm, Some upi42_op_EN_A20,
     Some upi42_op_CALL_imm, Some upi42_op_DIS_TCNTI, Some upi42_op_JT0_imm, Some upi42_op_CPL_A,
     Some upi42_op_OUTL_Pp_A, Some upi42_op_OUTL_Pp_A, Some upi42_op_OUTL_Pp_A, Some upi42_op_OUTL_Pp_A,
     Some upi42_op_MOVD_Pp_A, Some upi42_op_MOVD_Pp_A, Some upi42_op_MOVD_Pp_A, Some upi42_op_MOVD_Pp_A,
     Some upi42_op_ORL_A_indRr, Some upi42_op_ORL_A_indRr, Some upi42_op_MOV_A_T, Some upi42_op_ORL_A_imm,
     Some upi42_op_JMP_imm, Some upi42_op_STRT_CNT, Some upi42_op_JNT1_imm, Some upi42_op_SWAP_A,
     Some upi42_op_ORL_A_Rr, Some upi42_op_ORL_A_Rr, Some upi42_op_ORL_A_Rr, Some upi42_op_ORL_A_Rr,
     Some upi42_op_ORL_A_Rr, Some upi42_op_ORL_A_Rr, Some upi42_op_ORL_A_Rr, Some upi42_op_ORL_A_Rr,
     Some upi42_op_ANL_A_indRr, Some upi42_op_ANL_A_indRr, Some upi42_op_JBb_imm, Some upi42_op_ANL_A_imm,
     Some upi42_op_CALL_imm, Some upi42_op_STRT_T, Some upi42_op_JT1_imm, Some upi42_op_DA_A,
     Some upi42_op_ANL_A_Rr, Some upi42_op_ANL_A_Rr, Some upi42_op_ANL_A_Rr, Some upi42_op_ANL_A_Rr,
     Some upi42_op_ANL_A_Rr, Some upi42_op_ANL_A_Rr, Some upi42_op_ANL_A_Rr, Some upi42_op_ANL_A_Rr,
     Some upi42_op_ADD_A_indRr, Some upi42_op_ADD_A_indRr, Some upi42_op_MOV_T_A, Some upi42_op_SEL_PMB0,
     Some upi42_op_JMP_imm, Some upi42_op_STOP_TCNT, None, Some upi42_op_RRC_A,
     Some upi42_op_ADD_A_Rr, Some upi42_op_ADD_A_Rr, Some upi42_op_ADD_A_Rr, Some upi42_op_ADD_A_Rr,
     Some upi42_op_ADD_A_Rr, Some upi42_op_ADD_A_Rr, Some upi42_op_ADD_A_Rr, Some upi42_op_ADD_A_Rr,
     Some upi42_op_ADDC_A_indRr, Some upi42_op_ADDC_A_indRr, Some upi42_op_JBb_imm, Some upi42_op_SEL_PMB1,
     Some upi42_op_CALL_imm, None, Some upi42_op_JF1_imm, Some upi42_op_RR_A,
     Some upi42_op_ADDC_A_Rr, Some upi42_op_ADDC_A_Rr, Some upi42_op_ADDC_A_Rr, Some upi42_op_ADDC_A_Rr,
     Some upi42_op_ADDC_A_Rr, Some upi42_op_ADDC_A_Rr, Some upi42_op_ADDC_A_Rr, Some upi42_op_ADDC_A_Rr,
     None, None, Some upi42_op_SUSPEND, Some upi42_op_RET,
     Some upi42_op_JMP_imm, Some upi42_op_CLR_F0, Some upi42_op_JOBF_imm, None,
     Some upi42_op_ORL_Pp_imm, Some upi42_op_ORL_Pp_imm, Some upi42_op_ORL_Pp_imm, Some upi42_op_ORL_Pp_imm,
     Some upi42_op_ORLD_Pp_A, Some upi42_op_ORLD_Pp_A, Some upi42_op_ORLD_Pp_A, Some upi42_op_ORLD_Pp_A,
     Some upi42_op_MOV_STS_A, None, Some upi42_op_JBb_imm, Some upi42_op_RET,
     Some upi42_op_CALL_imm, Some upi42_op_CPL_F0, Some upi42_op_JNZ_imm, Some upi42_op_CLR_C,
     Some upi42_op_ANL_Pp_imm, Some upi42_op_ANL_Pp_imm, Some upi42_op_ANL_Pp_imm, Some upi42_op_ANL_Pp_imm,
     Some upi42_op_ANLD_Pp_A, Some upi42_op_ANLD_Pp_A, Some upi42_op_ANLD_Pp_A, Some upi42_op_ANLD_Pp_A,
     Some upi42_op_MOV_indRr_A, Some upi42_op_MOV_indRr_A, None, Some upi42_op_MOVP_A_indA,
     Some upi42_op_JMP_imm, Some upi42_op_CLR_F1, None, Some upi42_op_CPL_C,
     Some upi42_op_MOV_Rr_A, Some upi42_op_MOV_Rr_A, Some upi42_op_MOV_Rr_A, Some upi42_op_MOV_Rr_A,
     Some upi42_op_MOV_Rr_A, Some upi42_op_MOV_Rr_A, Some upi42_op_MOV_Rr_A, Some upi42_op_MOV_Rr_A,
     Some upi42_op_MOV_indRr_imm, Some upi42_op_MOV_indRr_imm, Some upi42_op_JBb_imm, Some upi42_op_JMPP_indA,
     Some upi42_op_CALL_imm, Some upi42_op_CPL_F1, Some upi42_op_JF0_imm, None,
     Some upi42_op_MOV_Rr_imm, Some upi42_op_MOV_Rr_imm, Some upi42_op_MOV_Rr_imm, Some upi42_op_MOV_Rr_imm,
     Some upi42_op_MOV_Rr_imm, Some upi42_op_MOV_Rr_imm, Some upi42_op_MOV_Rr_imm, Some upi42_op_MOV_Rr_imm,
     None, None, None, None,
     Some upi42_op_JMP_imm, Some upi42_op_SEL_RB0, Some upi42_op_JZ_imm, Some upi42_op_MOV_A_PSW,
     Some upi42_op_DEC_Rr, Some upi42_op_DEC_Rr, Some upi42_op_DEC_Rr, Some upi42_op_DEC_Rr,
     Some upi42_op_DEC_Rr, Some upi42_op_DEC_Rr, Some upi42_op_DEC_Rr, Some upi42_op_DEC_Rr,
     Some upi42_op_XRL_A_indRr, Some upi42_op_XRL_A_indRr, Some upi42_op_JBb_imm, Some upi42_op_XRL_A_imm,
     Some upi42_op_CALL_imm, Some upi42_op_SEL_RB1, Some upi42_op_JNIBF_imm, Some upi42_op_MOV_PSW_A,
     Some upi42_op_XRL_A_Rr, Some upi42_op_XRL_A_Rr, Some upi42_op_XRL_A_Rr, Some upi42_op_XRL_A_Rr,
     Some upi42_op_XRL_A_Rr, Some upi42_op_XRL_A_Rr, Some upi42_op_XRL_A_Rr, Some upi42_op_XRL_A_Rr,
     None, None, Some upi42_op_SUSPEND, Some upi42_op_MOVP3_A_indA,
     Some upi42_op_JMP_imm, Some upi42_op_EN_DMA, Some upi42_op_JNC_imm, Some upi42_op_RL_A,
     Some upi42_op_DJNZ_Rr_imm, Some upi42_op_DJNZ_Rr_imm, Some upi42_op_DJNZ_Rr_imm, Some upi42_op_DJNZ_Rr_imm,
     Some upi42_op_DJNZ_Rr_imm, Some upi42_op_DJNZ_Rr_imm, Some upi42_op_DJNZ_Rr_imm, Some upi42_op_DJNZ_Rr_imm,
     Some upi42_op_MOV_A_indRr, Some upi42_op_MOV_A_indRr, Some upi42_op_JBb_imm, None,
     Some upi42_op_CALL_imm, Some upi42_op_EN_FLAGS, Some upi42_op_JC_imm, Some upi42_op_RLC_A,
     Some upi42_op_MOV_A_Rr, Some upi42_op_MOV_A_Rr, Some upi42_op_MOV_A_Rr, Some upi42_op_MOV_A_Rr,
     Some upi42_op_MOV_A_Rr, Some upi42_op_MOV_A_Rr, Some upi42_op_MOV_A_Rr, Some upi42_op_MOV_A_Rr
    ]"

section \<open>Execution\<close>

definition timer_tick :: "upi42_t \<Rightarrow> upi42_t" where
  "timer_tick u =
    (if \<not> m_run_timer u then u
     else if m_skip_timer_inc u then u\<lparr>m_skip_timer_inc := False\<rparr>
     else
       (let u = u\<lparr>m_prescaler := m_prescaler u + 1\<rparr> in
        if m_prescaler u = 0 then
          (let u = u\<lparr>m_t := m_t u + 1\<rparr> in
           if m_t u = 0 then
             (let u = u\<lparr>m_tf := True\<rparr> in if m_tcnti u then u\<lparr>m_tcnti_raise := True\<rparr> else u)
           else u)
        else u))"

text \<open>Entering an interrupt: the call of the vector with the program counter stepped back.\<close>

definition interrupt :: "u32 \<Rightarrow> upi42_t \<Rightarrow> upi42_t option" where
  "interrupt vec u =
    map_option snd (upi42_op_CALL_imm (push_bit 8 vec)
      (u\<lparr>m_irq_mask := True, m_pc := m_pc u - 2, m_cycs := m_cycs u + 1\<rparr>))"

definition fetch :: "upi42_t \<Rightarrow> u32 option" where
  "fetch u =
    (case rom_at (m_pc u) u of
       None \<Rightarrow> None
     | Some lo \<Rightarrow>
         (case rom_at ((m_pc u + 1) AND m_rommask u) u of
            None \<Rightarrow> None
          | Some hi \<Rightarrow> Some (ucast lo OR push_bit 8 (ucast hi))))"

definition advance_pc :: "nat \<Rightarrow> upi42_t \<Rightarrow> upi42_t" where
  "advance_pc n u = u\<lparr>m_pc := (m_pc u AND 0xf800) OR ((m_pc u + of_nat n) AND 0x07ff)\<rparr>"

definition insn_at :: "nat \<Rightarrow> upi42_t \<Rightarrow> (u32 \<Rightarrow> upi42_t \<Rightarrow> op_result) option" where
  "insn_at n u = (if m_ops u ! n then ops_80c42 ! n else None)"

definition exec_insn :: "upi42_t \<Rightarrow> upi42_t option" where
  "exec_insn u =
    (case fetch u of
       None \<Rightarrow> None
     | Some f \<Rightarrow>
         (case insn_at (unat (f AND 0xff)) u of
            None \<Rightarrow> None
          | Some insn \<Rightarrow>
              (case insn f u of
                 None \<Rightarrow> None
               | Some (inc, u) \<Rightarrow> Some (timer_tick (cyc (advance_pc inc u))))))"

definition upi42_exec :: "upi42_t \<Rightarrow> upi42_t option" where
  "upi42_exec u =
    (if m_suspend u then Some u
     else
       (let u = u\<lparr>m_cycs := m_cycs u + 1\<rparr> in
        if m_cycs u < 0 then Some (timer_tick u)
        else if m_irq_mask u then exec_insn u
        else if m_i_raise u then interrupt 3 (u\<lparr>m_i_raise := False\<rparr>)
        else if m_tcnti_raise u then interrupt 7 (u\<lparr>m_tcnti_raise := False\<rparr>)
        else exec_insn u))"

section \<open>Host side\<close>

definition upi42_port_read :: "nat \<Rightarrow> upi42_t \<Rightarrow> u8" where
  "upi42_port_read p u = m_ports_in u ! (p mod 8) AND m_ports_out u ! (p mod 8)"

definition upi42_port_write :: "nat \<Rightarrow> u8 \<Rightarrow> upi42_t \<Rightarrow> upi42_t" where
  "upi42_port_write p val u = u\<lparr>m_ports_in := (m_ports_in u)[p mod 8 := val]\<rparr>"

definition upi42_dbb_read :: "upi42_t \<Rightarrow> u8 \<times> upi42_t" where
  "upi42_dbb_read u = (m_dbb_out u, u\<lparr>m_sts := m_sts u AND NOT 0x01\<rparr>)"

definition raise_ibf :: "upi42_t \<Rightarrow> upi42_t" where
  "raise_ibf u = (if m_i u then u\<lparr>m_i_raise := True\<rparr> else u)"

definition upi42_dbb_write :: "u8 \<Rightarrow> upi42_t \<Rightarrow> upi42_t" where
  "upi42_dbb_write val u = raise_ibf (u\<lparr>m_dbb_in := val, m_sts := (m_sts u AND NOT 0x08) OR 0x02\<rparr>)"

definition upi42_sts_read :: "upi42_t \<Rightarrow> u8" where
  "upi42_sts_read u = m_sts u"

definition upi42_cmd_write :: "u8 \<Rightarrow> upi42_t \<Rightarrow> upi42_t" where
  "upi42_cmd_write val u = raise_ibf (u\<lparr>m_dbb_in := val, m_sts := m_sts u OR 0x0a\<rparr>)"

definition upi42_reset :: "upi42_t \<Rightarrow> upi42_t" where
  "upi42_reset u =
    u\<lparr>m_pc := 0, m_psw := 0, m_dbf := False, m_i := False, m_tcnti := False, m_tf := False, m_sts := 0,
      m_flags := False, m_suspend := False\<rparr>"

text \<open>The structure cleared by \<open>memset\<close>, with the ROM and the chip type.\<close>

definition upi42_zero :: "u32 \<Rightarrow> u8 list \<Rightarrow> upi42_t" where
  "upi42_zero type rom =
    \<lparr>m_ops = replicate 256 False, m_type = type, m_ram = replicate 256 0, m_rom = rom,
     m_ports_in = replicate 8 0, m_ports_out = replicate 8 0, m_dbb_in = 0, m_dbb_out = 0, m_rammask = 0,
     m_a = 0, m_t = 0, m_psw = 0, m_sts = 0, m_pc = 0, m_rommask = 0, m_prescaler = 0, m_tf = False,
     m_skip_timer_inc = False, m_run_timer = False, m_run_counter = False, m_tcnti = False, m_i = False,
     m_i_raise = False, m_tcnti_raise = False, m_irq_mask = False, m_t0 = False, m_t1 = False,
     m_flags = False, m_dbf = False, m_suspend = False, m_cycs = 0, m_ram_index = 0, m_rom_index = 0,
     m_ram_addr = 0, m_bm_stat = 0\<rparr>"

definition build_ops :: "u32 \<Rightarrow> bool list" where
  "build_ops type =
    (let ops = map (\<lambda>h. case h of None \<Rightarrow> False | Some _ \<Rightarrow> True) ops_80c42 in
     if \<not> tst type UPI42_EXT_C42
     then ops[0x33 := False, 0x63 := False, 0x73 := False, 0x42 := False, 0xe2 := False]
     else ops)"

definition upi42_do_init :: "u32 \<Rightarrow> u8 list \<Rightarrow> upi42_t" where
  "upi42_do_init type rom =
    (upi42_zero type rom)\<lparr>m_rommask := ucast type, m_rammask := ucast (drop_bit 16 type), m_ops := build_ops type,
      m_ports_in := replicate 8 0xff, m_t0 := True, m_t1 := True\<rparr>"

definition rom_put :: "u16 \<Rightarrow> u8 \<Rightarrow> upi42_t \<Rightarrow> upi42_t option" where
  "rom_put a val u =
    (if unat (a AND m_rommask u) < length (m_rom u)
     then Some (u\<lparr>m_rom := (m_rom u)[unat (a AND m_rommask u) := val]\<rparr>) else None)"

definition rom_get :: "u16 \<Rightarrow> upi42_t \<Rightarrow> u8 option" where
  "rom_get a u = rom_at (a AND m_rommask u) u"

text \<open>
  The bus master port copies the ROM to or from guest memory, four bytes at a time in little endian
  order: \<open>rd\<close> is what \<open>mem_readl_phys\<close> returns for an address, and the calls of \<open>mem_writel_phys\<close> are
  returned as a list of address and value.
\<close>

definition rom_dword :: "nat \<Rightarrow> upi42_t \<Rightarrow> u32 option" where
  "rom_dword i u =
    (if i + 3 < length (m_rom u)
     then Some (ucast (m_rom u ! i) OR push_bit 8 (ucast (m_rom u ! (i + 1))) OR
       push_bit 16 (ucast (m_rom u ! (i + 2))) OR push_bit 24 (ucast (m_rom u ! (i + 3))))
     else None)"

definition rom_put_dword :: "nat \<Rightarrow> u32 \<Rightarrow> upi42_t \<Rightarrow> upi42_t option" where
  "rom_put_dword i v u =
    (if i + 3 < length (m_rom u)
     then Some (u\<lparr>m_rom := (m_rom u)[i := ucast v, i + 1 := ucast (drop_bit 8 v), i + 2 := ucast (drop_bit 16 v),
       i + 3 := ucast (drop_bit 24 v)]\<rparr>)
     else None)"

definition bm_offsets :: "upi42_t \<Rightarrow> nat list" where
  "bm_offsets u = map (\<lambda>k. 4 * k) [0..<unat (m_rommask u) div 4 + 1]"

fun bm_from_memory :: "(u32 \<Rightarrow> u32) \<Rightarrow> nat list \<Rightarrow> upi42_t \<Rightarrow> upi42_t option" where
  "bm_from_memory rd [] u = Some u"
| "bm_from_memory rd (i # is) u =
    (case rom_put_dword i (rd (m_ram_addr u + of_nat i)) u of None \<Rightarrow> None | Some u \<Rightarrow> bm_from_memory rd is u)"

fun bm_to_memory :: "nat list \<Rightarrow> upi42_t \<Rightarrow> (u32 \<times> u32) list option" where
  "bm_to_memory [] u = Some []"
| "bm_to_memory (i # is) u =
    (case rom_dword i u of
       None \<Rightarrow> None
     | Some v \<Rightarrow> map_option ((#) (m_ram_addr u + of_nat i, v)) (bm_to_memory is u))"

definition upi42_bus_master :: "(u32 \<Rightarrow> u32) \<Rightarrow> u8 \<Rightarrow> upi42_t \<Rightarrow> (upi42_t \<times> (u32 \<times> u32) list) option" where
  "upi42_bus_master rd val u =
    (case (if bit val 0 then map_option (\<lambda>u. (u, [])) (bm_from_memory rd (bm_offsets u) u)
           else map_option (\<lambda>ws. (u, ws)) (bm_to_memory (bm_offsets u) u)) of
       None \<Rightarrow> None
     | Some (u, ws) \<Rightarrow> Some (u\<lparr>m_bm_stat := (val AND 0x01) OR 0x02\<rparr>, ws))"

text \<open>The register window of the host; \<open>p\<close> is the I/O port, and the list the writes to guest memory.\<close>

definition upi42_write_reg :: "u16 \<Rightarrow> u8 \<Rightarrow> upi42_t \<Rightarrow> upi42_t option" where
  "upi42_write_reg p val u =
    (if p = 0x60 \<or> p = 0x160 then Some (upi42_dbb_write val u)
     else if p = 0x162 then Some (u\<lparr>m_ram_index := val AND m_rammask u\<rparr>)
     else if p = 0x163 then Some (u\<lparr>m_ram := (m_ram u)[unat (m_ram_index u AND m_rammask u) := val]\<rparr>)
     else if p = 0x64 \<or> p = 0x164 then Some (upi42_cmd_write val u)
     else if 0x180 \<le> p \<and> p \<le> 0x187 then Some (u\<lparr>m_ports_in := (m_ports_in u)[unat (p AND 7) := val]\<rparr>)
     else if 0x188 \<le> p \<and> p \<le> 0x18f then Some (u\<lparr>m_ports_out := (m_ports_out u)[unat (p AND 7) := val]\<rparr>)
     else if p = 0x194 then Some (u\<lparr>m_t0 := bit val 4, m_t1 := bit val 5\<rparr>)
     else if p = 0x196 then Some (u\<lparr>m_pc := (m_pc u AND 0xff00) OR ucast val\<rparr>)
     else if p = 0x197 then Some (u\<lparr>m_pc := (m_pc u AND 0x00ff) OR push_bit 8 (ucast val)\<rparr>)
     else if p = 0x19a then Some (u\<lparr>m_dbb_in := val\<rparr>)
     else if p = 0x19b then Some (u\<lparr>m_dbb_out := val\<rparr>)
     else if p = 0x1a0 then Some (u\<lparr>m_rom_index := (m_rom_index u AND 0xff00) OR ucast val\<rparr>)
     else if p = 0x1a1 then Some (u\<lparr>m_rom_index := (m_rom_index u AND 0x00ff) OR push_bit 8 (ucast val)\<rparr>)
     else if p = 0x1a2 then Some (upi42_do_init (m_type u) (m_rom u))
     else if p = 0x1a3 then Some (upi42_reset u)
     else if 0x1a4 \<le> p \<and> p \<le> 0x1a7 then rom_put (m_rom_index u + (p - 0x1a4)) val u
     else Some u)"

definition upi42_write :: "(u32 \<Rightarrow> u32) \<Rightarrow> u16 \<Rightarrow> u8 \<Rightarrow> upi42_t \<Rightarrow> (upi42_t \<times> (u32 \<times> u32) list) option" where
  "upi42_write rd p val u =
    (if p = 0x1aa then upi42_bus_master rd val u else map_option (\<lambda>u. (u, [])) (upi42_write_reg p val u))"

definition pack_timer :: "upi42_t \<Rightarrow> u8" where
  "pack_timer u = ucast (m_prescaler u) OR push_bit 5 (of_bool (m_tf u)) OR
    push_bit 6 (of_bool (m_skip_timer_inc u)) OR push_bit 7 (of_bool (m_run_timer u))"

definition pack_irq :: "upi42_t \<Rightarrow> u8" where
  "pack_irq u = of_bool (m_i u) OR push_bit 1 (of_bool (m_i_raise u)) OR push_bit 2 (of_bool (m_tcnti_raise u)) OR
    push_bit 3 (of_bool (m_irq_mask u)) OR push_bit 4 (of_bool (m_t0 u)) OR push_bit 5 (of_bool (m_t1 u)) OR
    push_bit 6 (of_bool (m_flags u)) OR push_bit 7 (of_bool (m_dbf u))"

definition upi42_read :: "u16 \<Rightarrow> upi42_t \<Rightarrow> (u8 \<times> upi42_t) option" where
  "upi42_read p u =
    (if p = 0x60 \<or> p = 0x160 then Some (upi42_dbb_read u)
     else if 0x1a4 \<le> p \<and> p \<le> 0x1a7 then map_option (\<lambda>v. (v, u)) (rom_get (m_rom_index u + (p - 0x1a4)) u)
     else Some
      (if 0x15c \<le> p \<and> p \<le> 0x15f then ucast (drop_bit (8 * unat (p - 0x15c)) (m_type u))
       else if p = 0x161 then m_rammask u
       else if p = 0x162 then m_ram_index u
       else if p = 0x163 then m_ram u ! unat (m_ram_index u AND m_rammask u)
       else if p = 0x64 \<or> p = 0x164 then m_sts u
       else if 0x180 \<le> p \<and> p \<le> 0x187 then m_ports_in u ! unat (p AND 7)
       else if 0x188 \<le> p \<and> p \<le> 0x18f then m_ports_out u ! unat (p AND 7)
       else if p = 0x190 then m_a u
       else if p = 0x191 then m_t u
       else if p = 0x192 then m_psw u
       else if p = 0x193 then pack_timer u
       else if p = 0x194 then pack_irq u
       else if p = 0x195 then of_bool (m_suspend u)
       else if p = 0x196 then ucast (m_pc u)
       else if p = 0x197 then ucast (drop_bit 8 (m_pc u))
       else if p = 0x198 then ucast (m_rommask u)
       else if p = 0x199 then ucast (drop_bit 8 (m_rommask u))
       else if p = 0x19a then m_dbb_in u
       else if p = 0x19b then m_dbb_out u
       else if 0x19c \<le> p \<and> p \<le> 0x19f then of_int (drop_bit (8 * unat (p - 0x19c)) (m_cycs u))
       else if p = 0x1a0 then ucast (m_rom_index u)
       else if p = 0x1a1 then ucast (drop_bit 8 (m_rom_index u))
       else if p = 0x1ab then m_bm_stat u
       else 0xff, u))"

end
