(* ===== verification/Upi42_Correct.thy ===== *)
theory Upi42_Correct
  imports Upi42
begin

text \<open>
  Correctness of the microcontroller core: the well-formedness every instruction and every host
  access but one keeps (program counter inside the 4 Kbyte space, flag F0 mirrored in the status
  register, ROM untouched by the chip itself), the exact conditions under which a step fails, calls and returns, the interval timer,
  the handshake with the host, and the loops of DJNZ.
\<close>

section \<open>Well-formed states\<close>

definition pc_ok :: "u16 \<Rightarrow> bool" where
  "pc_ok pc \<longleftrightarrow> \<not> bit pc 12 \<and> \<not> bit pc 13 \<and> \<not> bit pc 14 \<and> \<not> bit pc 15"

definition upi_wf :: "upi42_t \<Rightarrow> bool" where
  "upi_wf u \<longleftrightarrow> length (m_ram u) = 256 \<and> length (m_ports_in u) = 8 \<and> length (m_ports_out u) = 8 \<and>
    length (m_ops u) = 256 \<and> bit (m_sts u) 2 = bit (m_psw u) 5 \<and> pc_ok (m_pc u)"

definition same_chip :: "upi42_t \<Rightarrow> upi42_t \<Rightarrow> bool" where
  "same_chip u v \<longleftrightarrow> m_rom v = m_rom u \<and> m_ops v = m_ops u \<and> m_rommask v = m_rommask u \<and>
    m_rammask v = m_rammask u \<and> m_type v = m_type u"

definition insn_ok :: "(u32 \<Rightarrow> upi42_t \<Rightarrow> op_result) \<Rightarrow> bool" where
  "insn_ok h \<longleftrightarrow> (\<forall>f u n v. upi_wf u \<longrightarrow> h f u = Some (n, v) \<longrightarrow> upi_wf v \<and> same_chip u v)"

lemma mirror_bits: "bit (drop_bit 3 (p AND 0x20) OR (s AND NOT 0x04)) 2 = bit p 5" for p s :: u8
  by (simp add: bit_simps)

lemma carry_psw_bits: "bit (carry_psw p r) 5 = bit p 5"
  by (simp add: carry_psw_def bit_simps)

lemma page_pc_ok: "pc_ok pc \<Longrightarrow> pc_ok ((pc AND 0xff00) OR ucast (v AND 0xff))" for v :: u32
  by (simp add: pc_ok_def bit_simps)

lemma page_pc_ok_a: "pc_ok pc \<Longrightarrow> pc_ok ((pc AND 0xff00) OR ucast v)" for v :: u8
  by (auto simp: pc_ok_def bit_simps dest: bit_imp_le_length)

lemma jump_target_ok: "pc_ok (jump_target f u)"
  by (simp add: pc_ok_def jump_target_def bit_simps)

lemma frame_pc_ok: "pc_ok (push_bit 8 (ucast (w AND 0x0f)) OR ucast v)" for w v :: u8
  by (auto simp: pc_ok_def bit_simps dest: bit_imp_le_length)

lemma advance_pc_ok: "pc_ok pc \<Longrightarrow> pc_ok ((pc AND 0xf800) OR ((pc + n) AND 0x07ff))"
  by (simp add: pc_ok_def bit_simps)

lemma sp_less: "unat (p AND 7) < 8" for p :: u8
proof -
  have "p AND 7 = take_bit 3 p" by (simp add: take_bit_eq_mask mask_eq_exp_minus_1)
  then show ?thesis by (simp only: unsigned_take_bit_eq) (simp add: take_bit_eq_mod)
qed

lemma sp_bits: "n \<le> 8 \<Longrightarrow> \<not> bit (of_nat n :: u8) 5"
  by (cases "n = 8") (auto dest!: less_8_cases [of n, OF le_neq_implies_less])

lemma call_sp_bits: "\<not> bit (1 + (p AND 7)) 5" for p :: u8
  using sp_bits [of "Suc (unat (p AND 7))"] sp_less [of p] by simp

lemma ret_sp_bits: "\<not> bit ((2 * unat (p AND 7) - 2) div 2) 5" for p :: u8
proof -
  have "(2 * unat (p AND 7) - 2) div 2 < 8" using sp_less [of p] by linarith
  then show ?thesis by (auto dest!: less_8_cases)
qed

lemmas wf_bits = call_sp_bits ret_sp_bits mirror_bits carry_psw_bits page_pc_ok page_pc_ok_a jump_target_ok frame_pc_ok

lemmas insn_helpers = cyc_def upi42_mirror_f0_def add_to_a_def cond_jump_def page_jump_def Let_def

lemma insns_ok:
  "insn_ok upi42_op_MOV_A_Rr"
  "insn_ok upi42_op_MOV_Rr_A"
  "insn_ok upi42_op_MOV_A_indRr"
  "insn_ok upi42_op_MOV_indRr_A"
  "insn_ok upi42_op_MOV_Rr_imm"
  "insn_ok upi42_op_MOV_indRr_imm"
  "insn_ok upi42_op_MOV_A_imm"
  "insn_ok upi42_op_MOV_A_PSW"
  "insn_ok upi42_op_MOV_PSW_A"
  "insn_ok upi42_op_MOV_A_T"
  "insn_ok upi42_op_MOV_T_A"
  "insn_ok upi42_op_MOV_STS_A"
  "insn_ok upi42_op_MOVP_A_indA"
  "insn_ok upi42_op_MOVP3_A_indA"
  "insn_ok upi42_op_XCH_A_Rr"
  "insn_ok upi42_op_XCH_A_indRr"
  "insn_ok upi42_op_XCHD_A_indRr"
  "insn_ok upi42_op_SWAP_A"
  "insn_ok upi42_op_IN_A_Pp"
  "insn_ok upi42_op_IN_A_DBB"
  "insn_ok upi42_op_OUTL_Pp_A"
  "insn_ok upi42_op_OUT_DBB_A"
  "insn_ok upi42_op_MOVD_A_Pp"
  "insn_ok upi42_op_MOVD_Pp_A"
  "insn_ok upi42_op_ANL_A_Rr"
  "insn_ok upi42_op_ORL_A_Rr"
  "insn_ok upi42_op_XRL_A_Rr"
  "insn_ok upi42_op_ANL_A_indRr"
  "insn_ok upi42_op_ORL_A_indRr"
  "insn_ok upi42_op_XRL_A_indRr"
  "insn_ok upi42_op_ANL_A_imm"
  "insn_ok upi42_op_ORL_A_imm"
  "insn_ok upi42_op_XRL_A_imm"
  "insn_ok upi42_op_ANL_Pp_imm"
  "insn_ok upi42_op_ORL_Pp_imm"
  "insn_ok upi42_op_ANLD_Pp_A"
  "insn_ok upi42_op_ORLD_Pp_A"
  "insn_ok upi42_op_RR_A"
  "insn_ok upi42_op_RL_A"
  "insn_ok upi42_op_RRC_A"
  "insn_ok upi42_op_RLC_A"
  "insn_ok upi42_op_INC_A"
  "insn_ok upi42_op_INC_Rr"
  "insn_ok upi42_op_INC_indRr"
  "insn_ok upi42_op_DEC_A"
  "insn_ok upi42_op_DEC_Rr"
  "insn_ok upi42_op_DJNZ_Rr_imm"
  "insn_ok upi42_op_ADD_A_Rr"
  "insn_ok upi42_op_ADDC_A_Rr"
  "insn_ok upi42_op_ADD_A_indRr"
  "insn_ok upi42_op_ADDC_A_indRr"
  "insn_ok upi42_op_ADD_A_imm"
  "insn_ok upi42_op_ADDC_A_imm"
  "insn_ok upi42_op_CLR_A"
  "insn_ok upi42_op_CPL_A"
  "insn_ok upi42_op_DA_A"
  "insn_ok upi42_op_CLR_C"
  "insn_ok upi42_op_CPL_C"
  "insn_ok upi42_op_CLR_F0"
  "insn_ok upi42_op_CPL_F0"
  "insn_ok upi42_op_CLR_F1"
  "insn_ok upi42_op_CPL_F1"
  "insn_ok upi42_op_EN_I"
  "insn_ok upi42_op_DIS_I"
  "insn_ok upi42_op_EN_TCNTI"
  "insn_ok upi42_op_DIS_TCNTI"
  "insn_ok upi42_op_STRT_T"
  "insn_ok upi42_op_STRT_CNT"
  "insn_ok upi42_op_STOP_TCNT"
  "insn_ok upi42_op_SEL_PMB0"
  "insn_ok upi42_op_SEL_PMB1"
  "insn_ok upi42_op_SEL_RB0"
  "insn_ok upi42_op_SEL_RB1"
  "insn_ok upi42_op_NOP"
  "insn_ok upi42_op_CALL_imm"
  "insn_ok upi42_op_RET"
  "insn_ok upi42_op_JMP_imm"
  "insn_ok upi42_op_JMPP_indA"
  "insn_ok upi42_op_JC_imm"
  "insn_ok upi42_op_JNC_imm"
  "insn_ok upi42_op_JZ_imm"
  "insn_ok upi42_op_JNZ_imm"
  "insn_ok upi42_op_JT0_imm"
  "insn_ok upi42_op_JNT0_imm"
  "insn_ok upi42_op_JT1_imm"
  "insn_ok upi42_op_JNT1_imm"
  "insn_ok upi42_op_JF0_imm"
  "insn_ok upi42_op_JF1_imm"
  "insn_ok upi42_op_JTF_imm"
  "insn_ok upi42_op_JBb_imm"
  "insn_ok upi42_op_JNIBF_imm"
  "insn_ok upi42_op_JOBF_imm"
  "insn_ok upi42_op_EN_A20"
  "insn_ok upi42_op_EN_DMA"
  "insn_ok upi42_op_EN_FLAGS"
  "insn_ok upi42_op_SUSPEND"
  by (auto simp: insn_ok_def upi_wf_def same_chip_def insn_defs insn_helpers wf_bits bit_simps
    split: if_splits option.splits)

section \<open>When a step fails\<close>

definition chip_80c42 :: "upi42_t \<Rightarrow> bool" where
  "chip_80c42 u \<longleftrightarrow> upi_wf u \<and> length (m_rom u) = 4096 \<and> m_rommask u = 0xfff \<and> m_ops u = build_ops UPI42_80C42"

lemma pc_range: "pc_ok pc \<Longrightarrow> unat pc < 4096"
proof -
  assume "pc_ok pc"
  then have "bit pc n \<Longrightarrow> n < 12" for n
    using bit_imp_le_length [of pc n] by (cases "n < 12 \<or> n = 12 \<or> n = 13 \<or> n = 14 \<or> n = 15") (auto simp: pc_ok_def)
  then have "pc = take_bit 12 pc" by (intro bit_word_eqI) (auto simp: bit_simps)
  then have "unat pc = unat pc mod 2 ^ 12" by (metis unsigned_take_bit_eq take_bit_eq_mod)
  then show ?thesis using mod_less_divisor [of "2 ^ 12" "unat pc"] by simp
qed

definition insn_total :: "(u32 \<Rightarrow> upi42_t \<Rightarrow> op_result) \<Rightarrow> bool" where
  "insn_total h \<longleftrightarrow> (\<forall>f u. pc_ok (m_pc u) \<longrightarrow> length (m_rom u) = 4096 \<longrightarrow> h f u \<noteq> None)"

lemma movp_in_range: "pc_ok pc \<Longrightarrow> unat ((pc AND 0xff00) OR ucast v) < 4096" for v :: u8
  by (rule pc_range) (rule page_pc_ok_a)

lemma movp3_in_range: "unat (0x300 OR ucast v :: u16) < 4096" for v :: u8
  by (rule pc_range) (auto simp: pc_ok_def bit_simps dest: bit_imp_le_length)

lemma insns_total:
  "insn_total upi42_op_MOV_A_Rr"
  "insn_total upi42_op_MOV_Rr_A"
  "insn_total upi42_op_MOV_A_indRr"
  "insn_total upi42_op_MOV_indRr_A"
  "insn_total upi42_op_MOV_Rr_imm"
  "insn_total upi42_op_MOV_indRr_imm"
  "insn_total upi42_op_MOV_A_imm"
  "insn_total upi42_op_MOV_A_PSW"
  "insn_total upi42_op_MOV_PSW_A"
  "insn_total upi42_op_MOV_A_T"
  "insn_total upi42_op_MOV_T_A"
  "insn_total upi42_op_MOV_STS_A"
  "insn_total upi42_op_MOVP_A_indA"
  "insn_total upi42_op_MOVP3_A_indA"
  "insn_total upi42_op_XCH_A_Rr"
  "insn_total upi42_op_XCH_A_indRr"
  "insn_total upi42_op_XCHD_A_indRr"
  "insn_total upi42_op_SWAP_A"
  "insn_total upi42_op_IN_A_Pp"
  "insn_total upi42_op_IN_A_DBB"
  "insn_total upi42_op_OUTL_Pp_A"
  "insn_total upi42_op_OUT_DBB_A"
  "insn_total upi42_op_MOVD_A_Pp"
  "insn_total upi42_op_MOVD_Pp_A"
  "insn_total upi42_op_ANL_A_Rr"
  "insn_total upi42_op_ORL_A_Rr"
  "insn_total upi42_op_XRL_A_Rr"
  "insn_total upi42_op_ANL_A_indRr"
  "insn_total upi42_op_ORL_A_indRr"
  "insn_total upi42_op_XRL_A_indRr"
  "insn_total upi42_op_ANL_A_imm"
  "insn_total upi42_op_ORL_A_imm"
  "insn_total upi42_op_XRL_A_imm"
  "insn_total upi42_op_ANL_Pp_imm"
  "insn_total upi42_op_ORL_Pp_imm"
  "insn_total upi42_op_ANLD_Pp_A"
  "insn_total upi42_op_ORLD_Pp_A"
  "insn_total upi42_op_RR_A"
  "insn_total upi42_op_RL_A"
  "insn_total upi42_op_RRC_A"
  "insn_total upi42_op_RLC_A"
  "insn_total upi42_op_INC_A"
  "insn_total upi42_op_INC_Rr"
  "insn_total upi42_op_INC_indRr"
  "insn_total upi42_op_DEC_A"
  "insn_total upi42_op_DEC_Rr"
  "insn_total upi42_op_DJNZ_Rr_imm"
  "insn_total upi42_op_ADD_A_Rr"
  "insn_total upi42_op_ADDC_A_Rr"
  "insn_total upi42_op_ADD_A_indRr"
  "insn_total upi42_op_ADDC_A_indRr"
  "insn_total upi42_op_ADD_A_imm"
  "insn_total upi42_op_ADDC_A_imm"
  "insn_total upi42_op_CLR_A"
  "insn_total upi42_op_CPL_A"
  "insn_total upi42_op_DA_A"
  "insn_total upi42_op_CLR_C"
  "insn_total upi42_op_CPL_C"
  "insn_total upi42_op_CLR_F0"
  "insn_total upi42_op_CPL_F0"
  "insn_total upi42_op_CLR_F1"
  "insn_total upi42_op_CPL_F1"
  "insn_total upi42_op_EN_I"
  "insn_total upi42_op_DIS_I"
  "insn_total upi42_op_EN_TCNTI"
  "insn_total upi42_op_DIS_TCNTI"
  "insn_total upi42_op_STRT_T"
  "insn_total upi42_op_STRT_CNT"
  "insn_total upi42_op_STOP_TCNT"
  "insn_total upi42_op_SEL_PMB0"
  "insn_total upi42_op_SEL_PMB1"
  "insn_total upi42_op_SEL_RB0"
  "insn_total upi42_op_SEL_RB1"
  "insn_total upi42_op_NOP"
  "insn_total upi42_op_CALL_imm"
  "insn_total upi42_op_JMP_imm"
  "insn_total upi42_op_JMPP_indA"
  "insn_total upi42_op_JC_imm"
  "insn_total upi42_op_JNC_imm"
  "insn_total upi42_op_JZ_imm"
  "insn_total upi42_op_JNZ_imm"
  "insn_total upi42_op_JT0_imm"
  "insn_total upi42_op_JNT0_imm"
  "insn_total upi42_op_JT1_imm"
  "insn_total upi42_op_JNT1_imm"
  "insn_total upi42_op_JF0_imm"
  "insn_total upi42_op_JF1_imm"
  "insn_total upi42_op_JTF_imm"
  "insn_total upi42_op_JBb_imm"
  "insn_total upi42_op_JNIBF_imm"
  "insn_total upi42_op_JOBF_imm"
  "insn_total upi42_op_EN_A20"
  "insn_total upi42_op_EN_DMA"
  "insn_total upi42_op_EN_FLAGS"
  "insn_total upi42_op_SUSPEND"
  by (auto simp: insn_total_def insn_defs insn_helpers rom_at_def movp_in_range movp3_in_range)

lemma ret_none: "upi42_op_RET f u = None \<longleftrightarrow> m_psw u AND 7 = 0"
  by (auto simp: upi42_op_RET_def Let_def unat_eq_0)

text \<open>A check of a table of instructions against a predicate on position and entry.\<close>

fun table_all :: "(nat \<Rightarrow> 'h \<Rightarrow> bool) \<Rightarrow> nat \<Rightarrow> 'h list \<Rightarrow> bool" where
  "table_all P n [] = True"
| "table_all P n (h # hs) \<longleftrightarrow> P n h \<and> table_all P (n + 1) hs"

lemma table_all_nth: "table_all P n hs \<Longrightarrow> i < length hs \<Longrightarrow> P (n + i) (hs ! i)"
proof (induction hs arbitrary: n i)
  case (Cons h hs)
  then show ?case by (cases i) fastforce+
qed simp

lemma length_ops [simp]: "length ops_80c42 = 256"
  by (simp add: ops_80c42_def)

lemma length_build_ops [simp]: "length (build_ops type) = 256"
  by (simp add: build_ops_def Let_def)

lemma table_insns_ok: "table_all (\<lambda>_ h. case h of None \<Rightarrow> True | Some g \<Rightarrow> insn_ok g) 0 ops_80c42"
  by (simp add: ops_80c42_def insns_ok)

lemma table_insns_total:
  "table_all (\<lambda>n h. case h of None \<Rightarrow> True | Some g \<Rightarrow> n \<noteq> 0x83 \<and> n \<noteq> 0x93 \<longrightarrow> insn_total g) 0 ops_80c42"
  by (simp add: ops_80c42_def insns_total)

lemma table_ret: "ops_80c42 ! 0x83 = Some upi42_op_RET" "ops_80c42 ! 0x93 = Some upi42_op_RET"
  by (simp_all add: ops_80c42_def)

section \<open>Steps\<close>

lemma insn_ok_at: "insn_at n u = Some h \<Longrightarrow> n < 256 \<Longrightarrow> insn_ok h"
  using table_all_nth [OF table_insns_ok, of n] by (auto simp: insn_at_def split: if_splits)

lemma wf_cycs [simp]: "upi_wf (u\<lparr>m_cycs := c\<rparr>) = upi_wf u" "same_chip u (v\<lparr>m_cycs := c\<rparr>) = same_chip u v"
  by (simp_all add: upi_wf_def same_chip_def)

lemma same_chip_refl [simp]: "same_chip u u"
  by (simp add: same_chip_def)

lemma wf_timer: "upi_wf (timer_tick u) = upi_wf u" "same_chip u (timer_tick v) = same_chip u v"
  by (simp_all add: timer_tick_def upi_wf_def same_chip_def Let_def)

lemma wf_advance: "upi_wf u \<Longrightarrow> upi_wf (advance_pc n u)" "same_chip u (advance_pc n v) = same_chip u v"
  by (auto simp: upi_wf_def same_chip_def advance_pc_def advance_pc_ok)

lemma low_byte: "unat (f AND 0xff) < 256" for f :: u32
proof -
  have "f AND 0xff = take_bit 8 f" by (simp add: take_bit_eq_mask mask_eq_exp_minus_1)
  then show ?thesis by (simp only: unsigned_take_bit_eq) (simp add: take_bit_eq_mod)
qed

lemma exec_insn_wf:
  assumes "upi_wf u" and "exec_insn u = Some v"
  shows "upi_wf v \<and> same_chip u v"
proof -
  obtain f h n w where f: "fetch u = Some f" and h: "insn_at (unat (f AND 0xff)) u = Some h"
    and w: "h f u = Some (n, w)" and v: "v = timer_tick (cyc (advance_pc n w))"
    using assms(2) by (auto simp: exec_insn_def split: option.splits)
  have "upi_wf w \<and> same_chip u w"
    using insn_ok_at [OF h low_byte] assms(1) w by (auto simp: insn_ok_def)
  then show ?thesis using v by (simp add: wf_timer wf_advance cyc_def)
qed

lemma interrupt_wf:
  assumes "upi_wf u" and "interrupt vec u = Some v"
  shows "upi_wf v \<and> same_chip u v"
  using assms wf_bits
  by (auto simp: interrupt_def upi42_op_CALL_imm_def Let_def cyc_def upi_wf_def same_chip_def bit_simps)

lemma exec_wf:
  assumes "upi_wf u" and "upi42_exec u = Some v"
  shows "upi_wf v \<and> same_chip u v"
proof -
  have "same_chip (u\<lparr>m_cycs := c\<rparr>) v = same_chip u v" "same_chip (u\<lparr>m_cycs := c, m_i_raise := b\<rparr>) v = same_chip u v"
    "same_chip (u\<lparr>m_cycs := c, m_tcnti_raise := b\<rparr>) v = same_chip u v" for c b
    by (simp_all add: same_chip_def)
  moreover have "upi_wf (u\<lparr>m_cycs := c, m_i_raise := b\<rparr>)" "upi_wf (u\<lparr>m_cycs := c, m_tcnti_raise := b\<rparr>)" for c b
    using assms(1) by (simp_all add: upi_wf_def)
  ultimately show ?thesis
    using assms exec_insn_wf [of "u\<lparr>m_cycs := m_cycs u + 1\<rparr>" v]
      interrupt_wf [of "u\<lparr>m_cycs := m_cycs u + 1, m_i_raise := False\<rparr>" 3 v]
      interrupt_wf [of "u\<lparr>m_cycs := m_cycs u + 1, m_tcnti_raise := False\<rparr>" 7 v]
    by (auto simp: upi42_exec_def Let_def wf_timer split: if_splits)
qed

text \<open>The steps that execute an instruction, and the opcode they execute.\<close>

definition runs_insn :: "upi42_t \<Rightarrow> bool" where
  "runs_insn u \<longleftrightarrow> \<not> m_suspend u \<and> 0 \<le> m_cycs u + 1 \<and> (m_irq_mask u \<or> \<not> m_i_raise u \<and> \<not> m_tcnti_raise u)"

definition opcode :: "upi42_t \<Rightarrow> nat" where
  "opcode u = unat (m_rom u ! unat (m_pc u))"

lemma fetch_80c42:
  assumes "chip_80c42 u"
  obtains f where "fetch u = Some f" "unat (f AND 0xff) = opcode u"
proof -
  let ?hi = "m_rom u ! unat ((m_pc u + 1) AND 0xfff)"
  have "pc_ok ((m_pc u + 1) AND 0xfff)" by (simp add: pc_ok_def bit_simps)
  then have "fetch u = Some (ucast (m_rom u ! unat (m_pc u)) OR push_bit 8 (ucast ?hi))"
    using assms pc_range [of "m_pc u"] pc_range [of "(m_pc u + 1) AND 0xfff"]
    by (simp add: fetch_def rom_at_def chip_80c42_def upi_wf_def)
  moreover have "(ucast v OR push_bit 8 (ucast w)) AND 0xff = (ucast v :: u32)" for v w :: u8
  proof (rule bit_word_eqI)
    fix n
    have "bit (0xff :: u32) n = (n < 8)" using bit_mask_iff [of 8 n, where ?'a = u32] by (auto simp: mask_eq_exp_minus_1)
    then show "bit ((ucast v OR push_bit 8 (ucast w)) AND 0xff :: u32) n = bit (ucast v :: u32) n"
      by (auto simp: bit_simps dest: bit_imp_le_length)
  qed
  moreover have "unat (ucast v :: u32) = unat v" for v :: u8
    using unsigned_less [of v, where ?'a = nat] by (simp add: unsigned_ucast_eq take_bit_nat_eq_self)
  ultimately show ?thesis using that by (simp add: opcode_def)
qed

lemma exec_insn_none:
  assumes "chip_80c42 u"
  shows "exec_insn u = None \<longleftrightarrow> ops_80c42 ! opcode u = None \<or> opcode u \<in> {0x83, 0x93} \<and> m_psw u AND 7 = 0"
proof -
  obtain f where f: "fetch u = Some f" "unat (f AND 0xff) = opcode u" by (rule fetch_80c42 [OF assms])
  have lt: "opcode u < 256" using low_byte [of f] f(2) by simp
  then have at: "insn_at (opcode u) u = ops_80c42 ! opcode u"
    using assms by (auto simp: insn_at_def chip_80c42_def build_ops_def UPI42_80C42_def UPI42_EXT_C42_def tst_def
      split: option.splits)
  show ?thesis
  proof (cases "opcode u \<in> {0x83, 0x93}")
    case True
    then have "ops_80c42 ! opcode u = Some upi42_op_RET" using table_ret by auto
    then show ?thesis using True f at ret_none [of f u] by (auto simp: exec_insn_def split: option.splits)
  next
    case False
    then have "ops_80c42 ! opcode u = Some h \<Longrightarrow> h f u \<noteq> None" for h
      using table_all_nth [OF table_insns_total, of "opcode u"] lt assms
      by (auto simp: insn_total_def chip_80c42_def upi_wf_def)
    then show ?thesis using False f at by (fastforce simp: exec_insn_def split: option.splits)
  qed
qed

section \<open>Runs\<close>

text \<open>What can happen to the chip: a cycle of its own, and the accesses of the host.\<close>

datatype upi_event = Cycle | Data_write u8 | Command_write u8 | Data_read | Port_write nat u8 | Soft_reset

fun upi_step :: "upi_event \<Rightarrow> upi42_t \<Rightarrow> upi42_t option" where
  "upi_step Cycle u = upi42_exec u"
| "upi_step (Data_write v) u = Some (upi42_dbb_write v u)"
| "upi_step (Command_write v) u = Some (upi42_cmd_write v u)"
| "upi_step Data_read u = Some (snd (upi42_dbb_read u))"
| "upi_step (Port_write p v) u = Some (upi42_port_write p v u)"
| "upi_step Soft_reset u = Some (upi42_reset u)"

fun upi_run :: "upi_event list \<Rightarrow> upi42_t \<Rightarrow> upi42_t option" where
  "upi_run [] u = Some u"
| "upi_run (e # es) u = (case upi_step e u of None \<Rightarrow> None | Some v \<Rightarrow> upi_run es v)"

lemma host_write_wf: "upi_wf u \<Longrightarrow> upi_wf (upi42_dbb_write v u) \<and> same_chip u (upi42_dbb_write v u)"
  "upi_wf u \<Longrightarrow> upi_wf (upi42_cmd_write v u) \<and> same_chip u (upi42_cmd_write v u)"
  by (simp_all add: upi_wf_def same_chip_def upi42_dbb_write_def upi42_cmd_write_def raise_ibf_def bit_simps)

lemma host_read_wf: "upi_wf u \<Longrightarrow> upi_wf (snd (upi42_dbb_read u)) \<and> same_chip u (snd (upi42_dbb_read u))"
  "upi_wf u \<Longrightarrow> upi_wf (upi42_port_write p v u) \<and> same_chip u (upi42_port_write p v u)"
  "upi_wf u \<Longrightarrow> upi_wf (upi42_reset u) \<and> same_chip u (upi42_reset u)"
  by (simp_all add: upi_wf_def same_chip_def upi42_dbb_read_def upi42_port_write_def upi42_reset_def pc_ok_def bit_simps)

lemma upi_step_wf: "upi_wf u \<Longrightarrow> upi_step e u = Some v \<Longrightarrow> upi_wf v \<and> same_chip u v"
  using exec_wf host_write_wf host_read_wf by (cases e) auto

lemma same_chip_trans: "same_chip u v \<Longrightarrow> same_chip v w \<Longrightarrow> same_chip u w"
  by (simp add: same_chip_def)

lemma chip_80c42_same: "chip_80c42 u \<Longrightarrow> upi_wf v \<and> same_chip u v \<Longrightarrow> chip_80c42 v"
  by (simp add: chip_80c42_def same_chip_def)

lemma upi_run_chip:
  assumes "chip_80c42 u" and "upi_run es u = Some v"
  shows "chip_80c42 v \<and> same_chip u v"
  using assms
proof (induction es arbitrary: u)
  case (Cons e es)
  then obtain w where w: "upi_step e u = Some w" "upi_run es w = Some v" by (auto split: option.splits)
  have "upi_wf w \<and> same_chip u w" using upi_step_wf w(1) Cons.prems(1) by (auto simp: chip_80c42_def)
  with Cons w show ?case by (meson chip_80c42_same same_chip_trans)
qed simp

lemma init_chip: "length rom = 4096 \<Longrightarrow> chip_80c42 (upi42_do_init UPI42_80C42 rom)"
  by (simp add: chip_80c42_def upi42_do_init_def upi42_zero_def upi_wf_def pc_ok_def build_ops_def UPI42_80C42_def
    UPI42_EXT_C42_def tst_def)

lemma exec_none:
  assumes "chip_80c42 u"
  shows "upi42_exec u = None \<longleftrightarrow> runs_insn u \<and>
    (ops_80c42 ! opcode u = None \<or> opcode u \<in> {0x83, 0x93} \<and> m_psw u AND 7 = 0)"
proof -
  have "chip_80c42 (u\<lparr>m_cycs := c\<rparr>)" "opcode (u\<lparr>m_cycs := c\<rparr>) = opcode u" for c
    using assms by (simp_all add: chip_80c42_def opcode_def)
  then show ?thesis
    using exec_insn_none [of "u\<lparr>m_cycs := m_cycs u + 1\<rparr>"]
    by (auto simp: upi42_exec_def runs_insn_def Let_def interrupt_def upi42_op_CALL_imm_def)
qed

section \<open>The register window of the host\<close>

text \<open>
  Everything the host can do to the chip: what \<open>upi_event\<close> lists, and reads and writes of the register
  window, the bus master port included (\<open>rd\<close> is the guest memory at that time).
\<close>

datatype host_event = Chip upi_event | Window_write "u32 \<Rightarrow> u32" u16 u8 | Window_read u16

fun host_step :: "host_event \<Rightarrow> upi42_t \<Rightarrow> upi42_t option" where
  "host_step (Chip e) u = upi_step e u"
| "host_step (Window_write rd p v) u = map_option fst (upi42_write rd p v u)"
| "host_step (Window_read p) u = map_option snd (upi42_read p u)"

fun host_run :: "host_event list \<Rightarrow> upi42_t \<Rightarrow> upi42_t option" where
  "host_run [] u = Some u"
| "host_run (e # es) u = (case host_step e u of None \<Rightarrow> None | Some v \<Rightarrow> host_run es v)"

text \<open>
  The window port 0x197 takes the upper byte of the program counter as it is: an access keeps the
  program counter in the ROM unless it writes a byte with a bit of the upper half there.  The ROM is
  written through the ports 0x1a4 to 0x1a7 and by the bus master.
\<close>

fun keeps_pc :: "host_event \<Rightarrow> bool" where
  "keeps_pc (Window_write rd p v) = (p = 0x197 \<longrightarrow> v AND 0xf0 = 0)"
| "keeps_pc e = True"

fun writes_rom :: "host_event \<Rightarrow> bool" where
  "writes_rom (Window_write rd p v) = (0x1a4 \<le> p \<and> p \<le> 0x1a7 \<or> p = 0x1aa \<and> bit v 0)"
| "writes_rom e = False"

definition chip_on :: "upi42_t \<Rightarrow> bool" where
  "chip_on u \<longleftrightarrow> chip_80c42 u \<and> m_type u = UPI42_80C42"

lemma chip_on_rom:
  assumes "chip_on u" and "length rom = length (m_rom u)"
  shows "chip_on (u\<lparr>m_rom := rom\<rparr>)"
  using assms by (simp add: chip_on_def chip_80c42_def upi_wf_def)

lemma rom_index_range: "unat (a AND 0xfff :: u16) < 4096"
  by (rule pc_range) (simp add: pc_ok_def bit_simps)

lemma bm_from_memory_total:
  "\<forall>i\<in>set is. i + 3 < length (m_rom u) \<Longrightarrow>
   \<exists>rom. bm_from_memory rd is u = Some (u\<lparr>m_rom := rom\<rparr>) \<and> length rom = length (m_rom u)"
proof (induction "is" arbitrary: u)
  case Nil
  have "u = u\<lparr>m_rom := m_rom u\<rparr>" by simp
  then show ?case by (metis bm_from_memory.simps(1))
next
  case (Cons i "is")
  define rom where "rom = (let v = rd (m_ram_addr u + of_nat i) in (m_rom u)[i := ucast v,
    i + 1 := ucast (drop_bit 8 v), i + 2 := ucast (drop_bit 16 v), i + 3 := ucast (drop_bit 24 v)])"
  have put: "rom_put_dword i (rd (m_ram_addr u + of_nat i)) u = Some (u\<lparr>m_rom := rom\<rparr>)"
    using Cons.prems by (simp add: rom_put_dword_def rom_def Let_def)
  have len: "length rom = length (m_rom u)" by (simp add: rom_def Let_def)
  with Cons.IH [of "u\<lparr>m_rom := rom\<rparr>"] Cons.prems put show ?case by auto
qed

lemma bm_to_memory_total:
  "(\<forall>i\<in>set is. i + 3 < length (m_rom u)) \<Longrightarrow>
    \<exists>ws. bm_to_memory is u = Some ws \<and> map fst ws = map (\<lambda>i. m_ram_addr u + of_nat i) is"
  by (induction "is") (auto simp: rom_dword_def)

lemma bm_offsets_in_rom:
  assumes "m_rommask u = 0xfff" and "length (m_rom u) = 4096" and "i \<in> set (bm_offsets u)"
  shows "i + 3 < length (m_rom u)"
  using assms by (auto simp: bm_offsets_def)

lemma bus_master_chip:
  assumes "chip_on u"
  shows "\<exists>w ws. upi42_bus_master rd v u = Some (w, ws) \<and> chip_on w \<and> (\<not> bit v 0 \<longrightarrow> m_rom w = m_rom u)"
proof -
  have stat: "chip_on (w\<lparr>m_bm_stat := s\<rparr>) = chip_on w" for w s
    by (simp add: chip_on_def chip_80c42_def upi_wf_def)
  have r: "\<forall>i\<in>set (bm_offsets u). i + 3 < length (m_rom u)"
    using assms bm_offsets_in_rom [of u] by (simp add: chip_on_def chip_80c42_def)
  from bm_from_memory_total [OF r, of rd] obtain rom where
    "bm_from_memory rd (bm_offsets u) u = Some (u\<lparr>m_rom := rom\<rparr>)" "length rom = length (m_rom u)" by blast
  moreover from bm_to_memory_total [OF r] obtain ws where "bm_to_memory (bm_offsets u) u = Some ws" by blast
  ultimately show ?thesis
    using assms chip_on_rom [OF assms, of rom] stat by (simp add: upi42_bus_master_def)
qed

lemma window_pc:
  fixes v :: u8
  assumes "pc_ok pc"
  shows "pc_ok ((pc AND 0xff00) OR ucast v)" and "v AND 0xf0 = 0 \<Longrightarrow> pc_ok ((pc AND 0x00ff) OR push_bit 8 (ucast v))"
proof -
  show "pc_ok ((pc AND 0xff00) OR ucast v)"
    using assms by (auto simp: pc_ok_def bit_simps dest: bit_imp_le_length)
  assume z: "v AND 0xf0 = 0"
  have "\<not> bit (v AND 0xf0) n" for n using z by simp
  from this [of 4] this [of 5] this [of 6] this [of 7]
  show "pc_ok ((pc AND 0x00ff) OR push_bit 8 (ucast v))" by (simp add: pc_ok_def bit_simps)
qed

lemma window_write_reg_chip:
  assumes "chip_on u" and "p = 0x197 \<longrightarrow> v AND 0xf0 = 0"
  shows "\<exists>w. upi42_write_reg p v u = Some w \<and> chip_on w \<and> (\<not> (0x1a4 \<le> p \<and> p \<le> 0x1a7) \<longrightarrow> m_rom w = m_rom u)"
proof -
  have wf: "upi_wf u" "length (m_rom u) = 4096" "m_rommask u = 0xfff" "m_type u = UPI42_80C42"
    using assms(1) by (simp_all add: chip_on_def chip_80c42_def)
  have pc: "pc_ok (m_pc u)" using wf(1) by (simp add: upi_wf_def)
  have same: "chip_on w" if "upi_wf w" "same_chip u w" for w
    using assms(1) that by (simp add: chip_on_def chip_80c42_def same_chip_def)
  have plain: "chip_on (u\<lparr>m_ram_index := i\<rparr>)" "chip_on (u\<lparr>m_ram := (m_ram u)[k := v]\<rparr>)"
    "chip_on (u\<lparr>m_ports_in := (m_ports_in u)[k := v]\<rparr>)" "chip_on (u\<lparr>m_ports_out := (m_ports_out u)[k := v]\<rparr>)"
    "chip_on (u\<lparr>m_t0 := b, m_t1 := c\<rparr>)" "chip_on (u\<lparr>m_dbb_in := v\<rparr>)" "chip_on (u\<lparr>m_dbb_out := v\<rparr>)"
    "chip_on (u\<lparr>m_rom_index := j\<rparr>)" for i j k b c
    using assms(1) by (simp_all add: chip_on_def chip_80c42_def upi_wf_def)
  have at: "chip_on (u\<lparr>m_pc := q\<rparr>)" if "pc_ok q" for q
    using assms(1) that by (simp add: chip_on_def chip_80c42_def upi_wf_def)
  have init: "chip_on (upi42_do_init (m_type u) (m_rom u))" "m_rom (upi42_do_init t r) = r" for t r
    using init_chip [OF wf(2)] wf(4) by (simp_all add: chip_on_def upi42_do_init_def upi42_zero_def)
  have rom: "\<exists>w. rom_put a v u = Some w \<and> chip_on w" for a
    using assms(1) rom_index_range [of a] wf(2,3) by (auto simp: rom_put_def intro: chip_on_rom)
  have chip: "chip_on (upi42_dbb_write v u)" "chip_on (upi42_cmd_write v u)" "chip_on (upi42_reset u)"
    "m_rom (upi42_dbb_write v u) = m_rom u" "m_rom (upi42_cmd_write v u) = m_rom u" "m_rom (upi42_reset u) = m_rom u"
    using host_write_wf(1) [OF wf(1), of v] host_write_wf(2) [OF wf(1), of v] host_read_wf(3) [OF wf(1)]
    by (auto intro: same simp: same_chip_def)
  show ?thesis
    using assms(1) plain at [OF window_pc(1) [OF pc]] at [OF window_pc(2) [OF pc]] init rom chip assms(2)
    by (simp add: upi42_write_reg_def)
qed

lemma host_step_chip:
  assumes "chip_on u" and "keeps_pc e" and "host_step e u = Some v"
  shows "chip_on v \<and> (\<not> writes_rom e \<longrightarrow> m_rom v = m_rom u)"
proof (cases e)
  case (Chip c)
  then have "upi_wf v \<and> same_chip u v"
    using upi_step_wf [of u c v] assms(1,3) by (simp add: chip_on_def chip_80c42_def)
  then show ?thesis using assms(1) by (simp add: chip_on_def chip_80c42_def same_chip_def)
next
  case (Window_write rd p x)
  then show ?thesis
    using assms bus_master_chip [OF assms(1), of rd x] window_write_reg_chip [OF assms(1), of p x]
    by (cases "p = 0x1aa") (auto simp: upi42_write_def)
next
  case (Window_read p)
  have dbb: "chip_on (snd (upi42_dbb_read u)) \<and> m_rom (snd (upi42_dbb_read u)) = m_rom u"
    using host_read_wf(1) [of u] assms(1) by (simp add: chip_on_def chip_80c42_def same_chip_def)
  have "v = u \<or> v = snd (upi42_dbb_read u)"
    using assms(3) Window_read by (auto simp: upi42_read_def split: if_splits)
  then show ?thesis using dbb assms(1) by blast
qed

lemma host_step_total:
  assumes "chip_on u" and "keeps_pc e" and "e \<noteq> Chip Cycle"
  shows "host_step e u \<noteq> None"
proof (cases e)
  case (Chip c)
  then show ?thesis using assms(3) by (cases c) simp_all
next
  case (Window_write rd p x)
  then show ?thesis
    using assms(2) bus_master_chip [OF assms(1), of rd x] window_write_reg_chip [OF assms(1), of p x]
    by (cases "p = 0x1aa") (auto simp: upi42_write_def)
next
  case (Window_read p)
  have "rom_get a u \<noteq> None" for a
    using assms(1) rom_index_range [of a] by (simp add: rom_get_def rom_at_def chip_on_def chip_80c42_def)
  then show ?thesis using Window_read by (auto simp: upi42_read_def)
qed

lemma host_run_chip:
  "chip_on u \<Longrightarrow> list_all keeps_pc es \<Longrightarrow> host_run es u = Some v \<Longrightarrow>
   chip_on v \<and> (list_all (\<lambda>e. \<not> writes_rom e) es \<longrightarrow> m_rom v = m_rom u)"
proof (induction es arbitrary: u)
  case (Cons e es)
  then obtain w where w: "host_step e u = Some w" "host_run es w = Some v" by (auto split: option.splits)
  have "chip_on w \<and> (\<not> writes_rom e \<longrightarrow> m_rom w = m_rom u)"
    using host_step_chip [OF Cons.prems(1) _ w(1)] Cons.prems(2) by simp
  with Cons.IH [of w] Cons.prems(2) w(2) show ?case by auto
qed simp

lemma window_pc_outside:
  fixes v :: u8
  assumes "v AND 0xf0 \<noteq> 0"
  shows "4096 \<le> unat ((pc AND 0x00ff) OR push_bit 8 (ucast v) :: u16)"
proof (rule ccontr)
  let ?pc = "(pc AND 0x00ff) OR push_bit 8 (ucast v) :: u16"
  assume "\<not> 4096 \<le> unat ?pc"
  then have "take_bit 12 (unat ?pc) = unat ?pc" by (simp add: take_bit_nat_eq_self)
  then have "take_bit 12 ?pc = ?pc" by (metis unsigned_take_bit_eq unsigned_word_eqI)
  then have low: "bit ?pc n \<longleftrightarrow> n < 12 \<and> bit ?pc n" for n
    using bit_take_bit_iff [of 12 ?pc n] by (simp only:)
  have out: "\<not> bit ?pc (k + 8)" if "4 \<le> k" for k
  proof -
    have "\<not> k + 8 < 12" using that by simp
    then show ?thesis using low [of "k + 8"] by blast
  qed
  have "v AND 0xf0 = 0"
  proof (rule bit_word_eqI)
    fix n assume "n < LENGTH(8)"
    then show "bit (v AND 0xf0) n = bit (0 :: u8) n"
      using out [of n] by (auto simp: bit_simps dest!: less_8_cases)
  qed
  with assms show False by contradiction
qed

text \<open>
  C16.  Progress and preservation for the 80C42.  From power on with a 4 Kbyte ROM, after any sequence of
  cycles, data and command writes, data reads, port writes, resets and accesses to the register window
  (bus master included) that does not write a byte with a bit of its upper half to window port 0x197,
  the state is well formed: memories and ports keep their sizes, the program counter stays inside the
  ROM and flag F0 of the status register equals flag F0 of the program status word; the ROM is unchanged
  if the host did not write it.  From such a state a cycle fails exactly if it executes an unknown
  opcode or a return with the stack pointer at zero, no other access fails, and a write with a bit
  of the upper half to port 0x197 does set the program counter outside the ROM.
\<close>

theorem upi42_progress_preservation:
  assumes "length rom = 4096" and "list_all keeps_pc es"
    and "host_run es (upi42_do_init UPI42_80C42 rom) = Some u"
  shows "upi_wf u \<and> unat (m_pc u) < 4096 \<and> bit (m_sts u) 2 = bit (m_psw u) 5 \<and> length (m_rom u) = 4096 \<and>
    (list_all (\<lambda>e. \<not> writes_rom e) es \<longrightarrow> m_rom u = rom) \<and>
    (upi42_exec u = None \<longleftrightarrow> runs_insn u \<and>
      (ops_80c42 ! opcode u = None \<or> opcode u \<in> {0x83, 0x93} \<and> m_psw u AND 7 = 0)) \<and>
    (\<forall>e. keeps_pc e \<and> e \<noteq> Chip Cycle \<longrightarrow> host_step e u \<noteq> None) \<and>
    (\<forall>rd v. v AND 0xf0 \<noteq> 0 \<longrightarrow>
      (\<exists>w. host_step (Window_write rd 0x197 v) u = Some w \<and> 4096 \<le> unat (m_pc w)))"
proof -
  let ?i = "upi42_do_init UPI42_80C42 rom"
  have i: "m_type ?i = UPI42_80C42" "m_rom ?i = rom" by (simp_all add: upi42_do_init_def upi42_zero_def)
  then have "chip_on ?i" using init_chip [OF assms(1)] by (simp add: chip_on_def)
  from host_run_chip [OF this assms(2,3)]
  have on: "chip_on u" and r: "list_all (\<lambda>e. \<not> writes_rom e) es \<longrightarrow> m_rom u = rom" by (simp_all add: i)
  have c: "chip_80c42 u" and wf: "upi_wf u" "length (m_rom u) = 4096"
    using on by (simp_all add: chip_on_def chip_80c42_def)
  have pc: "unat (m_pc u) < 4096" "bit (m_sts u) 2 = bit (m_psw u) 5"
    using wf(1) pc_range [of "m_pc u"] by (simp_all add: upi_wf_def)
  have out: "\<exists>w. host_step (Window_write rd 0x197 v) u = Some w \<and> 4096 \<le> unat (m_pc w)" if "v AND 0xf0 \<noteq> 0" for rd v
    using window_pc_outside [OF that] by (simp add: upi42_write_def upi42_write_reg_def)
  show ?thesis using wf pc r exec_none [OF c] host_step_total [OF on] out by blast
qed

theorem upi42_progress_preservation_witness:
  "\<exists>u. length (replicate 4096 (0 :: u8)) = 4096 \<and>
    host_run [Chip Cycle, Chip (Command_write 0xaa), Window_write (\<lambda>a. 0) 0x196 0x20]
      (upi42_do_init UPI42_80C42 (replicate 4096 0)) = Some u \<and> upi_wf u \<and> upi42_exec u \<noteq> None"
proof -
  let ?u = "upi42_do_init UPI42_80C42 (replicate 4096 0)"
  let ?es = "[Chip Cycle, Chip (Command_write 0xaa), Window_write (\<lambda>a. 0) 0x196 0x20]"
  have l: "length (replicate 4096 (0 :: u8)) = 4096" by simp
  have k: "list_all keeps_pc []" "list_all keeps_pc ?es" "list_all (\<lambda>e. \<not> writes_rom e) ?es"
    by (simp_all add: word_le_nat_alt)
  have at: "opcode v = 0" if "m_rom v = replicate 4096 0" "unat (m_pc v) < 4096" for v
    using that by (simp add: opcode_def)
  have op: "ops_80c42 ! 0 \<noteq> None" by (simp add: ops_80c42_def)
  have r0: "host_run [] ?u = Some ?u" by simp
  obtain w where w: "upi42_exec ?u = Some w"
    using upi42_progress_preservation [OF l k(1) r0] at [of ?u] op by auto
  then obtain v where v: "host_run ?es ?u = Some v" by (simp add: upi42_write_def upi42_write_reg_def)
  show ?thesis
    using upi42_progress_preservation [OF l k(2) v] k(3) at [of v] op v by (intro exI [of _ v]) auto
qed

end
