(* ===== verification/Upi42_Programs.thy ===== *)
theory Upi42_Programs
  imports Upi42_Correct
begin

text \<open>
  What programs see of the microcontroller core: where a return from a call or an interrupt goes, what
  JTF does, how the timer counts, how a command of the host reaches the program and its answer the
  host, and that a DJNZ loop ends.
\<close>

section \<open>Calls and returns\<close>

lemma sp_cases:
  fixes p :: u8
  assumes "unat (p AND 7) < 7"
  obtains "p AND 7 = 0" | "p AND 7 = 1" | "p AND 7 = 2" | "p AND 7 = 3" | "p AND 7 = 4" | "p AND 7 = 5" | "p AND 7 = 6"
proof -
  have "unat (p AND 7) \<in> {0, 1, 2, 3, 4, 5, 6}" using assms by auto
  then show ?thesis using that by (auto simp: word_unat_eq_iff)
qed

lemma sp_after_call:
  fixes p :: u8
  assumes "unat (p AND 7) < 7"
  shows "((p AND 0xf8) OR (1 + (p AND 7))) AND 7 = 1 + (p AND 7)" and "unat (1 + (p AND 7)) = Suc (unat (p AND 7))"
    and "((p AND 0xf8) OR (1 + (p AND 7))) AND 0xf8 = p AND 0xf8" and "(p AND 0xf8) OR (p AND 7) = p"
proof -
  have *: "((p AND 0xf8) OR x) AND 7 = x AND 7" "((p AND 0xf8) OR x) AND 0xf8 = (p AND 0xf8) OR (x AND 0xf8)" for x
    by (simp_all add: bit.conj_disj_distrib2 and.assoc)
  show "((p AND 0xf8) OR (1 + (p AND 7))) AND 7 = 1 + (p AND 7)"
    unfolding * by (rule sp_cases [OF assms]; simp)
  show "unat (1 + (p AND 7)) = Suc (unat (p AND 7))"
    by (rule sp_cases [OF assms]; simp)
  show "((p AND 0xf8) OR (1 + (p AND 7))) AND 0xf8 = p AND 0xf8"
    unfolding * by (rule sp_cases [OF assms]; simp)
  show "(p AND 0xf8) OR (p AND 7) = p"
    by (rule bit_word_eqI) (auto simp: bit_simps dest!: less_8_cases)
qed

lemma frame_pc: "push_bit 8 (ucast (((q AND 0xf0) OR (ucast (drop_bit 8 pc) AND 0x07)) AND 0x0f)) OR ucast (ucast n :: u8) =
    (pc AND 0x700) OR (n AND 0xff)" for pc n :: u16 and q :: u8
proof (rule bit_word_eqI)
  fix i assume "i < LENGTH(16)"
  then have "i < 16" by simp
  then consider "i < 8" | m where "m < 8" "i = m + 8" using less_16_halves by blast
  then show "bit (push_bit 8 (ucast (((q AND 0xf0) OR (ucast (drop_bit 8 pc) AND 0x07)) AND 0x0f)) OR ucast (ucast n :: u8) :: u16) i =
      bit ((pc AND 0x700) OR (n AND 0xff)) i"
    by cases (drule less_8_cases, elim disjE; simp add: bit_simps)+
qed

lemma unat_page: "unat ((x AND 0x700) OR (y AND 0xff)) = 256 * (unat x div 256 mod 8) + unat y mod 256" for x y :: u16
proof -
  have page: "unat (x AND 0x700) = 256 * (unat x div 256 mod 8)"
  proof -
    have "x AND 0x700 = push_bit 8 (take_bit 3 (drop_bit 8 x))"
      by (rule bit_word_eqI) (auto simp: bit_simps dest!: less_16_halves less_8_cases)
    then have "unat (x AND 0x700) = take_bit 16 (push_bit 8 (take_bit 3 (drop_bit 8 (unat x))))"
      using unsigned_less [of x, where ?'a = nat]
      by (simp only: unsigned_push_bit_eq unsigned_take_bit_eq unsigned_drop_bit_eq) (simp add: take_bit_eq_mod)
    moreover have "unat x div 256 mod 8 < 8" by simp
    ultimately show ?thesis by (simp add: push_bit_eq_mult take_bit_eq_mod drop_bit_eq_div)
  qed
  have low: "unat (y AND 0xff) = unat y mod 256"
  proof -
    have "y AND 0xff = take_bit 8 y" by (simp add: take_bit_eq_mask mask_eq_exp_minus_1)
    then show ?thesis by (simp only: unsigned_take_bit_eq) (simp add: take_bit_eq_mod)
  qed
  have "(x AND 0x700) OR (y AND 0xff) = (x AND 0x700) + (y AND 0xff)"
    by (rule disjunctive_add [symmetric]) (auto simp: bit_simps dest!: less_16_halves less_8_cases)
  moreover have "unat x div 256 mod 8 < 8" "unat y mod 256 < 256" by simp_all
  then have "unat (x AND 0x700) + unat (y AND 0xff) < 2 ^ 16" unfolding page low by simp
  ultimately show ?thesis
    using page low \<open>unat (x AND 0x700) + unat (y AND 0xff) < 2 ^ 16\<close> unat_add_lem [where ?'a = 16, THEN iffD1, of "x AND 0x700" "y AND 0xff"] by simp
qed

lemma bit11_page: "pc_ok pc \<Longrightarrow> \<not> bit pc 11 \<longleftrightarrow> unat pc < 2048" for pc :: u16
proof -
  assume "pc_ok pc"
  then have "unat pc < 4096" by (rule pc_range)
  moreover have "bit pc 11 = bit (unat pc) 11" by (simp add: bit_simps)
  moreover have "bit (unat pc) 11 = odd (unat pc div 2048)" by (simp add: bit_iff_odd)
  moreover have "2048 \<le> unat pc \<Longrightarrow> unat pc < 4096 \<Longrightarrow> unat pc div 2048 = 1" by simp
  ultimately show ?thesis by (cases "unat pc < 2048") auto
qed

lemma call_page_nat:
  fixes n :: nat
  assumes "n < 4096"
  shows "256 * (n div 256 mod 8) + (n + 2) mod 256 = n + 2 \<longleftrightarrow> n mod 256 < 254 \<and> n < 2048"
proof -
  define q r where "q = n div 256" and "r = n mod 256"
  have n: "n = 256 * q + r" and r: "r < 256" and q: "q < 16" using assms by (auto simp: q_def r_def)
  have "(n + 2) mod 256 = (if r < 254 then r + 2 else r - 254)"
  proof -
    have "n + 2 = r + 2 + 256 * q" by (simp add: n)
    then have "(n + 2) mod 256 = (r + 2) mod 256" by (simp only: mod_mult_self2)
    also have "\<dots> = (if r < 254 then r + 2 else r - 254)"
    proof (cases "r < 254")
      case False
      then have "r + 2 = r - 254 + 256" by simp
      then show ?thesis using False r by (simp only: mod_add_self2) simp
    qed simp
    finally show ?thesis .
  qed
  moreover have "n div 256 = q" "n mod 256 = r" using n r by simp_all
  moreover have "q mod 8 = q \<longleftrightarrow> q < 8" "q mod 8 \<noteq> q + 1" using mod_less_eq_dividend [of q 8] by auto
  ultimately show ?thesis using n r by auto
qed

lemma interrupt_page_nat:
  fixes n :: nat
  assumes "n < 4096" "2 \<le> n"
  shows "256 * ((n - 2) div 256 mod 8) + n mod 256 = n \<longleftrightarrow> 2 \<le> n mod 256 \<and> n < 2048"
proof -
  define q r where "q = n div 256" and "r = n mod 256"
  have n: "n = 256 * q + r" and r: "r < 256" and q: "q < 16" using assms by (auto simp: q_def r_def)
  have "(n - 2) div 256 = (if 2 \<le> r then q else q - 1)"
  proof (cases "2 \<le> r")
    case True
    then have "n - 2 = r - 2 + 256 * q" using n by simp
    then show ?thesis using True r by simp
  next
    case False
    then have "n - 2 = r + 254 + 256 * (q - 1)" using n assms(2) by (cases q) simp_all
    then show ?thesis using False by simp
  qed
  moreover have "q mod 8 = q \<longleftrightarrow> q < 8" "0 < q \<Longrightarrow> (q - 1) mod 8 \<noteq> q"
    using mod_less_eq_dividend [of q 8] mod_less_eq_dividend [of "q - 1" 8] by auto
  moreover have "\<not> 2 \<le> r \<Longrightarrow> 0 < q" using n assms(2) by (cases q) simp_all
  moreover have "n mod 256 = r" using n r by simp
  ultimately show ?thesis using n r by auto
qed

text \<open>When the reassembled program counter is the intended one.\<close>

lemma call_page_exact:
  assumes "pc_ok pc"
  shows "(pc AND 0x700) OR ((pc + 2) AND 0xff) = pc + 2 \<longleftrightarrow> unat pc mod 256 < 254 \<and> \<not> bit pc 11"
proof -
  have lt: "unat pc < 4096" using assms by (rule pc_range)
  then have two: "unat (pc + 2) = unat pc + 2" by (simp add: unat_add_lem [where ?'a = 16, THEN iffD1])
  have "(pc AND 0x700) OR ((pc + 2) AND 0xff) = pc + 2 \<longleftrightarrow>
      256 * (unat pc div 256 mod 8) + (unat pc + 2) mod 256 = unat pc + 2"
    unfolding word_unat_eq_iff unat_page two ..
  also have "\<dots> \<longleftrightarrow> unat pc mod 256 < 254 \<and> unat pc < 2048"
    using lt by (rule call_page_nat)
  finally show ?thesis using bit11_page [OF assms] by simp
qed

lemma interrupt_page_exact:
  assumes "pc_ok pc"
  shows "((pc - 2) AND 0x700) OR (pc AND 0xff) = pc \<longleftrightarrow> 2 \<le> unat pc mod 256 \<and> \<not> bit pc 11"
proof -
  have lt: "unat pc < 4096" using assms by (rule pc_range)
  have eq: "((pc - 2) AND 0x700) OR (pc AND 0xff) = pc \<longleftrightarrow>
      256 * (unat (pc - 2) div 256 mod 8) + unat pc mod 256 = unat pc"
    unfolding word_unat_eq_iff unat_page ..
  have "256 * (unat (pc - 2) div 256 mod 8) + unat pc mod 256 = unat pc \<longleftrightarrow>
      2 \<le> unat pc mod 256 \<and> unat pc < 2048"
  proof (cases "2 \<le> unat pc")
    case True
    then have "unat (pc - 2) = unat pc - 2" by (simp add: unat_sub word_le_nat_alt)
    then show ?thesis using interrupt_page_nat [OF lt True] by simp
  next
    case False
    then have "pc = 0 \<or> pc = 1" by (auto simp: word_unat_eq_iff)
    then show ?thesis by (auto simp: unsigned_minus_1_eq_mask mask_eq_exp_minus_1)
  qed
  then show ?thesis using eq bit11_page [OF assms] by simp
qed

text \<open>A call followed by a return, and the frame it leaves on the stack.\<close>

lemma call_frame:
  assumes "upi42_op_CALL_imm f u = Some (n, v)"
  shows "n = 0" and "m_psw v = (m_psw u AND 0xf8) OR (1 + (m_psw u AND 7))" and "m_pc v = jump_target f u"
    and "m_ram v = (m_ram u)[8 + 2 * unat (m_psw u AND 7) := ucast (m_pc u + 2),
      9 + 2 * unat (m_psw u AND 7) := (m_psw u AND 0xf0) OR (ucast (drop_bit 8 (m_pc u)) AND 0x07)]"
    and "m_cycs v = m_cycs u - 1" and "m_irq_mask v = m_irq_mask u" and "m_sts v = m_sts u"
  using assms by (auto simp: upi42_op_CALL_imm_def Let_def cyc_def jump_target_def)

lemma ret_of_frame:
  assumes "length (m_ram u) = 256" and "unat (m_psw u AND 7) = Suc k"
  shows "\<exists>w. upi42_op_RET g u = Some (0, w) \<and> m_ram w = m_ram u \<and> m_cycs w = m_cycs u - 1 \<and>
    m_pc w = push_bit 8 (ucast (m_ram u ! (9 + 2 * k) AND 0x0f)) OR ucast (m_ram u ! (8 + 2 * k)) \<and>
    (\<not> tst g 0x10 \<longrightarrow> m_psw w = (m_psw u AND 0xf8) OR of_nat k \<and> m_irq_mask w = m_irq_mask u) \<and>
    (tst g 0x10 \<longrightarrow> m_psw w = (m_ram u ! (9 + 2 * k) AND 0xf0) OR (((m_psw u AND 0xf8) OR of_nat k) AND 0x0f) \<and>
      \<not> m_irq_mask w)"
  using assms by (auto simp: upi42_op_RET_def Let_def cyc_def upi42_mirror_f0_def)

lemma call_then_ret:
  assumes "length (m_ram u) = 256" and sp: "unat (m_psw u AND 7) < 7" and call: "upi42_op_CALL_imm f u = Some (n, v)"
  shows "\<exists>w. upi42_op_RET g v = Some (0, w) \<and> m_pc w = (m_pc u AND 0x700) OR ((m_pc u + 2) AND 0xff) \<and>
    m_psw w = m_psw u \<and> m_ram w = m_ram v \<and> m_cycs w = m_cycs u - 2 \<and>
    (tst g 0x10 \<longrightarrow> \<not> m_irq_mask w) \<and> (\<not> tst g 0x10 \<longrightarrow> m_irq_mask w = m_irq_mask u)"
proof -
  let ?k = "unat (m_psw u AND 7)"
  note frame = call_frame [OF call]
  have len: "length (m_ram v) = 256" using assms(1) frame(4) by simp
  have "m_psw v AND 7 = 1 + (m_psw u AND 7)" "m_psw v AND 0xf8 = m_psw u AND 0xf8"
    using sp_after_call [OF sp] frame(2) by simp_all
  moreover have "unat (m_psw v AND 7) = Suc ?k" using calculation(1) sp_after_call(2) [OF sp] by simp
  moreover have "m_ram v ! (8 + 2 * ?k) = ucast (m_pc u + 2)"
    "m_ram v ! (9 + 2 * ?k) = (m_psw u AND 0xf0) OR (ucast (drop_bit 8 (m_pc u)) AND 0x07)"
    using assms(1) sp frame(4) by (simp_all add: nth_list_update)
  moreover have "(m_psw u AND 0xf8) OR of_nat ?k = m_psw u" using sp_after_call(4) [OF sp] by simp
  moreover have "(((p AND 0xf0) OR (x AND 0x07)) AND 0xf0) OR (p AND 0x0f) = p" for p x :: u8
    by (rule bit_word_eqI) (auto simp: bit_simps dest!: less_8_cases)
  ultimately show ?thesis
    using ret_of_frame [OF len, of ?k g] frame(5,6) frame_pc [of "m_psw u" "m_pc u" "m_pc u + 2"]
    by auto
qed

text \<open>
  C30.  Where a return goes.  With room on the stack (stack pointer below 7), a return after a call restores the stack pointer, the flags and the rest of
  the program status word, and continues in the page of the call, at the offset two further modulo
  256 and in the lower half of the ROM; this is the instruction after the call exactly if the call does
  not lie in the last two bytes of a page or in the upper half.  Likewise the return from an interrupt
  unmasks interrupts and continues at the interrupted instruction exactly if that does not lie in the
  first two bytes of a page or in the upper half.
\<close>

theorem upi42_return_address:
  assumes "upi_wf u" and "unat (m_psw u AND 7) < 7"
  shows "(\<exists>v w. upi42_op_CALL_imm f u = Some (0, v) \<and> upi42_op_RET 0x83 v = Some (0, w) \<and>
      m_psw w = m_psw u \<and> m_irq_mask w = m_irq_mask u \<and> m_cycs w = m_cycs u - 2 \<and>
      m_pc w = (m_pc u AND 0x700) OR ((m_pc u + 2) AND 0xff) \<and>
      (m_pc w = m_pc u + 2 \<longleftrightarrow> unat (m_pc u) mod 256 < 254 \<and> \<not> bit (m_pc u) 11)) \<and>
    (\<exists>v w. interrupt vec u = Some v \<and> upi42_op_RET 0x93 v = Some (0, w) \<and>
      m_psw w = m_psw u \<and> \<not> m_irq_mask w \<and>
      (m_pc w = m_pc u \<longleftrightarrow> 2 \<le> unat (m_pc u) mod 256 \<and> \<not> bit (m_pc u) 11))"
proof
  obtain v where v: "upi42_op_CALL_imm f u = Some (0, v)"
    by (simp add: upi42_op_CALL_imm_def Let_def)
  have pc: "pc_ok (m_pc u)" using assms(1) by (simp add: upi_wf_def)
  show "\<exists>v w. upi42_op_CALL_imm f u = Some (0, v) \<and> upi42_op_RET 0x83 v = Some (0, w) \<and>
      m_psw w = m_psw u \<and> m_irq_mask w = m_irq_mask u \<and> m_cycs w = m_cycs u - 2 \<and>
      m_pc w = (m_pc u AND 0x700) OR ((m_pc u + 2) AND 0xff) \<and>
      (m_pc w = m_pc u + 2 \<longleftrightarrow> unat (m_pc u) mod 256 < 254 \<and> \<not> bit (m_pc u) 11)"
    using call_then_ret [OF _ assms(2) v, of "0x83"] v call_page_exact [OF pc] assms(1) by (auto simp: upi_wf_def)
next
  have pc: "pc_ok (m_pc u)" using assms(1) by (simp add: upi_wf_def)
  let ?u = "u\<lparr>m_irq_mask := True, m_pc := m_pc u - 2, m_cycs := m_cycs u + 1\<rparr>"
  obtain v where v: "upi42_op_CALL_imm (push_bit 8 vec) ?u = Some (0, v)"
    by (simp add: upi42_op_CALL_imm_def Let_def)
  have r: "interrupt vec u = Some v" using v by (simp add: interrupt_def)
  have "\<exists>w. upi42_op_RET 0x93 v = Some (0, w) \<and> m_pc w = ((m_pc u - 2) AND 0x700) OR (m_pc u AND 0xff) \<and>
      m_psw w = m_psw u \<and> \<not> m_irq_mask w"
    using call_then_ret [of ?u, OF _ _ v, of "0x93"] assms by (auto simp: upi_wf_def)
  then show "\<exists>v w. interrupt vec u = Some v \<and> upi42_op_RET 0x93 v = Some (0, w) \<and>
      m_psw w = m_psw u \<and> \<not> m_irq_mask w \<and>
      (m_pc w = m_pc u \<longleftrightarrow> 2 \<le> unat (m_pc u) mod 256 \<and> \<not> bit (m_pc u) 11)"
    using r interrupt_page_exact [OF pc] by auto
qed

theorem upi42_return_address_witness:
  "let u = (upi42_do_init UPI42_80C42 (replicate 4096 0))\<lparr>m_pc := 0x1fe\<rparr> in
    upi_wf u \<and> unat (m_psw u AND 7) < 7 \<and>
    (\<exists>v w. upi42_op_CALL_imm 0x3414 u = Some (0, v) \<and> upi42_op_RET 0x83 v = Some (0, w) \<and> m_pc w = 0x100)"
proof -
  let ?u = "(upi42_do_init UPI42_80C42 (replicate 4096 0))\<lparr>m_pc := 0x1fe\<rparr>"
  have wf: "upi_wf ?u" using init_chip [of "replicate 4096 0"] by (simp add: chip_80c42_def upi_wf_def pc_ok_def)
  have psw: "m_psw ?u = 0" by (simp add: upi42_do_init_def upi42_zero_def)
  show ?thesis
    using upi42_return_address [OF wf, of "0x3414" 3] wf by (auto simp: Let_def psw)
qed

section \<open>JTF and the timer\<close>

text \<open>
  C32.  JTF never falls through.  Whatever the timer flag, the instruction adds nothing to the program
  counter: with the flag clear it jumps, and with the flag set it clears it and stays on itself, so that
  its next execution jumps.
\<close>

theorem upi42_jtf_no_fall_through:
  "(m_tf u \<longrightarrow> upi42_op_JTF_imm f u = Some (0, cyc (u\<lparr>m_tf := False\<rparr>))) \<and>
   (\<not> m_tf u \<longrightarrow> (\<exists>v. upi42_op_JTF_imm f u = Some (0, v) \<and> \<not> m_tf v \<and>
      m_pc v = (m_pc u AND 0xff00) OR ucast (drop_bit 8 f AND 0xff)))"
  by (auto simp: upi42_op_JTF_imm_def cond_jump_def page_jump_def cyc_def Let_def)

theorem upi42_jtf_no_fall_through_witness:
  "let u = (upi42_do_init UPI42_80C42 (replicate 4096 0))\<lparr>m_tf := True, m_pc := 0x10\<rparr> in
    m_tf u \<and> upi42_op_JTF_imm 0x2016 u = Some (0, cyc (u\<lparr>m_tf := False\<rparr>)) \<and> m_pc (cyc (u\<lparr>m_tf := False\<rparr>)) = 0x10"
  using upi42_jtf_no_fall_through [of "(upi42_do_init UPI42_80C42 (replicate 4096 0))\<lparr>m_tf := True, m_pc := 0x10\<rparr>" "0x2016"]
  by (simp add: Let_def cyc_def)

text \<open>The prescaler and the timer register as one counter of 13 bits.\<close>

definition timer_count :: "upi42_t \<Rightarrow> nat" where
  "timer_count u = 32 * unat (m_t u) + unat (m_prescaler u)"

lemma timer_count_less: "timer_count u < 8192"
  using unsigned_less [of "m_t u", where ?'a = nat] unsigned_less [of "m_prescaler u", where ?'a = nat]
  by (simp add: timer_count_def)

lemma word_succ_unat: "unat (w + 1) = (if unat w = 2 ^ LENGTH('a) - 1 then 0 else unat w + 1)" for w :: "'a::len word"
proof -
  have "unat (w + 1) = (unat w + 1) mod 2 ^ LENGTH('a)" by (simp add: unat_word_ariths)
  moreover have "unat w < 2 ^ LENGTH('a)" by (rule unsigned_less)
  then have "unat w = 2 ^ LENGTH('a) - 1 \<or> Suc (unat w) < 2 ^ LENGTH('a)" by linarith
  ultimately show ?thesis by auto
qed

lemma timer_tick_count:
  assumes "m_run_timer u" and "\<not> m_skip_timer_inc u"
  shows "timer_count (timer_tick u) = (timer_count u + 1) mod 8192"
    and "m_tf (timer_tick u) \<longleftrightarrow> m_tf u \<or> timer_count u = 8191"
    and "m_tcnti_raise (timer_tick u) \<longleftrightarrow> m_tcnti_raise u \<or> m_tcnti u \<and> timer_count u = 8191"
    and "m_run_timer (timer_tick u)" and "\<not> m_skip_timer_inc (timer_tick u)" and "m_tcnti (timer_tick u) = m_tcnti u"
proof -
  have p: "unat (m_prescaler u + 1) = (if unat (m_prescaler u) = 31 then 0 else unat (m_prescaler u) + 1)"
    and t: "unat (m_t u + 1) = (if unat (m_t u) = 255 then 0 else unat (m_t u) + 1)"
    using word_succ_unat [of "m_prescaler u"] word_succ_unat [of "m_t u"] by simp_all
  have b: "unat (m_t u) < 256" "unat (m_prescaler u) < 32"
    using unsigned_less [of "m_t u", where ?'a = nat] unsigned_less [of "m_prescaler u", where ?'a = nat] by simp_all
  have z: "m_prescaler u + 1 = 0 \<longleftrightarrow> unat (m_prescaler u) = 31" "m_t u + 1 = 0 \<longleftrightarrow> unat (m_t u) = 255"
    using p t by (metis unat_eq_0 Suc_eq_plus1 nat.distinct(1))+
  show "timer_count (timer_tick u) = (timer_count u + 1) mod 8192"
    using assms b p t by (simp add: timer_tick_def timer_count_def Let_def z)
  show "m_tf (timer_tick u) \<longleftrightarrow> m_tf u \<or> timer_count u = 8191"
    "m_tcnti_raise (timer_tick u) \<longleftrightarrow> m_tcnti_raise u \<or> m_tcnti u \<and> timer_count u = 8191"
    using assms b by (auto simp: timer_tick_def timer_count_def Let_def z)
  show "m_run_timer (timer_tick u)" "\<not> m_skip_timer_inc (timer_tick u)" "m_tcnti (timer_tick u) = m_tcnti u"
    using assms by (simp_all add: timer_tick_def Let_def)
qed

lemma timer_ticks:
  assumes "m_run_timer u" and "\<not> m_skip_timer_inc u"
  shows "timer_count ((timer_tick ^^ n) u) = (timer_count u + n) mod 8192 \<and>
    (m_tf ((timer_tick ^^ n) u) \<longleftrightarrow> m_tf u \<or> 8192 \<le> timer_count u + n) \<and>
    (m_tcnti_raise ((timer_tick ^^ n) u) \<longleftrightarrow> m_tcnti_raise u \<or> m_tcnti u \<and> 8192 \<le> timer_count u + n) \<and>
    m_run_timer ((timer_tick ^^ n) u) \<and> \<not> m_skip_timer_inc ((timer_tick ^^ n) u) \<and>
    m_tcnti ((timer_tick ^^ n) u) = m_tcnti u"
proof (induction n)
  case 0
  show ?case using assms timer_count_less [of u] by simp
next
  case (Suc n)
  let ?v = "(timer_tick ^^ n) u"
  have *: "timer_tick ?v = (timer_tick ^^ Suc n) u" by simp
  have v: "timer_count ?v = (timer_count u + n) mod 8192" using Suc.IH by blast
  then have "timer_count ?v = 8191 \<Longrightarrow> 8192 \<le> timer_count u + Suc n"
    using mod_less_eq_dividend [of "timer_count u + n" 8192] by simp
  moreover have "8192 \<le> timer_count u + Suc n \<Longrightarrow> 8192 \<le> timer_count u + n \<or> timer_count ?v = 8191"
    unfolding v by (cases "timer_count u + n = 8191") auto
  ultimately have "8192 \<le> timer_count u + Suc n \<longleftrightarrow> 8192 \<le> timer_count u + n \<or> timer_count ?v = 8191"
    by linarith
  then show ?case
    using Suc.IH timer_tick_count [of ?v] by (auto simp: mod_Suc_eq simp flip: *)
qed

text \<open>
  C31.  The timer divides by 8192.  While the timer runs, the prescaler and the timer register count as one
  13-bit counter, the timer flag is set exactly by the cycles that overflow it, and the same cycles
  raise the timer interrupt if it is enabled.
\<close>

theorem upi42_timer_period:
  assumes "m_run_timer u" and "\<not> m_skip_timer_inc u"
  shows "32 * unat (m_t ((timer_tick ^^ n) u)) + unat (m_prescaler ((timer_tick ^^ n) u)) =
      (32 * unat (m_t u) + unat (m_prescaler u) + n) mod 8192 \<and>
    (m_tf ((timer_tick ^^ n) u) \<longleftrightarrow> m_tf u \<or> 8192 \<le> 32 * unat (m_t u) + unat (m_prescaler u) + n) \<and>
    (m_tcnti_raise ((timer_tick ^^ n) u) \<longleftrightarrow>
      m_tcnti_raise u \<or> m_tcnti u \<and> 8192 \<le> 32 * unat (m_t u) + unat (m_prescaler u) + n)"
  using timer_ticks [OF assms, of n] by (simp add: timer_count_def)

theorem upi42_timer_period_witness:
  "let u = (upi42_do_init UPI42_80C42 (replicate 4096 0))\<lparr>m_run_timer := True, m_tcnti := True, m_t := 0xff\<rparr> in
    m_run_timer u \<and> \<not> m_skip_timer_inc u \<and> \<not> m_tf ((timer_tick ^^ 31) u) \<and>
    m_tf ((timer_tick ^^ 32) u) \<and> m_tcnti_raise ((timer_tick ^^ 32) u)"
proof -
  let ?u = "(upi42_do_init UPI42_80C42 (replicate 4096 0))\<lparr>m_run_timer := True, m_tcnti := True, m_t := 0xff\<rparr>"
  have "m_run_timer ?u" "\<not> m_skip_timer_inc ?u" by (simp_all add: upi42_do_init_def upi42_zero_def)
  note t = upi42_timer_period [OF this]
  show ?thesis using t [of 31] t [of 32] by (simp add: Let_def upi42_do_init_def upi42_zero_def)
qed

section \<open>Executing one instruction\<close>

lemma fetch_word:
  assumes "chip_80c42 u"
  shows "fetch u = Some (ucast (m_rom u ! unat (m_pc u)) OR push_bit 8 (ucast (m_rom u ! unat ((m_pc u + 1) AND 0xfff))))"
proof -
  have "pc_ok ((m_pc u + 1) AND 0xfff)" by (simp add: pc_ok_def bit_simps)
  then show ?thesis
    using assms pc_range [of "m_pc u"] pc_range [of "(m_pc u + 1) AND 0xfff"]
    by (simp add: fetch_def rom_at_def chip_80c42_def upi_wf_def)
qed

lemma insn_80c42: "chip_80c42 u \<Longrightarrow> n < 256 \<Longrightarrow> insn_at n u = ops_80c42 ! n"
  by (auto simp: insn_at_def chip_80c42_def build_ops_def UPI42_80C42_def UPI42_EXT_C42_def tst_def split: option.splits)

lemma fetched_fields:
  fixes lo hi :: u8
  defines "f \<equiv> ucast lo OR push_bit 8 (ucast hi) :: u32"
  shows "unat (f AND 0xff) = unat lo" and "ucast (drop_bit 8 f AND 0xff) = (ucast hi :: u16)"
    and "unat (f AND 7) = unat (lo AND 7)"
proof -
  have m: "bit (0xff :: int) n = (n < 8)" "bit (7 :: int) n = (n < 3)" for n
    using bit_mask_iff [of 8 n, where ?'a = int] bit_mask_iff [of 3 n, where ?'a = int]
    by (auto simp: mask_eq_exp_minus_1)
  have u: "unat (ucast v :: u32) = unat v" for v :: u8
    using unsigned_less [of v, where ?'a = nat] by (simp add: unsigned_ucast_eq take_bit_nat_eq_self)
  have "f AND 0xff = ucast lo"
    by (rule bit_word_eqI) (auto simp: f_def m bit_simps dest: bit_imp_le_length)
  then show "unat (f AND 0xff) = unat lo" using u by simp
  show "ucast (drop_bit 8 f AND 0xff) = (ucast hi :: u16)"
    by (rule bit_word_eqI) (auto simp: f_def m bit_simps dest: bit_imp_le_length)
  have "f AND 7 = ucast (lo AND 7)"
    by (rule bit_word_eqI) (auto simp: f_def m bit_simps dest: bit_imp_le_length)
  then show "unat (f AND 7) = unat (lo AND 7)" using u by simp
qed

lemma exec_insn_by:
  assumes "chip_80c42 u" and "ops_80c42 ! opcode u = Some h"
    and "f = ucast (m_rom u ! unat (m_pc u)) OR push_bit 8 (ucast (m_rom u ! unat ((m_pc u + 1) AND 0xfff)))"
    and "h f u = Some (n, v)"
  shows "exec_insn u = Some (timer_tick (cyc (advance_pc n v)))"
proof -
  have op: "unat (f AND 0xff) = opcode u" using assms(3) fetched_fields(1) by (simp add: opcode_def)
  then have "insn_at (unat (f AND 0xff)) u = Some h"
    using insn_80c42 [OF assms(1), of "opcode u"] assms(2) low_byte [of f] by simp
  then show ?thesis using fetch_word [OF assms(1)] assms(3,4) by (simp add: exec_insn_def)
qed

section \<open>DJNZ loops end\<close>

lemma upi_run_append: "upi_run (es @ fs) u = (case upi_run es u of None \<Rightarrow> None | Some v \<Rightarrow> upi_run fs v)"
  by (induction es arbitrary: u) (auto split: option.splits)

lemma idle_cycles:
  assumes "\<not> m_suspend u" and "\<not> m_run_timer u" and "m_cycs u = - 1 - int d"
  shows "upi_run (replicate d Cycle) u = Some (u\<lparr>m_cycs := - 1\<rparr>)"
  using assms
proof (induction d arbitrary: u)
  case 0
  then show ?case by simp
next
  case (Suc d)
  then have "upi42_exec u = Some (u\<lparr>m_cycs := - 1 - int d\<rparr>)"
    by (simp add: upi42_exec_def timer_tick_def Let_def)
  then show ?case using Suc.prems Suc.IH [of "u\<lparr>m_cycs := - 1 - int d\<rparr>"] by simp
qed

lemma djnz_table: "k < 8 \<Longrightarrow> ops_80c42 ! (0xe8 + k) = Some upi42_op_DJNZ_Rr_imm"
  by (auto simp: ops_80c42_def dest!: less_8_cases)

lemma pc_parts: "(pc AND 0xff00) OR ucast (ucast pc :: u8) = pc" "(pc AND 0xf800) OR (pc AND 0x7ff) = pc" for pc :: u16
  by (rule bit_word_eqI; auto simp: bit_simps dest!: less_16_halves less_8_cases)+

text \<open>A DJNZ on itself: the address it jumps to is its own.\<close>

definition djnz_self :: "nat \<Rightarrow> upi42_t \<Rightarrow> bool" where
  "djnz_self k u \<longleftrightarrow> chip_80c42 u \<and> k < 8 \<and> opcode u = 0xe8 + k \<and>
    m_rom u ! unat ((m_pc u + 1) AND 0xfff) = ucast (m_pc u) \<and>
    \<not> m_suspend u \<and> \<not> m_run_timer u \<and> (m_irq_mask u \<or> \<not> m_i_raise u \<and> \<not> m_tcnti_raise u)"

definition reg_no :: "nat \<Rightarrow> upi42_t \<Rightarrow> nat" where
  "reg_no k u = (if tst (m_psw u) 0x10 then 24 + k else k)"

lemma djnz_self_cong [simp]:
  "djnz_self k (u\<lparr>m_cycs := c\<rparr>) = djnz_self k u"
  "length rs = length (m_ram u) \<Longrightarrow> djnz_self k (u\<lparr>m_ram := rs\<rparr>) = djnz_self k u"
  "reg_no k (u\<lparr>m_cycs := c\<rparr>) = reg_no k u" "reg_no k (u\<lparr>m_ram := rs\<rparr>) = reg_no k u"
  by (simp_all add: djnz_self_def chip_80c42_def upi_wf_def opcode_def reg_no_def)

lemma djnz_step:
  assumes "djnz_self k u" and "m_cycs u = - 1"
  shows "upi42_exec u = Some (u\<lparr>m_ram := (m_ram u)[reg_no k u := m_ram u ! reg_no k u - 1],
    m_pc := (if m_ram u ! reg_no k u = 1 then (m_pc u AND 0xf800) OR ((m_pc u + 2) AND 0x7ff) else m_pc u),
    m_cycs := - 2\<rparr>)"
proof -
  let ?u = "u\<lparr>m_cycs := 0\<rparr>"
  let ?lo = "m_rom u ! unat (m_pc u)" and ?hi = "m_rom u ! unat ((m_pc u + 1) AND 0xfff)"
  let ?f = "ucast ?lo OR push_bit 8 (ucast ?hi) :: u32"
  have k: "k < 8" and hi: "?hi = ucast (m_pc u)" and lo: "unat ?lo = 0xe8 + k" and chip: "chip_80c42 ?u"
    using assms(1) by (auto simp: djnz_self_def opcode_def chip_80c42_def)
  have "?lo AND 7 = take_bit 3 ?lo" by (simp add: take_bit_eq_mask mask_eq_exp_minus_1)
  then have "unat (?lo AND 7) = k"
    using lo k by (simp only: unsigned_take_bit_eq) (auto simp: take_bit_eq_mod dest!: less_8_cases)
  then have r: "reg ?u ?f = reg_no k u" by (simp add: reg_def reg_no_def fetched_fields(3))
  have op: "ops_80c42 ! opcode ?u = Some upi42_op_DJNZ_Rr_imm"
    using djnz_table [OF k] lo by (simp add: opcode_def)
  have "(m_pc u AND 0xff00) OR ucast (drop_bit 8 ?f AND 0xff) = m_pc u"
    unfolding fetched_fields(2) hi by (rule pc_parts)
  note step = exec_insn_by [OF chip op refl] and page = this
  show ?thesis
  proof (cases "m_ram u ! reg_no k u = 1")
    case True
    then have "upi42_op_DJNZ_Rr_imm ?f ?u = Some (2, cyc (?u\<lparr>m_ram := (m_ram u)[reg_no k u := 0]\<rparr>))"
      by (simp add: upi42_op_DJNZ_Rr_imm_def r Let_def)
    then show ?thesis using step assms True
      by (auto simp: upi42_exec_def djnz_self_def cyc_def advance_pc_def timer_tick_def Let_def)
  next
    case False
    then have "upi42_op_DJNZ_Rr_imm ?f ?u =
        Some (0, cyc (?u\<lparr>m_ram := (m_ram u)[reg_no k u := m_ram u ! reg_no k u - 1]\<rparr>))"
      using page by (simp add: upi42_op_DJNZ_Rr_imm_def r Let_def page_jump_def cyc_def)
    then show ?thesis using step assms False
      by (auto simp: upi42_exec_def djnz_self_def cyc_def advance_pc_def timer_tick_def Let_def pc_parts(2))
  qed
qed

text \<open>From the cycle that executes the instruction, \<open>2 n + 1\<close> cycles take the register from \<open>n + 1\<close> to 0.\<close>

lemma djnz_loop:
  assumes "djnz_self k u" and "m_cycs u = - 1" and "unat (m_ram u ! reg_no k u - 1) = n"
  shows "upi_run (replicate (2 * n + 1) Cycle) u = Some (u\<lparr>m_ram := (m_ram u)[reg_no k u := 0],
    m_pc := (m_pc u AND 0xf800) OR ((m_pc u + 2) AND 0x7ff), m_cycs := - 2\<rparr>)"
  using assms
proof (induction n arbitrary: u)
  case 0
  then have "m_ram u ! reg_no k u = 1" by (metis unat_eq_0 eq_iff_diff_eq_0)
  then show ?case using djnz_step [OF 0(1,2)] by simp
next
  case (Suc n)
  let ?x = "m_ram u ! reg_no k u - 1"
  let ?v = "u\<lparr>m_ram := (m_ram u)[reg_no k u := ?x], m_cycs := - 2\<rparr>"
  let ?w = "?v\<lparr>m_cycs := - 1\<rparr>"
  have len: "reg_no k u < length (m_ram u)"
    using Suc.prems(1) by (auto simp: djnz_self_def reg_no_def chip_80c42_def upi_wf_def)
  have "?x \<noteq> 0" using Suc.prems(3) by auto
  then have "upi42_exec u = Some ?v" using djnz_step [OF Suc.prems(1,2)] by auto
  moreover have "upi42_exec ?v = Some ?w"
    using Suc.prems(1) by (simp add: upi42_exec_def djnz_self_def timer_tick_def Let_def)
  moreover have "unat (?x - 1) = n"
    using Suc.prems(3) unat_minus_one [OF \<open>?x \<noteq> 0\<close>] by linarith
  then have "upi_run (replicate (2 * n + 1) Cycle) ?w = Some (u\<lparr>m_ram := (m_ram u)[reg_no k u := 0],
      m_pc := (m_pc u AND 0xf800) OR ((m_pc u + 2) AND 0x7ff), m_cycs := - 2\<rparr>)"
    using Suc.IH [of ?w] Suc.prems(1) len by simp
  ultimately show ?case by simp
qed

text \<open>
  C20.  A DJNZ loop ends.  A DJNZ that jumps to itself, with no interrupt pending and the timer stopped,
  leaves the loop after a number of cycles that depends only on the cycles still owed and on the
  register: two cycles for each of the \<open>n\<close> rounds, where an initial register of zero counts as 256.  Then
  the register is zero, the program counter is behind the instruction and nothing else has changed.
\<close>

theorem upi42_djnz_terminates:
  assumes "djnz_self k u" and "m_cycs u = - 1 - int d"
  shows "upi_run (replicate (d + (2 * unat (m_ram u ! reg_no k u - 1) + 1)) Cycle) u =
    Some (u\<lparr>m_ram := (m_ram u)[reg_no k u := 0],
      m_pc := (m_pc u AND 0xf800) OR ((m_pc u + 2) AND 0x7ff), m_cycs := - 2\<rparr>)"
proof -
  have "upi_run (replicate d Cycle) u = Some (u\<lparr>m_cycs := - 1\<rparr>)"
    using assms by (intro idle_cycles) (auto simp: djnz_self_def)
  then show ?thesis
    using djnz_loop [of k "u\<lparr>m_cycs := - 1\<rparr>", OF _ _ refl] assms(1)
    unfolding replicate_add upi_run_append by simp
qed

theorem upi42_djnz_terminates_witness:
  "let u = (upi42_do_init UPI42_80C42 ([0xea, 0x00] @ replicate 4094 0))\<lparr>m_cycs := - 2\<rparr> in
    djnz_self 2 u \<and> m_cycs u = - 1 - int 1 \<and>
    (\<exists>v. upi_run (replicate 512 Cycle) u = Some v \<and> m_pc v = 2 \<and> m_ram v ! 2 = 0)"
proof -
  let ?u = "(upi42_do_init UPI42_80C42 ([0xea, 0x00] @ replicate 4094 0))\<lparr>m_cycs := - 2\<rparr>"
  have chip: "chip_80c42 ?u" using init_chip [of "[0xea, 0x00] @ replicate 4094 0"] by (simp add: chip_80c42_def)
  have fields: "m_pc ?u = 0" "m_psw ?u = 0" "m_ram ?u = replicate 256 0" "m_rom ?u = [0xea, 0x00] @ replicate 4094 0"
    "\<not> m_suspend ?u" "\<not> m_run_timer ?u" "\<not> m_i_raise ?u" "\<not> m_tcnti_raise ?u"
    by (simp_all add: upi42_do_init_def upi42_zero_def)
  have self: "djnz_self 2 ?u" using chip fields by (simp add: djnz_self_def opcode_def)
  have r: "reg_no 2 ?u = 2" using fields by (simp add: reg_no_def tst_def)
  have c: "m_cycs ?u = - 1 - int 1" by simp
  have n: "1 + (2 * unat (m_ram ?u ! reg_no 2 ?u - 1) + 1) = 512"
    unfolding r fields(3) by (simp add: unsigned_minus_1_eq_mask mask_eq_exp_minus_1)
  note run = upi42_djnz_terminates [OF self c, unfolded n]
  have "(m_ram ?u)[reg_no 2 ?u := 0] ! 2 = 0" unfolding r fields(3) by simp
  then show ?thesis unfolding Let_def run using self c fields(1) by simp
qed

section \<open>The host interface\<close>

lemma host_table: "ops_80c42 ! 0x22 = Some upi42_op_IN_A_DBB" "ops_80c42 ! 0x02 = Some upi42_op_OUT_DBB_A"
  by (simp_all add: ops_80c42_def)

lemma exec_running:
  assumes "\<not> m_suspend u" and "0 \<le> m_cycs u + 1"
  shows "m_irq_mask u \<Longrightarrow> upi42_exec u = exec_insn (u\<lparr>m_cycs := m_cycs u + 1\<rparr>)"
    and "\<not> m_irq_mask u \<Longrightarrow> m_i_raise u \<Longrightarrow>
      upi42_exec u = interrupt 3 (u\<lparr>m_cycs := m_cycs u + 1, m_i_raise := False\<rparr>)"
  using assms by (auto simp: upi42_exec_def Let_def)

text \<open>The interrupt of a byte written by the host, and the instructions that move bytes to and from it.\<close>

lemma input_interrupt:
  assumes "\<not> m_suspend u" and "0 \<le> m_cycs u + 1" and "\<not> m_irq_mask u" and "m_i_raise u" and "\<not> m_dbf u"
  obtains v where "upi42_exec u = Some v" "m_pc v = 3" "m_irq_mask v" "\<not> m_i_raise v" "m_dbb_in v = m_dbb_in u"
    "m_sts v = m_sts u" "m_cycs v = m_cycs u + 1" "\<not> m_suspend v" "m_run_timer v = m_run_timer u"
proof -
  have "jump_target (push_bit 8 3) v = 3" if "\<not> m_dbf v" for v using that by (simp add: jump_target_def)
  then show ?thesis
    using that exec_running(2) [OF assms(1-4)] assms
    by (simp add: interrupt_def upi42_op_CALL_imm_def Let_def cyc_def jump_target_def)
qed

lemma exec_single:
  assumes "chip_80c42 u" and "\<not> m_suspend u" and "0 \<le> m_cycs u + 1" and "m_irq_mask u" and "\<not> m_run_timer u"
    and "ops_80c42 ! opcode u = Some h" and "\<And>f. h f (u\<lparr>m_cycs := m_cycs u + 1\<rparr>) = Some (1, v)"
  shows "upi42_exec u = Some (timer_tick (cyc (advance_pc 1 v)))"
proof -
  have "chip_80c42 (u\<lparr>m_cycs := m_cycs u + 1\<rparr>)" "opcode (u\<lparr>m_cycs := m_cycs u + 1\<rparr>) = opcode u"
    using assms(1) by (simp_all add: chip_80c42_def opcode_def)
  then show ?thesis
    using exec_running(1) [OF assms(2,3,4)] exec_insn_by [of "u\<lparr>m_cycs := m_cycs u + 1\<rparr>" h _ 1 v, OF _ _ refl] assms(6,7)
    by simp
qed

text \<open>
  C25.  A command of the host and the answer.  With the input interrupt enabled and unmasked, a byte
  written to the command port is seen by the program as such: status bits IBF and F1 are set, the next
  cycle enters the handler at address 3 with interrupts masked, and a handler that reads the byte
  and writes it back clears IBF, sets OBF, and lets the host read the byte, which clears OBF.
\<close>

theorem upi42_command_answer:
  assumes "chip_80c42 u" and "\<not> m_suspend u" and "0 \<le> m_cycs u + 1" and "m_i u" and "\<not> m_irq_mask u"
    and "\<not> m_dbf u" and "\<not> m_run_timer u" and "m_rom u ! 3 = 0x22" and "m_rom u ! 4 = 0x02"
  shows "\<exists>v w. upi_run [Command_write x, Cycle] u = Some v \<and> m_pc v = 3 \<and> m_irq_mask v \<and>
    bit (upi42_sts_read v) 1 \<and> bit (upi42_sts_read v) 3 \<and>
    upi_run [Cycle, Cycle] v = Some w \<and> m_a w = x \<and> m_pc w = 5 \<and>
    \<not> bit (upi42_sts_read w) 1 \<and> bit (upi42_sts_read w) 0 \<and>
    (case upi42_dbb_read w of (y, z) \<Rightarrow> y = x \<and> \<not> bit (upi42_sts_read z) 0)"
proof -
  let ?u = "upi42_cmd_write x u"
  have fields: "m_dbb_in ?u = x" "m_sts ?u = m_sts u OR 0x0a" "m_i_raise ?u" "\<not> m_irq_mask ?u" "\<not> m_dbf ?u"
    "\<not> m_suspend ?u" "0 \<le> m_cycs ?u + 1" "m_run_timer ?u = m_run_timer u"
    using assms by (simp_all add: upi42_cmd_write_def raise_ibf_def)
  obtain v where v: "upi42_exec ?u = Some v" "m_pc v = 3" "m_irq_mask v" "\<not> m_i_raise v" "m_dbb_in v = m_dbb_in ?u"
    "m_sts v = m_sts ?u" "m_cycs v = m_cycs ?u + 1" "\<not> m_suspend v" "m_run_timer v = m_run_timer ?u"
    using input_interrupt [of ?u] fields by metis
  have run: "upi_run [Command_write x, Cycle] u = Some v" using v(1) by simp
  have chip: "chip_80c42 v" "m_rom v = m_rom u"
    using upi_run_chip [OF assms(1) run] by (auto simp: same_chip_def)
  define v1 where "v1 = v\<lparr>m_a := x, m_sts := m_sts v AND NOT 0x02, m_pc := 4\<rparr>"
  define w where "w = v1\<lparr>m_dbb_out := x, m_sts := m_sts v1 OR 0x01, m_pc := 5\<rparr>"
  have op: "ops_80c42 ! opcode v = Some upi42_op_IN_A_DBB"
    using host_table assms(8) chip v(2) by (simp add: opcode_def)
  have s1: "upi42_exec v = Some v1"
    using exec_single [OF chip(1) _ _ _ _ op] v fields assms(7)
    by (simp add: upi42_op_IN_A_DBB_def v1_def cyc_def advance_pc_def timer_tick_def)
  then have chip1: "chip_80c42 v1"
    using upi_run_chip [OF chip(1), of "[Cycle]" v1] by simp
  have op1: "ops_80c42 ! opcode v1 = Some upi42_op_OUT_DBB_A"
    using host_table assms(9) chip(2) by (simp add: opcode_def v1_def)
  have s2: "upi42_exec v1 = Some w"
    using exec_single [OF chip1 _ _ _ _ op1] v fields assms(7)
    by (simp add: upi42_op_OUT_DBB_A_def w_def v1_def cyc_def advance_pc_def timer_tick_def)
  have "upi_run [Cycle, Cycle] v = Some w" using s1 s2 by simp
  moreover have "m_a w = x" "m_pc w = 5" "m_dbb_out w = x" "m_sts w = (m_sts v AND NOT 0x02) OR 0x01"
    by (simp_all add: w_def v1_def)
  ultimately show ?thesis
    using run v(2,3,6) fields(2) by (intro exI [of _ v] exI [of _ w]) (simp add: upi42_sts_read_def upi42_dbb_read_def bit_simps)
qed

theorem upi42_command_answer_witness:
  "let u = (upi42_do_init UPI42_80C42 ([0x05, 0, 0, 0x22, 0x02] @ replicate 4091 0))\<lparr>m_i := True\<rparr> in
    chip_80c42 u \<and> (\<exists>v w. upi_run [Command_write 0xaa, Cycle] u = Some v \<and> upi_run [Cycle, Cycle] v = Some w \<and>
      fst (upi42_dbb_read w) = 0xaa)"
proof -
  let ?u = "(upi42_do_init UPI42_80C42 ([0x05, 0, 0, 0x22, 0x02] @ replicate 4091 0))\<lparr>m_i := True\<rparr>"
  have chip: "chip_80c42 ?u"
    using init_chip [of "[0x05, 0, 0, 0x22, 0x02] @ replicate 4091 0"] by (simp add: chip_80c42_def upi_wf_def)
  have "\<not> m_suspend ?u" "0 \<le> m_cycs ?u + 1" "m_i ?u" "\<not> m_irq_mask ?u" "\<not> m_dbf ?u" "\<not> m_run_timer ?u"
    "m_rom ?u ! 3 = 0x22" "m_rom ?u ! 4 = 0x02"
    by (simp_all add: upi42_do_init_def upi42_zero_def)
  from upi42_command_answer [OF chip this, of "0xaa"]
  show ?thesis using chip unfolding Let_def by (auto simp: case_prod_beta simp del: upi_run.simps)
qed

section \<open>The bus master port\<close>

lemma dword_bytes:
  fixes b0 b1 b2 b3 :: u8
  defines "v \<equiv> ucast b0 OR push_bit 8 (ucast b1) OR push_bit 16 (ucast b2) OR push_bit 24 (ucast b3) :: u32"
  shows "ucast v = b0" "ucast (drop_bit 8 v) = b1" "ucast (drop_bit 16 v) = b2" "ucast (drop_bit 24 v) = b3"
  by (rule bit_word_eqI; simp add: v_def bit_simps; auto dest: bit_imp_le_length)+

lemma dword_put_back:
  assumes "rom_dword i u = Some v"
  shows "rom_put_dword i v u = Some u"
proof -
  have len: "i + 3 < length (m_rom u)"
    and v: "v = ucast (m_rom u ! i) OR push_bit 8 (ucast (m_rom u ! (i + 1))) OR
      push_bit 16 (ucast (m_rom u ! (i + 2))) OR push_bit 24 (ucast (m_rom u ! (i + 3)))"
    using assms unfolding rom_dword_def by (metis option.distinct(1), metis option.distinct(1) option.inject)
  show ?thesis unfolding rom_put_dword_def v dword_bytes list_update_id using len by simp
qed

lemma bm_put_back:
  assumes "bm_to_memory is u = Some ws" and "\<forall>(a, v) \<in> set ws. rd a = v"
  shows "bm_from_memory rd is u = Some u"
  using assms
proof (induction "is" arbitrary: ws)
  case (Cons i "is")
  then obtain v vs where "rom_dword i u = Some v" "bm_to_memory is u = Some vs" "ws = (m_ram_addr u + of_nat i, v) # vs"
    by (auto split: option.splits)
  then show ?case using Cons dword_put_back by simp
qed simp

text \<open>
  The ROM survives a trip through guest memory.  On the 80C42 a write of 0 to the bus master port
  stores the 4096 bytes of the ROM to 1024 consecutive double words and finishes; if guest memory
  returns what was stored, a write of 1 then loads them and gives back the same ROM.
\<close>

theorem upi42_bus_master_roundtrip:
  assumes "chip_80c42 u"
  shows "\<exists>ws. upi42_write rd 0x1aa 0 u = Some (u\<lparr>m_bm_stat := 2\<rparr>, ws) \<and>
    map fst ws = map (\<lambda>k. m_ram_addr u + of_nat (4 * k)) [0..<1024] \<and>
    ((\<forall>(a, v) \<in> set ws. rd' a = v) \<longrightarrow>
      upi42_write rd' 0x1aa 1 (u\<lparr>m_bm_stat := 2\<rparr>) = Some (u\<lparr>m_bm_stat := 3\<rparr>, []))"
proof -
  let ?u = "u\<lparr>m_bm_stat := 2\<rparr>"
  have chip: "m_rommask u = 0xfff" "length (m_rom u) = 4096" using assms by (simp_all add: chip_80c42_def)
  have off: "bm_offsets ?u = bm_offsets u" "bm_offsets u = map (\<lambda>k. 4 * k) [0..<1024]"
    using chip by (simp_all add: bm_offsets_def)
  obtain ws where ws: "bm_to_memory (bm_offsets u) u = Some ws"
    "map fst ws = map (\<lambda>i. m_ram_addr u + of_nat i) (bm_offsets u)"
    using bm_to_memory_total bm_offsets_in_rom [OF chip] by blast
  have "bm_to_memory is ?u = bm_to_memory is u" for "is"
    by (induction "is") (simp_all add: rom_dword_def)
  then have "(\<forall>(a, v) \<in> set ws. rd' a = v) \<Longrightarrow> bm_from_memory rd' (bm_offsets u) ?u = Some ?u"
    using bm_put_back [of "bm_offsets u" ?u ws rd'] ws(1) by simp
  then show ?thesis
    using ws off by (intro exI [of _ ws]) (simp add: upi42_write_def upi42_bus_master_def comp_def)
qed

theorem upi42_bus_master_roundtrip_witness:
  "let u = upi42_do_init UPI42_80C42 (replicate 4096 0) in chip_80c42 u \<and>
    (\<exists>ws. upi42_write (\<lambda>_. 0) 0x1aa 0 u = Some (u\<lparr>m_bm_stat := 2\<rparr>, ws) \<and> length ws = 1024)"
proof -
  have chip: "chip_80c42 (upi42_do_init UPI42_80C42 (replicate 4096 0))" by (rule init_chip) simp
  have "map fst ws = map h [0..<1024] \<Longrightarrow> length ws = 1024" for ws :: "(u32 \<times> u32) list" and h
    by (metis length_map length_upt diff_zero)
  then show ?thesis
    using upi42_bus_master_roundtrip [OF chip, of "\<lambda>_. 0"] chip unfolding Let_def by blast
qed

end
