(* ===== verification/Nvr.thy ===== *)
theory Nvr
  imports Prelude "HOL-Library.Signed_Division"
begin

text \<open>
  The generic clock of \<open>nvr.c\<close>: the internal clock \<open>intclk\<close>, its tick once per second, the conversions
  between it and the broken-down time of the C library, and the loading and saving of the register
  file.  The calendar is proved against a count of seconds.  The C fields are \<open>int\<close>, taken
  here as integers: none of them leaves the range of its type.
\<close>

section \<open>The clock\<close>

record tm =
  tm_sec :: int
  tm_min :: int
  tm_hour :: int
  tm_mday :: int
  tm_mon :: int
  tm_year :: int
  tm_wday :: int

definition nvr_is_leap :: "int \<Rightarrow> bool" where
  "nvr_is_leap year =
    (if year smod 400 = 0 then True else if year smod 100 = 0 then False else if year smod 4 = 0 then True else False)"

definition days_in_month :: "int list" where
  "days_in_month = [31, 28, 31, 30, 31, 30, 31, 31, 30, 31, 30, 31]"

text \<open>\<open>None\<close>: the month is outside the table.\<close>

definition nvr_get_days :: "int \<Rightarrow> int \<Rightarrow> int option" where
  "nvr_get_days month year =
    (if month = 2 then Some (if nvr_is_leap year then 29 else 28)
     else if 1 \<le> month \<and> month \<le> 12 then Some (days_in_month ! nat (month - 1))
     else None)"

definition rtc_tick :: "tm \<Rightarrow> tm option" where
  "rtc_tick c =
    (let c = c\<lparr>tm_sec := tm_sec c + 1\<rparr> in
     if tm_sec c = 60 then
       (let c = c\<lparr>tm_sec := 0, tm_min := tm_min c + 1\<rparr> in
        if tm_min c = 60 then
          (let c = c\<lparr>tm_min := 0, tm_hour := tm_hour c + 1\<rparr> in
           if tm_hour c = 24 then
             (let c = c\<lparr>tm_hour := 0, tm_mday := tm_mday c + 1\<rparr> in
              case nvr_get_days (tm_mon c) (tm_year c) of
                None \<Rightarrow> None
              | Some d \<Rightarrow>
                  Some (if tm_mday c = d + 1 then
                    (let c = c\<lparr>tm_mday := 1, tm_mon := tm_mon c + 1\<rparr> in
                     if tm_mon c = 13 then c\<lparr>tm_mon := 1, tm_year := tm_year c + 1\<rparr> else c)
                    else c))
           else Some c)
        else Some c)
     else Some c)"

text \<open>The weekday: 8-bit and 16-bit locals, summed in \<open>int\<close> and stored in 8 bits.\<close>

definition weekday_sum :: "tm \<Rightarrow> u8" where
  "weekday_sum c =
    (let dom = of_int (tm_mday c) :: u8; mon = of_int (tm_mon c) :: u8; yr = of_int (tm_year c smod 100) :: u16;
         cent = of_int (((tm_year c - uint yr) sdiv 100) smod 4) :: u16
     in of_int (uint dom + uint mon + uint yr + uint cent))"

definition nvr_time_get :: "tm \<Rightarrow> tm" where
  "nvr_time_get c =
    \<lparr>tm_sec = tm_sec c, tm_min = tm_min c, tm_hour = tm_hour c, tm_mday = tm_mday c, tm_mon = tm_mon c - 1,
     tm_year = tm_year c - 1900, tm_wday = (uint (weekday_sum c) + 6) smod 7\<rparr>"

definition nvr_time_set :: "tm \<Rightarrow> tm" where
  "nvr_time_set t =
    \<lparr>tm_sec = tm_sec t, tm_min = tm_min t, tm_hour = tm_hour t, tm_mday = tm_mday t, tm_mon = tm_mon t + 1,
     tm_year = tm_year t + 1900, tm_wday = tm_wday t\<rparr>"

text \<open>The clock of \<open>nvr_init\<close>; \<open>host\<close> is the host's time if the clock is synchronised with it.\<close>

definition nvr_init_clock :: "tm option \<Rightarrow> tm" where
  "nvr_init_clock host =
    (case host of
       Some t \<Rightarrow> nvr_time_set t
     | None \<Rightarrow> \<lparr>tm_sec = 0, tm_min = 0, tm_hour = 0, tm_mday = 0, tm_mon = 1, tm_year = 1980, tm_wday = 0\<rparr>)"

section \<open>The calendar\<close>

text \<open>A date and time of the Gregorian calendar, and the seconds from the start of year 1 to it.\<close>

definition valid_tm :: "tm \<Rightarrow> bool" where
  "valid_tm c \<longleftrightarrow> 0 \<le> tm_sec c \<and> tm_sec c < 60 \<and> 0 \<le> tm_min c \<and> tm_min c < 60 \<and> 0 \<le> tm_hour c \<and> tm_hour c < 24 \<and>
    1 \<le> tm_mon c \<and> tm_mon c \<le> 12 \<and> 1 \<le> tm_mday c \<and> 1 \<le> tm_year c \<and>
    (case nvr_get_days (tm_mon c) (tm_year c) of None \<Rightarrow> False | Some d \<Rightarrow> tm_mday c \<le> d)"

definition leap :: "int \<Rightarrow> bool" where
  "leap y \<longleftrightarrow> 4 dvd y \<and> (\<not> 100 dvd y \<or> 400 dvd y)"

definition month_days :: "bool \<Rightarrow> int list" where
  "month_days l = [31, if l then 29 else 28, 31, 30, 31, 30, 31, 31, 30, 31, 30, 31]"

definition days_before_year :: "int \<Rightarrow> int" where
  "days_before_year y = 365 * (y - 1) + (y - 1) div 4 - (y - 1) div 100 + (y - 1) div 400"

definition day_number :: "int \<Rightarrow> int \<Rightarrow> int \<Rightarrow> int" where
  "day_number y m d = days_before_year y + sum_list (take (nat (m - 1)) (month_days (leap y))) + (d - 1)"

definition seconds :: "tm \<Rightarrow> int" where
  "seconds c = 86400 * day_number (tm_year c) (tm_mon c) (tm_mday c) + 3600 * tm_hour c + 60 * tm_min c + tm_sec c"

lemma smod_pos: "0 \<le> a \<Longrightarrow> 0 < b \<Longrightarrow> a smod b = a mod b" "0 \<le> a \<Longrightarrow> 0 < b \<Longrightarrow> a sdiv b = a div b" for a b :: int
  by (simp_all add: signed_modulo_int_def signed_divide_int_def sgn_if)

lemma smod_zero: "a smod b = 0 \<longleftrightarrow> b dvd a" for a b :: int
  by (auto simp: signed_modulo_int_def sgn_if mod_eq_0_iff_dvd)

lemma leap_dvd: "400 dvd y \<Longrightarrow> 100 dvd y" "100 dvd y \<Longrightarrow> 4 dvd y" "400 dvd y \<Longrightarrow> 4 dvd y" for y :: int
  using dvd_trans [of 100 400 y] dvd_trans [of 4 100 y] dvd_trans [of 4 400 y] by simp_all

lemma nvr_is_leap_leap: "nvr_is_leap y = leap y"
proof -
  have *: "(if c then True else if h then False else if q then True else False) = (q \<and> (\<not> h \<or> c))"
    if "c \<longrightarrow> h" "h \<longrightarrow> q" for c h q using that by auto
  show ?thesis unfolding nvr_is_leap_def smod_zero leap_def by (rule *) (use leap_dvd [of y] in blast)+
qed

lemma month_cases:
  fixes m :: int
  assumes "1 \<le> m" and "m \<le> 12"
  obtains "m = 12" | "m = 1" | "m = 11" | "m = 2" | "m = 10" | "m = 3" | "m = 9" | "m = 4" | "m = 8" | "m = 5" | "m = 7" | "m = 6"
proof -
  have "m = 12 \<or> m = 1 \<or> m = 11 \<or> m = 2 \<or> m = 10 \<or> m = 3 \<or> m = 9 \<or> m = 4 \<or> m = 8 \<or> m = 5 \<or> m = 7 \<or> m = 6"
    using assms by presburger
  then show ?thesis using that by (elim disjE)
qed

lemma get_days_month: "1 \<le> m \<Longrightarrow> m \<le> 12 \<Longrightarrow> nvr_get_days m y = Some (month_days (leap y) ! nat (m - 1))"
  by (erule (1) month_cases) (simp_all add: nvr_get_days_def nvr_is_leap_leap days_in_month_def month_days_def)

text \<open>One more year adds a leap day exactly in the leap years.\<close>

lemma div_pred: "0 < d \<Longrightarrow> y div d = (y - 1) div d + of_bool (d dvd y)" for y d :: int
proof -
  assume d: "0 < d"
  define q r where "q = (y - 1) div d" and "r = (y - 1) mod d"
  have y: "y = d * q + (r + 1)" and r: "0 \<le> r" "r < d" using d by (simp_all add: q_def r_def)
  show ?thesis
  proof (cases "r + 1 = d")
    case True
    then have "y = d * (q + 1)" using y by (simp add: algebra_simps)
    then have "y div d = q + 1" "d dvd y" using d by simp_all
    then show ?thesis unfolding q_def by simp
  next
    case False
    then have "y div d = q" "\<not> d dvd y"
      using y r d by (simp_all add: div_pos_pos_trivial zdvd_not_zless dvd_add_right_iff)
    then show ?thesis unfolding q_def by simp
  qed
qed

lemma days_before_next: "days_before_year (y + 1) = days_before_year y + (if leap y then 366 else 365)"
proof -
  have *: "365 * y + (a + of_bool q) - (b + of_bool h) + (d + of_bool c) =
      365 * (y - 1) + a - b + d + (if q \<and> (\<not> h \<or> c) then 366 else 365)"
    if "c \<longrightarrow> h" "h \<longrightarrow> q" for a b c d h q using that by (cases c; cases h; cases q) simp_all
  have "y div 4 = (y - 1) div 4 + of_bool (4 dvd y)" "y div 100 = (y - 1) div 100 + of_bool (100 dvd y)"
    "y div 400 = (y - 1) div 400 + of_bool (400 dvd y)" by (rule div_pred, simp)+
  then show ?thesis
    unfolding days_before_year_def leap_def add_diff_cancel_right' 
    by (simp only:) (rule *; use leap_dvd [of y] in blast)
qed

lemma day_number_month: "1 \<le> m \<Longrightarrow> m \<le> 12 \<Longrightarrow>
    day_number y m d + month_days (leap y) ! nat (m - 1) = (if m = 12 then day_number (y + 1) 1 d else day_number y (m + 1) d)"
  by (erule (1) month_cases) (simp_all add: day_number_def month_days_def days_before_next)

lemma tick_day:
  assumes "1 \<le> m" "m \<le> 12" "1 \<le> y" "1 \<le> d" "d \<le> month_days (leap y) ! nat (m - 1)"
  shows "d = month_days (leap y) ! nat (m - 1) \<Longrightarrow>
      (if m = 12 then day_number (y + 1) 1 1 else day_number y (m + 1) 1) = day_number y m d + 1"
    and "day_number y m (d + 1) = day_number y m d + 1"
  using day_number_month [of m y 1] assms by (simp_all add: day_number_def)

lemma valid_tm_days:
  "valid_tm c \<longleftrightarrow> 0 \<le> tm_sec c \<and> tm_sec c < 60 \<and> 0 \<le> tm_min c \<and> tm_min c < 60 \<and> 0 \<le> tm_hour c \<and> tm_hour c < 24 \<and>
    1 \<le> tm_mon c \<and> tm_mon c \<le> 12 \<and> 1 \<le> tm_mday c \<and> 1 \<le> tm_year c \<and>
    tm_mday c \<le> month_days (leap (tm_year c)) ! nat (tm_mon c - 1)"
  using get_days_month [of "tm_mon c" "tm_year c"] by (auto simp: valid_tm_def split: option.splits)

lemma month_days_pos: "1 \<le> m \<Longrightarrow> m \<le> 12 \<Longrightarrow> 28 \<le> month_days l ! nat (m - 1)"
  by (erule (1) month_cases) (simp_all add: month_days_def)

text \<open>The day after a given one.\<close>

definition next_day :: "tm \<Rightarrow> tm" where
  "next_day c =
    (if tm_mday c = month_days (leap (tm_year c)) ! nat (tm_mon c - 1)
     then (if tm_mon c = 12 then c\<lparr>tm_mday := 1, tm_mon := 1, tm_year := tm_year c + 1\<rparr>
           else c\<lparr>tm_mday := 1, tm_mon := tm_mon c + 1\<rparr>)
     else c\<lparr>tm_mday := tm_mday c + 1\<rparr>)"

lemma next_day_number:
  assumes "valid_tm c"
  shows "day_number (tm_year (next_day c)) (tm_mon (next_day c)) (tm_mday (next_day c)) =
      day_number (tm_year c) (tm_mon c) (tm_mday c) + 1" and "valid_tm (next_day c)"
  using assms tick_day [of "tm_mon c" "tm_year c" "tm_mday c"] month_days_pos [of "tm_mon c + 1" "leap (tm_year c)"]
    month_days_pos [of 1 "leap (tm_year c + 1)"]
  by (auto simp: next_day_def valid_tm_days)

lemma rtc_tick_cases:
  assumes "valid_tm c"
  shows "rtc_tick c = Some (if tm_sec c < 59 then c\<lparr>tm_sec := tm_sec c + 1\<rparr>
    else if tm_min c < 59 then c\<lparr>tm_sec := 0, tm_min := tm_min c + 1\<rparr>
    else if tm_hour c < 23 then c\<lparr>tm_sec := 0, tm_min := 0, tm_hour := tm_hour c + 1\<rparr>
    else (next_day c)\<lparr>tm_sec := 0, tm_min := 0, tm_hour := 0\<rparr>)"
  using assms get_days_month [of "tm_mon c" "tm_year c"]
  by (auto simp: rtc_tick_def Let_def valid_tm_days next_day_def)

lemma rtc_tick_step:
  assumes "valid_tm c"
  shows "\<exists>c'. rtc_tick c = Some c' \<and> valid_tm c' \<and> seconds c' = seconds c + 1"
  unfolding rtc_tick_cases [OF assms] using assms next_day_number [OF assms]
  by (auto simp: valid_tm_days seconds_def)

section \<open>Seconds determine the time\<close>

lemma days_before_mono: "y < y' \<Longrightarrow> days_before_year (y + 1) \<le> days_before_year y'"
proof -
  assume "y < y'"
  moreover have "days_before_year (y + 1) \<le> days_before_year (y + 1 + int n)" for n
  proof (induction n)
    case (Suc n)
    moreover have "y + 1 + int (Suc n) = y + 1 + int n + 1" by simp
    ultimately show ?case using days_before_next [of "y + 1 + int n"] by (simp only:) simp
  qed simp
  from this [of "nat (y' - y - 1)"] show ?thesis using \<open>y < y'\<close> by simp
qed

definition month_start :: "bool \<Rightarrow> int \<Rightarrow> int" where
  "month_start l m = sum_list (take (nat (m - 1)) (month_days l))"

lemma month_start_mono:
  assumes "1 \<le> m" "m < m'" "m' \<le> 12"
  shows "month_start l m + month_days l ! nat (m - 1) \<le> month_start l m'"
proof -
  have *: "month_start l (k + 1) = month_start l k + month_days l ! nat (k - 1)" if "1 \<le> k" "k < 12" for k
    by (rule month_cases [of k]) (use that in \<open>simp_all add: month_start_def month_days_def\<close>)
  have "m + 1 + int n \<le> 12 \<Longrightarrow> month_start l (m + 1) \<le> month_start l (m + 1 + int n)" for n
  proof (induction n)
    case (Suc n)
    moreover have "m + 1 + int (Suc n) = m + 1 + int n + 1" by simp
    ultimately show ?case
      using * [of "m + 1 + int n"] month_days_pos [of "m + 1 + int n" l] assms(1) by (simp only:) simp
  qed simp
  from this [of "nat (m' - m - 1)"] show ?thesis using * [of m] assms by simp
qed

lemma month_start_less:
  assumes "1 \<le> m" "m \<le> 12" "d \<le> month_days l ! nat (m - 1)"
  shows "month_start l m + (d - 1) < (if l then 366 else 365)"
  by (rule month_cases [OF assms(1,2)]; cases l) (use assms(3) in \<open>simp_all add: month_start_def month_days_def\<close>)

lemma month_start_nonneg: "1 \<le> m \<Longrightarrow> m \<le> 12 \<Longrightarrow> 0 \<le> month_start l m"
  by (erule (1) month_cases) (simp_all add: month_start_def month_days_def)

lemma day_number_inj:
  assumes "valid_tm c" "valid_tm c'"
    and "day_number (tm_year c) (tm_mon c) (tm_mday c) = day_number (tm_year c') (tm_mon c') (tm_mday c')"
  shows "tm_year c = tm_year c' \<and> tm_mon c = tm_mon c' \<and> tm_mday c = tm_mday c'"
proof -
  have num: "day_number y m d = days_before_year y + (month_start (leap y) m + (d - 1))" for y m d
    by (simp add: day_number_def month_start_def)
  have range: "0 \<le> month_start (leap (tm_year x)) (tm_mon x) + (tm_mday x - 1)"
    "month_start (leap (tm_year x)) (tm_mon x) + (tm_mday x - 1) < days_before_year (tm_year x + 1) - days_before_year (tm_year x)"
    if "valid_tm x" for x
    using that month_start_less [of "tm_mon x" "tm_mday x" "leap (tm_year x)"] month_start_nonneg [of "tm_mon x" "leap (tm_year x)"]
    by (auto simp: valid_tm_days days_before_next)
  have y: "tm_year c = tm_year c'"
    using range [OF assms(1)] range [OF assms(2)] assms(3) days_before_mono [of "tm_year c" "tm_year c'"]
      days_before_mono [of "tm_year c'" "tm_year c"] unfolding num by linarith
  then have eq: "month_start (leap (tm_year c)) (tm_mon c) + tm_mday c = month_start (leap (tm_year c)) (tm_mon c') + tm_mday c'"
    using assms(3) unfolding num by simp
  have v: "1 \<le> tm_mon c" "tm_mon c \<le> 12" "1 \<le> tm_mday c" "tm_mday c \<le> month_days (leap (tm_year c)) ! nat (tm_mon c - 1)"
    "1 \<le> tm_mon c'" "tm_mon c' \<le> 12" "1 \<le> tm_mday c'" "tm_mday c' \<le> month_days (leap (tm_year c)) ! nat (tm_mon c' - 1)"
    using assms(1,2) y by (simp_all add: valid_tm_days)
  have "tm_mon c = tm_mon c'"
    using month_start_mono [of "tm_mon c" "tm_mon c'" "leap (tm_year c)"]
      month_start_mono [of "tm_mon c'" "tm_mon c" "leap (tm_year c)"] eq v by linarith
  then show ?thesis using y eq by simp
qed

lemma time_of_day:
  fixes D E :: int
  assumes "86400 * D + 3600 * h + 60 * m + s = 86400 * E + 3600 * h' + 60 * m' + s'"
    "0 \<le> h" "h < 24" "0 \<le> m" "m < 60" "0 \<le> s" "s < 60" "0 \<le> h'" "h' < 24" "0 \<le> m'" "m' < 60" "0 \<le> s'" "s' < 60"
  shows "D = E \<and> h = h' \<and> m = m' \<and> s = s'"
proof -
  have "D = E" using assms by linarith
  moreover from this have "h = h'" using assms by linarith
  moreover from calculation have "m = m'" using assms by linarith
  ultimately show ?thesis using assms by linarith
qed

definition same_time :: "tm \<Rightarrow> tm \<Rightarrow> bool" where
  "same_time c c' \<longleftrightarrow> tm_sec c = tm_sec c' \<and> tm_min c = tm_min c' \<and> tm_hour c = tm_hour c' \<and> tm_mday c = tm_mday c' \<and>
    tm_mon c = tm_mon c' \<and> tm_year c = tm_year c'"

lemma seconds_inj:
  assumes "valid_tm c" "valid_tm c'" "seconds c = seconds c'"
  shows "same_time c c'"
proof -
  have "day_number (tm_year c) (tm_mon c) (tm_mday c) = day_number (tm_year c') (tm_mon c') (tm_mday c') \<and>
      tm_hour c = tm_hour c' \<and> tm_min c = tm_min c' \<and> tm_sec c = tm_sec c'"
    using assms by (intro time_of_day) (simp_all add: seconds_def valid_tm_days)
  then show ?thesis using day_number_inj [OF assms(1,2)] by (simp add: same_time_def)
qed

text \<open>
  C7.  The clock follows the Gregorian calendar.  From a valid date and time, \<open>n\<close> ticks never fail and give a valid date and
  time that is \<open>n\<close> seconds later, counted over the leap years of the calendar, and it is the only one.
\<close>

theorem rtc_tick_calendar:
  assumes "valid_tm c"
  shows "\<exists>c'. ((\<lambda>x. Option.bind x rtc_tick) ^^ n) (Some c) = Some c' \<and> valid_tm c' \<and> seconds c' = seconds c + int n \<and>
    (\<forall>d. valid_tm d \<and> seconds d = seconds c + int n \<longrightarrow> same_time d c')"
proof -
  have "\<exists>c'. ((\<lambda>x. Option.bind x rtc_tick) ^^ n) (Some c) = Some c' \<and> valid_tm c' \<and> seconds c' = seconds c + int n"
  proof (induction n)
    case (Suc n)
    then show ?case using rtc_tick_step by fastforce
  qed (use assms in simp)
  then show ?thesis using seconds_inj by metis
qed

theorem rtc_tick_calendar_witness:
  "let c = \<lparr>tm_sec = 59, tm_min = 59, tm_hour = 23, tm_mday = 28, tm_mon = 2, tm_year = 2024, tm_wday = 3\<rparr> in
    valid_tm c \<and> (\<exists>c'. Option.bind (Some c) rtc_tick = Some c' \<and> tm_mday c' = 29 \<and> tm_mon c' = 2)"
proof -
  let ?c = "\<lparr>tm_sec = 59, tm_min = 59, tm_hour = 23, tm_mday = 28, tm_mon = 2, tm_year = 2024, tm_wday = 3\<rparr>"
  let ?d = "?c\<lparr>tm_sec := 0, tm_min := 0, tm_hour := 0, tm_mday := 29\<rparr>"
  have v: "valid_tm ?c" "valid_tm ?d" by (simp_all add: valid_tm_days month_days_def leap_def)
  have "seconds ?d = seconds ?c + int 1" by (simp add: seconds_def day_number_def)
  then obtain c' where "Option.bind (Some ?c) rtc_tick = Some c'" "same_time ?d c'"
    using rtc_tick_calendar [OF v(1), of 1] v(2) by (auto simp: numeral_2_eq_2 simp del: bind.bind_lunit)
  moreover from this have "tm_mday c' = 29" "tm_mon c' = 2" by (simp_all add: same_time_def)
  ultimately show ?thesis using v(1) unfolding Let_def by blast
qed

section \<open>The weekday\<close>

lemma weekday_value:
  assumes "valid_tm c"
  shows "tm_wday (nvr_time_get c) = (tm_mday c + tm_mon c + tm_year c mod 100 + tm_year c div 100 mod 4 + 6) mod 7"
proof -
  define yr where "yr = tm_year c mod 100"
  have b: "0 \<le> yr" "yr < 100" and y: "1 \<le> tm_year c" using assms by (simp_all add: yr_def valid_tm_days)
  have d: "1 \<le> tm_mday c" "tm_mday c \<le> 31" "1 \<le> tm_mon c" "tm_mon c \<le> 12"
  proof -
    have "month_days l ! nat (m - 1) \<le> 31" if "1 \<le> m" "m \<le> 12" for l m
      by (rule month_cases [OF that]) (simp_all add: month_days_def)
    then show "1 \<le> tm_mday c" "tm_mday c \<le> 31" "1 \<le> tm_mon c" "tm_mon c \<le> 12"
      using assms by (auto simp: valid_tm_days intro: order_trans)
  qed
  have u: "uint (of_int x :: u8) = x" if "0 \<le> x" "x < 256" for x
    using that unfolding uint_word_of_int_eq by (simp add: take_bit_int_eq_self_iff)
  have u16: "uint (of_int x :: u16) = x" if "0 \<le> x" "x < 65536" for x
    using that unfolding uint_word_of_int_eq by (simp add: take_bit_int_eq_self_iff)
  have "tm_year c smod 100 = yr" using y by (simp add: smod_pos yr_def)
  moreover have "(tm_year c - yr) sdiv 100 = tm_year c div 100"
  proof -
    have "tm_year c - yr = 100 * (tm_year c div 100)" by (simp add: yr_def minus_mod_eq_mult_div)
    moreover have "0 \<le> 100 * (tm_year c div 100)" using y by simp
    ultimately show ?thesis by (simp add: smod_pos)
  qed
  moreover have "(tm_year c div 100) smod 4 = tm_year c div 100 mod 4" using y by (simp add: smod_pos)
  moreover have "0 \<le> tm_year c div 100 mod 4" "tm_year c div 100 mod 4 < 4" by simp_all
  ultimately have "uint (weekday_sum c) = tm_mday c + tm_mon c + yr + tm_year c div 100 mod 4"
    using b d u [of "tm_mday c"] u [of "tm_mon c"] u16 [of yr] u16 [of "tm_year c div 100 mod 4"]
      u [of "tm_mday c + tm_mon c + yr + tm_year c div 100 mod 4"]
    unfolding weekday_sum_def Let_def by simp
  then show ?thesis
    using b d by (simp add: nvr_time_get_def smod_pos flip: yr_def)
qed

lemma mod7_step: "(a + 6) mod 7 = ((b + 6) mod 7 + 1) mod (7 :: int) \<longleftrightarrow> (a - b - 1) mod 7 = 0"
proof -
  have "((b + 6) mod 7 + 1) mod 7 = (b + 7) mod 7" by (simp only: mod_add_left_eq) (simp only: add.assoc, simp)
  moreover have "a + 6 - (b + 7) = a - b - 1" by simp
  ultimately show ?thesis using mod_eq_dvd_iff [of "a + 6" 7 "b + 7"] by (simp only: mod_eq_0_iff_dvd)
qed

lemma century_step:
  fixes y :: int
  shows "(y + 1) mod 100 + (y + 1) div 100 mod 4 - (y mod 100 + y div 100 mod 4) =
    (if y mod 400 = 399 then - 102 else if y mod 100 = 99 then - 98 else 1)"
proof -
  define q r where "q = y div 100" and "r = y mod 100"
  have y: "y = 100 * q + r" and r: "0 \<le> r" "r < 100" by (simp_all add: q_def r_def)
  have four: "y mod 400 = 100 * (q mod 4) + r"
  proof -
    have "y = 400 * (q div 4) + (100 * (q mod 4) + r)" using y mult_div_mod_eq [of 4 q] by linarith
    moreover have "0 \<le> 100 * (q mod 4) + r" "100 * (q mod 4) + r < 400" using r by simp_all
    ultimately show ?thesis by (metis mod_mult_self4 mod_pos_pos_trivial add.commute mod_mult_self2)
  qed
  have next4: "(q + 1) mod 4 = (if q mod 4 = 3 then 0 else q mod 4 + 1)" by presburger
  show ?thesis
  proof (cases "r = 99")
    case True
    then have "(y + 1) div 100 = q + 1" "(y + 1) mod 100 = 0" using y by simp_all
    then show ?thesis using True next4 four by (auto simp flip: q_def r_def)
  next
    case False
    have "y + 1 = r + 1 + 100 * q" using y by simp
    then have "(y + 1) div 100 = q" "(y + 1) mod 100 = r + 1" using False r by (simp_all only: mod_mult_self2 div_mult_self2) simp_all
    then show ?thesis using False four r by (auto simp flip: q_def r_def)
  qed
qed

text \<open>
  C29.  The weekday goes wrong at the end of most months.  When the clock passes midnight, the weekday that
  \<open>nvr_time_get\<close> computes moves to the next one exactly if the day is not the last of its month, or
  it is the 29th of February, or the end of a century that is not the fourth.
\<close>

theorem rtc_weekday_month_end:
  assumes "valid_tm c" and "tm_hour c = 23" and "tm_min c = 59" and "tm_sec c = 59" and "rtc_tick c = Some c'"
  shows "tm_wday (nvr_time_get c') = (tm_wday (nvr_time_get c) + 1) mod 7 \<longleftrightarrow>
    nvr_get_days (tm_mon c) (tm_year c) \<noteq> Some (tm_mday c) \<or> tm_mon c = 2 \<and> tm_mday c = 29 \<or>
    tm_mon c = 12 \<and> tm_year c mod 100 = 99 \<and> tm_year c mod 400 \<noteq> 399"
proof -
  let ?d = "next_day c"
  let ?sum = "\<lambda>x. tm_mday x + tm_mon x + (tm_year x mod 100 + tm_year x div 100 mod 4)"
  have c': "c' = ?d\<lparr>tm_sec := 0, tm_min := 0, tm_hour := 0\<rparr>" using rtc_tick_cases [OF assms(1)] assms by simp
  have v: "valid_tm c'" using rtc_tick_step [OF assms(1)] assms(5) by simp
  have m: "1 \<le> tm_mon c" "tm_mon c \<le> 12" using assms(1) by (simp_all add: valid_tm_days)
  have wd: "tm_wday (nvr_time_get c') = (tm_wday (nvr_time_get c) + 1) mod 7 \<longleftrightarrow> (?sum ?d - ?sum c - 1) mod 7 = 0"
    using mod7_step [of "?sum ?d" "?sum c"] unfolding weekday_value [OF v] weekday_value [OF assms(1)]
    by (simp add: c' add.assoc)
  have days: "nvr_get_days (tm_mon c) (tm_year c) = Some (month_days (leap (tm_year c)) ! nat (tm_mon c - 1))"
    using get_days_month [OF m] .
  show ?thesis
  proof (cases "tm_mday c = month_days (leap (tm_year c)) ! nat (tm_mon c - 1)")
    case False
    then show ?thesis unfolding wd using days by (simp add: next_day_def)
  next
    case last: True
    show ?thesis
    proof (cases "tm_mon c = 12")
      case True
      then have "?sum ?d - ?sum c - 1 = (tm_year c + 1) mod 100 + (tm_year c + 1) div 100 mod 4 -
          (tm_year c mod 100 + tm_year c div 100 mod 4) - 42"
        using last by (simp add: next_day_def month_days_def)
      then have *: "?sum ?d - ?sum c - 1 = (if tm_year c mod 400 = 399 then - 144 else if tm_year c mod 100 = 99 then - 140 else - 41)"
        unfolding century_step by (simp only: if_distrib [of "\<lambda>x. x - 42"]) simp
      have "nvr_get_days (tm_mon c) (tm_year c) = Some (tm_mday c)" using days last by simp
      then show ?thesis
        unfolding wd * using True by (cases "tm_year c mod 400 = 399"; cases "tm_year c mod 100 = 99") (simp_all only:, simp_all)
    next
      case False
      then have "?sum ?d - ?sum c - 1 = 1 - tm_mday c" using last by (simp add: next_day_def)
      then have *: "tm_wday (nvr_time_get c') = (tm_wday (nvr_time_get c) + 1) mod 7 \<longleftrightarrow> 7 dvd 1 - tm_mday c"
        unfolding wd by (simp only: mod_eq_0_iff_dvd)
      show ?thesis
        unfolding * by (rule month_cases [OF m]; cases "leap (tm_year c)") (use last days False in \<open>simp_all add: month_days_def\<close>)
    qed
  qed
qed

theorem rtc_weekday_month_end_witness:
  "let c = \<lparr>tm_sec = 59, tm_min = 59, tm_hour = 23, tm_mday = 31, tm_mon = 1, tm_year = 2024, tm_wday = 3\<rparr> in
    valid_tm c \<and> (\<exists>c'. rtc_tick c = Some c' \<and> tm_wday (nvr_time_get c') \<noteq> (tm_wday (nvr_time_get c) + 1) mod 7)"
proof -
  let ?c = "\<lparr>tm_sec = 59, tm_min = 59, tm_hour = 23, tm_mday = 31, tm_mon = 1, tm_year = 2024, tm_wday = 3\<rparr> :: tm"
  have v: "valid_tm ?c" by (simp add: valid_tm_days month_days_def)
  obtain c' where "rtc_tick ?c = Some c'" using rtc_tick_step [OF v] by blast
  moreover have "nvr_get_days 1 2024 = Some 31" by (simp add: nvr_get_days_def days_in_month_def)
  ultimately have "tm_wday (nvr_time_get c') \<noteq> (tm_wday (nvr_time_get ?c) + 1) mod 7"
    using rtc_weekday_month_end [OF v, of c'] by simp
  then show ?thesis using v \<open>rtc_tick ?c = Some c'\<close> unfolding Let_def by blast
qed

text \<open>Setting and reading the clock, and the clock of a machine that does not follow the host.\<close>

lemma nvr_time_roundtrip: "same_time (nvr_time_get (nvr_time_set t)) t"
  by (simp add: same_time_def nvr_time_get_def nvr_time_set_def)

lemma nvr_init_clock_invalid: "\<not> valid_tm (nvr_init_clock None)"
  by (simp add: valid_tm_def nvr_init_clock_def)

end
