(* ===== verification/Nvr_At.thy ===== *)
theory Nvr_At
  imports Nvr Pic "HOL-Library.Monad_Syntax"
begin

text \<open>
  The MC146818 clock and CMOS memory of \<open>nvr_at.c\<close>.  The state gathers \<open>nvr_t\<close>, \<open>local_t\<close>, the internal
  clock of \<open>nvr.c\<close>, the interrupt controllers and the globals the functions touch.  Calls of the timer
  component are recorded as requests, in order; the interrupt controllers are called as modelled in
  their own theory.  \<open>None\<close> stands for an access outside an array and for a shift by a negative interrupt
  number.  The accounting of bus cycles is left out.
\<close>

section \<open>State\<close>

datatype nvr_timer = Onesec | Update | Periodic

datatype timer_req = Delay nvr_timer u64 | Disable nvr_timer | Advance nvr_timer u64

record rtc_t =
  r_size :: u16
  r_irq :: int
  r_is_new :: bool
  r_onesec_cnt :: u8
  r_regs :: "u8 list"
  r_stat :: u8
  r_cent :: u8
  r_def :: u8
  r_read_addr :: bool
  r_wp_0d :: bool
  r_wp_32 :: bool
  r_irq_state :: bool
  r_smi_status :: bool
  r_wp :: "bool list"
  r_bank :: "u8 list"
  r_lock :: "u8 list"
  r_count :: int
  r_state :: bool
  r_flags :: u16
  r_addr :: "u16 list"
  r_smi_enable :: bool
  r_ecount :: u64
  r_intclk :: tm
  r_dosave :: bool
  r_nmi_mask :: bool
  r_pics :: pics
  r_reqs :: "timer_req list"
  r_rtcconst :: u64
  r_timer_usec :: u64
  r_time_sync :: bool
  r_bx6 :: bool
  r_alt_access :: bool

definition FLAG_NO_NMI :: u16 where "FLAG_NO_NMI = 0x0002"
definition FLAG_MULTI_BANK :: u16 where "FLAG_MULTI_BANK = 0x0008"
definition FLAG_PIIX4 :: u16 where "FLAG_PIIX4 = 0x0010"
definition FLAG_MARTIN_HACK :: u16 where "FLAG_MARTIN_HACK = 0x0040"
definition FLAG_AMI_1992_HACK :: u16 where "FLAG_AMI_1992_HACK = 0x0080"
definition FLAG_AMI_1994_HACK :: u16 where "FLAG_AMI_1994_HACK = 0x0100"
definition FLAG_P6RP4_HACK :: u16 where "FLAG_P6RP4_HACK = 0x0200"
definition FLAG_AMI_1995_HACK :: u16 where "FLAG_AMI_1995_HACK = 0x0400"
definition FLAG_AMI_1999_HACK :: u16 where "FLAG_AMI_1999_HACK = 0x0800"
definition FLAG_AMI_1999J_HACK :: u16 where "FLAG_AMI_1999J_HACK = 0x1000"

definition creg :: "nat \<Rightarrow> rtc_t \<Rightarrow> u8" where
  "creg n r = r_regs r ! n"

definition set_creg :: "nat \<Rightarrow> u8 \<Rightarrow> rtc_t \<Rightarrow> rtc_t" where
  "set_creg n v r = r\<lparr>r_regs := (r_regs r)[n := v]\<rparr>"

definition request :: "timer_req \<Rightarrow> rtc_t \<Rightarrow> rtc_t" where
  "request q r = r\<lparr>r_reqs := r_reqs r @ [q]\<rparr>"

section \<open>Time\<close>

definition RTC_BCD :: "int \<Rightarrow> int" where
  "RTC_BCD x = (x smod 10) OR push_bit 4 (x sdiv 10)"

definition RTC_DCB :: "u8 \<Rightarrow> int" where
  "RTC_DCB x = uint (drop_bit 4 (x AND 0xf0)) * 10 + uint (x AND 0x0f)"

text \<open>How a register is read and written in the data mode of register B.\<close>

definition rtc_dec :: "rtc_t \<Rightarrow> u8 \<Rightarrow> int" where
  "rtc_dec r v = (if tst (creg 11 r) 0x04 then uint v else RTC_DCB v)"

definition rtc_enc :: "rtc_t \<Rightarrow> int \<Rightarrow> u8" where
  "rtc_enc r x = (if tst (creg 11 r) 0x04 then of_int x else of_int (RTC_BCD x))"

text \<open>The hour goes through a signed 8-bit variable.\<close>

definition get_hour :: "rtc_t \<Rightarrow> int" where
  "get_hour r =
    (let temp = sint (of_int (rtc_dec r (creg 4 r)) :: u8)
     in if tst (creg 11 r) 0x02 then temp
        else ((temp AND NOT 0x80) smod 12) + (if temp AND 0x80 \<noteq> 0 then 12 else 0))"

definition time_get :: "rtc_t \<Rightarrow> tm" where
  "time_get r =
    \<lparr>tm_sec = rtc_dec r (creg 0 r), tm_min = rtc_dec r (creg 2 r), tm_hour = get_hour r, tm_mday = rtc_dec r (creg 7 r),
     tm_mon = rtc_dec r (creg 8 r) - 1,
     tm_year = rtc_dec r (creg 9 r) + (if r_cent r \<noteq> 0xff then rtc_dec r (creg (unat (r_cent r)) r) * 100 - 1900 else 0),
     tm_wday = rtc_dec r (creg 6 r) - 1\<rparr>"

definition enc_hour :: "rtc_t \<Rightarrow> int \<Rightarrow> u8" where
  "enc_hour r h =
    (if tst (creg 11 r) 0x02 then rtc_enc r h
     else (if h smod 12 \<noteq> 0 then rtc_enc r (h smod 12) else rtc_enc r 12) OR (if h > 11 then 0x80 else 0))"

definition time_set :: "tm \<Rightarrow> rtc_t \<Rightarrow> rtc_t" where
  "time_set t r =
    (let year = tm_year t + 1900; e = rtc_enc r; h = enc_hour r (tm_hour t);
         r = set_creg 0 (e (tm_sec t)) r;
         r = set_creg 2 (e (tm_min t)) r;
         r = set_creg 6 (e (tm_wday t + 1)) r;
         r = set_creg 7 (e (tm_mday t)) r;
         r = set_creg 8 (e (tm_mon t + 1)) r;
         r = set_creg 9 (e (year smod 100)) r;
         r = (if r_cent r \<noteq> 0xff then set_creg (unat (r_cent r)) (e (year sdiv 100)) r else r)
     in set_creg 4 h r)"

section \<open>Interrupts and timers\<close>

definition check_alarm :: "nat \<Rightarrow> rtc_t \<Rightarrow> bool" where
  "check_alarm a r \<longleftrightarrow> creg (a + 1) r = creg a r \<or> creg (a + 1) r AND 0xc0 = 0xc0"

definition check_alarm_via :: "nat \<Rightarrow> nat \<Rightarrow> rtc_t \<Rightarrow> bool" where
  "check_alarm_via a a2 r \<longleftrightarrow> (if r_cent r = 0x7f then creg a2 r = creg a r \<or> creg a2 r AND 0xc0 = 0xc0 else True)"

definition irq_num :: "int \<Rightarrow> u16 option" where
  "irq_num i = (if 0 \<le> i then Some (sh (nat i)) else None)"

definition timer_update_irq :: "rtc_t \<Rightarrow> rtc_t option" where
  "timer_update_irq r =
    (let irq = creg 11 r AND creg 12 r AND 0x70 in
     if irq \<noteq> 0 \<or> r_irq_state r \<noteq> (irq \<noteq> 0) then
       (if irq \<noteq> 0 then
          do { let r = set_creg 12 (creg 12 r OR 0x80) r;
               num \<leftarrow> irq_num (r_irq r);
               let (st, s) = picintlevel num (r_irq_state r) (r_pics r);
               let r = r\<lparr>r_irq_state := st, r_pics := s\<rparr>;
               Some (if r_smi_enable r then r\<lparr>r_pics := effect SmiRaise (r_pics r), r_smi_status := True\<rparr> else r) }
        else
          do { let r = set_creg 12 (creg 12 r AND NOT 0x80) r;
               num \<leftarrow> irq_num (r_irq r);
               let (st, s) = picintclevel num (r_irq_state r) (r_pics r);
               Some (r\<lparr>r_irq_state := st, r_pics := s\<rparr>) })
     else Some r)"

definition alarm_matches :: "rtc_t \<Rightarrow> bool" where
  "alarm_matches r \<longleftrightarrow> check_alarm 0 r \<and> check_alarm 2 r \<and> check_alarm 4 r \<and>
    check_alarm_via 7 0x7d r \<and> check_alarm_via 8 0x7e r"

definition timer_update :: "rtc_t \<Rightarrow> rtc_t option" where
  "timer_update r =
    (if r_ecount r = 244 * r_timer_usec r then
       do { c \<leftarrow> rtc_tick (r_intclk r);
            let r = r\<lparr>r_intclk := c\<rparr>;
            let old_cent = (if r_cent r = 0xff then 0 else creg (unat (r_cent r)) r);
            let r = time_set (nvr_time_get c) r;
            let r = (if r_cent r \<noteq> 0xff then set_creg (unat (r_cent r)) old_cent r else r);
            r \<leftarrow> (if alarm_matches r then timer_update_irq (set_creg 12 (creg 12 r OR 0x20) r) else Some r);
            let r = r\<lparr>r_ecount := 1984 * r_timer_usec r\<rparr>;
            Some (request (Delay Update (r_ecount r)) r) }
     else
       do { r \<leftarrow> timer_update_irq (set_creg 12 (creg 12 r OR 0x10) r);
            Some (r\<lparr>r_stat := 0, r_ecount := 0\<rparr>) })"

definition timer_load_count :: "rtc_t \<Rightarrow> rtc_t" where
  "timer_load_count r =
    (let c = unat (creg 10 r AND 0x0f); r = request (Disable Periodic) r in
     if creg 10 r AND 0x70 \<noteq> 0x20 then r\<lparr>r_state := False\<rparr>
     else if c = 0 then r\<lparr>r_state := False\<rparr>
     else
       (let n = (if c \<le> 2 then 2 ^ (c + 6) else 2 ^ (c - 1)); r = r\<lparr>r_state := True, r_count := n\<rparr>
        in request (Delay Periodic (of_int n * r_rtcconst r)) r))"

definition timer_intr :: "rtc_t \<Rightarrow> rtc_t option" where
  "timer_intr r =
    (if r_state r then
       (let r = timer_load_count r in timer_update_irq (set_creg 12 (creg 12 r OR 0x40) r))
     else Some r)"

definition nvr_timer_tick :: "rtc_t \<Rightarrow> rtc_t" where
  "nvr_timer_tick r =
    (if creg 10 r AND 0x70 = 0x20 \<and> \<not> tst (creg 11 r) 0x80 then
       (let r = r\<lparr>r_stat := 0x80, r_ecount := 244 * r_timer_usec r\<rparr> in request (Delay Update (r_ecount r)) r)
     else r)"

text \<open>The timer of \<open>nvr.c\<close> that runs every 10 ms; \<open>is_at\<close> is the class of the machine.\<close>

definition onesec_timer :: "bool \<Rightarrow> rtc_t \<Rightarrow> rtc_t option" where
  "onesec_timer is_at r =
    do { let r = r\<lparr>r_onesec_cnt := r_onesec_cnt r + 1\<rparr>;
         r \<leftarrow> (if 100 \<le> r_onesec_cnt r then
                do { c \<leftarrow> (if is_at then Some (r_intclk r) else rtc_tick (r_intclk r));
                     let r = nvr_timer_tick (r\<lparr>r_intclk := c\<rparr>);
                     Some (r\<lparr>r_onesec_cnt := 0\<rparr>) }
              else Some r);
         Some (request (Advance Onesec (10000 * r_timer_usec r)) r) }"

section \<open>Register access\<close>

definition nvr_reg_common_write :: "u16 \<Rightarrow> u8 \<Rightarrow> rtc_t \<Rightarrow> rtc_t option" where
  "nvr_reg_common_write g val r =
    (if \<not> (unat g < length (r_lock r) \<and> unat g < length (r_regs r)) then None
     else if r_lock r ! unat g \<noteq> 0 then Some r
     else
       (let r = (if g = 0x2c \<and> tst (r_flags r) FLAG_AMI_1994_HACK \<or> g = 0x2d \<and> tst (r_flags r) FLAG_AMI_1992_HACK \<or>
               g = 0x52 \<and> tst (r_flags r) FLAG_AMI_1995_HACK \<or> g = 0x54 \<and> tst (r_flags r) FLAG_AMI_1999_HACK \<or>
               g = 0x55 \<and> tst (r_flags r) FLAG_AMI_1999J_HACK
             then r\<lparr>r_is_new := False\<rparr> else r)
        in if 0x38 \<le> g \<and> g \<le> 0x3f \<and> r_wp r ! 0 then Some r
           else if 0xb8 \<le> g \<and> g \<le> 0xbf \<and> r_wp r ! 1 then Some r
           else if creg (unat g) r \<noteq> val then
             (let r = set_creg (unat g) val r
              in Some (if 0x0d \<le> g \<and> (r_cent r = 0xff \<or> g \<noteq> ucast (r_cent r)) then r\<lparr>r_dosave := True\<rparr> else r))
           else Some r))"

definition nvr_reg_write :: "u16 \<Rightarrow> u8 \<Rightarrow> rtc_t \<Rightarrow> rtc_t option" where
  "nvr_reg_write g val r =
    (if \<not> unat g < length (r_regs r) then None
     else
       do { let old = creg (unat g) r;
            r \<leftarrow> (if g = 0 then nvr_reg_common_write g (val AND 0x7f) r
                  else if g = 10 then
                    Some (if (val AND creg 10 r) AND NOT 0x80 \<noteq> 0
                          then timer_load_count (set_creg 10 ((creg 10 r AND 0x80) OR (val AND NOT 0x80)) r) else r)
                  else if g = 11 then
                    (let (val, r) = (if tst (old XOR val) 0x80 \<and> tst val 0x80
                           then (val AND NOT 0x10, r\<lparr>r_stat := r_stat r AND NOT 0x80\<rparr>) else (val, r))
                     in timer_update_irq (set_creg 11 val r))
                  else if g = 12 then Some r
                  else if g = 13 then Some (set_creg 13 (val AND 0x80) r)
                  else if g = 0x32 then
                    (if r_cent r = 0x7f \<and> r_wp_32 r then Some r else nvr_reg_common_write g val r)
                  else if g = 0x39 then nvr_reg_common_write g (if r_bx6 r then val OR 0x08 else val) r
                  else nvr_reg_common_write g val r);
            Some (if (g < 10 \<or> r_cent r \<noteq> 0xff \<and> g = ucast (r_cent r)) \<and> g \<noteq> 1 \<and> g \<noteq> 3 \<and> g \<noteq> 5 \<and> old \<noteq> val
                  then r\<lparr>r_intclk := nvr_time_set (time_get r)\<rparr> else r) })"

definition addr_id :: "u16 \<Rightarrow> nat" where
  "addr_id a = unat (drop_bit 1 (a AND 0x0e))"

text \<open>The register number selected by a write to an index port.\<close>

definition nvr_index :: "nat \<Rightarrow> u8 \<Rightarrow> rtc_t \<Rightarrow> u16" where
  "nvr_index i val r =
    (let a = ucast val AND (r_size r - 1);
         a = (if i = 0 then (let a = a AND 0x7f in
                if tst (r_flags r) FLAG_MULTI_BANK then a OR 0x80 * ucast (r_bank r ! i) else a)
              else if i = 1 \<and> tst (r_flags r) FLAG_PIIX4 then (a AND 0x7f) OR 0x80 else a)
     in if r_bank r ! i > 0 then (a AND 0x7f) OR 0x80 * ucast (r_bank r ! i) else a)"

definition nvr_write :: "u16 \<Rightarrow> u8 \<Rightarrow> rtc_t \<Rightarrow> rtc_t option" where
  "nvr_write a val r =
    (if r_bank r ! addr_id a = 0xff then Some r
     else if tst a 1 then nvr_reg_write (r_addr r ! addr_id a) val r
     else
       (let r = r\<lparr>r_addr := (r_addr r)[addr_id a := nvr_index (addr_id a) val r]\<rparr>
        in Some (if \<not> tst (r_flags r) FLAG_NO_NMI then r\<lparr>r_nmi_mask := \<not> tst val 0x80\<rparr> else r)))"

definition nvr_get_index :: "nat \<Rightarrow> rtc_t \<Rightarrow> u8" where
  "nvr_get_index i r = ucast (r_addr r ! i)"

text \<open>A checksum over a range of registers, with \<open>fix\<close> applied to register \<open>k\<close>, and the half of it a register shows.\<close>

definition checksum :: "nat \<Rightarrow> nat \<Rightarrow> nat \<Rightarrow> (u8 \<Rightarrow> u8) \<Rightarrow> rtc_t \<Rightarrow> u16" where
  "checksum lo hi k fix r = sum_list (map (\<lambda>i. ucast (if i = k then fix (creg i r) else creg i r)) [lo..<hi + 1])"

definition sum_half :: "bool \<Rightarrow> u16 \<Rightarrow> u8" where
  "sum_half high c = (if high then ucast (drop_bit 8 c) else ucast (c AND 0xff))"

definition nvr_hack_read :: "u16 \<Rightarrow> rtc_t \<Rightarrow> u8" where
  "nvr_hack_read g r =
    (let v = creg (unat g) r; hack = (\<lambda>f. \<not> r_is_new r \<and> tst (r_flags r) f) in
     if g = 0x11 then (if tst (r_flags r) FLAG_MARTIN_HACK then v OR 0x02 else v)
     else if g = 0x2c then (if hack FLAG_AMI_1994_HACK then v AND 0x7f else v)
     else if g = 0x2d then (if hack FLAG_AMI_1992_HACK then v AND 0xf7 else v)
     else if g = 0x2e \<or> g = 0x2f then
       (if hack FLAG_AMI_1992_HACK then sum_half (g = 0x2e) (checksum 0x10 0x2d 0x2d (\<lambda>v. v AND 0xf7) r)
        else if hack FLAG_AMI_1994_HACK then sum_half (g = 0x2e) (checksum 0x10 0x2d 0x2c (\<lambda>v. v AND 0x7f) r)
        else if hack FLAG_MARTIN_HACK then sum_half (g = 0x2e) (checksum 0x10 0x2d 0x11 (\<lambda>v. v OR 0x02) r)
        else v)
     else if g = 0x3e \<or> g = 0x3f then
       (let base = checksum 0x37 0x3d 0 id r in
        if hack FLAG_AMI_1995_HACK then sum_half (g = 0x3e) (base + checksum 0x40 0x7f 0x52 (\<lambda>v. v AND 0xf3) r)
        else if hack FLAG_AMI_1999_HACK then sum_half (g = 0x3e) (base + checksum 0x40 0x73 0x54 (\<lambda>v. v AND 0x3f) r)
        else if hack FLAG_AMI_1999J_HACK then sum_half (g = 0x3e) (base + checksum 0x40 0x73 0x55 (\<lambda>v. v AND 0xfc) r)
        else if hack FLAG_P6RP4_HACK then sum_half (g = 0x3e) (base + checksum 0x40 0x51 0x43 (\<lambda>v. v OR 0x02) r)
        else v)
     else if g = 0x43 then (if hack FLAG_P6RP4_HACK then v OR 0x02 else v)
     else if g = 0x52 then (if hack FLAG_AMI_1995_HACK then v AND 0xf3 else v)
     else if g = 0x54 then (if hack FLAG_AMI_1999_HACK then v AND 0x3f else v)
     else if g = 0x55 then (if hack FLAG_AMI_1999J_HACK then v AND 0xfc else v)
     else v)"

definition hack_regs :: "u16 list" where
  "hack_regs = [0x11, 0x2c, 0x2d, 0x2e, 0x2f, 0x3e, 0x3f, 0x43, 0x52, 0x54, 0x55]"

definition nvr_read :: "u16 \<Rightarrow> rtc_t \<Rightarrow> (u8 \<times> rtc_t) option" where
  "nvr_read a r =
    (let i = addr_id a; g = r_addr r ! i in
     if r_bank r ! i = 0xff then Some (0xff, r)
     else if tst a 1 then
       (if \<not> (unat g < length (r_lock r) \<and> unat g < length (r_regs r)) then None
        else if g = 10 then Some ((creg 10 r AND 0x7f) OR r_stat r, r)
        else if g = 12 then
          (let ret = creg 12 r AND 0xf0 in map_option (Pair ret) (timer_update_irq (set_creg 12 (creg 12 r AND NOT 0xf0) r)))
        else if g = 13 then Some (0x80, r)
        else if g \<in> set hack_regs then Some (nvr_hack_read g r, r)
        else if \<not> tst (r_lock r ! unat g) 0x02 then
          Some (if g = 0x39 \<and> r_bx6 r then creg (unat g) r OR 0x08 else creg (unat g) r, r)
        else Some (0xff, r))
     else
       (let ret = ucast g :: u8; ret = (if \<not> r_read_addr r then ret AND 0x80 else ret)
        in Some (if r_alt_access r then (ret AND 0x7f) OR (if r_nmi_mask r then 0 else 0x80) else ret, r)))"

definition nvr_sec_write :: "u16 \<Rightarrow> u8 \<Rightarrow> rtc_t \<Rightarrow> rtc_t option" where
  "nvr_sec_write a val r = nvr_write (0x72 + (a AND 1)) val r"

definition nvr_sec_read :: "u16 \<Rightarrow> rtc_t \<Rightarrow> (u8 \<times> rtc_t) option" where
  "nvr_sec_read a r = nvr_read (0x72 + (a AND 1)) r"

section \<open>Life cycle\<close>

definition nvr_reset :: "rtc_t \<Rightarrow> rtc_t" where
  "nvr_reset r =
    (let r = r\<lparr>r_regs := replicate (unat (r_size r)) (r_def r) @ drop (unat (r_size r)) (r_regs r)\<rparr>;
         r = set_creg 7 1 r; r = set_creg 8 1 r; r = set_creg 9 (of_int (RTC_BCD 80)) r;
         r = (if r_cent r \<noteq> 0xff then set_creg (unat (r_cent r)) (of_int (RTC_BCD 19)) r else r)
     in set_creg 13 0x80 r)"

definition nvr_start :: "rtc_t \<Rightarrow> rtc_t" where
  "nvr_start r =
    (let r = (if \<forall>v \<in> set (take (unat (r_size r)) (r_regs r)). v = r_def r then set_creg 0x0e 0xff r else r);
         r = (if r_time_sync r then time_set (nvr_time_get (r_intclk r)) r
              else r\<lparr>r_intclk := nvr_time_set (time_get r)\<rparr>);
         r = set_creg 10 0x06 r
     in set_creg 11 0x02 r)"

text \<open>Loading from a file of the given contents, if there is one, and the bytes that a save writes.\<close>

definition nvr_load :: "u8 list option \<Rightarrow> rtc_t \<Rightarrow> rtc_t" where
  "nvr_load file r =
    (let r = nvr_reset (r\<lparr>r_regs := replicate 512 0\<rparr>); n = unat (r_size r);
         r = (if n \<noteq> 0 then
                (case file of
                   None \<Rightarrow> r\<lparr>r_is_new := True\<rparr>
                 | Some bs \<Rightarrow>
                     if n \<le> length bs then r\<lparr>r_is_new := False, r_regs := take n bs @ drop n (r_regs r)\<rparr>
                     else r\<lparr>r_is_new := True\<rparr>)
              else r\<lparr>r_is_new := True\<rparr>)
     in nvr_start r)"

definition nvr_save :: "rtc_t \<Rightarrow> u8 list option \<times> rtc_t" where
  "nvr_save r = (if r_size r \<noteq> 0 then Some (take (unat (r_size r)) (r_regs r)) else None, r\<lparr>r_dosave := False\<rparr>)"

definition nvr_at_speed_changed :: "rtc_t \<Rightarrow> rtc_t" where
  "nvr_at_speed_changed r =
    (let r = request (Disable Update) (timer_load_count r);
         r = (if r_ecount r > 0 then request (Delay Update (r_ecount r)) r else r)
     in request (Delay Onesec (10000 * r_timer_usec r)) (request (Disable Onesec) r))"

definition nvr_at_reset :: "rtc_t \<Rightarrow> rtc_t" where
  "nvr_at_reset r = set_creg 12 (creg 12 r AND NOT 0xf0) (set_creg 11 (creg 11 r AND NOT 0x78) r)"

text \<open>The oscillator and the periodic timer at power on, from \<open>nvr_at_init\<close>.\<close>

definition nvr_at_power_on :: "rtc_t \<Rightarrow> rtc_t" where
  "nvr_at_power_on r =
    (let r = (if creg 10 r AND 0x70 = 0 then set_creg 10 ((creg 10 r AND 0x8f) OR 0x20) r else r)
     in timer_load_count (nvr_at_reset r))"

definition nvr_read_addr_set :: "bool \<Rightarrow> rtc_t \<Rightarrow> rtc_t" where
  "nvr_read_addr_set b r = r\<lparr>r_read_addr := b\<rparr>"

definition nvr_wp_set :: "bool \<Rightarrow> nat \<Rightarrow> rtc_t \<Rightarrow> rtc_t" where
  "nvr_wp_set b h r = r\<lparr>r_wp := (r_wp r)[h := b]\<rparr>"

definition nvr_via_wp_set :: "bool \<Rightarrow> nat \<Rightarrow> rtc_t \<Rightarrow> rtc_t" where
  "nvr_via_wp_set b g r = (if g = 0x0d then r\<lparr>r_wp_0d := b\<rparr> else r\<lparr>r_wp_32 := b\<rparr>)"

definition nvr_bank_set :: "nat \<Rightarrow> u8 \<Rightarrow> rtc_t \<Rightarrow> rtc_t" where
  "nvr_bank_set base bank r = r\<lparr>r_bank := (r_bank r)[base := bank]\<rparr>"

definition nvr_lock_set :: "nat \<Rightarrow> nat \<Rightarrow> u8 \<Rightarrow> rtc_t \<Rightarrow> rtc_t option" where
  "nvr_lock_set base len lock r =
    (if base + len \<le> length (r_lock r)
     then Some (r\<lparr>r_lock := take base (r_lock r) @ replicate len lock @ drop (base + len) (r_lock r)\<rparr>) else None)"

definition nvr_irq_set :: "int \<Rightarrow> rtc_t \<Rightarrow> rtc_t" where
  "nvr_irq_set irq r = r\<lparr>r_irq := irq\<rparr>"

definition nvr_smi_enable :: "bool \<Rightarrow> rtc_t \<Rightarrow> rtc_t" where
  "nvr_smi_enable b r = (let r = r\<lparr>r_smi_enable := b\<rparr> in if \<not> b then r\<lparr>r_smi_status := False\<rparr> else r)"

definition nvr_smi_status_clear :: "rtc_t \<Rightarrow> rtc_t" where
  "nvr_smi_status_clear r = r\<lparr>r_smi_status := False\<rparr>"

end
