(* ===== verification/Nvr_At_Correct.thy ===== *)
theory Nvr_At_Correct
  imports Nvr_At Pic_Correct
begin

text \<open>
  The clock chip against the calendar: what the registers say after the time is stored, the update cycle
  of a second, the interrupt line, and the CMOS memory behind the index and data ports.
\<close>

section \<open>Well-formed states\<close>

definition rtc_wf :: "rtc_t \<Rightarrow> bool" where
  "rtc_wf r \<longleftrightarrow> length (r_regs r) = 512 \<and> length (r_lock r) = unat (r_size r) \<and> 128 \<le> unat (r_size r) \<and>
    unat (r_size r) \<le> 512 \<and> length (r_bank r) = 8 \<and> length (r_addr r) = 8 \<and> length (r_wp r) = 2 \<and>
    13 < unat (r_cent r)"

lemma creg_set [simp]: "n < length (r_regs r) \<Longrightarrow> creg m (set_creg n v r) = (if m = n then v else creg m r)"
  by (simp add: creg_def set_creg_def nth_list_update)

lemma set_creg_frame [simp]:
  "r_cent (set_creg n v r) = r_cent r" "length (r_regs (set_creg n v r)) = length (r_regs r)"
  "r_irq (set_creg n v r) = r_irq r" "r_irq_state (set_creg n v r) = r_irq_state r" "r_pics (set_creg n v r) = r_pics r"
  "r_intclk (set_creg n v r) = r_intclk r" "r_reqs (set_creg n v r) = r_reqs r" "r_stat (set_creg n v r) = r_stat r"
  "r_ecount (set_creg n v r) = r_ecount r" "r_timer_usec (set_creg n v r) = r_timer_usec r"
  "r_smi_enable (set_creg n v r) = r_smi_enable r" "r_state (set_creg n v r) = r_state r"
  "r_lock (set_creg n v r) = r_lock r" "r_size (set_creg n v r) = r_size r" "r_bank (set_creg n v r) = r_bank r"
  "r_addr (set_creg n v r) = r_addr r" "r_wp (set_creg n v r) = r_wp r" "r_flags (set_creg n v r) = r_flags r"
  "r_nmi_mask (set_creg n v r) = r_nmi_mask r" "r_bx6 (set_creg n v r) = r_bx6 r"
  by (simp_all add: set_creg_def)

lemma wf_set_creg [simp]: "rtc_wf (set_creg n v r) = rtc_wf r"
  by (simp add: rtc_wf_def)

text \<open>The registers after the time is stored.\<close>

definition stored :: "tm \<Rightarrow> rtc_t \<Rightarrow> nat \<Rightarrow> u8" where
  "stored t r n =
    (if n = 0 then rtc_enc r (tm_sec t) else if n = 2 then rtc_enc r (tm_min t) else if n = 4 then enc_hour r (tm_hour t)
     else if n = 6 then rtc_enc r (tm_wday t + 1) else if n = 7 then rtc_enc r (tm_mday t)
     else if n = 8 then rtc_enc r (tm_mon t + 1) else if n = 9 then rtc_enc r ((tm_year t + 1900) smod 100)
     else if r_cent r \<noteq> 0xff \<and> n = unat (r_cent r) then rtc_enc r ((tm_year t + 1900) sdiv 100)
     else creg n r)"

lemma creg_time_set: "rtc_wf r \<Longrightarrow> creg n (time_set t r) = stored t r n"
  using unsigned_less [of "r_cent r", where ?'a = nat]
  by (simp add: time_set_def stored_def rtc_wf_def Let_def)

lemma time_set_frame [simp]:
  "r_cent (time_set t r) = r_cent r" "r_irq (time_set t r) = r_irq r" "r_irq_state (time_set t r) = r_irq_state r"
  "r_pics (time_set t r) = r_pics r" "r_intclk (time_set t r) = r_intclk r" "r_reqs (time_set t r) = r_reqs r"
  "r_stat (time_set t r) = r_stat r" "r_ecount (time_set t r) = r_ecount r" "r_timer_usec (time_set t r) = r_timer_usec r"
  "r_smi_enable (time_set t r) = r_smi_enable r" "r_state (time_set t r) = r_state r" "r_lock (time_set t r) = r_lock r"
  "r_size (time_set t r) = r_size r" "r_bank (time_set t r) = r_bank r" "r_addr (time_set t r) = r_addr r"
  "r_wp (time_set t r) = r_wp r" "r_flags (time_set t r) = r_flags r" "rtc_wf (time_set t r) = rtc_wf r"
  "length (r_regs (time_set t r)) = length (r_regs r)"
  by (simp_all add: time_set_def Let_def)

section \<open>Storing and reading the time\<close>

lemma bcd_roundtrip:
  assumes "0 \<le> x" "x < 100"
  shows "RTC_DCB (of_int (RTC_BCD x)) = x"
proof -
  have "list_all (\<lambda>x. RTC_DCB (of_int (RTC_BCD x)) = x) [0..99]" by code_simp
  then have "\<forall>x\<in>set [0..99]. RTC_DCB (of_int (RTC_BCD x)) = x" by (simp only: list_all_iff)
  moreover have "x \<in> set [0..99]" unfolding set_upto using assms by simp
  ultimately show ?thesis by (rule bspec)
qed

lemma dec_enc:
  assumes "0 \<le> x" "x < 100"
  shows "(if b then uint (if b then of_int x else of_int (RTC_BCD x) :: u8) else RTC_DCB (if b then of_int x else of_int (RTC_BCD x))) = x"
proof -
  have "uint (of_int x :: u8) = x" using assms unfolding uint_word_of_int_eq by (simp add: take_bit_int_eq_self_iff)
  then show ?thesis using bcd_roundtrip [OF assms] by simp
qed

text \<open>The hour as stored and read, by data mode and hour mode.\<close>

definition hour_stored :: "bool \<Rightarrow> bool \<Rightarrow> int \<Rightarrow> u8" where
  "hour_stored dm full h = (let e = (\<lambda>x. if dm then of_int x else of_int (RTC_BCD x)) in
    if full then e h else (if h smod 12 \<noteq> 0 then e (h smod 12) else e 12) OR (if h > 11 then 0x80 else 0))"

definition hour_read :: "bool \<Rightarrow> bool \<Rightarrow> u8 \<Rightarrow> int" where
  "hour_read dm full v =
    (let temp = sint (of_int (if dm then uint v else RTC_DCB v) :: u8)
     in if full then temp else ((temp AND NOT 0x80) smod 12) + (if temp AND 0x80 \<noteq> 0 then 12 else 0))"

lemma hour_table:
  "list_all (\<lambda>h. hour_read True True (hour_stored True True h) = h \<and> hour_read False True (hour_stored False True h) = h) [0..23]"
  "list_all (\<lambda>h. hour_read True False (hour_stored True False h) = h \<and> hour_read False False (hour_stored False False h) = h) [0..11]"
  "list_all (\<lambda>h. hour_read True False (hour_stored True False h) = (if h = 16 then 12 else (h + 8) mod 12) \<and>
     hour_read False False (hour_stored False False h) = (h + 8) mod 12) [12..23]"
  by code_simp+

lemma hour_of_stored:
  assumes "rtc_wf r" and "0 \<le> tm_hour t" and "tm_hour t < 24"
  shows "get_hour (time_set t r) =
    (if tst (creg 11 r) 0x02 \<or> tm_hour t < 12 then tm_hour t
     else if tst (creg 11 r) 0x04 \<and> tm_hour t = 16 then 12 else (tm_hour t + 8) mod 12)"
proof -
  let ?dm = "tst (creg 11 r) 0x04" and ?full = "tst (creg 11 r) 0x02" and ?h = "tm_hour t"
  have b: "creg 11 (time_set t r) = creg 11 r" using assms(1) by (auto simp: creg_time_set stored_def rtc_wf_def)
  have "get_hour (time_set t r) = hour_read ?dm ?full (hour_stored ?dm ?full ?h)"
    using assms(1) b by (simp add: get_hour_def hour_read_def hour_stored_def rtc_dec_def rtc_enc_def enc_hour_def
      creg_time_set stored_def Let_def)
  moreover have "?h \<in> set [0..23]" "?h < 12 \<Longrightarrow> ?h \<in> set [0..11]" "\<not> ?h < 12 \<Longrightarrow> ?h \<in> set [12..23]"
    unfolding set_upto using assms(2,3) by auto
  note rows = hour_table [unfolded list_all_iff, THEN bspec, of ?h] and mem = this
  ultimately show ?thesis
    using rows(1) [OF mem(1)] rows(2) [OF mem(2)] rows(3) [OF mem(3)] by (cases ?dm; cases ?full; cases "?h < 12") simp_all
qed

definition tm_range :: "tm \<Rightarrow> bool" where
  "tm_range t \<longleftrightarrow> 0 \<le> tm_sec t \<and> tm_sec t < 60 \<and> 0 \<le> tm_min t \<and> tm_min t < 60 \<and> 0 \<le> tm_hour t \<and> tm_hour t < 24 \<and>
    1 \<le> tm_mday t \<and> tm_mday t \<le> 31 \<and> 0 \<le> tm_mon t \<and> tm_mon t < 12 \<and> 0 \<le> tm_wday t \<and> tm_wday t < 7 \<and>
    0 \<le> tm_year t + 1900 \<and> tm_year t + 1900 < 10000"

lemma time_fields:
  assumes "rtc_wf r" and "tm_range t" and "r_cent r \<noteq> 0xff"
  shows "time_get (time_set t r) = t\<lparr>tm_hour := get_hour (time_set t r)\<rparr>"
proof -
  have b: "creg 11 (time_set t r) = creg 11 r" using assms(1) by (auto simp: creg_time_set stored_def rtc_wf_def)
  have de: "rtc_dec (time_set t r) (rtc_enc r x) = x" if "0 \<le> x" "x < 100" for x
    using dec_enc [OF that, of "tst (creg 11 r) 0x04"] by (simp only: rtc_dec_def rtc_enc_def b)
  define y where "y = tm_year t + 1900"
  have y: "0 \<le> y" "y < 10000" using assms(2) by (simp_all add: tm_range_def y_def)
  then have "y smod 100 = y mod 100" "y sdiv 100 = y div 100" by (simp_all add: smod_pos)
  moreover have "0 \<le> y mod 100" "y mod 100 < 100" "0 \<le> y div 100" "y div 100 < 100" using y by simp_all
  ultimately have year: "rtc_dec (time_set t r) (rtc_enc r (y smod 100)) + (rtc_dec (time_set t r) (rtc_enc r (y sdiv 100)) * 100 - 1900) = y - 1900"
    using mult_div_mod_eq [of 100 y] by (simp add: de)
  have c: "unat (r_cent r) \<notin> {0, 2, 4, 6, 7, 8, 9}" using assms(1) by (auto simp: rtc_wf_def)
  show ?thesis
    using assms(1,2,3) year c
    by (simp add: time_get_def creg_time_set stored_def de tm_range_def y_def)
qed

text \<open>
  C27.  The time survives the registers in 24-hour mode and before noon.  In binary and in BCD data mode, any time of
  the years 0 to 9999 stored in a chip with a century register is read back unchanged if the chip is in
  24-hour mode or the hour is before noon.
\<close>

theorem rtc_time_roundtrip:
  assumes "rtc_wf r" and "r_cent r \<noteq> 0xff" and "tm_range t" and "tst (creg 11 r) 0x02 \<or> tm_hour t < 12"
  shows "time_get (time_set t r) = t"
  using time_fields [OF assms(1,3,2)] hour_of_stored [OF assms(1)] assms(3,4) by (auto simp: tm_range_def)

text \<open>A chip of an AT at power on, with a century register and no file.\<close>

definition rtc_boot :: rtc_t where
  "rtc_boot = nvr_at_power_on (nvr_load None
    \<lparr>r_size = 128, r_irq = 8, r_is_new = True, r_onesec_cnt = 0, r_regs = replicate 512 0, r_stat = 0, r_cent = 0x32,
     r_def = 0xff, r_read_addr = True, r_wp_0d = False, r_wp_32 = False, r_irq_state = False, r_smi_status = False,
     r_wp = [False, False], r_bank = replicate 8 0, r_lock = replicate 128 0, r_count = 0, r_state = False, r_flags = 0,
     r_addr = replicate 8 0, r_smi_enable = False, r_ecount = 0,
     r_intclk = \<lparr>tm_sec = 0, tm_min = 0, tm_hour = 0, tm_mday = 0, tm_mon = 1, tm_year = 1980, tm_wday = 0\<rparr>,
     r_dosave = False, r_nmi_mask = False, r_pics = at_boot, r_reqs = [], r_rtcconst = 2 ^ 40, r_timer_usec = 2 ^ 32,
     r_time_sync = False, r_bx6 = False, r_alt_access = False\<rparr>)"

lemma rtc_boot_wf: "rtc_wf rtc_boot" "r_cent rtc_boot = 0x32" "creg 11 rtc_boot = 0x02" "creg 10 rtc_boot = 0x26"
  "r_irq rtc_boot = 8" "r_timer_usec rtc_boot = 2 ^ 32" "r_lock rtc_boot = replicate 128 0"
  by code_simp+

lemma life_cycle_pics [simp]: "r_pics (timer_load_count r) = r_pics r" "r_pics (nvr_at_power_on r) = r_pics r"
  "r_pics (nvr_start r) = r_pics r" "r_pics (nvr_reset r) = r_pics r" "r_pics (nvr_load f r) = r_pics r"
proof -
  show load: "r_pics (timer_load_count r) = r_pics r" for r
    by (simp add: timer_load_count_def request_def Let_def)
  show "r_pics (nvr_at_power_on r) = r_pics r" by (simp add: nvr_at_power_on_def nvr_at_reset_def load Let_def)
  show start: "r_pics (nvr_start r) = r_pics r" for r by (simp add: nvr_start_def Let_def)
  show reset: "r_pics (nvr_reset r) = r_pics r" for r by (simp add: nvr_reset_def Let_def)
  show "r_pics (nvr_load f r) = r_pics r" by (simp add: nvr_load_def start reset Let_def split: option.splits)
qed

lemma rtc_boot_pics: "r_pics rtc_boot = at_boot"
  by (simp add: rtc_boot_def)

theorem rtc_time_roundtrip_witness:
  "let t = \<lparr>tm_sec = 59, tm_min = 30, tm_hour = 23, tm_mday = 31, tm_mon = 11, tm_year = 99, tm_wday = 5\<rparr>
   in rtc_wf rtc_boot \<and> tm_range t \<and> time_get (time_set t rtc_boot) = t"
  using rtc_time_roundtrip [of rtc_boot "\<lparr>tm_sec = 59, tm_min = 30, tm_hour = 23, tm_mday = 31, tm_mon = 11, tm_year = 99, tm_wday = 5\<rparr>"]
    rtc_boot_wf by (simp add: tm_range_def)

text \<open>
  C19.  In 12-hour mode the afternoon is lost.  An hour from noon on that is stored in 12-hour mode is never read back: it comes back as \<open>(h + 8) mod 12\<close>, and as 12 for 16 in binary mode.
  So when the guest changes the minutes in the afternoon, the running clock jumps to that hour.
\<close>

theorem rtc_afternoon_lost:
  assumes "rtc_wf r" and "\<not> tst (creg 11 r) 0x02" and "12 \<le> tm_hour t" and "tm_hour t < 24" and "r_lock r ! 2 = 0"
    and "v \<noteq> rtc_enc r (tm_min t)"
  shows "tm_hour (time_get (time_set t r)) = (if tst (creg 11 r) 0x04 \<and> tm_hour t = 16 then 12 else (tm_hour t + 8) mod 12) \<and>
    tm_hour (time_get (time_set t r)) \<noteq> tm_hour t \<and>
    (\<exists>r'. nvr_reg_write 2 v (time_set t r) = Some r' \<and>
      tm_hour (r_intclk r') = (if tst (creg 11 r) 0x04 \<and> tm_hour t = 16 then 12 else (tm_hour t + 8) mod 12))"
proof -
  let ?s = "time_set t r" and ?h = "if tst (creg 11 r) 0x04 \<and> tm_hour t = 16 then 12 else (tm_hour t + 8) mod 12"
  have h: "get_hour ?s = ?h" using hour_of_stored [OF assms(1), of t] assms(2-4) by simp
  have ne: "?h \<noteq> tm_hour t" using assms(3,4) pos_mod_bound [of 12 "tm_hour t + 8"] by (auto split: if_splits)
  have keep: "get_hour (set_creg 2 v ?s) = get_hour ?s"
    using assms(1) by (simp add: get_hour_def rtc_dec_def rtc_wf_def)
  have old: "creg 2 ?s \<noteq> v" using assms(1,6) by (simp add: creg_time_set stored_def)
  have "nvr_reg_common_write 2 v ?s = Some (set_creg 2 v ?s)"
    using assms(1,5) old by (simp add: nvr_reg_common_write_def rtc_wf_def Let_def)
  then have "nvr_reg_write 2 v ?s = Some ((set_creg 2 v ?s)\<lparr>r_intclk := nvr_time_set (time_get (set_creg 2 v ?s))\<rparr>)"
    using assms(1) old by (simp add: nvr_reg_write_def rtc_wf_def Let_def)
  then show ?thesis using h ne keep by (simp add: time_get_def nvr_time_set_def)
qed

theorem rtc_afternoon_lost_witness:
  "let r = set_creg 11 0 rtc_boot; t = \<lparr>tm_sec = 0, tm_min = 0, tm_hour = 13, tm_mday = 1, tm_mon = 0, tm_year = 99, tm_wday = 5\<rparr>
   in rtc_wf r \<and> tm_hour (time_get (time_set t r)) = 9"
  using rtc_afternoon_lost [of "set_creg 11 0 rtc_boot"
    "\<lparr>tm_sec = 0, tm_min = 0, tm_hour = 13, tm_mday = 1, tm_mon = 0, tm_year = 99, tm_wday = 5\<rparr>" 1] rtc_boot_wf
  by (simp add: rtc_wf_def rtc_enc_def RTC_BCD_def smod_pos)

section \<open>The interrupt line\<close>

text \<open>Controllers programmed as on an AT, with the slave on line 2.\<close>

definition at_pics :: "pics \<Rightarrow> bool" where
  "at_pics s \<longleftrightarrow> s_update_pending s \<noteq> None \<and> p_icw3 (s_pic s) = 4 \<and> p_at (s_pic s)"

lemma update_pending_keeps [simp]:
  "p_irr (s_pic2 (update_pending s)) = p_irr (s_pic2 s)" "at_pics (update_pending s) = at_pics s"
  by (simp_all add: update_pending_def pic_update_pending_xt_def pic_update_pending_at_def at_pics_def Let_def case_prod_beta
      split: option.splits updater.splits)

lemma at_pics_frame [simp]: "at_pics (s\<lparr>s_pic2 := p\<rparr>) = at_pics s" "at_pics (s\<lparr>s_acpi_rtc_status := v\<rparr>) = at_pics s"
  "at_pics (raised num s) = at_pics s" "at_pics (lowered num s) = at_pics s" "at_pics (effect e s) = at_pics s"
proof -
  show "at_pics (s\<lparr>s_pic2 := p\<rparr>) = at_pics s" by (simp add: at_pics_def)
  show "at_pics (s\<lparr>s_acpi_rtc_status := v\<rparr>) = at_pics s" by (simp add: at_pics_def)
  show "at_pics (raised num s) = at_pics s" "at_pics (lowered num s) = at_pics s"
    by (simp_all add: at_pics_def raised_pics lowered_pics)
  show "at_pics (effect e s) = at_pics s" by (simp add: at_pics_def effect_def)
qed

lemma clock_line:
  assumes "at_pics s"
  shows "fst (picint_common (sh 8) True on st s) = on" and "at_pics (snd (picint_common (sh 8) True on st s))"
    and "\<not> pic_level_triggered s (s_pic2 s) 0 \<Longrightarrow> bit (p_irr (s_pic2 (snd (picint_common (sh 8) True on st s)))) 0 = on"
proof -
  have red: "foldl (picint_redirect (s_pic s)) (sh 8, 0) [0..<8] = (sh 8, 1)"
    using redirect_at [of "s_pic s" "sh 8"] assms by (simp add: at_pics_def)
  let ?c = "if st \<noteq> on then upd_pic PIC2 (p_lines_update (\<lambda>ls. ls[0 := (if on then ls ! 0 + 1 else ls ! 0 - 1)])) s else s"
  have c: "at_pics ?c" "p_irr (s_pic2 ?c) = p_irr (s_pic2 s)" "pic_level_triggered ?c (s_pic2 ?c) 0 = pic_level_triggered s (s_pic2 s) 0"
    using assms by (simp_all add: pic_level_triggered_def)
  define lines :: u16 where
    "lines = (if \<not> pic_level_triggered s (s_pic2 s) 0 \<or> st \<noteq> on \<and> p_lines (s_pic2 ?c) ! 0 = of_bool on then sh 8 else 0)"
  have step: "picint_level_line (sh 8) on st (0, s) 8 = (lines, ?c)"
    using c(3) by (simp add: picint_level_line_def Let_def lines_def)
  have eq: "picint_common (sh 8) True on st s = (on, if lines \<noteq> 0
      then picint_apply lines on (if tst lines 0x100 then ?c\<lparr>s_acpi_rtc_status := on\<rparr> else ?c) else
        (if tst lines 0x100 then ?c\<lparr>s_acpi_rtc_status := on\<rparr> else ?c))"
    unfolding picint_common_def red prod.case using assms sh16_nz [of 8]
    by (auto simp: Let_def case_prod_beta level_line_single step at_pics_def)
  show "fst (picint_common (sh 8) True on st s) = on" unfolding eq by simp
  show "at_pics (snd (picint_common (sh 8) True on st s))"
    unfolding eq using c(1) by (cases on) (simp_all add: picint_apply_raised picint_apply_lowered)
  assume "\<not> pic_level_triggered s (s_pic2 s) 0"
  then have l: "lines = sh 8" by (simp add: lines_def)
  then have "tst lines 0x100" "lines \<noteq> 0" "ucast (drop_bit 8 lines) = (1 :: u8)" by (simp_all add: sh_def tst_def)
  then show "bit (p_irr (s_pic2 (snd (picint_common (sh 8) True on st s)))) 0 = on"
    unfolding eq using c(2) l by (cases on) (simp_all add: picint_apply_raised picint_apply_lowered raised_pics lowered_pics bit_simps)
qed

definition rtc_ok :: "rtc_t \<Rightarrow> bool" where
  "rtc_ok r \<longleftrightarrow> rtc_wf r \<and> r_irq r = 8 \<and> at_pics (r_pics r)"

definition irq_wanted :: "rtc_t \<Rightarrow> bool" where
  "irq_wanted r \<longleftrightarrow> creg 11 r AND creg 12 r AND 0x70 \<noteq> 0"

definition irq_inv :: "rtc_t \<Rightarrow> bool" where
  "irq_inv r \<longleftrightarrow> bit (creg 12 r) 7 = r_irq_state r \<and> r_irq_state r = irq_wanted r"

text \<open>What \<open>timer_update_irq\<close> changes: the request flag of register C, the line, and the status of the SMI.\<close>

lemma keep_smi: "(set_creg n v r)\<lparr>r_irq_state := a, r_pics := b, r_smi_status := r_smi_status r\<rparr> =
    (set_creg n v r)\<lparr>r_irq_state := a, r_pics := b\<rparr>" for r :: rtc_t
  by (cases r) (simp add: set_creg_def)

lemma update_irq_eq:
  assumes "rtc_ok r"
  obtains s m where "timer_update_irq r = Some ((set_creg 12
      (if irq_wanted r then creg 12 r OR 0x80 else if r_irq_state r then creg 12 r AND NOT 0x80 else creg 12 r) r)
      \<lparr>r_irq_state := irq_wanted r, r_pics := s, r_smi_status := m\<rparr>)" and "at_pics s"
    and "irq_wanted r \<Longrightarrow> \<not> pic_level_triggered (r_pics r) (s_pic2 (r_pics r)) 0 \<Longrightarrow> bit (p_irr (s_pic2 s)) 0"
proof (cases "irq_wanted r \<or> r_irq_state r")
  case False
  have "set_creg 12 (creg 12 r) r = r" by (simp add: set_creg_def creg_def)
  with False that [of "r_smi_status r" "r_pics r"] assms show thesis
    by (auto simp: timer_update_irq_def irq_wanted_def Let_def rtc_ok_def)
next
  case True
  let ?p = "picint_common (sh 8) True (irq_wanted r) (r_irq_state r) (r_pics r)"
  have "at_pics (r_pics r)" "irq_num (r_irq r) = Some (sh 8)" using assms by (simp_all add: rtc_ok_def irq_num_def)
  note line = clock_line [OF this(1), of "irq_wanted r" "r_irq_state r"] and n = this(2)
  show thesis
  proof (cases "irq_wanted r")
    case True
    let ?s = "if r_smi_enable r then effect SmiRaise (snd ?p) else snd ?p"
    have "timer_update_irq r = Some ((set_creg 12 (creg 12 r OR 0x80) r)
        \<lparr>r_irq_state := True, r_pics := ?s, r_smi_status := r_smi_enable r \<or> r_smi_status r\<rparr>)"
      using True True [unfolded irq_wanted_def] line(1) n
      by (simp add: timer_update_irq_def case_prod_beta picintlevel_def Let_def keep_smi)
    moreover have "at_pics ?s" "\<not> pic_level_triggered (r_pics r) (s_pic2 (r_pics r)) 0 \<Longrightarrow> bit (p_irr (s_pic2 ?s)) 0"
      using line(2,3) True by simp (use line(2,3) True in \<open>simp add: effect_def\<close>)
    ultimately show thesis using True by (intro that) simp_all
  next
    case False
    have "timer_update_irq r = Some ((set_creg 12 (creg 12 r AND NOT 0x80) r)
        \<lparr>r_irq_state := False, r_pics := snd ?p, r_smi_status := r_smi_status r\<rparr>)"
      using True False False [unfolded irq_wanted_def] line(1) n
      by (simp add: timer_update_irq_def case_prod_beta picintclevel_def Let_def keep_smi)
    then show thesis using True False line(2) by (intro that) simp_all
  qed
qed

lemma update_irq_inv:
  assumes "rtc_ok r" and "bit (creg 12 r) 7 \<longrightarrow> r_irq_state r"
  obtains s m where "timer_update_irq r = Some ((set_creg 12 ((creg 12 r AND NOT 0x80) OR (if irq_wanted r then 0x80 else 0)) r)
      \<lparr>r_irq_state := irq_wanted r, r_pics := s, r_smi_status := m\<rparr>)" and "at_pics s"
    and "irq_wanted r \<Longrightarrow> \<not> pic_level_triggered (r_pics r) (s_pic2 (r_pics r)) 0 \<Longrightarrow> bit (p_irr (s_pic2 s)) 0"
proof -
  have "v OR 0x80 = (v AND NOT 0x80) OR 0x80" "\<not> bit v 7 \<Longrightarrow> v AND NOT 0x80 = v" for v :: u8
    by (rule bit_word_eqI; auto simp: bit_simps dest!: less_8_cases)+
  then have eq: "(if irq_wanted r then creg 12 r OR 0x80 else if r_irq_state r then creg 12 r AND NOT 0x80 else creg 12 r) =
      (creg 12 r AND NOT 0x80) OR (if irq_wanted r then 0x80 else 0)"
    using assms(2) by auto
  show thesis by (rule update_irq_eq [OF assms(1), unfolded eq]) (rule that)
qed

lemma update_irq_keeps:
  assumes "rtc_ok r" and "bit (creg 12 r) 7 \<longrightarrow> r_irq_state r" and "timer_update_irq r = Some r'"
  shows "rtc_ok r' \<and> irq_inv r'"
proof -
  obtain s m where r': "r' = (set_creg 12 ((creg 12 r AND NOT 0x80) OR (if irq_wanted r then 0x80 else 0)) r)
      \<lparr>r_irq_state := irq_wanted r, r_pics := s, r_smi_status := m\<rparr>" and s: "at_pics s"
    using update_irq_inv [OF assms(1,2)] assms(3) by (metis option.inject)
  have len: "length (r_regs r) = 512" using assms(1) by (simp add: rtc_ok_def rtc_wf_def)
  have "creg n (q\<lparr>r_irq_state := a, r_pics := b, r_smi_status := c\<rparr>) = creg n q"
    "rtc_wf (q\<lparr>r_irq_state := a, r_pics := b, r_smi_status := c\<rparr>) = rtc_wf q" for n q a b c
    by (simp_all add: creg_def rtc_wf_def)
  note upd = this
  have "((v AND NOT 0x80) OR (if x then 0x80 else 0)) AND 0x70 = v AND 0x70" for v :: u8 and x
    by (rule bit_word_eqI) (auto simp: bit_simps dest!: less_8_cases)
  then have w: "creg 11 r AND ((creg 12 r AND NOT 0x80) OR (if irq_wanted r then 0x80 else 0)) AND 0x70 = creg 11 r AND creg 12 r AND 0x70"
    by (metis and.assoc)
  have "irq_wanted r' = irq_wanted r"
    unfolding r' using len w by (simp add: irq_wanted_def [of "_\<lparr>r_irq_state := _, r_pics := _, r_smi_status := _\<rparr>"] upd) (simp add: irq_wanted_def)
  moreover have "bit (creg 12 r') 7 = irq_wanted r" unfolding r' using len by (simp add: upd bit_simps)
  ultimately show ?thesis
    using assms(1) s unfolding irq_inv_def rtc_ok_def by (simp add: r' upd)
qed

text \<open>Steps that leave the interrupt logic alone.\<close>

definition quiet_step :: "rtc_t \<Rightarrow> rtc_t \<Rightarrow> bool" where
  "quiet_step r r' \<longleftrightarrow> creg 11 r' = creg 11 r \<and> creg 12 r' = creg 12 r \<and> r_irq_state r' = r_irq_state r \<and> (rtc_ok r \<longrightarrow> rtc_ok r')"

lemma quiet_refl [simp]: "quiet_step r r"
  by (simp add: quiet_step_def)

lemma quiet_trans: "quiet_step r s \<Longrightarrow> quiet_step s t \<Longrightarrow> quiet_step r t"
  by (simp add: quiet_step_def)

lemma quiet_inv: "quiet_step r r' \<Longrightarrow> rtc_ok r \<Longrightarrow> irq_inv r \<Longrightarrow> rtc_ok r' \<and> irq_inv r'"
  by (simp add: quiet_step_def irq_inv_def irq_wanted_def)

lemma creg_cong: "r_regs r' = r_regs r \<Longrightarrow> creg n r' = creg n r"
  by (simp add: creg_def)

lemma ok_cong: "r_regs r' = r_regs r \<Longrightarrow> r_lock r' = r_lock r \<Longrightarrow> r_size r' = r_size r \<Longrightarrow> r_bank r' = r_bank r \<Longrightarrow>
    length (r_addr r') = length (r_addr r) \<Longrightarrow> r_wp r' = r_wp r \<Longrightarrow> r_cent r' = r_cent r \<Longrightarrow> r_irq r' = r_irq r \<Longrightarrow>
    r_pics r' = r_pics r \<Longrightarrow> rtc_ok r' = rtc_ok r"
  by (simp add: rtc_ok_def rtc_wf_def)

lemma quiet_fields:
  "quiet_step r (r\<lparr>r_intclk := c\<rparr>)" "quiet_step r (r\<lparr>r_stat := v\<rparr>)" "quiet_step r (r\<lparr>r_ecount := w\<rparr>)"
  "quiet_step r (r\<lparr>r_stat := v, r_ecount := w\<rparr>)" "quiet_step r (request q r)" "quiet_step r (r\<lparr>r_onesec_cnt := v\<rparr>)"
  "quiet_step r (r\<lparr>r_state := b\<rparr>)" "quiet_step r (r\<lparr>r_state := b, r_count := n\<rparr>)" "quiet_step r (r\<lparr>r_dosave := b\<rparr>)"
  "quiet_step r (r\<lparr>r_is_new := b\<rparr>)" "quiet_step r (r\<lparr>r_nmi_mask := b\<rparr>)" "quiet_step r (r\<lparr>r_addr := (r_addr r)[i := a]\<rparr>)"
  by (simp_all add: quiet_step_def creg_def rtc_ok_def rtc_wf_def request_def)

lemma quiet_set_creg: "n \<noteq> 11 \<Longrightarrow> n \<noteq> 12 \<Longrightarrow> quiet_step r (set_creg n v r)"
  by (simp add: quiet_step_def creg_def set_creg_def rtc_ok_def rtc_wf_def)

lemma quiet_time_set: "rtc_ok r \<Longrightarrow> quiet_step r (time_set t r)"
  by (auto simp: quiet_step_def creg_time_set stored_def rtc_ok_def rtc_wf_def)

lemma quiet_load_count: "quiet_step r (timer_load_count r)"
  by (simp add: timer_load_count_def Let_def quiet_step_def creg_def rtc_ok_def rtc_wf_def request_def)

lemma quiet_tick: "quiet_step r (nvr_timer_tick r)"
  unfolding nvr_timer_tick_def Let_def by (auto intro: quiet_fields quiet_trans)

lemma quiet_common_write:
  assumes "nvr_reg_common_write g v r = Some r'" and "g \<noteq> 11" and "g \<noteq> 12"
  shows "quiet_step r r'"
proof -
  have n: "unat g \<noteq> 11" "unat g \<noteq> 12" using assms(2,3) by (auto simp: word_unat_eq_iff)
  define s where "s = (if g = 0x2c \<and> tst (r_flags r) FLAG_AMI_1994_HACK \<or> g = 0x2d \<and> tst (r_flags r) FLAG_AMI_1992_HACK \<or>
               g = 0x52 \<and> tst (r_flags r) FLAG_AMI_1995_HACK \<or> g = 0x54 \<and> tst (r_flags r) FLAG_AMI_1999_HACK \<or>
               g = 0x55 \<and> tst (r_flags r) FLAG_AMI_1999J_HACK
             then r\<lparr>r_is_new := False\<rparr> else r)"
  have s: "quiet_step r s" by (auto simp: s_def intro: quiet_fields)
  have w: "quiet_step r (set_creg (unat g) v s)" by (rule quiet_trans [OF s quiet_set_creg [OF n]])
  have d: "quiet_step r ((set_creg (unat g) v s)\<lparr>r_dosave := True\<rparr>)" by (rule quiet_trans [OF w quiet_fields(9)])
  have "r' = r \<or> r' = s \<or> r' = set_creg (unat g) v s \<or> r' = (set_creg (unat g) v s)\<lparr>r_dosave := True\<rparr>"
    using assms(1) unfolding nvr_reg_common_write_def Let_def s_def [symmetric] by (simp split: if_splits)
  then show ?thesis using s w d quiet_refl by metis
qed

text \<open>Steps of the chip: its timers and the accesses of the guest.\<close>

datatype rtc_event = Hundredth | Update_timer | Periodic_timer | Port_write u16 u8 | Port_read u16

fun rtc_step :: "rtc_event \<Rightarrow> rtc_t \<Rightarrow> rtc_t option" where
  "rtc_step Hundredth r = onesec_timer True r"
| "rtc_step Update_timer r = timer_update r"
| "rtc_step Periodic_timer r = timer_intr r"
| "rtc_step (Port_write a v) r = nvr_write a v r"
| "rtc_step (Port_read a) r = map_option snd (nvr_read a r)"

fun rtc_run :: "rtc_event list \<Rightarrow> rtc_t \<Rightarrow> rtc_t option" where
  "rtc_run [] r = Some r"
| "rtc_run (e # es) r = Option.bind (rtc_step e r) (rtc_run es)"

text \<open>A flag of register C is set and the line follows.\<close>

lemma flag_then_update:
  assumes "rtc_ok r" and "irq_inv r" and "\<not> bit v 7" and "timer_update_irq (set_creg 12 (creg 12 r OR v) r) = Some r'"
  shows "rtc_ok r' \<and> irq_inv r'"
proof (rule update_irq_keeps [OF _ _ assms(4)])
  show "rtc_ok (set_creg 12 (creg 12 r OR v) r)" using assms(1) by (simp add: rtc_ok_def)
  show "bit (creg 12 (set_creg 12 (creg 12 r OR v) r)) 7 \<longrightarrow> r_irq_state (set_creg 12 (creg 12 r OR v) r)"
    using assms(1-3) by (simp add: rtc_ok_def rtc_wf_def irq_inv_def bit_simps)
qed

lemma update_timer_keeps:
  assumes "rtc_ok r" and "irq_inv r" and "timer_update r = Some r'"
  shows "rtc_ok r' \<and> irq_inv r'"
proof (cases "r_ecount r = 244 * r_timer_usec r")
  case False
  then obtain q where q: "timer_update_irq (set_creg 12 (creg 12 r OR 0x10) r) = Some q" "r' = q\<lparr>r_stat := 0, r_ecount := 0\<rparr>"
    using assms(3) by (auto simp: timer_update_def bind_eq_Some_conv)
  have "rtc_ok q \<and> irq_inv q" by (rule flag_then_update [OF assms(1,2) _ q(1)]) simp
  then show ?thesis unfolding q(2) using quiet_inv quiet_fields(4) by blast
next
  case True
  then obtain c where c: "rtc_tick (r_intclk r) = Some c" using assms(3) by (auto simp: timer_update_def bind_eq_Some_conv)
  define p where "p = time_set (nvr_time_get c) (r\<lparr>r_intclk := c\<rparr>)"
  define p' where "p' = (if r_cent p \<noteq> 0xff then set_creg (unat (r_cent p)) (if r_cent (r\<lparr>r_intclk := c\<rparr>) = 0xff then 0 else creg (unat (r_cent (r\<lparr>r_intclk := c\<rparr>))) (r\<lparr>r_intclk := c\<rparr>)) p else p)"
  have "rtc_ok (r\<lparr>r_intclk := c\<rparr>)" using quiet_fields(1) assms(1) by (metis quiet_step_def)
  then have "quiet_step r p" unfolding p_def using quiet_trans [OF quiet_fields(1) quiet_time_set] by blast
  moreover have "unat (r_cent p) \<noteq> 11" "unat (r_cent p) \<noteq> 12" using assms(1) by (auto simp: p_def rtc_ok_def rtc_wf_def)
  then have "quiet_step p p'" unfolding p'_def by (auto intro: quiet_set_creg)
  ultimately have p': "rtc_ok p'" "irq_inv p'" using quiet_inv quiet_trans assms(1,2) by blast+
  obtain q where q: "(if alarm_matches p' then timer_update_irq (set_creg 12 (creg 12 p' OR 0x20) p') else Some p') = Some q"
    "r' = request (Delay Update (1984 * r_timer_usec q)) (q\<lparr>r_ecount := 1984 * r_timer_usec q\<rparr>)"
    using assms(3) unfolding timer_update_def if_P [OF True] c bind.bind_lunit Let_def p_def [symmetric] p'_def [symmetric]
    by (auto simp: bind_eq_Some_conv)
  have "rtc_ok q \<and> irq_inv q"
    using q(1) p' flag_then_update [OF p', of "0x20" q] by (auto split: if_splits)
  then show ?thesis unfolding q(2) using quiet_inv quiet_fields(3,5) quiet_trans by blast
qed

lemma clear_then_update:
  assumes "rtc_ok r" and "irq_inv r" and "timer_update_irq (set_creg 12 (creg 12 r AND NOT 0xf0) r) = Some r'"
  shows "rtc_ok r' \<and> irq_inv r'"
proof (rule update_irq_keeps [OF _ _ assms(3)])
  show "rtc_ok (set_creg 12 (creg 12 r AND NOT 0xf0) r)" using assms(1) by (simp add: rtc_ok_def)
  show "bit (creg 12 (set_creg 12 (creg 12 r AND NOT 0xf0) r)) 7 \<longrightarrow> r_irq_state (set_creg 12 (creg 12 r AND NOT 0xf0) r)"
    using assms(1) by (simp add: rtc_ok_def rtc_wf_def bit_simps)
qed

lemma mode_then_update:
  assumes "rtc_ok r" and "irq_inv r" and "timer_update_irq (set_creg 11 v r) = Some r'"
  shows "rtc_ok r' \<and> irq_inv r'"
proof (rule update_irq_keeps [OF _ _ assms(3)])
  show "rtc_ok (set_creg 11 v r)" using assms(1) by (simp add: rtc_ok_def)
  show "bit (creg 12 (set_creg 11 v r)) 7 \<longrightarrow> r_irq_state (set_creg 11 v r)"
    using assms(1,2) by (simp add: rtc_ok_def rtc_wf_def irq_inv_def)
qed

text \<open>The register write before the running clock is adjusted.\<close>

definition reg_write_effect :: "u16 \<Rightarrow> u8 \<Rightarrow> rtc_t \<Rightarrow> rtc_t option" where
  "reg_write_effect g val r =
    (if g = 0 then nvr_reg_common_write g (val AND 0x7f) r
     else if g = 10 then
       Some (if (val AND creg 10 r) AND NOT 0x80 \<noteq> 0
             then timer_load_count (set_creg 10 ((creg 10 r AND 0x80) OR (val AND NOT 0x80)) r) else r)
     else if g = 11 then
       (let (val, r) = (if tst (creg (unat g) r XOR val) 0x80 \<and> tst val 0x80
              then (val AND NOT 0x10, r\<lparr>r_stat := r_stat r AND NOT 0x80\<rparr>) else (val, r))
        in timer_update_irq (set_creg 11 val r))
     else if g = 12 then Some r
     else if g = 13 then Some (set_creg 13 (val AND 0x80) r)
     else if g = 0x32 then
       (if r_cent r = 0x7f \<and> r_wp_32 r then Some r else nvr_reg_common_write g val r)
     else if g = 0x39 then nvr_reg_common_write g (if r_bx6 r then val OR 0x08 else val) r
     else nvr_reg_common_write g val r)"

lemma nvr_reg_write_effect:
  "nvr_reg_write g val r =
    (if \<not> unat g < length (r_regs r) then None
     else Option.bind (reg_write_effect g val r) (\<lambda>q. Some
       (if (g < 10 \<or> r_cent q \<noteq> 0xff \<and> g = ucast (r_cent q)) \<and> g \<noteq> 1 \<and> g \<noteq> 3 \<and> g \<noteq> 5 \<and> creg (unat g) r \<noteq> val
        then q\<lparr>r_intclk := nvr_time_set (time_get q)\<rparr> else q)))"
  by (simp only: nvr_reg_write_def reg_write_effect_def Let_def)

lemma reg_effect_keeps:
  assumes "rtc_ok r" and "irq_inv r" and "reg_write_effect g val r = Some q"
  shows "rtc_ok q \<and> irq_inv q"
proof -
  consider "g = 10" | "g = 11" | "g = 12" | "g = 13" | "g \<noteq> 10" "g \<noteq> 11" "g \<noteq> 12" "g \<noteq> 13" by blast
  then show ?thesis
  proof cases
    case 1
    have "quiet_step r (set_creg 10 v r)" for v by (rule quiet_set_creg) simp_all
    then show ?thesis
      using assms 1 quiet_inv quiet_load_count quiet_trans by (auto simp: reg_write_effect_def split: if_splits) blast+
  next
    case 2
    have "quiet_step r (r\<lparr>r_stat := r_stat r AND NOT 0x80\<rparr>)" by (rule quiet_fields)
    then have ok: "rtc_ok (r\<lparr>r_stat := r_stat r AND NOT 0x80\<rparr>)" "irq_inv (r\<lparr>r_stat := r_stat r AND NOT 0x80\<rparr>)"
      using quiet_inv assms(1,2) by blast+
    have "timer_update_irq (set_creg 11 val r) = Some q \<or>
        timer_update_irq (set_creg 11 (val AND NOT 0x10) (r\<lparr>r_stat := r_stat r AND NOT 0x80\<rparr>)) = Some q"
      using assms(3) 2 by (simp add: reg_write_effect_def split: if_splits)
    then show ?thesis using mode_then_update [OF assms(1,2)] mode_then_update [OF ok] by blast
  next
    case 3
    then show ?thesis using assms by (simp add: reg_write_effect_def)
  next
    case 4
    have "quiet_step r (set_creg 13 v r)" for v by (rule quiet_set_creg) simp_all
    then show ?thesis using assms 4 quiet_inv by (auto simp: reg_write_effect_def)
  next
    case 5
    then have "q = r \<or> (\<exists>v. nvr_reg_common_write g v r = Some q)"
      using assms(3) by (auto simp: reg_write_effect_def split: if_splits)
    then show ?thesis using quiet_inv [OF quiet_common_write [OF _ 5(2,3)]] assms(1,2) by blast
  qed
qed

lemma reg_write_keeps:
  assumes "rtc_ok r" and "irq_inv r" and "nvr_reg_write g val r = Some r'"
  shows "rtc_ok r' \<and> irq_inv r'"
proof -
  obtain q where q: "reg_write_effect g val r = Some q" "r' = q \<or> (\<exists>c. r' = q\<lparr>r_intclk := c\<rparr>)"
    using assms(3) by (auto simp: nvr_reg_write_effect bind_eq_Some_conv split: if_splits)
  then show ?thesis using reg_effect_keeps [OF assms(1,2) q(1)] quiet_inv quiet_fields(1) by blast
qed

lemma port_write_keeps:
  assumes "rtc_ok r" and "irq_inv r" and "nvr_write a val r = Some r'"
  shows "rtc_ok r' \<and> irq_inv r'"
proof (cases "r_bank r ! addr_id a = 0xff \<or> tst a 1")
  case True
  then have "r' = r \<or> nvr_reg_write (r_addr r ! addr_id a) val r = Some r'"
    using assms(3) by (simp add: nvr_write_def split: if_splits)
  then show ?thesis using reg_write_keeps [OF assms(1,2)] assms(1,2) by blast
next
  case False
  let ?q = "r\<lparr>r_addr := (r_addr r)[addr_id a := nvr_index (addr_id a) val r]\<rparr>"
  have "quiet_step r ?q" by (rule quiet_fields)
  moreover have "quiet_step ?q (?q\<lparr>r_nmi_mask := b\<rparr>)" for b by (rule quiet_fields)
  moreover have "r' = ?q \<or> r' = ?q\<lparr>r_nmi_mask := \<not> tst val 0x80\<rparr>" using False assms(3) by (simp add: nvr_write_def Let_def split: if_splits)
  ultimately have "quiet_step r r'" using quiet_trans by blast
  then show ?thesis using quiet_inv assms(1,2) by blast
qed

lemma port_read_keeps:
  assumes "rtc_ok r" and "irq_inv r" and "nvr_read a r = Some (v, r')"
  shows "rtc_ok r' \<and> irq_inv r'"
proof -
  have "r' = r \<or> timer_update_irq (set_creg 12 (creg 12 r AND NOT 0xf0) r) = Some r'"
    using assms(3) unfolding nvr_read_def Let_def by (simp split: if_splits; auto)
  then show ?thesis using clear_then_update assms(1,2) by blast
qed

lemma rtc_step_keeps:
  assumes "rtc_ok r" and "irq_inv r" and "rtc_step e r = Some r'"
  shows "rtc_ok r' \<and> irq_inv r'"
proof (cases e)
  case Hundredth
  let ?q = "r\<lparr>r_onesec_cnt := r_onesec_cnt r + 1\<rparr>"
  let ?t = "(nvr_timer_tick (?q\<lparr>r_intclk := r_intclk ?q\<rparr>))\<lparr>r_onesec_cnt := 0\<rparr>"
  have q: "quiet_step r ?q" by (rule quiet_fields)
  have t: "quiet_step r ?t"
    by (rule quiet_trans [OF quiet_trans [OF quiet_trans [OF q quiet_fields(1)] quiet_tick] quiet_fields(6)])
  have "r' = request (Advance Onesec (10000 * r_timer_usec ?q)) ?q \<or> r' = request (Advance Onesec (10000 * r_timer_usec ?t)) ?t"
    using assms(3) unfolding Hundredth rtc_step.simps onesec_timer_def Let_def by (simp only: if_True bind.bind_lunit split: if_splits) simp_all
  then have "quiet_step r r'" using quiet_trans [OF q quiet_fields(5)] quiet_trans [OF t quiet_fields(5)] by blast
  then show ?thesis using quiet_inv assms(1,2) by blast
next
  case Periodic_timer
  have "quiet_step r (timer_load_count r)" by (rule quiet_load_count)
  then have "rtc_ok (timer_load_count r)" "irq_inv (timer_load_count r)" using quiet_inv assms(1,2) by blast+
  then show ?thesis
    using assms Periodic_timer flag_then_update [of "timer_load_count r" "0x40" r']
    by (auto simp: timer_intr_def Let_def split: if_splits)
next
  case Update_timer
  then show ?thesis using update_timer_keeps [OF assms(1,2)] assms(3) by simp
next
  case (Port_write a v)
  then show ?thesis using port_write_keeps [OF assms(1,2)] assms(3) by simp
next
  case (Port_read a)
  then obtain v where "nvr_read a r = Some (v, r')" using assms(3) by auto
  then show ?thesis by (rule port_read_keeps [OF assms(1,2)])
qed

text \<open>
  C18.  The interrupt line of the clock follows its registers.  Over any sequence of timer callbacks and guest accesses from a
  state where it holds, the request flag of register C, the level the chip holds on line 8 of the
  interrupt controllers and the presence of an enabled cause in registers B and C agree.
\<close>

theorem rtc_irq_invariant:
  assumes "rtc_ok r" and "irq_inv r" and "rtc_run es r = Some r'"
  shows "rtc_ok r' \<and> bit (creg 12 r') 7 = r_irq_state r' \<and> r_irq_state r' = (creg 11 r' AND creg 12 r' AND 0x70 \<noteq> 0)"
proof -
  have "rtc_ok r' \<and> irq_inv r'"
    using assms
  proof (induction es arbitrary: r)
    case (Cons e es)
    then obtain q where q: "rtc_step e r = Some q" "rtc_run es q = Some r'" by (auto simp: bind_eq_Some_conv)
    show ?case using rtc_step_keeps [OF Cons.prems(1,2) q(1)] Cons.IH q(2) by blast
  qed simp
  then show ?thesis by (simp add: irq_inv_def irq_wanted_def)
qed

lemma rtc_boot_ok: "rtc_ok rtc_boot" "irq_inv rtc_boot"
proof -
  have "at_pics at_boot" using at_boot_ready by (simp add: at_pics_def at_ready_def)
  then show "rtc_ok rtc_boot" using rtc_boot_wf rtc_boot_pics by (simp add: rtc_ok_def)
  have "creg 12 rtc_boot = 0x0f" "\<not> r_irq_state rtc_boot" by code_simp+
  then show "irq_inv rtc_boot" using rtc_boot_wf(3) by (simp add: irq_inv_def irq_wanted_def)
qed

theorem rtc_irq_invariant_witness:
  "\<exists>r'. rtc_ok rtc_boot \<and> irq_inv rtc_boot \<and> rtc_run [Port_write 0x70 0x0b, Port_write 0x71 0x12] rtc_boot = Some r' \<and>
    bit (creg 12 r') 7 = r_irq_state r'"
proof -
  have "case rtc_run [Port_write 0x70 0x0b, Port_write 0x71 0x12] rtc_boot of None \<Rightarrow> False | Some _ \<Rightarrow> True" by code_simp
  then obtain r' where run: "rtc_run [Port_write 0x70 0x0b, Port_write 0x71 0x12] rtc_boot = Some r'"
    by (auto split: option.splits)
  show ?thesis using rtc_irq_invariant [OF rtc_boot_ok run] rtc_boot_ok run by blast
qed

text \<open>A reset of the machine clears the causes but leaves the line asserted.\<close>

lemma nvr_at_reset_line: "rtc_wf r \<Longrightarrow> \<not> irq_wanted (nvr_at_reset r) \<and> \<not> bit (creg 12 (nvr_at_reset r)) 7 \<and>
    r_irq_state (nvr_at_reset r) = r_irq_state r \<and> r_pics (nvr_at_reset r) = r_pics r"
proof -
  have "x AND (v AND NOT 0xf0) AND 0x70 = 0" for x v :: u8
    by (rule bit_word_eqI) (auto simp: bit_simps dest!: less_8_cases)
  then show "rtc_wf r \<Longrightarrow> ?thesis" by (simp add: nvr_at_reset_def irq_wanted_def rtc_wf_def bit_simps)
qed

section \<open>The update of a second\<close>

lemma flag_update_form:
  assumes "rtc_ok r" and "irq_inv r" and "\<not> bit v 7"
  obtains r' where "timer_update_irq (set_creg 12 (creg 12 r OR v) r) = Some r'" "rtc_ok r'" "irq_inv r'"
    "\<And>n. n \<noteq> 12 \<Longrightarrow> creg n r' = creg n r" "\<And>k. k < 7 \<Longrightarrow> bit (creg 12 r') k = (bit (creg 12 r) k \<or> bit v k)"
    "r_stat r' = r_stat r" "r_reqs r' = r_reqs r" "r_intclk r' = r_intclk r" "r_ecount r' = r_ecount r"
    "r_timer_usec r' = r_timer_usec r" "r_cent r' = r_cent r"
proof -
  let ?q = "set_creg 12 (creg 12 r OR v) r"
  have len: "length (r_regs r) = 512" using assms(1) by (simp add: rtc_ok_def rtc_wf_def)
  have ok: "rtc_ok ?q" "bit (creg 12 ?q) 7 \<longrightarrow> r_irq_state ?q"
    using assms len by (auto simp: rtc_ok_def irq_inv_def bit_simps)
  obtain s m where u: "timer_update_irq ?q = Some ((set_creg 12 ((creg 12 ?q AND NOT 0x80) OR (if irq_wanted ?q then 0x80 else 0)) ?q)
      \<lparr>r_irq_state := irq_wanted ?q, r_pics := s, r_smi_status := m\<rparr>)"
    using update_irq_inv [OF ok] by metis
  let ?r = "(set_creg 12 ((creg 12 ?q AND NOT 0x80) OR (if irq_wanted ?q then 0x80 else 0)) ?q)
      \<lparr>r_irq_state := irq_wanted ?q, r_pics := s, r_smi_status := m\<rparr>"
  have c: "creg n ?r = creg n (set_creg 12 ((creg 12 ?q AND NOT 0x80) OR (if irq_wanted ?q then 0x80 else 0)) ?q)" for n
    by (simp add: creg_def)
  have "rtc_ok ?r \<and> irq_inv ?r" by (rule flag_then_update [OF assms u])
  moreover have "bit ((x AND NOT 0x80) OR (if b then 0x80 else 0)) k = bit x k" if "k < 7" for x :: u8 and b k
  proof -
    have "k < 8" "k \<noteq> 7" using that by auto
    then show ?thesis by (auto simp: bit_simps dest!: less_8_cases)
  qed
  then have "bit (creg 12 ?r) k = (bit (creg 12 r) k \<or> bit v k)" if "k < 7" for k
    unfolding c using that len by (simp del: bit_or_iff add: bit_or_iff [of "creg 12 r" v])
  moreover have "creg n ?r = creg n r" if "n \<noteq> 12" for n unfolding c using that len by simp
  ultimately show thesis using u by (intro that [of ?r]) simp_all
qed

text \<open>
  What an update may touch: the registers, the update-in-progress bit, the countdown, the internal clock,
  the timer requests and the interrupt line with what hangs on it.  All other fields stay.
\<close>

definition same_rest :: "rtc_t \<Rightarrow> rtc_t \<Rightarrow> bool" where
  "same_rest r r' \<longleftrightarrow> r' = r\<lparr>r_regs := r_regs r', r_stat := r_stat r', r_irq_state := r_irq_state r',
     r_smi_status := r_smi_status r', r_ecount := r_ecount r', r_intclk := r_intclk r', r_pics := r_pics r',
     r_reqs := r_reqs r'\<rparr>"

definition untouched :: "rtc_t \<Rightarrow> rtc_t" where
  "untouched r = r\<lparr>r_regs := [], r_stat := 0, r_irq_state := False, r_smi_status := False, r_ecount := 0,
     r_intclk := undefined, r_pics := undefined, r_reqs := []\<rparr>"

lemma same_restI: "untouched r' = untouched r \<Longrightarrow> same_rest r r'"
  unfolding untouched_def same_rest_def by (cases r; cases r') simp

lemma untouched_fields [simp]:
  "untouched (set_creg n v r) = untouched r" "untouched (request q r) = untouched r"
  "untouched (r\<lparr>r_intclk := c\<rparr>) = untouched r" "untouched (r\<lparr>r_ecount := w\<rparr>) = untouched r"
  "untouched (r\<lparr>r_stat := b\<rparr>) = untouched r" "untouched (r\<lparr>r_irq_state := st\<rparr>) = untouched r"
  "untouched (r\<lparr>r_pics := s\<rparr>) = untouched r" "untouched (r\<lparr>r_smi_status := m\<rparr>) = untouched r"
  unfolding untouched_def set_creg_def request_def by (cases r; simp)+

lemma untouched_time_set [simp]: "untouched (time_set t r) = untouched r"
  by (simp add: time_set_def Let_def)

lemma smi_status_set [simp]: "r_smi_status (set_creg n v r) = r_smi_status r"
  "r_smi_status (time_set t r) = r_smi_status r" "r_smi_enable (set_creg n v r) = r_smi_enable r"
  "r_smi_enable (time_set t r) = r_smi_enable r"
  by (simp_all add: time_set_def set_creg_def Let_def)

lemma untouched_tick [simp]: "untouched (nvr_timer_tick r) = untouched r"
  by (simp add: nvr_timer_tick_def Let_def)

lemma untouched_update_irq: "timer_update_irq r = Some r' \<Longrightarrow> untouched r' = untouched r"
  by (auto simp: timer_update_irq_def Let_def case_prod_beta bind_eq_Some_conv split: if_splits)

lemma untouched_update: "timer_update r = Some r' \<Longrightarrow> untouched r' = untouched r"
  by (auto simp: timer_update_def Let_def bind_eq_Some_conv dest!: untouched_update_irq split: if_splits)

text \<open>
  How the interrupt line follows a change of register C: the request flag and the line say whether an
  enabled cause is set; the controllers are told, and the SMI raised where it is enabled, exactly when
  the line is evaluated and asserted.
\<close>

definition assert_line :: "bool \<Rightarrow> bool \<Rightarrow> pics \<Rightarrow> pics" where
  "assert_line smi st s = (let s = snd (picintlevel (sh 8) st s) in if smi then effect SmiRaise s else s)"

definition line_follows :: "bool \<Rightarrow> rtc_t \<Rightarrow> rtc_t \<Rightarrow> bool" where
  "line_follows told r r' \<longleftrightarrow> r_irq_state r' = (creg 11 r' AND creg 12 r' AND 0x70 \<noteq> 0) \<and>
     bit (creg 12 r') 7 = r_irq_state r' \<and>
     (if told \<and> r_irq_state r' then r_pics r' = assert_line (r_smi_enable r) (r_irq_state r) (r_pics r) \<and>
        r_smi_status r' = (r_smi_status r \<or> r_smi_enable r)
      else r_pics r' = r_pics r \<and> r_smi_status r' = r_smi_status r)"

lemma line_follows_cong:
  assumes "line_follows told r r'" and "r_regs s' = r_regs r'" and "r_irq_state s' = r_irq_state r'"
    and "r_pics s' = r_pics r'" and "r_smi_status s' = r_smi_status r'" and "r_irq_state s = r_irq_state r"
    and "r_pics s = r_pics r" and "r_smi_status s = r_smi_status r" and "r_smi_enable s = r_smi_enable r"
  shows "line_follows told s s'"
  using assms by (simp add: line_follows_def creg_def)

lemma update_irq_line:
  assumes "rtc_ok r" and "r_irq_state r \<longrightarrow> irq_wanted r" and "timer_update_irq r = Some r'"
  shows "if irq_wanted r then r_pics r' = assert_line (r_smi_enable r) (r_irq_state r) (r_pics r) \<and>
      r_smi_status r' = (r_smi_status r \<or> r_smi_enable r) else r_pics r' = r_pics r \<and> r_smi_status r' = r_smi_status r"
  using assms by (auto simp: timer_update_irq_def assert_line_def irq_wanted_def rtc_ok_def irq_num_def Let_def
      case_prod_beta set_creg_def split: if_splits)

lemma flag_update_line:
  assumes "rtc_ok r" and "irq_inv r" and "\<not> bit v 7"
    and "timer_update_irq (set_creg 12 (creg 12 r OR v) r) = Some r'"
  shows "line_follows True r r'"
proof -
  let ?q = "set_creg 12 (creg 12 r OR v) r"
  have len: "length (r_regs r) = 512" using assms(1) by (simp add: rtc_ok_def rtc_wf_def)
  have ok: "rtc_ok ?q" using assms(1) len by (auto simp: rtc_ok_def)
  have mono: "a AND (b OR v) AND m = 0 \<Longrightarrow> a AND b AND m = 0" for a b m :: u8
    by (simp add: bit_eq_iff bit_simps) blast
  have w: "r_irq_state ?q \<longrightarrow> irq_wanted ?q"
    using assms(2) len mono [of "creg 11 r" "creg 12 r" "0x70"] by (auto simp add: irq_inv_def irq_wanted_def)
  have inv: "irq_inv r'" using flag_then_update [OF assms] by blast
  have "bit (creg 12 ?q) 7 \<longrightarrow> r_irq_state ?q" using assms(2,3) len by (auto simp: irq_inv_def bit_simps)
  then obtain s m where "timer_update_irq ?q = Some ((set_creg 12 ((creg 12 ?q AND NOT 0x80) OR (if irq_wanted ?q then 0x80 else 0)) ?q)
      \<lparr>r_irq_state := irq_wanted ?q, r_pics := s, r_smi_status := m\<rparr>)"
    using update_irq_inv [OF ok] by metis
  with assms(4) have "irq_wanted ?q = r_irq_state r'" by auto
  then show ?thesis using update_irq_line [OF ok w assms(4)] inv
    by (auto simp: line_follows_def irq_inv_def irq_wanted_def)
qed

lemma update_delays_differ:
  fixes u :: u64
  assumes "0 < unat u" and "unat u < 2 ^ 50"
  shows "1984 * u \<noteq> 244 * u"
proof -
  have "unat (1984 * u) = 1984 * unat u" "unat (244 * u) = 244 * unat u"
    using assms(2) by (simp_all add: unat_mult_lem [where ?'a = 64, THEN iffD1])
  then have "unat (244 * u) < unat (1984 * u)" using assms(1) by simp
  then show ?thesis by (metis less_irrefl)
qed

text \<open>The registers after an update: the new time everywhere but in the century register.\<close>

definition updated :: "tm \<Rightarrow> rtc_t \<Rightarrow> nat \<Rightarrow> u8" where
  "updated t r n = (if r_cent r \<noteq> 0xff \<and> n = unat (r_cent r) then creg n r else stored t r n)"

lemma alarm_cong:
  assumes "\<And>n. n \<noteq> 12 \<Longrightarrow> creg n r' = creg n r" and "r_cent r' = r_cent r"
  shows "alarm_matches r' = alarm_matches r"
  using assms by (simp add: alarm_matches_def check_alarm_def check_alarm_via_def)

text \<open>The first half of the update.\<close>

lemma update_first_half:
  assumes "rtc_ok r" and "irq_inv r" and "r_ecount r = 244 * r_timer_usec r" and "rtc_tick (r_intclk r) = Some c"
  obtains q where "timer_update r = Some q" "rtc_ok q" "irq_inv q" "r_intclk q = c" "r_stat q = r_stat r"
    "r_timer_usec q = r_timer_usec r" "r_cent q = r_cent r" "r_ecount q = 1984 * r_timer_usec r"
    "r_reqs q = r_reqs r @ [Delay Update (1984 * r_timer_usec r)]"
    "\<And>n. n \<noteq> 12 \<Longrightarrow> creg n q = updated (nvr_time_get c) r n"
    "\<And>k. k < 7 \<Longrightarrow> bit (creg 12 q) k = (bit (creg 12 r) k \<or> k = 5 \<and> alarm_matches q)"
    "line_follows (alarm_matches q) r q"
proof -
  let ?r = "r\<lparr>r_intclk := c\<rparr>"
  define p where "p = time_set (nvr_time_get c) ?r"
  define p' where "p' = (if r_cent p \<noteq> 0xff then set_creg (unat (r_cent p)) (if r_cent ?r = 0xff then 0 else creg (unat (r_cent ?r)) ?r) p else p)"
  have cr: "creg n ?r = creg n r" "stored t ?r n = stored t r n" for n t
    by (simp_all add: creg_def stored_def rtc_enc_def enc_hour_def)
  have ok: "rtc_ok ?r" using quiet_fields(1) assms(1) by (metis quiet_step_def)
  have "quiet_step r p" unfolding p_def using quiet_trans [OF quiet_fields(1) quiet_time_set [OF ok]] .
  moreover have cent: "unat (r_cent p) \<noteq> 11" "unat (r_cent p) \<noteq> 12" using assms(1) by (auto simp: p_def rtc_ok_def rtc_wf_def)
  then have "quiet_step p p'" unfolding p'_def by (auto intro: quiet_set_creg)
  ultimately have "quiet_step r p'" by (rule quiet_trans)
  then have p': "rtc_ok p'" "irq_inv p'" "creg 12 p' = creg 12 r"
    using quiet_inv [OF _ assms(1,2)] by (blast, blast, simp add: quiet_step_def)
  have pf: "r_stat p' = r_stat r" "r_reqs p' = r_reqs r" "r_intclk p' = c" "r_timer_usec p' = r_timer_usec r" "r_cent p' = r_cent r"
    by (simp_all add: p'_def p_def)
  have "length (r_regs p) = 512" "rtc_wf ?r" using ok by (simp_all add: p_def rtc_ok_def rtc_wf_def)
  then have pc: "creg n p' = updated (nvr_time_get c) r n" for n
    using unsigned_less [of "r_cent r", where ?'a = nat]
    by (simp add: p'_def updated_def p_def creg_time_set cr)
  have eq: "timer_update r = Option.bind (if alarm_matches p' then timer_update_irq (set_creg 12 (creg 12 p' OR 0x20) p') else Some p')
      (\<lambda>q. Some (request (Delay Update (r_ecount (q\<lparr>r_ecount := 1984 * r_timer_usec q\<rparr>))) (q\<lparr>r_ecount := 1984 * r_timer_usec q\<rparr>)))"
    unfolding timer_update_def if_P [OF assms(3)] assms(4) bind.bind_lunit Let_def p_def [symmetric] p'_def [symmetric] ..
  have "\<exists>w. (if alarm_matches p' then timer_update_irq (set_creg 12 (creg 12 p' OR 0x20) p') else Some p') = Some w \<and>
      rtc_ok w \<and> irq_inv w \<and> (\<forall>n. n \<noteq> 12 \<longrightarrow> creg n w = creg n p') \<and>
      (\<forall>k<7. bit (creg 12 w) k = (bit (creg 12 p') k \<or> k = 5 \<and> alarm_matches p')) \<and>
      r_stat w = r_stat p' \<and> r_reqs w = r_reqs p' \<and> r_intclk w = r_intclk p' \<and> r_timer_usec w = r_timer_usec p' \<and> r_cent w = r_cent p'"
  proof (cases "alarm_matches p'")
    case True
    have "bit (0x20 :: u8) k = (k = 5)" if "k < 7" for k
    proof -
      have "k < 8" "k \<noteq> 7" using that by auto
      then show ?thesis by (auto simp: bit_simps dest!: less_8_cases)
    qed
    with True show ?thesis by (rule_tac flag_update_form [OF p'(1,2), of "0x20"]) auto
  next
    case False
    then show ?thesis using p' by simp
  qed
  then obtain w where w: "(if alarm_matches p' then timer_update_irq (set_creg 12 (creg 12 p' OR 0x20) p') else Some p') = Some w"
    "rtc_ok w" "irq_inv w" "\<And>n. n \<noteq> 12 \<Longrightarrow> creg n w = creg n p'"
    "\<And>k. k < 7 \<Longrightarrow> bit (creg 12 w) k = (bit (creg 12 p') k \<or> k = 5 \<and> alarm_matches p')"
    "r_stat w = r_stat p'" "r_reqs w = r_reqs p'" "r_intclk w = r_intclk p'" "r_timer_usec w = r_timer_usec p'" "r_cent w = r_cent p'"
    by blast
  define q where "q = request (Delay Update (r_ecount (w\<lparr>r_ecount := 1984 * r_timer_usec w\<rparr>))) (w\<lparr>r_ecount := 1984 * r_timer_usec w\<rparr>)"
  have tq: "timer_update r = Some q" unfolding eq w(1) q_def by simp
  have qc: "creg n q = creg n w" for n by (simp add: q_def request_def creg_def)
  have qf: "r_cent q = r_cent w" by (simp add: q_def request_def)
  have al: "alarm_matches q = alarm_matches p'"
    using alarm_cong [of q w] alarm_cong [of w p'] qc qf w(4,10) by simp
  have "line_follows (alarm_matches p') p' w"
  proof (cases "alarm_matches p'")
    case True
    then have "timer_update_irq (set_creg 12 (creg 12 p' OR 0x20) p') = Some w" using w(1) by simp
    from flag_update_line [OF p'(1,2) _ this] True show ?thesis by simp
  next
    case False
    then have "w = p'" using w(1) by simp
    then show ?thesis using w(3) False by (simp add: line_follows_def irq_inv_def irq_wanted_def)
  qed
  then have lf: "line_follows (alarm_matches q) r q" unfolding al [symmetric]
    by (rule line_follows_cong) (simp_all add: q_def request_def p'_def p_def)
  have "quiet_step w q" unfolding q_def using quiet_trans [OF quiet_fields(3) quiet_fields(5)] by blast
  then have "rtc_ok q" "irq_inv q" using quiet_inv w(2,3) by blast+
  moreover have "r_intclk q = c" "r_stat q = r_stat r" "r_timer_usec q = r_timer_usec r" "r_cent q = r_cent r"
    "r_ecount q = 1984 * r_timer_usec r" "r_reqs q = r_reqs r @ [Delay Update (1984 * r_timer_usec r)]"
    using w(6-) pf by (simp_all add: q_def request_def)
  moreover have "creg n q = updated (nvr_time_get c) r n" if "n \<noteq> 12" for n using qc w(4) [OF that] pc by simp
  moreover have "bit (creg 12 q) k = (bit (creg 12 r) k \<or> k = 5 \<and> alarm_matches q)" if "k < 7" for k
    using qc w(5) [OF that] p'(3) al by simp
  moreover note lf
  ultimately show thesis using tq by (rule_tac that [of q]) blast+
qed

text \<open>The second half of the update.\<close>

lemma update_second_half:
  assumes "rtc_ok q" and "irq_inv q" and "r_ecount q \<noteq> 244 * r_timer_usec q"
  obtains r where "timer_update q = Some r" "irq_inv r" "r_stat r = 0" "r_ecount r = 0" "r_reqs r = r_reqs q"
    "r_intclk r = r_intclk q" "\<And>n. n \<noteq> 12 \<Longrightarrow> creg n r = creg n q"
    "\<And>k. k < 7 \<Longrightarrow> bit (creg 12 r) k = (bit (creg 12 q) k \<or> k = 4)" "alarm_matches r = alarm_matches q"
    "line_follows True q r" "rtc_ok r"
proof -
  have b4: "\<not> bit (0x10 :: u8) 7" by simp
  obtain w where w: "timer_update_irq (set_creg 12 (creg 12 q OR 0x10) q) = Some w" "irq_inv w"
    "\<And>n. n \<noteq> 12 \<Longrightarrow> creg n w = creg n q" "\<And>k. k < 7 \<Longrightarrow> bit (creg 12 w) k = (bit (creg 12 q) k \<or> bit (0x10 :: u8) k)"
    "r_reqs w = r_reqs q" "r_intclk w = r_intclk q" "r_cent w = r_cent q" "rtc_ok w"
    by (rule flag_update_form [OF assms(1,2) b4]) (rule that)
  define r where "r = w\<lparr>r_stat := 0, r_ecount := 0\<rparr>"
  have run: "timer_update q = Some r" using assms(3) w(1) by (simp add: timer_update_def r_def)
  have r: "creg n r = creg n w" "alarm_matches r = alarm_matches w" for n
    by (simp_all add: r_def creg_def alarm_matches_def check_alarm_def check_alarm_via_def)
  have al: "alarm_matches r = alarm_matches q" unfolding r(2) by (rule alarm_cong) (use w(3,7) in simp_all)
  have inv: "irq_inv r" using w(2) by (simp add: irq_inv_def irq_wanted_def r(1)) (simp add: r_def)
  have follows: "line_follows True q r"
    by (rule line_follows_cong [OF flag_update_line [OF assms(1,2) b4 w(1)]]) (simp_all add: r_def)
  have bits: "bit (creg 12 r) k = (bit (creg 12 q) k \<or> k = 4)" if "k < 7" for k
  proof -
    have "k < 8" using that by simp
    then have "bit (0x10 :: u8) k \<longleftrightarrow> k = 4" by (auto simp: bit_simps dest!: less_8_cases)
    then show ?thesis using w(4) [OF that] r(1) by simp
  qed
  have ok: "rtc_ok r" using w(8) by (simp add: r_def rtc_ok_def rtc_wf_def)
  show thesis
    by (rule that [OF run inv _ _ _ _ _ bits al follows ok]) (simp_all add: r(1) w(3), simp_all add: r_def w(5,6))
qed

text \<open>
  C8.  One second of the chip.  With the oscillator running, no SET and a valid clock, the tick sets the update-in-progress bit
  and schedules the update in 244 microseconds; the update advances the internal clock by one second,
  stores the new time in the registers, sets the alarm flag exactly if the alarm matches, and
  schedules its end in 1984 microseconds; the end sets the update flag and clears the update-in-progress bit.  The century and
  all other registers keep their contents, and so do the other flags of register C; at either step the interrupt line and the
  request flag follow the enabled flags, and the controllers are told when the line is evaluated and asserted
  (\<open>line_follows\<close>).  No other field of the state changes (\<open>same_rest\<close>).
\<close>

theorem rtc_second:
  assumes "rtc_ok r" and "irq_inv r" and "creg 10 r AND 0x70 = 0x20" and "\<not> tst (creg 11 r) 0x80"
    and "valid_tm (r_intclk r)" and "0 < unat (r_timer_usec r)" and "unat (r_timer_usec r) < 2 ^ 50"
  shows "\<exists>c q r'. rtc_tick (r_intclk r) = Some c \<and> seconds c = seconds (r_intclk r) + 1 \<and>
    timer_update (nvr_timer_tick r) = Some q \<and> timer_update q = Some r' \<and>
    r_stat (nvr_timer_tick r) = 0x80 \<and> r_stat q = 0x80 \<and> r_stat r' = 0 \<and> r_intclk r' = c \<and>
    r_reqs r' = r_reqs r @ [Delay Update (244 * r_timer_usec r), Delay Update (1984 * r_timer_usec r)] \<and>
    r_ecount r' = 0 \<and> length (r_regs r') = length (r_regs r) \<and> (\<forall>n. n \<noteq> 12 \<longrightarrow> creg n r' = updated (nvr_time_get c) r n) \<and>
    bit (creg 12 r') 4 \<and> (bit (creg 12 r') 5 \<longleftrightarrow> bit (creg 12 r) 5 \<or> alarm_matches r') \<and>
    (\<forall>k<7. k \<noteq> 4 \<and> k \<noteq> 5 \<longrightarrow> bit (creg 12 r') k = bit (creg 12 r) k) \<and>
    r_irq_state r' = (creg 11 r' AND creg 12 r' AND 0x70 \<noteq> 0) \<and>
    line_follows (alarm_matches r') r q \<and> line_follows True q r' \<and> same_rest r r'"
proof -
  let ?u = "r_timer_usec r"
  obtain c where c: "rtc_tick (r_intclk r) = Some c" "seconds c = seconds (r_intclk r) + 1"
    using rtc_tick_step [OF assms(5)] by blast
  define t where "t = nvr_timer_tick r"
  have t: "t = r\<lparr>r_stat := 0x80, r_ecount := 244 * ?u, r_reqs := r_reqs r @ [Delay Update (244 * ?u)]\<rparr>"
    using assms(3,4) by (simp add: t_def nvr_timer_tick_def request_def Let_def)
  have tok: "rtc_ok t" "irq_inv t" unfolding t_def using quiet_inv [OF quiet_tick assms(1,2)] by simp_all
  have upd: "updated x t n = updated x r n" "creg n t = creg n r" for x n
    by (simp_all add: t updated_def stored_def rtc_enc_def enc_hour_def creg_def)
  obtain q where q: "timer_update t = Some q" "rtc_ok q" "irq_inv q" "r_intclk q = c" "r_stat q = r_stat t"
    "r_timer_usec q = r_timer_usec t" "r_cent q = r_cent t" "r_ecount q = 1984 * r_timer_usec t"
    "r_reqs q = r_reqs t @ [Delay Update (1984 * r_timer_usec t)]"
    "\<And>n. n \<noteq> 12 \<Longrightarrow> creg n q = updated (nvr_time_get c) t n"
    "\<And>k. k < 7 \<Longrightarrow> bit (creg 12 q) k = (bit (creg 12 t) k \<or> k = 5 \<and> alarm_matches q)"
    "line_follows (alarm_matches q) t q"
    by (rule update_first_half [OF tok, of c]) (use c(1) in \<open>simp_all add: t\<close>)
  have ne: "r_ecount q \<noteq> 244 * r_timer_usec q" using update_delays_differ [OF assms(6,7)] q(6,8) by (simp add: t)
  obtain r' where r': "timer_update q = Some r'" "irq_inv r'" "r_stat r' = 0" "r_ecount r' = 0" "r_reqs r' = r_reqs q"
    "r_intclk r' = r_intclk q" "\<And>n. n \<noteq> 12 \<Longrightarrow> creg n r' = creg n q"
    "\<And>k. k < 7 \<Longrightarrow> bit (creg 12 r') k = (bit (creg 12 q) k \<or> k = 4)" "alarm_matches r' = alarm_matches q"
    "line_follows True q r'" "rtc_ok r'" by (rule update_second_half [OF q(2,3) ne]) (rule that)
  have flags: "bit (creg 12 r') 4" "bit (creg 12 r') 5 \<longleftrightarrow> bit (creg 12 r) 5 \<or> alarm_matches r'"
    "\<forall>k<7. k \<noteq> 4 \<and> k \<noteq> 5 \<longrightarrow> bit (creg 12 r') k = bit (creg 12 r) k"
    using r'(8) q(11) upd(2) r'(9) by simp_all
  have follows: "line_follows (alarm_matches r') r q"
    unfolding r'(9) by (rule line_follows_cong [OF q(12)]) (simp_all add: t)
  have rest: "same_rest r r'"
    using untouched_update [OF q(1)] untouched_update [OF r'(1)] by (intro same_restI) (simp add: t_def)
  have line: "r_irq_state r' = (creg 11 r' AND creg 12 r' AND 0x70 \<noteq> 0)"
    using r'(2) by (simp add: irq_inv_def irq_wanted_def)
  have regs: "\<forall>n. n \<noteq> 12 \<longrightarrow> creg n r' = updated (nvr_time_get c) r n" using r'(7) q(10) upd(1) by simp
  have reqs: "r_reqs r' = r_reqs r @ [Delay Update (244 * ?u), Delay Update (1984 * ?u)]" "r_intclk r' = c"
    using r'(5,6) q(4,9) by (simp_all add: t)
  have stat: "r_stat t = 0x80" "r_stat q = 0x80" using q(5) by (simp_all add: t)
  have "length (r_regs r') = length (r_regs r)" using assms(1) r'(11) by (simp add: rtc_ok_def rtc_wf_def)
  then show ?thesis using c q(1) r'(1,3,4,10) flags follows rest line regs reqs stat unfolding t_def by blast
qed

theorem rtc_second_witness:
  "let r = set_creg 11 0x12 (rtc_boot\<lparr>r_intclk := \<lparr>tm_sec = 59, tm_min = 59, tm_hour = 23, tm_mday = 31, tm_mon = 12, tm_year = 1999, tm_wday = 0\<rparr>\<rparr>)
   in rtc_ok r \<and> (\<exists>q r'. timer_update (nvr_timer_tick r) = Some q \<and> timer_update q = Some r' \<and> bit (creg 12 r') 4)"
proof -
  let ?c = "\<lparr>tm_sec = 59, tm_min = 59, tm_hour = 23, tm_mday = 31, tm_mon = 12, tm_year = 1999, tm_wday = 0\<rparr> :: tm"
  let ?b = "rtc_boot\<lparr>r_intclk := ?c\<rparr>"
  let ?r = "set_creg 11 0x12 ?b"
  have len: "length (r_regs ?b) = 512" using rtc_boot_wf(1) by (simp add: rtc_wf_def)
  have "rtc_ok ?b" using quiet_inv [OF quiet_fields(1) rtc_boot_ok] by blast
  then have ok: "rtc_ok ?r" by (simp add: rtc_ok_def)
  have regs: "creg 10 ?r = 0x26" "creg 11 ?r = 0x12" "creg 12 ?r = 0x0f" "\<not> r_irq_state ?r" "r_timer_usec ?r = 2 ^ 32"
  proof -
    have "creg n ?b = creg n rtc_boot" for n by (simp add: creg_def)
    moreover have "creg 12 rtc_boot = 0x0f" "\<not> r_irq_state rtc_boot" by code_simp+
    ultimately show "creg 10 ?r = 0x26" "creg 11 ?r = 0x12" "creg 12 ?r = 0x0f" "\<not> r_irq_state ?r" "r_timer_usec ?r = 2 ^ 32"
      using len rtc_boot_wf by simp_all
  qed
  have inv: "irq_inv ?r" using regs by (simp add: irq_inv_def irq_wanted_def)
  have "valid_tm (r_intclk ?r)" by (simp add: valid_tm_days month_days_def)
  then have "\<exists>q r'. timer_update (nvr_timer_tick ?r) = Some q \<and> timer_update q = Some r' \<and> bit (creg 12 r') 4"
    using rtc_second [OF ok inv] regs by (simp add: tst_def) blast
  then show ?thesis using ok by (simp only: Let_def)
qed

section \<open>CMOS memory\<close>

text \<open>Registers that are plain memory: beyond the clock, and without a special case in the source.\<close>

definition plain_reg :: "u16 \<Rightarrow> rtc_t \<Rightarrow> bool" where
  "plain_reg g r \<longleftrightarrow> 14 \<le> g \<and> g < 0x80 \<and> g \<noteq> 0x32 \<and> g \<noteq> 0x39 \<and> g \<notin> set hack_regs \<and> r_lock r ! unat g = 0 \<and>
    \<not> (0x38 \<le> g \<and> g \<le> 0x3f \<and> r_wp r ! 0)"

lemma index_low:
  fixes i :: u8
  assumes "z = 0x7f \<or> z = 0xff \<or> z = 0x1ff"
  shows "(ucast i AND z) AND 0x7f = (ucast (i AND 0x7f) :: u16)"
proof (rule bit_word_eqI)
  fix n assume "n < LENGTH(16)"
  then have "n < 16" by simp
  then consider "n < 8" | m where "m < 8" "n = m + 8" using less_16_halves by blast
  then show "bit ((ucast i AND z) AND 0x7f) n = bit (ucast (i AND 0x7f) :: u16) n"
    using assms by cases (drule less_8_cases, elim disjE; simp add: bit_simps)+
qed

text \<open>
  C28.  CMOS memory behind ports 0x70 and 0x71.  Selecting a plain register, writing a byte and reading it back gives the byte;
  no other register changes, a change is marked to be saved, and bit 7 of the index masks the NMI.
\<close>

theorem nvr_cmos_roundtrip:
  assumes "rtc_wf r" and "r_size r = 128 \<or> r_size r = 256 \<or> r_size r = 512" and "r_bank r ! 0 = 0"
    and "plain_reg g r" and "g = ucast (i AND 0x7f)" and "\<not> tst (r_flags r) FLAG_NO_NMI"
  shows "\<exists>r1 r2. nvr_write 0x70 i r = Some r1 \<and> nvr_write 0x71 v r1 = Some r2 \<and> nvr_read 0x71 r2 = Some (v, r2) \<and>
    (\<forall>n. n \<noteq> unat g \<longrightarrow> creg n r2 = creg n r) \<and> r_nmi_mask r2 = (\<not> tst i 0x80) \<and>
    (creg (unat g) r \<noteq> v \<and> g \<noteq> ucast (r_cent r) \<longrightarrow> r_dosave r2)"
proof -
  have id: "addr_id 0x70 = 0" "addr_id 0x71 = 0" by (simp_all add: addr_id_def)
  have size: "r_size r - 1 = 0x7f \<or> r_size r - 1 = 0xff \<or> r_size r - 1 = 0x1ff" using assms(2) by auto
  have ix: "nvr_index 0 i r = g" using index_low [OF size, of i] assms(3,5) by (simp add: nvr_index_def Let_def)
  have g: "14 \<le> unat g" "unat g < 128" using assms(4) by (simp_all add: plain_reg_def word_le_nat_alt word_less_nat_alt)
  define r1 where "r1 = r\<lparr>r_addr := (r_addr r)[0 := g], r_nmi_mask := \<not> tst i 0x80\<rparr>"
  have w1: "nvr_write 0x70 i r = Some r1"
    using assms(3,6) by (simp add: nvr_write_def id ix r1_def Let_def)
  have a: "r_addr r1 ! 0 = g" using assms(1) by (cases "r_addr r") (simp_all add: r1_def rtc_wf_def)
  have len: "length (r_regs r1) = 512" "unat g < length (r_lock r1)" "r_lock r1 ! unat g = 0"
    using assms(1,4) g by (simp_all add: r1_def rtc_wf_def plain_reg_def)
  have neq: "g \<noteq> n" if "unat n < 14" for n using g that by auto
  have special: "g \<noteq> 0" "g \<noteq> 10" "g \<noteq> 11" "g \<noteq> 12" "g \<noteq> 13" "g \<noteq> 1" "g \<noteq> 3" "g \<noteq> 5" "\<not> g < 10" "g \<noteq> 0x32" "g \<noteq> 0x39"
    using neq [of 0] neq [of 10] neq [of 11] neq [of 12] neq [of 13] neq [of 1] neq [of 3] neq [of 5] g assms(4)
    by (auto simp: word_less_nat_alt plain_reg_def)
  have hack: "g \<noteq> 0x2c" "g \<noteq> 0x2d" "g \<noteq> 0x52" "g \<noteq> 0x54" "g \<noteq> 0x55" "g \<notin> set hack_regs"
    using assms(4) by (auto simp: plain_reg_def hack_regs_def)
  have wp: "\<not> (0x38 \<le> g \<and> g \<le> 0x3f \<and> r_wp r1 ! 0)" "\<not> 0xb8 \<le> g"
    using assms(4) g by (simp_all add: plain_reg_def r1_def word_le_nat_alt)
  define q where "q = (if creg (unat g) r1 \<noteq> v
      then (if r_cent r1 = 0xff \<or> g \<noteq> ucast (r_cent r1) then (set_creg (unat g) v r1)\<lparr>r_dosave := True\<rparr> else set_creg (unat g) v r1) else r1)"
  have "0x0d \<le> g" "unat g < length (r_regs r1)" using g len(1) by (simp_all add: word_le_nat_alt)
  then have cw: "nvr_reg_common_write g v r1 = Some q"
    unfolding nvr_reg_common_write_def Let_def q_def using len hack wp by auto
  define r2 where "r2 = (if r_cent q \<noteq> 0xff \<and> g = ucast (r_cent q) \<and> creg (unat g) r1 \<noteq> v
    then q\<lparr>r_intclk := nvr_time_set (time_get q)\<rparr> else q)"
  have bank: "r_bank r1 ! 0 = 0" using assms(3) by (simp add: r1_def)
  have w2: "nvr_write 0x71 v r1 = Some r2"
    using special len(1) g bank a cw by (simp add: nvr_write_def id nvr_reg_write_def r2_def)
  have f: "r_regs r2 = r_regs q" "r_lock r2 = r_lock q" "r_addr r2 = r_addr q" "r_bank r2 = r_bank q" "r_bx6 r2 = r_bx6 q"
    "r_nmi_mask r2 = r_nmi_mask q" "r_dosave r2 = r_dosave q" by (simp_all add: r2_def)
  have qf: "r_lock q = r_lock r1" "r_addr q = r_addr r1" "r_bank q = r_bank r1" "r_nmi_mask q = r_nmi_mask r1"
    "length (r_regs q) = 512" using len(1) by (simp_all add: q_def)
  have qc: "creg n q = (if n = unat g then v else creg n r)" for n
  proof -
    have "r_regs q = (if creg (unat g) r1 \<noteq> v then (r_regs r1)[unat g := v] else r_regs r1)"
      by (simp add: q_def set_creg_def)
    moreover have "r_regs r1 = r_regs r" by (simp add: r1_def)
    ultimately show ?thesis using len(1) g by (auto simp: creg_def nth_list_update)
  qed
  have c2: "creg n r2 = creg n q" for n using f(1) by (simp add: creg_def)
  have "nvr_read 0x71 r2 = Some (creg (unat g) r2, r2)"
    using special hack(6) len qf f a g assms(3) by (simp add: nvr_read_def id Let_def r1_def)
  moreover have "creg (unat g) r \<noteq> v \<and> g \<noteq> ucast (r_cent r) \<longrightarrow> r_dosave r2"
    using f(7) by (auto simp: q_def creg_def r1_def)
  ultimately show ?thesis
    using w1 w2 qc c2 f(6) qf(4) by (intro exI [of _ r1] exI [of _ r2]) (simp add: r1_def)
qed

theorem nvr_cmos_roundtrip_witness:
  "\<exists>r1 r2. plain_reg 0x40 rtc_boot \<and> nvr_write 0x70 0xc0 rtc_boot = Some r1 \<and> nvr_write 0x71 0x5a r1 = Some r2 \<and>
    nvr_read 0x71 r2 = Some (0x5a, r2) \<and> \<not> r_nmi_mask r2"
proof -
  have fields: "r_size rtc_boot = 128" "r_bank rtc_boot ! 0 = 0" "r_flags rtc_boot = 0" by code_simp+
  have p: "plain_reg 0x40 rtc_boot" using rtc_boot_wf(7) by (simp add: plain_reg_def hack_regs_def)
  have size: "r_size rtc_boot = 128 \<or> r_size rtc_boot = 256 \<or> r_size rtc_boot = 512" using fields(1) by blast
  have i: "0x40 = ucast ((0xc0 :: u8) AND 0x7f)" and nmi: "\<not> tst (r_flags rtc_boot) FLAG_NO_NMI" "tst (0xc0 :: u8) 0x80"
    using fields(3) by simp_all
  from nvr_cmos_roundtrip [OF rtc_boot_wf(1) size fields(2) p i nmi(1), of "0x5a"] show ?thesis
    using p nmi(2) by blast
qed

text \<open>Registers under a lock keep their contents, and a write to register A is ignored unless it shares a set bit with it.\<close>

lemma nvr_locked_keeps:
  assumes "unat g < length (r_lock r)" and "unat g < length (r_regs r)" and "r_lock r ! unat g \<noteq> 0"
  shows "nvr_reg_common_write g v r = Some r"
  using assms by (simp add: nvr_reg_common_write_def)

lemma rega_write_ignored:
  assumes "rtc_wf r" and "13 < unat (r_cent r)" and "val AND creg 10 r AND 0x7f = 0"
  shows "nvr_reg_write 10 val r = Some r"
proof -
  have "(val AND creg 10 r) AND NOT 0x80 = val AND creg 10 r AND 0x7f"
    by (rule bit_word_eqI) (auto simp: bit_simps dest!: less_8_cases)
  moreover have "10 \<noteq> (ucast (r_cent r) :: u16)"
  proof
    assume "10 = (ucast (r_cent r) :: u16)"
    then have "unat (10 :: u16) = unat (ucast (r_cent r) :: u16)" by simp
    moreover have "unat (ucast (r_cent r) :: u16) = unat (r_cent r)"
      using unsigned_less [of "r_cent r", where ?'a = nat] by (simp add: unsigned_ucast_eq take_bit_nat_eq_self_iff)
    ultimately show False using assms(2) by simp
  qed
  ultimately show ?thesis using assms(1,3) by (simp add: nvr_reg_write_def rtc_wf_def Let_def)
qed

end
