(* ===== verification/Smbus_Piix4.thy ===== *)
theory Smbus_Piix4
  imports I2c_Eeprom Complex_Main
begin

text \<open>
  The SMBus host controller of \<open>device/smbus_piix4.c\<close> (Intel PIIX4 and VIA VT82C686B).  It runs its
  protocols on the I2C bus as modelled in its own theory; \<open>bus\<close> is the global \<open>i2c_smbus\<close>.  The
  response timer is \<open>b_timer\<close>: \<open>None\<close> when disabled, else its delay in microseconds (a C double, a real
  number here).  The requests to the I/O dispatcher are kept in order in \<open>b_io\<close>.  \<open>None\<close> is an access
  outside an array, of this device or of one on the bus.
\<close>

section \<open>State\<close>

definition SMBUS_PIIX4_BLOCK_DATA_SIZE :: nat where "SMBUS_PIIX4_BLOCK_DATA_SIZE = 32"
definition SMBUS_PIIX4_BLOCK_DATA_MASK :: nat where
  "SMBUS_PIIX4_BLOCK_DATA_MASK = SMBUS_PIIX4_BLOCK_DATA_SIZE - 1"

datatype io_req = Io_set u16 | Io_remove u16

record smbus_piix4_t =
  b_via :: bool
  b_io_base :: u16
  b_clock :: int
  b_bit_period :: real
  b_stat :: u8
  b_next_stat :: u8
  b_ctl :: u8
  b_cmd :: u8
  b_addr :: u8
  b_data0 :: u8
  b_data1 :: u8
  b_index :: u8
  b_data :: "u8 list"
  b_timer :: "real option"
  b_io :: "io_req list"

section \<open>Registers\<close>

definition step_index :: "smbus_piix4_t \<Rightarrow> smbus_piix4_t" where
  "step_index d = (let i = b_index d + 1
    in d\<lparr>b_index := (if SMBUS_PIIX4_BLOCK_DATA_SIZE \<le> unat i then 0 else i)\<rparr>)"

definition io_offset :: "u16 \<Rightarrow> smbus_piix4_t \<Rightarrow> int" where
  "io_offset addr d = uint addr - uint (b_io_base d)"

definition smbus_piix4_read :: "u16 \<Rightarrow> smbus_piix4_t \<Rightarrow> (u8 \<times> smbus_piix4_t) option" where
  "smbus_piix4_read addr d =
    (let r = io_offset addr d
     in if r = 0 then Some (b_stat d, d)
        else if r = 2 then Some (b_ctl d, d\<lparr>b_index := 0\<rparr>)
        else if r = 3 then Some (b_cmd d, d)
        else if r = 4 then Some (b_addr d, d)
        else if r = 5 then Some (b_data0 d, d)
        else if r = 6 then Some (b_data1 d, d)
        else if r = 7 then
          (if unat (b_index d) < length (b_data d)
           then Some (b_data d ! unat (b_index d), step_index d) else None)
        else Some (0, d))"

text \<open>Writing ones to the status register clears the bits INTER, DEV_ERR, BUS_ERR and FAILED.\<close>

definition clear_stat :: "u8 \<Rightarrow> u8 \<Rightarrow> u8" where
  "clear_stat val s = foldl (\<lambda>s m. if tst val m then s AND NOT m else s) s [0x02, 0x04, 0x08, 0x10]"

section \<open>Transfers\<close>

text \<open>A write whose acknowledgement is ignored.\<close>

definition send :: "'w i2c_ops \<Rightarrow> i2c_bus_t option \<Rightarrow> u8 \<Rightarrow> u8 \<Rightarrow> 'w \<Rightarrow> 'w option" where
  "send ops bus a v w = map_option snd (i2c_write ops bus a v w)"

definition word_write :: "'w i2c_ops \<Rightarrow> i2c_bus_t option \<Rightarrow> u8 \<Rightarrow> smbus_piix4_t \<Rightarrow> 'w \<Rightarrow> 'w option" where
  "word_write ops bus a d w = do {
    w \<leftarrow> send ops bus a (b_data0 d) w;
    send ops bus a (b_data1 d) w
  }"

definition byte_read ::
  "'w i2c_ops \<Rightarrow> i2c_bus_t option \<Rightarrow> u8 \<Rightarrow> smbus_piix4_t \<Rightarrow> 'w \<Rightarrow> (smbus_piix4_t \<times> 'w) option" where
  "byte_read ops bus a d w = do {
    (v, w) \<leftarrow> i2c_read ops bus a w;
    Some (d\<lparr>b_data0 := v\<rparr>, w)
  }"

definition word_read ::
  "'w i2c_ops \<Rightarrow> i2c_bus_t option \<Rightarrow> u8 \<Rightarrow> smbus_piix4_t \<Rightarrow> 'w \<Rightarrow> (smbus_piix4_t \<times> 'w) option" where
  "word_read ops bus a d w = do {
    (d, w) \<leftarrow> byte_read ops bus a d w;
    (v, w) \<leftarrow> i2c_read ops bus a w;
    Some (d\<lparr>b_data1 := v\<rparr>, w)
  }"

definition byte_rw ::
  "'w i2c_ops \<Rightarrow> i2c_bus_t option \<Rightarrow> u8 \<Rightarrow> bool \<Rightarrow> smbus_piix4_t \<Rightarrow> 'w \<Rightarrow> (smbus_piix4_t \<times> 'w) option" where
  "byte_rw ops bus a rd d w =
    (if rd then byte_read ops bus a d w else do { w \<leftarrow> send ops bus a (b_data0 d) w; Some (d, w) })"

text \<open>The block loops from index \<open>i\<close>; the array index wraps at its size, a refused byte ends a write.\<close>

fun block_read ::
  "'w i2c_ops \<Rightarrow> i2c_bus_t option \<Rightarrow> u8 \<Rightarrow> nat \<Rightarrow> nat \<Rightarrow> smbus_piix4_t \<Rightarrow> 'w \<Rightarrow> (smbus_piix4_t \<times> 'w) option" where
  "block_read ops bus a 0 i d w = Some (d, w)"
| "block_read ops bus a (Suc n) i d w = do {
    (v, w) \<leftarrow> i2c_read ops bus a w;
    block_read ops bus a n (Suc i) (d\<lparr>b_data := (b_data d)[i AND SMBUS_PIIX4_BLOCK_DATA_MASK := v]\<rparr>) w
  }"

fun block_write ::
  "'w i2c_ops \<Rightarrow> i2c_bus_t option \<Rightarrow> u8 \<Rightarrow> nat \<Rightarrow> nat \<Rightarrow> smbus_piix4_t \<Rightarrow> 'w \<Rightarrow> (nat \<times> 'w) option" where
  "block_write ops bus a 0 i d w = Some (i, w)"
| "block_write ops bus a (Suc n) i d w = do {
    (r, w) \<leftarrow> i2c_write ops bus a (b_data d ! (i AND SMBUS_PIIX4_BLOCK_DATA_MASK)) w;
    if r = 0 then Some (i, w) else block_write ops bus a n (Suc i) d w
  }"

section \<open>Protocols\<close>

text \<open>
  The result of a protocol: the pending status, the number of bytes that the timer counts, and the new
  states.  The first byte counted is the address.
\<close>

type_synonym 'w outcome = "(u8 \<times> nat \<times> smbus_piix4_t \<times> 'w) option"

definition process_call :: "'w i2c_ops \<Rightarrow> i2c_bus_t option \<Rightarrow> u8 \<Rightarrow> bool \<Rightarrow> nat \<Rightarrow> smbus_piix4_t \<Rightarrow> 'w \<Rightarrow> 'w outcome" where
  "process_call ops bus a rd n d w = do {
    w \<leftarrow> (if rd then Some w else word_write ops bus a d w);
    (d, w) \<leftarrow> word_read ops bus a d w;
    Some (0x02, n + (if rd then 0 else 2) + 2, d, w)
  }"

definition block_rw :: "'w i2c_ops \<Rightarrow> i2c_bus_t option \<Rightarrow> u8 \<Rightarrow> bool \<Rightarrow> bool \<Rightarrow> nat \<Rightarrow> smbus_piix4_t \<Rightarrow> 'w \<Rightarrow> 'w outcome" where
  "block_rw ops bus a rd smbus n d w = do {
    w \<leftarrow> send ops bus a (b_cmd d) w;
    if rd then do {
      (d, w) \<leftarrow> (if smbus then byte_read ops bus a d w else Some (d, w));
      let len = unat (b_data0 d);
      (d, w) \<leftarrow> block_read ops bus a len 0 d w;
      Some (0x02, n + 1 + len, d, w)
    } else do {
      w \<leftarrow> (if smbus then send ops bus a (b_data0 d) w else Some w);
      (i, w) \<leftarrow> block_write ops bus a (unat (b_data0 d)) 0 d w;
      Some (0x02, n + 1 + i, d, w)
    }
  }"

definition i2c_mode :: "'w i2c_ops \<Rightarrow> i2c_bus_t option \<Rightarrow> u8 \<Rightarrow> bool \<Rightarrow> nat \<Rightarrow> smbus_piix4_t \<Rightarrow> 'w \<Rightarrow> 'w outcome" where
  "i2c_mode ops bus a rd n d w = do {
    w \<leftarrow> (if rd then Some w else word_write ops bus a d w);
    let len = unat (b_data d ! 0);
    (d, w) \<leftarrow> block_read ops bus a len 0 d w;
    Some (0x02, n + (if rd then 0 else 2) + len, d, w)
  }"

definition universal :: "'w i2c_ops \<Rightarrow> i2c_bus_t option \<Rightarrow> u8 \<Rightarrow> nat \<Rightarrow> smbus_piix4_t \<Rightarrow> 'w \<Rightarrow> 'w outcome" where
  "universal ops bus a n d w = do {
    (i, w) \<leftarrow> block_write ops bus a (unat (b_data0 d)) 0 d w;
    let len = unat (b_data1 d);
    (d, w) \<leftarrow> block_read ops bus a len 0 d w;
    Some (0x02, n + i + len, d, w)
  }"

definition protocol :: "'w i2c_ops \<Rightarrow> i2c_bus_t option \<Rightarrow> u8 \<Rightarrow> bool \<Rightarrow> u8 \<Rightarrow> smbus_piix4_t \<Rightarrow> 'w \<Rightarrow> 'w outcome" where
  "protocol ops bus a rd cmd d w =
    (let unknown_protocol = Some (0x04, 0, d, w)
     in if cmd = 0x0 then Some (0x02, 1, d, w)
        else if cmd = 0x1 then do { (d, w) \<leftarrow> byte_rw ops bus a rd d w; Some (0x02, 2, d, w) }
        else if cmd = 0x2 then do {
          w \<leftarrow> send ops bus a (b_cmd d) w;
          (d, w) \<leftarrow> byte_rw ops bus a rd d w;
          Some (0x02, 3, d, w) }
        else if cmd = 0x3 then do {
          w \<leftarrow> send ops bus a (b_cmd d) w;
          (d, w) \<leftarrow> (if rd then word_read ops bus a d w
            else do { w \<leftarrow> word_write ops bus a d w; Some (d, w) });
          Some (0x02, 4, d, w) }
        else if cmd = 0x4 then
          (if \<not> b_via d then unknown_protocol
           else do {
             w \<leftarrow> (if rd then Some w else send ops bus a (b_cmd d) w);
             process_call ops bus a rd (if rd then 1 else 2) d w })
        else if cmd = 0xc then process_call ops bus a rd 1 d w
        else if cmd = 0x5 then block_rw ops bus a rd True 2 d w
        else if cmd = 0xd then block_rw ops bus a rd False 1 d w
        else if cmd = 0x6 then
          (if \<not> b_via d then unknown_protocol
           else do { w \<leftarrow> send ops bus a (b_cmd d) w; i2c_mode ops bus a rd 2 d w })
        else if cmd = 0xe then i2c_mode ops bus a rd 1 d w
        else if cmd = 0xf then universal ops bus a 1 d w
        else unknown_protocol)"

text \<open>The START bit: the number of bytes counted; the \<open>break\<close> without a device skips the stop.\<close>

definition start_command ::
  "'w i2c_ops \<Rightarrow> i2c_bus_t option \<Rightarrow> smbus_piix4_t \<Rightarrow> 'w \<Rightarrow> (nat \<times> smbus_piix4_t \<times> 'w) option" where
  "start_command ops bus d w =
    (let a = drop_bit 1 (b_addr d);
         rd = b_addr d AND 1;
         cmd = drop_bit 2 (b_ctl d) AND 0xf
     in do {
       (r, w) \<leftarrow> i2c_start ops bus a rd w;
       if r = 0 then Some (1, d\<lparr>b_next_stat := 0x04\<rparr>, w)
       else do {
         (s, n, d, w) \<leftarrow> protocol ops bus a (rd \<noteq> 0) cmd d w;
         w \<leftarrow> i2c_stop ops bus a w;
         Some (n, d\<lparr>b_next_stat := s\<rparr>, w)
       }
     })"

text \<open>A pending status is announced by HOST_BUSY and delivered by the timer.\<close>

definition schedule :: "nat \<Rightarrow> smbus_piix4_t \<Rightarrow> smbus_piix4_t" where
  "schedule n d =
    (if b_next_stat d \<noteq> 0
     then d\<lparr>b_stat := 0x01, b_timer := Some (real (1 + n * 9) * b_bit_period d)\<rparr>
     else d)"

definition write_ctl ::
  "'w i2c_ops \<Rightarrow> i2c_bus_t option \<Rightarrow> u8 \<Rightarrow> u8 \<Rightarrow> smbus_piix4_t \<Rightarrow> 'w \<Rightarrow> (nat \<times> smbus_piix4_t \<times> 'w) option" where
  "write_ctl ops bus prev_stat val d w =
    (let d = d\<lparr>b_ctl := val AND (if b_via d then 0x3f else 0x1f)\<rparr>;
         d = (if tst val 0x02 \<and> prev_stat \<noteq> 0 then d\<lparr>b_timer := None, b_stat := 0x10\<rparr> else d)
     in if tst val 0x40 then start_command ops bus d w else Some (0, d, w))"

definition smbus_piix4_write ::
  "'w i2c_ops \<Rightarrow> i2c_bus_t option \<Rightarrow> u16 \<Rightarrow> u8 \<Rightarrow> smbus_piix4_t \<Rightarrow> 'w \<Rightarrow> (smbus_piix4_t \<times> 'w) option" where
  "smbus_piix4_write ops bus addr val d w =
    (let prev_stat = b_next_stat d;
         d = d\<lparr>b_next_stat := 0\<rparr>;
         r = io_offset addr d
     in do {
       (n, d, w) \<leftarrow>
         (if r = 0 then Some (0, d\<lparr>b_stat := clear_stat val (b_stat d)\<rparr>, w)
          else if r = 2 then write_ctl ops bus prev_stat val d w
          else if r = 3 then Some (0, d\<lparr>b_cmd := val\<rparr>, w)
          else if r = 4 then Some (0, d\<lparr>b_addr := val\<rparr>, w)
          else if r = 5 then Some (0, d\<lparr>b_data0 := val\<rparr>, w)
          else if r = 6 then Some (0, d\<lparr>b_data1 := val\<rparr>, w)
          else if r = 7 then
            (if unat (b_index d) < length (b_data d)
             then Some (0, step_index (d\<lparr>b_data := (b_data d)[unat (b_index d) := val]\<rparr>), w) else None)
          else Some (0, d, w));
       Some (schedule n d, w)
     })"

definition smbus_piix4_response :: "smbus_piix4_t \<Rightarrow> smbus_piix4_t" where
  "smbus_piix4_response d = d\<lparr>b_stat := b_next_stat d\<rparr>"

section \<open>Configuration\<close>

definition smbus_piix4_remap :: "u16 \<Rightarrow> bool \<Rightarrow> smbus_piix4_t \<Rightarrow> smbus_piix4_t" where
  "smbus_piix4_remap new_io_base enable d =
    (let d = (if b_io_base d \<noteq> 0 then d\<lparr>b_io := b_io d @ [Io_remove (b_io_base d)]\<rparr> else d);
         d = d\<lparr>b_io_base := new_io_base\<rparr>
     in if enable \<and> b_io_base d \<noteq> 0 then d\<lparr>b_io := b_io d @ [Io_set (b_io_base d)]\<rparr> else d)"

text \<open>A clock of 0, which no caller sets, gives a period of 0 here and infinity in the source.\<close>

definition smbus_piix4_setclock :: "int \<Rightarrow> smbus_piix4_t \<Rightarrow> smbus_piix4_t" where
  "smbus_piix4_setclock clock d = d\<lparr>b_clock := clock, b_bit_period := 1000000 / of_int clock\<rparr>"

text \<open>The device and the new value of \<open>i2c_smbus\<close>.\<close>

definition smbus_piix4_init :: "bool \<Rightarrow> smbus_piix4_t \<times> i2c_bus_t option" where
  "smbus_piix4_init via =
    (smbus_piix4_setclock 16384
       \<lparr>b_via = via, b_io_base = 0, b_clock = 0, b_bit_period = 0, b_stat = 0, b_next_stat = 0, b_ctl = 0,
        b_cmd = 0, b_addr = 0, b_data0 = 0, b_data1 = 0, b_index = 0,
        b_data = replicate SMBUS_PIIX4_BLOCK_DATA_SIZE 0, b_timer = None, b_io = []\<rparr>,
     Some (i2c_addbus (if via then ''smbus_vt82c686b'' else ''smbus_piix4'')))"

text \<open>Closing: \<open>current\<close> tells whether the global still is the bus of this device.\<close>

definition smbus_piix4_close :: "bool \<Rightarrow> i2c_bus_t option \<Rightarrow> i2c_bus_t option \<Rightarrow> i2c_bus_t option \<times> i2c_t list" where
  "smbus_piix4_close current i2c_smbus dev_i2c =
    ((if current then None else i2c_smbus), i2c_removebus dev_i2c)"

section \<open>The host program\<close>

text \<open>
  What happens to the controller: the processor reads and writes its ports, and the response timer
  expires, which does nothing unless it is running.  Reads are collected in order.
\<close>

datatype host_step = In u16 | Out u16 u8 | Expire

definition expire :: "smbus_piix4_t \<Rightarrow> smbus_piix4_t" where
  "expire d = (case b_timer d of None \<Rightarrow> d | Some _ \<Rightarrow> smbus_piix4_response (d\<lparr>b_timer := None\<rparr>))"

fun host_run ::
  "'w i2c_ops \<Rightarrow> i2c_bus_t option \<Rightarrow> host_step list \<Rightarrow> smbus_piix4_t \<Rightarrow> 'w \<Rightarrow> (u8 list \<times> smbus_piix4_t \<times> 'w) option" where
  "host_run ops bus [] d w = Some ([], d, w)"
| "host_run ops bus (In p # xs) d w = do {
    (v, d) \<leftarrow> smbus_piix4_read p d;
    (vs, d, w) \<leftarrow> host_run ops bus xs d w;
    Some (v # vs, d, w)
  }"
| "host_run ops bus (Out p v # xs) d w = do {
    (d, w) \<leftarrow> smbus_piix4_write ops bus p v d w;
    host_run ops bus xs d w
  }"
| "host_run ops bus (Expire # xs) d w = host_run ops bus xs (expire d) w"

end
