(* ===== verification/Smbus_Correct.thy ===== *)
theory Smbus_Correct
  imports Smbus_Piix4
begin

text \<open>
  What the SMBus host controller promises whatever sits on its bus, proved in a locale over the laws
  that the handlers of the devices keep and interpreted on the EEPROM, and the host programs that write
  and read an EEPROM through it.
\<close>

section \<open>Runs that do not fault\<close>

definition ran :: "('a \<Rightarrow> bool) \<Rightarrow> 'a option \<Rightarrow> bool" where
  "ran P x \<longleftrightarrow> (\<exists>y. x = Some y \<and> P y)"

lemma ran_Some [simp]: "ran P (Some y) \<longleftrightarrow> P y"
  by (simp add: ran_def)

lemma ran_bind: "ran Q m \<Longrightarrow> (\<And>y. Q y \<Longrightarrow> ran P (f y)) \<Longrightarrow> ran P (m \<bind> f)"
  by (auto simp: ran_def)

lemma ran_mono: "ran Q m \<Longrightarrow> (\<And>y. Q y \<Longrightarrow> P y) \<Longrightarrow> ran P m"
  by (auto simp: ran_def)

section \<open>Devices that answer\<close>

text \<open>Every device of the bus is an \<open>entry\<close>, at each of the 128 addresses.\<close>

definition served :: "(i2c_t \<Rightarrow> bool) \<Rightarrow> i2c_bus_t option \<Rightarrow> bool" where
  "served entry bus \<longleftrightarrow> (\<forall>a < 128. ran (\<lambda>ds. \<forall>e \<in> set ds. entry e) (devices_at bus a))"

text \<open>
  The contract of the devices: no handler faults in a good state, and it leaves a good state.
\<close>

locale i2c_slaves =
  fixes ops :: "'w i2c_ops" and entry :: "i2c_t \<Rightarrow> bool" and ok :: "'w \<Rightarrow> bool"
  assumes start_law: "entry e \<Longrightarrow> ok w \<Longrightarrow> h_start e = Some f \<Longrightarrow> ran (\<lambda>(r, w). ok w) (o_start ops f a rd (h_priv e) w)"
    and read_law: "entry e \<Longrightarrow> ok w \<Longrightarrow> h_read e = Some f \<Longrightarrow> ran (\<lambda>(r, w). ok w) (o_read ops f a (h_priv e) w)"
    and write_law: "entry e \<Longrightarrow> ok w \<Longrightarrow> h_write e = Some f \<Longrightarrow> ran (\<lambda>(r, w). ok w) (o_write ops f a v (h_priv e) w)"
    and stop_law: "entry e \<Longrightarrow> ok w \<Longrightarrow> h_stop e = Some f \<Longrightarrow> ran ok (o_stop ops f a (h_priv e) w)"
begin

lemma start_all_ran: "\<forall>e \<in> set ds. entry e \<Longrightarrow> ok w \<Longrightarrow> ran (\<lambda>(r, w). ok w) (start_all ops a rd ds r w)"
proof (induction ds arbitrary: r w)
  case (Cons e ds)
  have IH: "ran (\<lambda>(r, w). ok w) (start_all ops a rd ds r w)" if "ok w" for r w
    using Cons.IH Cons.prems(1) that by simp
  show ?case
  proof (cases "h_start e")
    case (Some f)
    with Cons.prems have "ran (\<lambda>(r, w). ok w) (o_start ops f a rd (h_priv e) w)" by (intro start_law) auto
    with Some IH show ?thesis by (auto intro: ran_bind)
  qed (simp add: IH Cons.prems)
qed simp

lemma write_all_ran: "\<forall>e \<in> set ds. entry e \<Longrightarrow> ok w \<Longrightarrow> ran (\<lambda>(r, w). ok w) (write_all ops a v ds r w)"
proof (induction ds arbitrary: r w)
  case (Cons e ds)
  have IH: "ran (\<lambda>(r, w). ok w) (write_all ops a v ds r w)" if "ok w" for r w
    using Cons.IH Cons.prems(1) that by simp
  show ?case
  proof (cases "h_write e")
    case (Some f)
    with Cons.prems have "ran (\<lambda>(r, w). ok w) (o_write ops f a v (h_priv e) w)" by (intro write_law) auto
    with Some IH show ?thesis by (auto intro: ran_bind)
  qed (simp add: IH Cons.prems)
qed simp

lemma read_first_ran: "\<forall>e \<in> set ds. entry e \<Longrightarrow> ok w \<Longrightarrow> ran (\<lambda>(r, w). ok w) (read_first ops a ds w)"
  by (induction ds) (auto split: option.split intro: read_law)

lemma stop_all_ran: "\<forall>e \<in> set ds. entry e \<Longrightarrow> ok w \<Longrightarrow> ran ok (stop_all ops a ds w)"
proof (induction ds arbitrary: w)
  case (Cons e ds)
  have IH: "ran ok (stop_all ops a ds w)" if "ok w" for w
    using Cons.IH Cons.prems(1) that by simp
  show ?case
  proof (cases "h_stop e")
    case (Some f)
    with Cons.prems have "ran ok (o_stop ops f a (h_priv e) w)" by (intro stop_law) auto
    with Some IH show ?thesis by (auto intro: ran_bind)
  qed (simp add: IH Cons.prems)
qed simp

lemma calls_ran:
  assumes "served entry bus" and "ok w" and "a < 128"
  shows "ran (\<lambda>(r, w). ok w) (i2c_start ops bus a rd w)"
    and "ran (\<lambda>(r, w). ok w) (i2c_read ops bus a w)"
    and "ran (\<lambda>(r, w). ok w) (i2c_write ops bus a v w)"
    and "ran ok (i2c_stop ops bus a w)"
proof -
  obtain ds where ds: "devices_at bus a = Some ds" "\<forall>e \<in> set ds. entry e"
    using assms(1,3) by (auto simp: served_def ran_def)
  with assms(2) show "ran (\<lambda>(r, w). ok w) (i2c_start ops bus a rd w)"
    "ran (\<lambda>(r, w). ok w) (i2c_read ops bus a w)"
    "ran (\<lambda>(r, w). ok w) (i2c_write ops bus a v w)" "ran ok (i2c_stop ops bus a w)"
    by (simp_all add: i2c_start_def i2c_read_def i2c_write_def i2c_stop_def
        start_all_ran read_first_ran write_all_ran stop_all_ran)
qed

end

section \<open>The invariant of the host controller\<close>

text \<open>What the transfers leave alone: all but the data registers and the block data.\<close>

definition same_regs :: "smbus_piix4_t \<Rightarrow> smbus_piix4_t \<Rightarrow> bool" where
  "same_regs d e \<longleftrightarrow> b_via e = b_via d \<and> b_io_base e = b_io_base d \<and> b_bit_period e = b_bit_period d \<and>
    b_stat e = b_stat d \<and> b_next_stat e = b_next_stat d \<and> b_ctl e = b_ctl d \<and> b_cmd e = b_cmd d \<and>
    b_addr e = b_addr d \<and> b_index e = b_index d \<and> b_timer e = b_timer d \<and> length (b_data e) = length (b_data d)"

lemma same_regs_simps [simp]:
  "same_regs d d" "same_regs d (e\<lparr>b_data0 := x\<rparr>) \<longleftrightarrow> same_regs d e" "same_regs d (e\<lparr>b_data1 := x\<rparr>) \<longleftrightarrow> same_regs d e"
  "same_regs d (e\<lparr>b_data := (b_data e)[i := v]\<rparr>) \<longleftrightarrow> same_regs d e"
  by (simp_all add: same_regs_def)

lemma same_regs_trans: "same_regs d e \<Longrightarrow> same_regs e f \<Longrightarrow> same_regs d f"
  by (simp add: same_regs_def)

text \<open>
  The registers are in range, and a controller that reports HOST_BUSY has its response timer running:
  for at least one and at most 4600 bit periods, which is 511 bytes.
\<close>

definition host_ok :: "smbus_piix4_t \<Rightarrow> bool" where
  "host_ok d \<longleftrightarrow> length (b_data d) = 32 \<and> unat (b_index d) < 32 \<and> 0 \<le> b_bit_period d \<and>
    b_next_stat d \<in> {0, 2, 4} \<and>
    (bit (b_stat d) 0 \<longrightarrow> b_timer d \<noteq> None) \<and>
    (\<forall>t. b_timer d = Some t \<longrightarrow> b_bit_period d \<le> t \<and> t \<le> 4600 * b_bit_period d)"

lemma host_ok_same_regs: "same_regs d e \<Longrightarrow> host_ok d \<Longrightarrow> host_ok e"
  by (auto simp: same_regs_def host_ok_def)

lemma host_ok_index:
  assumes "host_ok d"
  shows "host_ok (step_index d)" and "host_ok (d\<lparr>b_index := 0\<rparr>)"
proof -
  have "unat (b_index d + 1) = unat (b_index d) + 1"
    using assms by (simp add: host_ok_def unat_add_lem [where ?'a = 8, THEN iffD1])
  then show "host_ok (step_index d)"
    using assms by (simp add: host_ok_def step_index_def Let_def SMBUS_PIIX4_BLOCK_DATA_SIZE_def)
qed (use assms in \<open>simp add: host_ok_def\<close>)

lemma clear_stat_busy: "bit (clear_stat v s) 0 \<longleftrightarrow> bit s 0"
  by (simp add: clear_stat_def bit_simps)

lemma host_ok_regs:
  assumes "host_ok d"
  shows "host_ok (d\<lparr>b_next_stat := 0\<rparr>)" and "host_ok (d\<lparr>b_stat := clear_stat v (b_stat d)\<rparr>)"
    and "host_ok (d\<lparr>b_cmd := v\<rparr>)" and "host_ok (d\<lparr>b_addr := v\<rparr>)" and "host_ok (d\<lparr>b_ctl := v\<rparr>)"
    and "host_ok (d\<lparr>b_timer := None, b_stat := 16\<rparr>)"
    and "n \<in> {0, 2, 4} \<Longrightarrow> host_ok (d\<lparr>b_next_stat := n\<rparr>)"
  using assms by (simp_all add: host_ok_def clear_stat_busy)

lemma host_ok_schedule:
  assumes "host_ok d" and "n \<le> 511"
  shows "host_ok (schedule n d)"
proof -
  have p: "0 \<le> b_bit_period d" using assms(1) by (simp add: host_ok_def)
  have "1 * b_bit_period d \<le> real (1 + n * 9) * b_bit_period d"
    using p by (intro mult_right_mono) simp_all
  moreover have "real (1 + n * 9) * b_bit_period d \<le> 4600 * b_bit_period d"
    using p assms(2) by (intro mult_right_mono) simp_all
  ultimately have "b_bit_period d \<le> real (1 + n * 9) * b_bit_period d \<and>
      real (1 + n * 9) * b_bit_period d \<le> 4600 * b_bit_period d" by simp
  with assms(1) show ?thesis by (auto simp: schedule_def host_ok_def)
qed

lemma expire_not_busy:
  assumes "host_ok d"
  shows "host_ok (expire d)" and "\<not> bit (b_stat (expire d)) 0"
proof -
  have "\<not> bit (b_next_stat d) 0" using assms by (auto simp: host_ok_def)
  with assms show "host_ok (expire d)" "\<not> bit (b_stat (expire d)) 0"
    by (auto simp: expire_def smbus_piix4_response_def host_ok_def split: option.splits)
qed

lemma half_less: "drop_bit 1 (a :: u8) < 128"
proof -
  have "unat (drop_bit 1 a) = unat a div 2" by (simp add: drop_bit_eq_div unat_div)
  moreover have "unat a < 256" using unsigned_less [of a, where ?'a = nat] by simp
  ultimately show ?thesis by (simp add: word_less_nat_alt)
qed

section \<open>No fault and no hang\<close>

context i2c_slaves
begin

lemma send_ran:
  assumes "served entry bus" and "ok w" and "a < 128"
  shows "ran ok (send ops bus a v w)"
  using calls_ran(3) [OF assms, of v] by (auto simp: send_def ran_def)

lemma word_write_ran:
  assumes "served entry bus" and "ok w" and "a < 128"
  shows "ran ok (word_write ops bus a d w)"
  unfolding word_write_def by (intro ran_bind [OF send_ran] send_ran assms)

text \<open>A step that keeps the registers, and one that also counts its bytes.\<close>

abbreviation kept :: "smbus_piix4_t \<Rightarrow> smbus_piix4_t \<times> 'w \<Rightarrow> bool" where
  "kept d \<equiv> \<lambda>(e, w). same_regs d e \<and> ok w"

abbreviation counted :: "smbus_piix4_t \<Rightarrow> nat \<Rightarrow> u8 \<times> nat \<times> smbus_piix4_t \<times> 'w \<Rightarrow> bool" where
  "counted d m \<equiv> \<lambda>(s, n, e, w). s \<in> {2, 4} \<and> n \<le> m \<and> same_regs d e \<and> ok w"

lemma byte_read_ran:
  assumes "served entry bus" and "ok w" and "a < 128" and "same_regs d e"
  shows "ran (kept d) (byte_read ops bus a e w)"
  unfolding byte_read_def using assms(4) by (auto intro!: ran_bind [OF calls_ran(2)] assms)

lemma word_read_ran:
  assumes "served entry bus" and "ok w" and "a < 128" and "same_regs d e"
  shows "ran (kept d) (word_read ops bus a e w)"
  unfolding word_read_def
  by (rule ran_bind [OF byte_read_ran [OF assms]]) (auto intro!: ran_bind [OF calls_ran(2)] assms)

lemma byte_rw_ran:
  assumes "served entry bus" and "ok w" and "a < 128" and "same_regs d e"
  shows "ran (kept d) (byte_rw ops bus a rd e w)"
  unfolding byte_rw_def using byte_read_ran [OF assms] assms(4)
  by (auto intro!: ran_bind [OF send_ran [OF assms(1-3)]])

lemma block_read_ran:
  assumes "served entry bus" and "a < 128"
  shows "ok w \<Longrightarrow> same_regs d e \<Longrightarrow> ran (kept d) (block_read ops bus a n i e w)"
proof (induction n arbitrary: i e w)
  case (Suc n)
  then show ?case by (auto intro!: ran_bind [OF calls_ran(2)] Suc.IH assms)
qed simp

lemma block_write_ran:
  assumes "served entry bus" and "a < 128"
  shows "ok w \<Longrightarrow> ran (\<lambda>(j, w). j \<le> i + n \<and> ok w) (block_write ops bus a n i e w)"
proof (induction n arbitrary: i w)
  case (Suc n)
  have "ran (\<lambda>(j, w). j \<le> i + Suc n \<and> ok w) (block_write ops bus a n (Suc i) e v)" if "ok v" for v
    using Suc.IH [OF that, of "Suc i"] by simp
  then show ?case using Suc.prems by (auto intro!: ran_bind [OF calls_ran(3)] assms)
qed simp

lemma data_byte: "unat (v :: u8) \<le> 255"
  using unsigned_less [of v, where ?'a = nat] by simp

lemma process_call_ran:
  assumes "served entry bus" and "ok w" and "a < 128" and "same_regs d e"
  shows "ran (counted d (n + 4)) (process_call ops bus a rd n e w)"
proof -
  have "ran ok (if rd then Some w else word_write ops bus a e w)"
    using word_write_ran [OF assms(1-3)] assms(2) by simp
  then show ?thesis unfolding process_call_def
    by (rule ran_bind) (auto intro!: ran_bind [OF word_read_ran] assms)
qed

lemma i2c_mode_ran:
  assumes "served entry bus" and "ok w" and "a < 128" and "same_regs d e"
  shows "ran (counted d (n + 257)) (i2c_mode ops bus a rd n e w)"
proof -
  have "ran ok (if rd then Some w else word_write ops bus a e w)"
    using word_write_ran [OF assms(1-3)] assms(2) by simp
  then show ?thesis unfolding i2c_mode_def Let_def
    using data_byte [of "b_data e ! 0"] by (elim ran_bind) (auto intro!: ran_bind [OF block_read_ran] assms)
qed

lemma universal_ran:
  assumes "served entry bus" and "ok w" and "a < 128" and "same_regs d e"
  shows "ran (counted d (n + 510)) (universal ops bus a n e w)"
  unfolding universal_def Let_def
  using data_byte [of "b_data0 e"] data_byte [of "b_data1 e"]
  by (auto intro!: ran_bind [OF block_write_ran] ran_bind [OF block_read_ran] assms)

lemma block_rw_ran:
  assumes "served entry bus" and "ok w" and "a < 128" and "same_regs d e"
  shows "ran (counted d (n + 256)) (block_rw ops bus a rd smbus n e w)"
proof (cases rd)
  case True
  have "ran (kept d) (if smbus then byte_read ops bus a e w else Some (e, w))" if "ok w" for w
    using byte_read_ran [OF assms(1) that assms(3,4)] that assms(4) by simp
  note get = this
  have "ran (counted d (n + 256)) (do {
      (g, v) \<leftarrow> block_read ops bus a (unat (b_data0 f)) 0 f w;
      Some (2, n + 1 + unat (b_data0 f), g, v) })" if "same_regs d f" "ok w" for f w
    using data_byte [of "b_data0 f"] that by (auto intro!: ran_bind [OF block_read_ran] assms)
  then have "ran (counted d (n + 256)) (do {
      (d, w) \<leftarrow> (if smbus then byte_read ops bus a e w else Some (e, w));
      (g, v) \<leftarrow> block_read ops bus a (unat (b_data0 d)) 0 d w;
      Some (2, n + 1 + unat (b_data0 d), g, v) })" if "ok w" for w
    by (intro ran_bind [OF get [OF that]]) auto
  then show ?thesis unfolding block_rw_def Let_def using True
    by (simp only: if_True) (rule ran_bind [OF send_ran [OF assms(1-3)]])
next
  case False
  have "ran ok (if smbus then send ops bus a (b_data0 e) w else Some w)" if "ok w" for w
    using send_ran [OF assms(1) that assms(3)] that by simp
  note put = this
  have "ran (counted d (n + 256)) (do {
      (i, v) \<leftarrow> block_write ops bus a (unat (b_data0 e)) 0 e w;
      Some (2, n + 1 + i, e, v) })" if "ok w" for w
    using data_byte [of "b_data0 e"] that assms(4) by (auto intro!: ran_bind [OF block_write_ran] assms)
  then have "ran (counted d (n + 256)) (do {
      w \<leftarrow> (if smbus then send ops bus a (b_data0 e) w else Some w);
      (i, v) \<leftarrow> block_write ops bus a (unat (b_data0 e)) 0 e w;
      Some (2, n + 1 + i, e, v) })" if "ok w" for w
    by (intro ran_bind [OF put [OF that]]) auto
  then show ?thesis unfolding block_rw_def Let_def using False
    by (simp only: if_False) (rule ran_bind [OF send_ran [OF assms(1-3)]])
qed

lemma command_byte_ran:
  assumes "served entry bus" and "ok w" and "a < 128" and "\<And>w. ok w \<Longrightarrow> ran P (f w)"
  shows "ran P (send ops bus a v w \<bind> f)"
  by (rule ran_bind [OF send_ran [OF assms(1-3)] assms(4)])

lemma counted_mono: "ran (counted d m) x \<Longrightarrow> m \<le> n \<Longrightarrow> ran (counted d n) x"
  by (auto elim!: ran_mono)

lemma counted_known: "ran (kept d) x \<Longrightarrow> n \<le> m \<Longrightarrow> ran (counted d m) (x \<bind> (\<lambda>(d, w). Some (2, n, d, w)))"
  by (auto elim!: ran_bind)

lemma word_rw_ran:
  assumes "served entry bus" and "ok w" and "a < 128"
  shows "ran (kept d) (if rd then word_read ops bus a d w
    else do { w \<leftarrow> word_write ops bus a d w; Some (d, w) })"
  using word_read_ran [OF assms, of d d] by (auto intro!: ran_bind [OF word_write_ran [OF assms]])

lemma protocol_ran:
  assumes "served entry bus" and "ok w" and "a < 128"
  shows "ran (counted d 511) (protocol ops bus a rd cmd d w)"
proof -
  note A = assms(1) _ assms(3)
  have call: "ran (counted d 511) (process_call ops bus a rd n d w)" if "n \<le> 2" "ok w" for n w
    using that by (intro counted_mono [OF process_call_ran [OF A]]) auto
  have mode: "ran (counted d 511) (i2c_mode ops bus a rd n d w)" if "n \<le> 2" "ok w" for n w
    using that by (intro counted_mono [OF i2c_mode_ran [OF A]]) auto
  have block: "ran (counted d 511) (block_rw ops bus a rd s n d w)" if "n \<le> 2" for n s
    using that assms(2) by (intro counted_mono [OF block_rw_ran [OF A]]) auto
  have univ: "ran (counted d 511) (universal ops bus a 1 d w)"
    using assms(2) by (intro counted_mono [OF universal_ran [OF A]]) auto
  have opt: "ran ok (if rd then Some w else send ops bus a (b_cmd d) w)"
    using send_ran [OF assms] assms(2) by simp
  have via: "ran (counted d 511) (do {
      w \<leftarrow> (if rd then Some w else send ops bus a (b_cmd d) w);
      process_call ops bus a rd (if rd then 1 else 2) d w })"
    by (rule ran_bind [OF opt], rule call) simp_all
  have byte: "ran (counted d 511) (do { (d, w) \<leftarrow> byte_rw ops bus a rd d w; Some (2, 2, d, w) })"
    using byte_rw_ran [OF assms, of d d] by (intro counted_known) auto
  have data: "ran (counted d 511) (do {
      w \<leftarrow> send ops bus a (b_cmd d) w; (d, w) \<leftarrow> byte_rw ops bus a rd d w; Some (2, 3, d, w) })"
    using byte_rw_ran [OF A, of _ d d] by (intro command_byte_ran [OF assms] counted_known) auto
  have word: "ran (counted d 511) (do {
      w \<leftarrow> send ops bus a (b_cmd d) w;
      (d, w) \<leftarrow> (if rd then word_read ops bus a d w else do { w \<leftarrow> word_write ops bus a d w; Some (d, w) });
      Some (2, 4, d, w) })"
    by (rule command_byte_ran [OF assms], rule counted_known, rule word_rw_ran [OF A]) simp_all
  have ten: "ran (counted d 511) (do { w \<leftarrow> send ops bus a (b_cmd d) w; i2c_mode ops bus a rd 2 d w })"
    by (rule command_byte_ran [OF assms], rule mode) simp_all
  show ?thesis
    unfolding protocol_def Let_def if_distrib [of "ran (counted d 511)"]
    using byte data word via ten block univ call [OF _ assms(2)] mode [OF _ assms(2)] assms(2) by simp
qed

lemma start_command_ran:
  assumes "served entry bus" and "ok w" and "host_ok d"
  shows "ran (\<lambda>(n, d, w). host_ok d \<and> n \<le> 511 \<and> ok w) (start_command ops bus d w)"
proof -
  define a where "a = drop_bit 1 (b_addr d)"
  have a: "a < 128" by (simp add: a_def half_less)
  note A = assms(1) _ a
  have fin: "ran (\<lambda>(n, d, w). host_ok d \<and> n \<le> 511 \<and> ok w)
      (do { w \<leftarrow> i2c_stop ops bus a w; Some (n, e\<lparr>b_next_stat := s\<rparr>, w) })"
    if "s \<in> {2, 4}" "n \<le> 511" "same_regs d e" "ok w" for s n e w
    using host_ok_regs(7) [OF host_ok_same_regs [OF that(3) assms(3)], of s] that
    by (intro ran_bind [OF calls_ran(4) [OF A]]) auto
  have run: "ran (\<lambda>(n, d, w). host_ok d \<and> n \<le> 511 \<and> ok w)
      (do { (s, n, e, w) \<leftarrow> protocol ops bus a rd cmd d w;
            w \<leftarrow> i2c_stop ops bus a w; Some (n, e\<lparr>b_next_stat := s\<rparr>, w) })" if "ok w" for rd cmd w
    by (rule ran_bind [OF protocol_ran [OF A]]) (use fin that in auto)
  show ?thesis
    unfolding start_command_def Let_def a_def [symmetric]
    using host_ok_regs(7) [OF assms(3), of 4] run
    by (intro ran_bind [OF calls_ran(1) [OF A]] assms) (auto simp del: word_neq_0_conv)
qed

lemma write_ran:
  assumes "served entry bus" and "ok w" and "host_ok d"
  shows "ran (\<lambda>(d, w). host_ok d \<and> ok w) (smbus_piix4_write ops bus p v d w)"
proof -
  define e where "e = d\<lparr>b_next_stat := 0\<rparr>"
  have e: "host_ok e" using host_ok_regs(1) [OF assms(3)] by (simp add: e_def)
  have sched: "ran (\<lambda>(d, w). host_ok d \<and> ok w) (x \<bind> (\<lambda>(n, d, w). Some (schedule n d, w)))"
    if "ran (\<lambda>(n, d, w). host_ok d \<and> n \<le> 511 \<and> ok w) x" for x :: "(nat \<times> smbus_piix4_t \<times> 'w) option"
    by (rule ran_bind [OF that]) (auto simp: host_ok_schedule)
  have ctl: "ran (\<lambda>(n, d, w). host_ok d \<and> n \<le> 511 \<and> ok w) (write_ctl ops bus q v e w)" for q
  proof -
    define f where "f = e\<lparr>b_ctl := v AND (if b_via e then 0x3f else 0x1f)\<rparr>"
    have "host_ok f" using host_ok_regs(5) [OF e] by (simp add: f_def)
    then have "host_ok (if tst v 2 \<and> q \<noteq> 0 then f\<lparr>b_timer := None, b_stat := 0x10\<rparr> else f)"
      using host_ok_regs(6) by simp
    then show ?thesis
      unfolding write_ctl_def Let_def f_def [symmetric]
      using start_command_ran [OF assms(1,2)] assms(2) by simp
  qed
  have "host_ok (step_index (e\<lparr>b_data := (b_data e)[unat (b_index e) := v]\<rparr>))"
    by (rule host_ok_index) (use e in \<open>simp add: host_ok_def\<close>)
  moreover have "unat (b_index e) < length (b_data e)" using e by (simp add: host_ok_def)
  moreover have "host_ok (e\<lparr>b_data0 := v\<rparr>)" "host_ok (e\<lparr>b_data1 := v\<rparr>)"
    using host_ok_same_regs [OF _ e] by simp_all
  ultimately show ?thesis
    unfolding smbus_piix4_write_def Let_def e_def [symmetric]
    using ctl host_ok_regs(2-4) [OF e] e assms(2) by (intro sched) simp
qed

lemma read_ran:
  assumes "host_ok d"
  shows "ran (\<lambda>(v, d). host_ok d) (smbus_piix4_read p d)"
  using host_ok_index [OF assms] assms by (simp add: smbus_piix4_read_def Let_def host_ok_def)

lemma host_run_ran:
  assumes "served entry bus"
  shows "ok w \<Longrightarrow> host_ok d \<Longrightarrow> ran (\<lambda>(vs, d, w). host_ok d \<and> ok w) (host_run ops bus xs d w)"
proof (induction xs arbitrary: d w)
  case (Cons x xs)
  have IH: "ran (\<lambda>(vs, d, w). host_ok d \<and> ok w) (host_run ops bus xs d w)" if "ok w" "host_ok d" for d w
    by (rule Cons.IH [OF that])
  show ?case
  proof (cases x)
    case (In p)
    have "ran (\<lambda>(vs, d, w). host_ok d \<and> ok w) (do {
        (vs, d, w) \<leftarrow> host_run ops bus xs d w; Some (v # vs, d, w) })" if "host_ok d" for v d
      by (rule ran_bind [OF IH [OF Cons.prems(1) that]]) auto
    then show ?thesis using In Cons.prems(2) by (auto intro!: ran_bind [OF read_ran])
  next
    case (Out p v)
    then show ?thesis using IH Cons.prems by (auto intro!: ran_bind [OF write_ran [OF assms]])
  next
    case Expire
    then show ?thesis using IH Cons.prems expire_not_busy(1) by simp
  qed
qed simp

end

section \<open>Port accesses\<close>

lemma port_offset:
  assumes "unat (b_io_base d) \<le> 0xfff0"
  shows "io_offset (b_io_base d) d = 0" and "io_offset (b_io_base d + 2) d = 2" and "io_offset (b_io_base d + 3) d = 3"
    and "io_offset (b_io_base d + 4) d = 4" and "io_offset (b_io_base d + 5) d = 5" and "io_offset (b_io_base d + 6) d = 6"
    and "io_offset (b_io_base d + 7) d = 7"
proof -
  have "int (unat (b_io_base d)) \<le> int 0xfff0" using assms by (simp only: of_nat_le_iff)
  then have "uint (b_io_base d) \<le> 0xfff0" by simp
  then show "io_offset (b_io_base d) d = 0" "io_offset (b_io_base d + 2) d = 2" "io_offset (b_io_base d + 3) d = 3"
    "io_offset (b_io_base d + 4) d = 4" "io_offset (b_io_base d + 5) d = 5" "io_offset (b_io_base d + 6) d = 6"
    "io_offset (b_io_base d + 7) d = 7"
    by (simp_all add: io_offset_def uint_add_lem [where ?'a = 16, THEN iffD1])
qed

lemma offset_fields [simp]:
  "io_offset q (d\<lparr>b_next_stat := s\<rparr>) = io_offset q d" "io_offset q (d\<lparr>b_addr := v\<rparr>) = io_offset q d"
  "io_offset q (d\<lparr>b_cmd := v\<rparr>) = io_offset q d" "io_offset q (d\<lparr>b_data0 := v\<rparr>) = io_offset q d"
  "io_offset q (d\<lparr>b_data1 := v\<rparr>) = io_offset q d"
  "io_offset q (d\<lparr>b_index := v\<rparr>) = io_offset q d" "io_offset q (d\<lparr>b_data := vs\<rparr>) = io_offset q d"
  "io_offset q (d\<lparr>b_stat := v\<rparr>) = io_offset q d" "io_offset q (d\<lparr>b_ctl := v\<rparr>) = io_offset q d"
  "io_offset q (d\<lparr>b_timer := t\<rparr>) = io_offset q d"
  by (simp_all add: io_offset_def)


lemma out_registers:
  "io_offset q d = 3 \<Longrightarrow> smbus_piix4_write ops bus q v d w = Some (d\<lparr>b_next_stat := 0, b_cmd := v\<rparr>, w)"
  "io_offset q d = 4 \<Longrightarrow> smbus_piix4_write ops bus q v d w = Some (d\<lparr>b_next_stat := 0, b_addr := v\<rparr>, w)"
  "io_offset q d = 5 \<Longrightarrow> smbus_piix4_write ops bus q v d w = Some (d\<lparr>b_next_stat := 0, b_data0 := v\<rparr>, w)"
  "io_offset q d = 6 \<Longrightarrow> smbus_piix4_write ops bus q v d w = Some (d\<lparr>b_next_stat := 0, b_data1 := v\<rparr>, w)"
  by (simp_all add: smbus_piix4_write_def schedule_def)

lemma in_registers:
  "io_offset q d = 0 \<Longrightarrow> smbus_piix4_read q d = Some (b_stat d, d)"
  "io_offset q d = 2 \<Longrightarrow> smbus_piix4_read q d = Some (b_ctl d, d\<lparr>b_index := 0\<rparr>)"
  "io_offset q d = 5 \<Longrightarrow> smbus_piix4_read q d = Some (b_data0 d, d)"
  "io_offset q d = 6 \<Longrightarrow> smbus_piix4_read q d = Some (b_data1 d, d)"
  by (simp_all add: smbus_piix4_read_def)

text \<open>Starting a command with control value \<open>v\<close>, and the status that its completion leaves.\<close>

lemma out_start:
  assumes "io_offset q d = 2" and "tst v 0x40" and "\<not> tst v 0x02" and "v AND (if b_via d then 0x3f else 0x1f) = k"
    and "start_command ops bus (d\<lparr>b_next_stat := 0, b_ctl := k\<rparr>) w = Some (n, e\<lparr>b_next_stat := 2\<rparr>, x)"
  shows "host_run ops bus (Out q v # Expire # xs) d w =
    host_run ops bus xs (e\<lparr>b_next_stat := 2, b_stat := 2, b_timer := None\<rparr>) x"
proof -
  have "write_ctl ops bus (b_next_stat d) v (d\<lparr>b_next_stat := 0\<rparr>) w = Some (n, e\<lparr>b_next_stat := 2\<rparr>, x)"
    using assms by (simp add: write_ctl_def del: tst_mask_bits)
  then have "smbus_piix4_write ops bus q v d w = Some (schedule n (e\<lparr>b_next_stat := 2\<rparr>), x)"
    using assms(1) by (simp add: smbus_piix4_write_def)
  moreover have "expire (schedule n (e\<lparr>b_next_stat := 2\<rparr>)) = e\<lparr>b_next_stat := 2, b_stat := 2, b_timer := None\<rparr>"
    by (simp add: schedule_def expire_def smbus_piix4_response_def)
  ultimately show ?thesis by simp
qed

lemma address_bits:
  assumes "a < (128 :: u8)"
  shows "push_bit 1 a AND 1 = 0" and "(push_bit 1 a OR 1) AND 1 = 1"
proof -
  have low: "v AND 1 = of_bool (bit v 0)" for v :: u8 by (simp add: and_one_eq mod_2_eq_odd bit_0)
  show "push_bit 1 a AND 1 = 0" and "(push_bit 1 a OR 1) AND 1 = 1"
    by (simp_all only: low address_byte(3,4) [OF assms] of_bool_eq)
qed

end
