(* ===== verification/Smbus_Eeprom.thy ===== *)
theory Smbus_Eeprom
  imports Smbus_Correct
begin

text \<open>
  EEPROMs behind the SMBus host controller: they keep the contract of the bus devices, so no sequence
  of port accesses faults or hangs, and a block written by the block protocol is read back by it.
\<close>

section \<open>The contract\<close>

text \<open>The EEPROMs with the numbers \<open>P\<close> exist and are well-formed.\<close>

definition eeproms_ok :: "nat set \<Rightarrow> eeproms \<Rightarrow> bool" where
  "eeproms_ok P w \<longleftrightarrow> (\<forall>p \<in> P. \<exists>dev k. w p = Some dev \<and> eeprom_ok k dev)"

definition eeprom_in :: "nat set \<Rightarrow> i2c_t \<Rightarrow> bool" where
  "eeprom_in P e \<longleftrightarrow> (\<exists>p \<in> P. e = eeprom_entry p)"

lemma masked_register:
  assumes "eeprom_ok k dev" and "e_data d = e_data dev" and "e_addr_mask d = e_addr_mask dev"
    and "e_addr_len d = e_addr_len dev" and "e_addr_register d = r AND e_addr_mask dev"
  shows "eeprom_ok k d"
proof -
  have "unat (take_bit k r) = take_bit k (unat r)" by (rule unsigned_take_bit_eq)
  then have "unat (r AND mask k) < 2 ^ k" by (simp add: take_bit_eq_mask [symmetric])
  with assms show ?thesis by (simp add: eeprom_ok_def)
qed

lemma eeprom_steps_ok:
  assumes "eeprom_ok k dev"
  shows "eeprom_ok k (snd (i2c_eeprom_start a rd dev))"
    and "ran (\<lambda>(r, d). eeprom_ok k d) (i2c_eeprom_read a dev)"
    and "ran (\<lambda>(r, d). eeprom_ok k d) (i2c_eeprom_write a v dev)"
    and "eeprom_ok k (i2c_eeprom_stop dev)"
proof -
  show "eeprom_ok k (snd (i2c_eeprom_start a rd dev))"
    using masked_register [OF assms] assms by (auto simp: i2c_eeprom_start_def)
  show "ran (\<lambda>(r, d). eeprom_ok k d) (i2c_eeprom_read a dev)"
    using next_cell_ok(1) [OF assms] assms by (simp add: i2c_eeprom_read_def eeprom_ok_def)
  have "eeprom_ok k (dev\<lparr>e_data := (e_data dev)[unat (e_addr_register dev) := v]\<rparr>)"
    using assms by (simp add: eeprom_ok_def)
  then show "ran (\<lambda>(r, d). eeprom_ok k d) (i2c_eeprom_write a v dev)"
    using next_cell_ok(1) [OF assms] next_cell_ok(1) assms masked_register [OF assms]
    by (simp add: i2c_eeprom_write_def Let_def) (simp add: eeprom_ok_def)
  show "eeprom_ok k (i2c_eeprom_stop dev)" by (rule stop_ok [OF assms])
qed

lemma eeproms_upd: "eeproms_ok P w \<Longrightarrow> eeprom_ok k d \<Longrightarrow> eeproms_ok P (w(p \<mapsto> d))"
  unfolding eeproms_ok_def by auto

interpretation eeprom_slaves: i2c_slaves eeprom_ops "eeprom_in P" "eeproms_ok P" for P
proof (unfold_locales)
  fix e :: i2c_t and w f and a v rd :: u8
  assume "eeprom_in P e" and w: "eeproms_ok P w"
  then obtain p dev k where e: "h_priv e = p" and dev: "w p = Some dev" and ok: "eeprom_ok k dev"
    by (auto simp: eeprom_in_def eeproms_ok_def eeprom_entry_def)
  note steps = eeprom_steps_ok [OF ok]
  show "ran (\<lambda>(r, w). eeproms_ok P w) (o_start eeprom_ops f a rd (h_priv e) w)"
    using eeproms_upd [OF w steps(1)] by (simp add: eeprom_ops_def e dev i2c_eeprom_start_def)
  show "ran (\<lambda>(r, w). eeproms_ok P w) (o_read eeprom_ops f a (h_priv e) w)"
    using steps(2) eeproms_upd [OF w] by (auto simp: eeprom_ops_def e dev intro!: ran_bind [OF steps(2)])
  show "ran (\<lambda>(r, w). eeproms_ok P w) (o_write eeprom_ops f a v (h_priv e) w)"
    using steps(3) eeproms_upd [OF w] by (auto simp: eeprom_ops_def e dev intro!: ran_bind [OF steps(3)])
  show "ran (eeproms_ok P) (o_stop eeprom_ops f a (h_priv e) w)"
    using eeproms_upd [OF w steps(4)] by (simp add: eeprom_ops_def e dev)
qed

text \<open>
  C17. The SMBus host controller never faults and never hangs: whatever a program does to its ports and
  whenever the response timer expires, with well-formed EEPROMs on the bus, every access stays inside the
  arrays, and whenever the status register reports HOST_BUSY the response timer is running, for at
  most 4600 bit periods, and its expiry clears HOST_BUSY.
\<close>

theorem smbus_never_hangs:
  assumes "served (eeprom_in P) bus" and "eeproms_ok P w" and "host_ok d"
  shows "\<exists>vs e v. host_run eeprom_ops bus xs d w = Some (vs, e, v) \<and> eeproms_ok P v \<and>
    length (b_data e) = 32 \<and> unat (b_index e) < 32 \<and>
    (bit (b_stat e) 0 \<longrightarrow>
      (\<exists>t. b_timer e = Some t \<and> t \<le> 4600 * b_bit_period e) \<and> \<not> bit (b_stat (expire e)) 0)"
proof -
  obtain vs e v where run: "host_run eeprom_ops bus xs d w = Some (vs, e, v)" "eeproms_ok P v" and e: "host_ok e"
    using eeprom_slaves.host_run_ran [OF assms, of xs] by (auto simp: ran_def)
  with expire_not_busy(2) [OF e] show ?thesis by (auto simp: host_ok_def)
qed

lemma init_host_ok: "host_ok (fst (smbus_piix4_init via))"
  by (simp add: host_ok_def smbus_piix4_init_def smbus_piix4_setclock_def SMBUS_PIIX4_BLOCK_DATA_SIZE_def)


section \<open>The block data register\<close>

abbreviation put_byte :: "nat \<Rightarrow> u8 \<Rightarrow> u8 list \<Rightarrow> u8 list" where
  "put_byte \<equiv> \<lambda>c v xs. xs[c := v]"

lemma and_block_mask: "i AND SMBUS_PIIX4_BLOCK_DATA_MASK = i mod 32"
proof -
  have "SMBUS_PIIX4_BLOCK_DATA_MASK = mask 5"
    by (simp add: SMBUS_PIIX4_BLOCK_DATA_MASK_def SMBUS_PIIX4_BLOCK_DATA_SIZE_def mask_eq_exp_minus_1)
  moreover have "i AND mask 5 = i mod 2 ^ 5" by (simp only: take_bit_eq_mask [symmetric] take_bit_eq_mod)
  ultimately show ?thesis by simp
qed

lemma unat_ring: "unat (of_nat (i mod 32) :: u8) = i mod 32"
  by (simp add: unat_of_nat)

lemma step_index_ring:
  assumes "unat (b_index d) = i mod 32"
  shows "step_index d = d\<lparr>b_index := of_nat (Suc i mod 32)\<rparr>"
proof -
  have lt: "i mod 32 < 32" by simp
  have "unat (b_index d + 1) = Suc (i mod 32)"
    using assms lt by (simp add: unat_add_lem [where ?'a = 8, THEN iffD1])
  then have "unat (if 32 \<le> unat (b_index d + 1) then 0 else b_index d + 1) = Suc i mod 32"
    using lt by (auto simp: mod_Suc)
  then have "(if 32 \<le> unat (b_index d + 1) then 0 else b_index d + 1) = of_nat (Suc i mod 32)"
    by (simp only: word_unat_eq_iff unat_ring)
  then show ?thesis
    by (simp only: step_index_def Let_def SMBUS_PIIX4_BLOCK_DATA_SIZE_def)
qed

lemma load_block:
  assumes "io_offset p d = 7" and "length (b_data d) = 32" and "b_index d = of_nat (i mod 32)" and "b_next_stat d = 0"
  shows "host_run ops bus (map (Out p) vs @ xs) d w =
    host_run ops bus xs (d\<lparr>b_data := store_seq put_byte 32 (i mod 32) vs (b_data d),
      b_index := of_nat ((i + length vs) mod 32)\<rparr>) w"
  using assms
proof (induction vs arbitrary: d i)
  case (Cons v vs)
  let ?e = "d\<lparr>b_data := (b_data d)[i mod 32 := v], b_index := of_nat (Suc i mod 32)\<rparr>"
  have idx: "unat (b_index d) = i mod 32" using Cons.prems(3) unat_ring by simp
  have "smbus_piix4_write ops bus p v d w = Some (?e, w)"
    using Cons.prems idx
    by (simp add: smbus_piix4_write_def io_offset_def schedule_def step_index_ring [of _ i])
  moreover have "io_offset p ?e = 7" "length (b_data ?e) = 32" "b_index ?e = of_nat (Suc i mod 32)" "b_next_stat ?e = 0"
    using Cons.prems by (simp_all add: io_offset_def)
  note Cons.IH [OF this]
  ultimately show ?case by (simp add: mod_Suc_eq)
next
  case Nil
  then show ?case by (cases d) simp
qed

lemma fetch_block:
  assumes "io_offset p d = 7" and "length (b_data d) = 32" and "b_index d = of_nat (i mod 32)"
  shows "host_run ops bus (replicate n (In p)) d w =
    Some (fetch_seq (!) 32 (i mod 32) n (b_data d), d\<lparr>b_index := of_nat ((i + n) mod 32)\<rparr>, w)"
  using assms
proof (induction n arbitrary: d i)
  case (Suc n)
  let ?e = "d\<lparr>b_index := of_nat (Suc i mod 32)\<rparr>"
  have idx: "unat (b_index d) = i mod 32" using Suc.prems(3) unat_ring by simp
  have "smbus_piix4_read p d = Some (b_data d ! (i mod 32), ?e)"
    using Suc.prems idx by (simp add: smbus_piix4_read_def step_index_ring [of _ i])
  moreover have "io_offset p ?e = 7" "length (b_data ?e) = 32" "b_index ?e = of_nat (Suc i mod 32)"
    using Suc.prems by (simp_all add: io_offset_def)
  note Suc.IH [OF this]
  ultimately show ?case by (simp add: mod_Suc_eq)
qed simp

lemma block_write_acked:
  assumes "bus_writes ops bus a (fetch_seq (!) 32 (i mod 32) n (b_data d)) w = Some (replicate n True, v)"
  shows "block_write ops bus a n i d w = Some (i + n, v)"
  using assms
proof (induction n arbitrary: i w)
  case (Suc n)
  then show ?case by (auto simp: and_block_mask mod_Suc_eq split: bind_splits)
qed simp

lemma block_read_bytes:
  assumes "bus_reads ops bus a n w = Some (vs, v)"
  shows "block_read ops bus a n i d w = Some (d\<lparr>b_data := store_seq put_byte 32 (i mod 32) vs (b_data d)\<rparr>, v)"
  using assms
proof (induction n arbitrary: i d w vs)
  case (Suc n)
  from Suc.prems obtain u z us where "i2c_read ops bus a w = Some (u, z)" and us: "bus_reads ops bus a n z = Some (us, v)"
    and "vs = u # us" by (auto split: bind_splits)
  with Suc.IH [OF us, of "Suc i" "d\<lparr>b_data := (b_data d)[i mod 32 := u]\<rparr>"] show ?case
    by (simp add: and_block_mask mod_Suc_eq)
qed simp


section \<open>Block transfers of one EEPROM\<close>

lemma xfer_one:
  assumes "bus_xfer ops bus a [Wr vs] w = Some ([(k # ks, [])], v)"
  shows "\<exists>r x y. i2c_start ops bus a 0 w = Some (r, x) \<and> (r \<noteq> 0 \<longleftrightarrow> k) \<and>
    bus_writes ops bus a vs x = Some (ks, y) \<and> i2c_stop ops bus a y = Some v"
  using assms by (auto simp: bus_xfer_def split: bind_splits)

lemma writes_cons:
  assumes "bus_writes ops bus a (u # us) w = Some (k # ks, v)"
  shows "\<exists>x. send ops bus a u w = Some x \<and> bus_writes ops bus a us x = Some (ks, v)"
  using assms by (auto simp: send_def split: bind_splits)

lemma smbus_block_out:
  assumes "devices_at bus a = Some [eeprom_entry p]" and "w p = Some dev" and "eeprom_ok k dev" and "k < 12"
    and "e_writable dev \<noteq> 0" and "drop_bit 1 (b_addr d) = a" and "b_addr d AND 1 = 0" and "b_ctl d = 0x14" and "b_cmd d = c"
    and "unat (b_data0 d) = length vs" and "fetch_seq (!) 32 0 (length vs) (b_data d) = vs"
  shows "\<exists>e. start_command eeprom_ops bus d w = Some (3 + length vs, d\<lparr>b_next_stat := 2\<rparr>, w(p \<mapsto> e)) \<and>
    eeprom_ok k e \<and> e_addr_pos e = 0 \<and>
    e_data e = store_seq put_byte (2 ^ k) (cell_of k a [c]) (b_data0 d # vs) (e_data dev)"
proof -
  have len: "length [c] = (if 12 \<le> k then 2 else 1)" using assms(4) by simp
  obtain e where xfer: "bus_xfer eeprom_ops bus a [Wr ([c] @ b_data0 d # vs)] w =
      Some ([(replicate (Suc (length [c] + length (b_data0 d # vs))) True, [])], w(p \<mapsto> e))"
    and e: "eeprom_ok k e \<and> e_addr_pos e = 0 \<and>
      e_data e = store_seq put_byte (2 ^ k) (cell_of k a [c]) (b_data0 d # vs) (e_data dev)"
    using xfer_write [where w = w and p = p and vs = "b_data0 d # vs", OF assms(1-3) len assms(5)] by blast
  have "bus_xfer eeprom_ops bus a [Wr (c # b_data0 d # vs)] w =
      Some ([(True # replicate (Suc (Suc (length vs))) True, [])], w(p \<mapsto> e))"
    using xfer by simp
  from xfer_one [OF this] obtain r x y where st: "i2c_start eeprom_ops bus a 0 w = Some (r, x)" "r \<noteq> 0"
    and ws: "bus_writes eeprom_ops bus a (c # b_data0 d # vs) x = Some (True # True # replicate (length vs) True, y)"
    and sp: "i2c_stop eeprom_ops bus a y = Some (w(p \<mapsto> e))" by auto
  from writes_cons [OF ws] obtain x1 where s1: "send eeprom_ops bus a c x = Some x1"
    and ws1: "bus_writes eeprom_ops bus a (b_data0 d # vs) x1 = Some (True # replicate (length vs) True, y)" by blast
  from writes_cons [OF ws1] obtain x2 where s2: "send eeprom_ops bus a (b_data0 d) x1 = Some x2"
    and ws2: "bus_writes eeprom_ops bus a vs x2 = Some (replicate (length vs) True, y)" by blast
  have bw: "block_write eeprom_ops bus a (length vs) 0 d x2 = Some (length vs, y)"
    using block_write_acked [of eeprom_ops bus a 0 "length vs" d x2 y] ws2 assms(11) by simp
  have "start_command eeprom_ops bus d w = Some (3 + length vs, d\<lparr>b_next_stat := 2\<rparr>, w(p \<mapsto> e))"
    using st s1 s2 bw sp assms(10)
    unfolding start_command_def Let_def assms(6-8)
    by (simp add: protocol_def block_rw_def assms(9))
  with e show ?thesis by blast
qed

lemma smbus_block_in:
  assumes "devices_at bus a = Some [eeprom_entry p]" and "w p = Some dev" and "eeprom_ok k dev" and "k < 12"
    and "e_addr_pos dev = 0" and "drop_bit 1 (b_addr d) = a" and "b_addr d AND 1 = 1" and "b_ctl d = 0x14" and "b_cmd d = c"
    and "fetch_seq (!) (2 ^ k) (cell_of k a [c]) (Suc (length vs)) (e_data dev) = n # vs" and "unat n = length vs"
  shows "\<exists>e. start_command eeprom_ops bus d w = Some (3 + length vs,
    d\<lparr>b_data0 := n, b_data := store_seq put_byte 32 0 vs (b_data d), b_next_stat := 2\<rparr>, w(p \<mapsto> e))"
proof -
  have st: "i2c_start eeprom_ops bus a 1 w = Some (1, w)"
    using eeprom_calls(1) [where w = w and p = p, OF assms(1,2), of 1] assms(2) by (simp add: start_read map_upd_triv)
  have "i2c_eeprom_write a c dev = Some (1, addressed k a [c] dev)"
    using assms(3-5) by (subst write_addr_8 [of _ k]) (simp_all add: eeprom_ok_def addressed_def)
  then have wr: "send eeprom_ops bus a c w = Some (w(p \<mapsto> addressed k a [c] dev))"
    using eeprom_calls(3) [where w = w and p = p, OF assms(1,2)] by (simp add: send_def)
  define z where "z = w(p \<mapsto> addressed k a [c] dev)"
  have z: "z p = Some (addressed k a [c] dev)" and zu: "z(p \<mapsto> e) = w(p \<mapsto> e)" for e by (simp_all add: z_def)
  obtain e where "bus_reads eeprom_ops bus a (Suc (length vs)) z = Some (n # vs, w(p \<mapsto> e))"
    using data_phase_read [where w = z and p = p, OF assms(1) z addressed_ok(1) [OF assms(3)], of "Suc (length vs)"]
    unfolding addressed_ok(2) [OF assms(3)] addressed_fields zu assms(10) by blast
  then obtain y where rd: "i2c_read eeprom_ops bus a z = Some (n, y)"
    and "bus_reads eeprom_ops bus a (length vs) y = Some (vs, w(p \<mapsto> e))" by (auto split: bind_splits)
  then have blk: "block_read eeprom_ops bus a (length vs) 0 (d\<lparr>b_data0 := n\<rparr>) y =
      Some (d\<lparr>b_data0 := n, b_data := store_seq put_byte 32 0 vs (b_data d)\<rparr>, w(p \<mapsto> e))"
    using block_read_bytes [of eeprom_ops bus a "length vs" y vs "w(p \<mapsto> e)" 0 "d\<lparr>b_data0 := n\<rparr>"] by simp
  define u where "u = w(p \<mapsto> e)"
  have sp: "i2c_stop eeprom_ops bus a u = Some (w(p \<mapsto> i2c_eeprom_stop e))"
    using eeprom_calls(4) [where w = u and p = p, OF assms(1)] by (simp add: u_def)
  have "start_command eeprom_ops bus d w = Some (3 + length vs,
      d\<lparr>b_data0 := n, b_data := store_seq put_byte 32 0 vs (b_data d), b_next_stat := 2\<rparr>, w(p \<mapsto> i2c_eeprom_stop e))"
    using st wr [folded z_def] rd blk [folded u_def] sp assms(11)
    unfolding start_command_def Let_def assms(6-8)
    by (simp add: protocol_def block_rw_def byte_read_def assms(9))
  then show ?thesis by blast
qed

section \<open>The host programs\<close>

text \<open>Writing a block: reset the index, load the registers and the data, start, wait, read the status.\<close>

definition block_out :: "u16 \<Rightarrow> u8 \<Rightarrow> u8 \<Rightarrow> u8 list \<Rightarrow> host_step list" where
  "block_out b a c vs =
    [In (b + 2), Out (b + 4) (push_bit 1 a), Out (b + 3) c, Out (b + 5) (of_nat (length vs))] @
    map (Out (b + 7)) vs @ [Out (b + 2) 0x54, Expire, In b]"

text \<open>Reading one: start, wait, read the status, the length and, after resetting the index, the data.\<close>

definition block_in :: "u16 \<Rightarrow> u8 \<Rightarrow> u8 \<Rightarrow> nat \<Rightarrow> host_step list" where
  "block_in b a c n =
    [Out (b + 4) (push_bit 1 a OR 1), Out (b + 3) c, Out (b + 2) 0x54, Expire, In b, In (b + 5), In (b + 2)] @
    replicate n (In (b + 7))"

definition block_loaded :: "u8 \<Rightarrow> u8 \<Rightarrow> u8 list \<Rightarrow> smbus_piix4_t \<Rightarrow> smbus_piix4_t" where
  "block_loaded a c vs d = d\<lparr>b_next_stat := 0, b_ctl := 0x14, b_cmd := c, b_addr := push_bit 1 a,
    b_data0 := of_nat (length vs), b_index := of_nat (length vs mod 32),
    b_data := store_seq put_byte 32 0 vs (b_data d)\<rparr>"

lemma run_block_out:
  assumes "unat (b_io_base d) \<le> 0xfff0" and "length (b_data d) = 32"
    and "start_command ops bus (block_loaded a c vs d) w = Some (n, (block_loaded a c vs d)\<lparr>b_next_stat := 2\<rparr>, x)"
  shows "host_run ops bus (block_out (b_io_base d) a c vs @ xs) d w = do {
    (us, e, y) \<leftarrow> host_run ops bus xs ((block_loaded a c vs d)\<lparr>b_next_stat := 2, b_stat := 2, b_timer := None\<rparr>) x;
    Some (b_ctl d # 2 # us, e, y) }"
proof -
  let ?b = "b_io_base d"
  note off = port_offset [OF assms(1)]
  define e where "e = d\<lparr>b_index := 0, b_addr := push_bit 1 a, b_cmd := c, b_next_stat := 0, b_data0 := of_nat (length vs)\<rparr>"
  define f where "f = e\<lparr>b_data := store_seq put_byte 32 0 vs (b_data d), b_index := of_nat (length vs mod 32)\<rparr>"
  have f: "f\<lparr>b_next_stat := 0, b_ctl := 0x14\<rparr> = block_loaded a c vs d"
    by (simp add: f_def e_def block_loaded_def)
  have head: "host_run ops bus ([In (?b + 2), Out (?b + 4) (push_bit 1 a), Out (?b + 3) c,
      Out (?b + 5) (of_nat (length vs))] @ ys) d w =
    do { (us, g, y) \<leftarrow> host_run ops bus ys e w; Some (b_ctl d # us, g, y) }" for ys
    by (simp add: in_registers out_registers off e_def)
  have load: "host_run ops bus (map (Out (?b + 7)) vs @ ys) e w = host_run ops bus ys f w" for ys
    using load_block [of "?b + 7" e 0 ops bus vs ys w] off assms(2) by (simp add: e_def f_def)
  have run: "host_run ops bus (Out (?b + 2) 0x54 # Expire # ys) f w =
      host_run ops bus ys ((block_loaded a c vs d)\<lparr>b_next_stat := 2, b_stat := 2, b_timer := None\<rparr>) x" for ys
    by (rule out_start [where k = "0x14"]) (simp_all add: f assms(3), simp add: f_def e_def off)
  have "io_offset ?b ((block_loaded a c vs d)\<lparr>b_next_stat := 2, b_stat := 2, b_timer := None\<rparr>) = 0"
    using off by (simp add: block_loaded_def)
  then show ?thesis
    unfolding block_out_def append_assoc head load
    by (simp add: run in_registers cong: option.case_cong split: bind_splits del: host_run.simps(3,4))
qed


definition block_asked :: "u8 \<Rightarrow> u8 \<Rightarrow> smbus_piix4_t \<Rightarrow> smbus_piix4_t" where
  "block_asked a c d = d\<lparr>b_next_stat := 0, b_ctl := 0x14, b_cmd := c, b_addr := push_bit 1 a OR 1\<rparr>"

lemma run_block_in:
  assumes "unat (b_io_base d) \<le> 0xfff0" and "length (b_data d) = 32"
    and "start_command ops bus (block_asked a c d) w = Some (n, e\<lparr>b_next_stat := 2\<rparr>, x)"
    and "b_io_base e = b_io_base d" and "length (b_data e) = 32" and "b_ctl e = 0x14"
  shows "\<exists>g. host_run ops bus (block_in (b_io_base d) a c m) d w =
    Some (2 # b_data0 e # 0x14 # fetch_seq (!) 32 0 m (b_data e), g, x)"
proof -
  let ?b = "b_io_base d"
  note off = port_offset [OF assms(1)]
  define f where "f = d\<lparr>b_addr := push_bit 1 a OR 1, b_next_stat := 0, b_cmd := c\<rparr>"
  have f: "f\<lparr>b_next_stat := 0, b_ctl := 0x14\<rparr> = block_asked a c d" by (simp add: f_def block_asked_def)
  have offe: "io_offset (?b + j) e = io_offset (?b + j) d" for j by (simp add: io_offset_def assms(4))
  define h where "h = e\<lparr>b_next_stat := 2, b_stat := 2, b_timer := None\<rparr>"
  have offh: "io_offset ?b h = 0" "io_offset (?b + 2) h = 2" "io_offset (?b + 5) h = 5" "io_offset (?b + 7) h = 7"
    using off offe offe [of 0] by (simp_all add: h_def)
  have h: "b_stat h = 2" "b_data0 h = b_data0 e" "b_ctl h = 0x14" "b_data h = b_data e"
    by (simp_all add: h_def assms(6))
  have run: "host_run ops bus (Out (?b + 2) 0x54 # Expire # ys) f w = host_run ops bus ys h x" for ys
    unfolding h_def by (rule out_start [where k = "0x14"]) (simp_all add: f assms(3), simp add: f_def off)
  have head: "host_run ops bus (Out (?b + 4) (push_bit 1 a OR 1) # Out (?b + 3) c # ys) d w = host_run ops bus ys f w" for ys
    by (simp add: out_registers off f_def)
  have "host_run ops bus (replicate m (In (?b + 7))) (h\<lparr>b_index := 0\<rparr>) x =
      Some (fetch_seq (!) 32 0 m (b_data e), h\<lparr>b_index := of_nat (m mod 32)\<rparr>, x)"
    using fetch_block [of "?b + 7" "h\<lparr>b_index := 0\<rparr>" 0 ops bus m x] offh h assms(5) by simp
  then have "host_run ops bus (block_in ?b a c m) d w =
      Some (2 # b_data0 e # 0x14 # fetch_seq (!) 32 0 m (b_data e), h\<lparr>b_index := of_nat (m mod 32)\<rparr>, x)"
    unfolding block_in_def append_Cons append_Nil head run
    by (simp add: in_registers offh h)
  then show ?thesis by blast
qed

section \<open>The block round trip\<close>

lemma fetch_one_more:
  assumes "eeprom_ok k dev" and "Suc (length vs) \<le> 2 ^ k"
    and "e_data e = store_seq put_byte (2 ^ k) (cell_of k a bs) (n # vs) (e_data dev)"
  shows "fetch_seq (!) (2 ^ k) (cell_of k a bs) (Suc (length vs)) (e_data e) = n # vs"
  using list_cells.fetch_store_seq [of "e_data dev" "2 ^ k" "cell_of k a bs" "n # vs"] assms
    addressed_ok(3) [OF assms(1), of a bs] by (simp add: eeprom_ok_def)

lemma ring_load: "length xs = 32 \<Longrightarrow> length vs \<le> 32 \<Longrightarrow> fetch_seq (!) 32 0 (length vs) (store_seq put_byte 32 0 vs xs) = vs"
  using list_cells.fetch_store_seq [of xs 32 0 vs] by simp

lemma length_store_seq: "length (store_seq put_byte n c vs xs) = length xs"
  by (induction vs arbitrary: c xs) simp_all

text \<open>
  C13. SMBus block round trip: on a controller whose bus has an idle, writable EEPROM of at most 2 KB alone at
  address \<open>a\<close>, the port program that writes a block of up to 32 bytes by the block protocol ends with status
  INTER, and the one that reads it back ends with INTER, the length of the block and the bytes
  that were written, also when the block rolls over the last cell of the EEPROM.
\<close>

theorem smbus_block_roundtrip:
  assumes "unat (b_io_base d) \<le> 0xfff0" and "length (b_data d) = 32"
    and "devices_at bus a = Some [eeprom_entry p]" and "a < 128" and "w p = Some dev" and "eeprom_ok k dev"
    and "k < 12" and "e_writable dev \<noteq> 0" and "length vs \<le> 32" and "length vs < 2 ^ k"
  shows "\<exists>e v. host_run eeprom_ops bus
      (block_out (b_io_base d) a c vs @ block_in (b_io_base d) a c (length vs)) d w =
    Some ([b_ctl d, 2] @ [2, of_nat (length vs), 0x14] @ vs, e, v)"
proof -
  define n :: u8 where "n = of_nat (length vs)"
  have n: "unat n = length vs" using assms(9) by (simp add: n_def unat_of_nat)
  define ld where "ld = block_loaded a c vs d"
  have ld: "drop_bit 1 (b_addr ld) = a" "b_addr ld AND 1 = 0" "b_ctl ld = 0x14" "b_cmd ld = c" "b_data0 ld = n"
    "fetch_seq (!) 32 0 (length vs) (b_data ld) = vs" "length (b_data ld) = 32" "b_io_base ld = b_io_base d"
    using address_byte [OF assms(4)] address_bits [OF assms(4)] ring_load [OF assms(2,9)] assms(2)
    by (simp_all add: ld_def block_loaded_def n_def length_store_seq del: push_bit_Suc One_nat_def)
  obtain e where out: "start_command eeprom_ops bus ld w = Some (3 + length vs, ld\<lparr>b_next_stat := 2\<rparr>, w(p \<mapsto> e))"
    and e: "eeprom_ok k e" "e_addr_pos e = 0" "e_data e = store_seq put_byte (2 ^ k) (cell_of k a [c]) (n # vs) (e_data dev)"
    using smbus_block_out [where w = w and p = p and d = ld and vs = vs, OF assms(3,5,6,7,8) ld(1-4)] n ld(5,6) by auto
  define z where "z = w(p \<mapsto> e)"
  have z: "z p = Some e" by (simp add: z_def)
  have cell: "fetch_seq (!) (2 ^ k) (cell_of k a [c]) (Suc (length vs)) (e_data e) = n # vs"
    using fetch_one_more [OF assms(6) _ e(3)] assms(10) by simp
  define d2 where "d2 = ld\<lparr>b_next_stat := 2, b_stat := 2, b_timer := None\<rparr>"
  define qd where "qd = block_asked a c d2"
  have qd: "drop_bit 1 (b_addr qd) = a" "b_addr qd AND 1 = 1" "b_ctl qd = 0x14" "b_cmd qd = c"
    "b_data qd = b_data ld" "b_io_base qd = b_io_base d"
    using address_byte [OF assms(4)] address_bits [OF assms(4)]
    by (simp_all add: qd_def block_asked_def d2_def ld(8) del: push_bit_Suc One_nat_def)
  obtain y where inn: "start_command eeprom_ops bus qd z = Some (3 + length vs,
      qd\<lparr>b_data0 := n, b_data := store_seq put_byte 32 0 vs (b_data qd), b_next_stat := 2\<rparr>, z(p \<mapsto> y))"
    using smbus_block_in [where w = z and p = p and d = qd and vs = vs, OF assms(3) z e(1) assms(7) e(2) qd(1-4) cell n] by blast
  have d2: "b_io_base d2 = b_io_base d" "length (b_data d2) = 32" by (simp_all add: d2_def ld)
  obtain g where "host_run eeprom_ops bus (block_in (b_io_base d) a c (length vs)) d2 z =
      Some (2 # n # 0x14 # vs, g, z(p \<mapsto> y))"
    using run_block_in [of d2 eeprom_ops bus a c z "3 + length vs"
        "qd\<lparr>b_data0 := n, b_data := store_seq put_byte 32 0 vs (b_data qd)\<rparr>" "z(p \<mapsto> y)" "length vs"]
      inn [unfolded qd_def] assms(1) d2 qd ld(7) ring_load [of "b_data qd" vs] assms(9)
    by (auto simp: qd_def [symmetric] length_store_seq)
  moreover have "start_command eeprom_ops bus (block_loaded a c vs d) w =
      Some (3 + length vs, (block_loaded a c vs d)\<lparr>b_next_stat := 2\<rparr>, z)"
    using out by (simp add: ld_def z_def)
  note run_block_out [OF assms(1,2) this, of "block_in (b_io_base d) a c (length vs)"]
  ultimately have "host_run eeprom_ops bus
      (block_out (b_io_base d) a c vs @ block_in (b_io_base d) a c (length vs)) d w =
    Some (b_ctl d # 2 # 2 # n # 0x14 # vs, g, z(p \<mapsto> y))"
    by (simp add: d2_def ld_def)
  then show ?thesis by (auto simp: n_def)
qed


lemma small_bus:
  "snd (small_eeprom 1) = Some \<lparr>u_name = ''x'', u_devices = (replicate 128 [])[80 := [eeprom_entry 0]]\<rparr>"
  by code_simp

lemma small_served: "served (eeprom_in {0}) (snd (small_eeprom 1))"
proof -
  have "\<forall>e \<in> set ((replicate 128 [])[80 := [eeprom_entry 0]] ! i). e = eeprom_entry 0" if "i < 128" for i
    using that by (cases "i = 80") simp_all
  then show ?thesis
    by (auto simp: served_def small_bus devices_at_def eeprom_in_def word_less_nat_alt
        simp del: list_update.simps replicate.simps)
qed

lemma small_world: "eeproms_ok {0} [0 \<mapsto> fst (small_eeprom 1)]"
  using small_setup(3) by (auto simp: eeproms_ok_def)

theorem smbus_never_hangs_witness:
  "\<exists>vs e v. host_run eeprom_ops (snd (small_eeprom 1)) [Out 4 0xa0, Out 2 0x48]
      (fst (smbus_piix4_init False)) [0 \<mapsto> fst (small_eeprom 1)] = Some (vs, e, v) \<and> eeproms_ok {0} v \<and>
    length (b_data e) = 32 \<and> unat (b_index e) < 32 \<and>
    (bit (b_stat e) 0 \<longrightarrow>
      (\<exists>t. b_timer e = Some t \<and> t \<le> 4600 * b_bit_period e) \<and> \<not> bit (b_stat (expire e)) 0)"
  by (rule smbus_never_hangs [OF small_served small_world init_host_ok])

theorem smbus_block_roundtrip_witness:
  "\<exists>e v. host_run eeprom_ops (snd (small_eeprom 1))
      (block_out 0x5000 0x50 14 [7, 8, 9] @ block_in 0x5000 0x50 14 3)
      ((fst (smbus_piix4_init True))\<lparr>b_io_base := 0x5000\<rparr>) [0 \<mapsto> fst (small_eeprom 1)] =
    Some ([0, 2] @ [2, 3, 0x14] @ [7, 8, 9], e, v)"
proof -
  let ?d = "(fst (smbus_piix4_init True))\<lparr>b_io_base := 0x5000\<rparr>"
  have "b_io_base ?d = 0x5000" "length (b_data ?d) = 32" "b_ctl ?d = 0"
    by (simp_all add: smbus_piix4_init_def smbus_piix4_setclock_def SMBUS_PIIX4_BLOCK_DATA_SIZE_def)
  moreover have "devices_at (snd (small_eeprom 1)) 0x50 = Some [eeprom_entry 0]" by code_simp
  ultimately show ?thesis
    using smbus_block_roundtrip [of ?d "snd (small_eeprom 1)" "0x50" 0 "[0 \<mapsto> fst (small_eeprom 1)]"
        "fst (small_eeprom 1)" 4 "[7, 8, 9]" 14] small_setup(3,4)
    by (simp add: numeral_3_eq_3)
qed

section \<open>Errors\<close>

text \<open>Without a device at the address, a command of any protocol ends after ten bit periods with DEV_ERR.\<close>

theorem smbus_no_device:
  assumes "io_offset q d = 2" and "devices_at bus (drop_bit 1 (b_addr d)) = Some []" and "tst v 0x40" and "\<not> tst v 0x02"
  shows "\<exists>e. smbus_piix4_write ops bus q v d w = Some (e, w) \<and>
    b_stat e = 1 \<and> b_timer e = Some (10 * b_bit_period d) \<and> b_stat (expire e) = 4"
  using assms
  by (simp add: smbus_piix4_write_def write_ctl_def start_command_def i2c_start_def schedule_def expire_def
      smbus_piix4_response_def del: tst_mask_bits)

text \<open>
  Writing any register while a command is pending drops its completion: the response then leaves the
  status 0, with neither INTER nor an error.
\<close>

theorem smbus_completion_lost:
  assumes "io_offset q d = 3" and "b_timer d = Some t"
  shows "\<exists>e. host_run ops bus [Out q v, Expire] d w = Some ([], e, w) \<and> b_stat e = 0 \<and> b_timer e = None"
  using assms by (simp add: out_registers expire_def smbus_piix4_response_def)

text \<open>KILL raises FAILED also when the command has already completed.\<close>

theorem smbus_kill_completed:
  assumes "io_offset q d = 2" and "b_timer d = None" and "b_next_stat d \<noteq> 0"
  shows "\<exists>e. smbus_piix4_write ops bus q 0x02 d w = Some (e, w) \<and> b_stat e = 0x10"
  using assms by (simp add: smbus_piix4_write_def write_ctl_def schedule_def)

end
