(* ===== verification/Lm75.thy ===== *)
theory Lm75
  imports Smbus_Correct
begin

text \<open>
  The LM75 temperature sensor of \<open>device/hwm_lm75.c\<close> on the SMBus.  The sensors live in a store indexed
  by the \<open>priv\<close> of their bus entries; \<open>temps\<close> are the shared \<open>temperatures\<close>.  An AS99127F monitor that owns
  the sensor (\<open>l_as99127f\<close>, \<open>None\<close> for NULL) is reached by two functions of \<open>hwm_lm78.c\<close>, which are
  the argument \<open>am\<close>.  \<open>None\<close> is an access outside an array.
\<close>

section \<open>State and operations\<close>

record 'm lm75_t =
  l_local :: u32
  l_as99127f :: "'m option"
  l_regs :: "u8 list"
  l_addr_register :: u8
  l_i2c_addr :: "7 word"
  l_i2c_state :: "2 word"
  l_i2c_enabled :: bool

record 'm as99127f_ops =
  am_read :: "'m \<Rightarrow> u8 \<Rightarrow> u8"
  am_write :: "'m \<Rightarrow> u8 \<Rightarrow> u8 \<Rightarrow> u8 \<times> 'm"

definition lm75_i2c_start :: "'m lm75_t \<Rightarrow> u8 \<times> 'm lm75_t" where
  "lm75_i2c_start dev = (1, dev\<lparr>l_i2c_state := 0\<rparr>)"

definition LM75_TEMP_TO_REG :: "u8 \<Rightarrow> u32" where
  "LM75_TEMP_TO_REG t = push_bit 8 (ucast t)"

definition sensor :: "u8 list \<Rightarrow> 'm lm75_t \<Rightarrow> u8 option" where
  "sensor temps dev =
    (let i = unat (drop_bit 8 (l_local dev)) in if i < length temps then Some (temps ! i) else None)"

definition lm75_read :: "u8 list \<Rightarrow> 'm lm75_t \<Rightarrow> u8 \<Rightarrow> u8 option" where
  "lm75_read temps dev r =
    (if r AND 7 = 0 then do { t \<leftarrow> sensor temps dev; Some (ucast (drop_bit 8 (LM75_TEMP_TO_REG t))) }
     else if r AND 7 = 1 then do { t \<leftarrow> sensor temps dev; Some (ucast (LM75_TEMP_TO_REG t)) }
     else Some (l_regs dev ! unat (r AND 7)))"

text \<open>The owner that handles the proprietary registers, if the address register selects one.\<close>

definition owner :: "'m lm75_t \<Rightarrow> 'm option" where
  "owner dev = (if tst (l_addr_register dev) 0x80 then l_as99127f dev else None)"

text \<open>The register that the pointer and the position in the transfer select.\<close>

definition pointed :: "'m lm75_t \<Rightarrow> u8" where
  "pointed dev =
    (let p = l_addr_register dev AND 3; first = (l_i2c_state dev = 1)
     in if p = 0 then (if first then 0 else 1)
        else if p = 1 then 2
        else if p = 2 then (if first then 3 else 4)
        else (if first then 5 else 6))"

definition lm75_i2c_read :: "'m as99127f_ops \<Rightarrow> u8 list \<Rightarrow> 'm lm75_t \<Rightarrow> (u8 \<times> 'm lm75_t) option" where
  "lm75_i2c_read am temps dev =
    (let dev = (if l_i2c_state dev = 0 then dev\<lparr>l_i2c_state := 1\<rparr> else dev)
     in do {
       ret \<leftarrow> (case owner dev of
           Some m \<Rightarrow> Some (am_read am m (l_addr_register dev))
         | None \<Rightarrow> lm75_read temps dev (pointed dev));
       Some (ret, if l_i2c_state dev < 2 then dev\<lparr>l_i2c_state := l_i2c_state dev + 1\<rparr> else dev)
     })"

definition lm75_write :: "u8 \<Rightarrow> u8 \<Rightarrow> 'm lm75_t \<Rightarrow> u8 \<times> 'm lm75_t" where
  "lm75_write r val dev =
    (let reg_idx = r AND 7
     in if reg_idx \<le> 1 \<or> reg_idx = 7 then (0, dev)
        else (1, dev\<lparr>l_regs := (l_regs dev)[unat reg_idx := val]\<rparr>))"

text \<open>The acknowledgement of \<open>lm75_write\<close> is not used; a write by the owner returns at once.\<close>

definition lm75_i2c_write :: "'m as99127f_ops \<Rightarrow> u8 \<Rightarrow> 'm lm75_t \<Rightarrow> u8 \<times> 'm lm75_t" where
  "lm75_i2c_write am data dev =
    (if 2 < l_i2c_state dev \<or> (l_i2c_state dev = 2 \<and> l_addr_register dev AND 3 = 1) then (0, dev)
     else if l_i2c_state dev = 0 then
       (1, if owner dev \<noteq> None \<or> \<not> tst data 0x04
           then dev\<lparr>l_i2c_state := 1, l_addr_register := data\<rparr>
           else dev\<lparr>l_i2c_state := 1\<rparr>)
     else case owner dev of
       Some m \<Rightarrow> (let (r, m) = am_write am m (l_addr_register dev) data in (r, dev\<lparr>l_as99127f := Some m\<rparr>))
     | None \<Rightarrow>
         (let dev = snd (lm75_write (pointed dev) data dev)
          in (1, if l_i2c_state dev = 1 then dev\<lparr>l_i2c_state := 2\<rparr> else dev)))"

section \<open>Registration\<close>

definition lm75_entry :: "nat \<Rightarrow> i2c_t" where
  "lm75_entry priv = \<lparr>h_start = Some 0, h_read = Some 1, h_write = Some 2, h_stop = None, h_priv = priv\<rparr>"

definition lm75_remap :: "nat \<Rightarrow> u8 \<Rightarrow> 'm lm75_t \<Rightarrow> i2c_bus_t option \<Rightarrow> 'm lm75_t \<times> i2c_bus_t option" where
  "lm75_remap priv addr dev bus =
    (let bus = (if l_i2c_enabled dev then i2c_removehandler bus (ucast (l_i2c_addr dev)) 1 (lm75_entry priv) else bus);
         bus = (if addr < 0x80 then i2c_sethandler bus addr 1 (lm75_entry priv) else bus)
     in (dev\<lparr>l_i2c_addr := ucast addr, l_i2c_enabled := \<not> tst addr 0x80\<rparr>, bus))"

definition lm75_reset :: "nat \<Rightarrow> 'm lm75_t \<Rightarrow> i2c_bus_t option \<Rightarrow> 'm lm75_t \<times> i2c_bus_t option" where
  "lm75_reset priv dev bus =
    (let dev = dev\<lparr>l_regs := (l_regs dev)[3 := 0x4b, 5 := 0x50]\<rparr>
     in lm75_remap priv (ucast (l_i2c_addr dev) OR (if l_i2c_enabled dev then 0 else 0x80)) dev bus)"

definition lm75_close :: "nat \<Rightarrow> 'm lm75_t \<Rightarrow> i2c_bus_t option \<Rightarrow> i2c_bus_t option" where
  "lm75_close priv dev bus = snd (lm75_remap priv 0 dev bus)"

definition lm75_init ::
  "nat \<Rightarrow> u32 \<Rightarrow> u8 list \<Rightarrow> i2c_bus_t option \<Rightarrow> ('m lm75_t \<times> i2c_bus_t option \<times> u8 list) option" where
  "lm75_init priv local temps bus =
    (let dev = \<lparr>l_local = local, l_as99127f = None, l_regs = replicate 8 0, l_addr_register = 0,
           l_i2c_addr = ucast (local AND 0x7f), l_i2c_state = 0, l_i2c_enabled = True\<rparr>;
         i = unat (drop_bit 8 local);
         (dev, bus) = lm75_reset priv dev bus
     in if local = 0 then Some (dev, bus, temps)
        else if i < length temps then Some (dev, bus, temps[i := 30])
        else None)"

section \<open>The handlers on the store of sensors\<close>

definition lm75_ops :: "'m as99127f_ops \<Rightarrow> u8 list \<Rightarrow> (nat \<Rightarrow> 'm lm75_t option) i2c_ops" where
  "lm75_ops am temps = \<lparr>
    o_start = (\<lambda>f addr rd p w. do {
      dev \<leftarrow> w p;
      let (r, dev) = lm75_i2c_start dev;
      Some (r, w(p \<mapsto> dev)) }),
    o_read = (\<lambda>f addr p w. do {
      dev \<leftarrow> w p;
      (r, dev) \<leftarrow> lm75_i2c_read am temps dev;
      Some (r, w(p \<mapsto> dev)) }),
    o_write = (\<lambda>f addr data p w. do {
      dev \<leftarrow> w p;
      let (r, dev) = lm75_i2c_write am data dev;
      Some (r, w(p \<mapsto> dev)) }),
    o_stop = (\<lambda>f addr p w. Some w)\<rparr>"

text \<open>A sensor whose registers are complete and whose temperature exists.\<close>

definition lm75_ok :: "u8 list \<Rightarrow> 'm lm75_t \<Rightarrow> bool" where
  "lm75_ok temps dev \<longleftrightarrow> length (l_regs dev) = 8 \<and> sensor temps dev \<noteq> None"

definition lm75s_ok :: "u8 list \<Rightarrow> nat set \<Rightarrow> (nat \<Rightarrow> 'm lm75_t option) \<Rightarrow> bool" where
  "lm75s_ok temps P w \<longleftrightarrow> (\<forall>p \<in> P. \<exists>dev. w p = Some dev \<and> lm75_ok temps dev)"

definition lm75_in :: "nat set \<Rightarrow> i2c_t \<Rightarrow> bool" where
  "lm75_in P e \<longleftrightarrow> (\<exists>p \<in> P. e = lm75_entry p)"


section \<open>The contract of the bus devices\<close>

lemma lm75_steps_ok:
  assumes "lm75_ok temps dev"
  shows "lm75_ok temps (snd (lm75_i2c_start dev))"
    and "ran (\<lambda>(r, d). lm75_ok temps d) (lm75_i2c_read am temps dev)"
    and "lm75_ok temps (snd (lm75_i2c_write am v dev))"
proof -
  have upd: "lm75_ok temps (dev\<lparr>l_i2c_state := s\<rparr>)" "lm75_ok temps (dev\<lparr>l_addr_register := u\<rparr>)"
    "lm75_ok temps (dev\<lparr>l_as99127f := m\<rparr>)" "lm75_ok temps (dev\<lparr>l_i2c_state := s, l_addr_register := u\<rparr>)" for s u m
    using assms by (simp_all add: lm75_ok_def sensor_def)
  show "lm75_ok temps (snd (lm75_i2c_start dev))" using upd by (simp add: lm75_i2c_start_def)
  define e where "e = (if l_i2c_state dev = 0 then dev\<lparr>l_i2c_state := 1\<rparr> else dev)"
  have e: "lm75_ok temps e" using upd assms by (simp add: e_def)
  then have "\<exists>r. lm75_read temps e q = Some r" for q by (auto simp: lm75_ok_def lm75_read_def)
  then obtain r where "lm75_read temps e (pointed e) = Some r" by blast
  moreover have "lm75_ok temps (e\<lparr>l_i2c_state := s\<rparr>)" for s using e by (simp add: lm75_ok_def sensor_def)
  ultimately show "ran (\<lambda>(r, d). lm75_ok temps d) (lm75_i2c_read am temps dev)"
    unfolding lm75_i2c_read_def Let_def e_def [symmetric] using e by (cases "owner e") simp_all
  have "lm75_ok temps (snd (lm75_write q v dev))" for q
    using assms by (auto simp: lm75_write_def lm75_ok_def sensor_def Let_def split: if_splits)
  then have "lm75_ok temps ((snd (lm75_write q v dev))\<lparr>l_i2c_state := s\<rparr>)" "lm75_ok temps (snd (lm75_write q v dev))" for q s
    by (simp_all add: lm75_ok_def sensor_def)
  then show "lm75_ok temps (snd (lm75_i2c_write am v dev))"
    using upd assms by (auto simp: lm75_i2c_write_def Let_def case_prod_beta split: option.split)
qed

lemma lm75s_upd: "lm75s_ok temps P w \<Longrightarrow> lm75_ok temps d \<Longrightarrow> lm75s_ok temps P (w(p \<mapsto> d))"
  unfolding lm75s_ok_def by auto

interpretation lm75_slaves: i2c_slaves "lm75_ops am temps" "lm75_in P" "lm75s_ok temps P"
  for am :: "'m as99127f_ops" and temps P
proof (unfold_locales)
  fix e :: i2c_t and w :: "nat \<Rightarrow> 'm lm75_t option" and f and a v rd :: u8
  assume "lm75_in P e" and w: "lm75s_ok temps P w"
  then obtain p dev where e: "h_priv e = p" "h_stop e = None" and dev: "w p = Some dev" and ok: "lm75_ok temps dev"
    by (auto simp: lm75_in_def lm75s_ok_def lm75_entry_def)
  note steps = lm75_steps_ok [OF ok]
  show "ran (\<lambda>(r, w). lm75s_ok temps P w) (o_start (lm75_ops am temps) f a rd (h_priv e) w)"
    using lm75s_upd [OF w steps(1)] by (simp add: lm75_ops_def e dev lm75_i2c_start_def)
  show "ran (\<lambda>(r, w). lm75s_ok temps P w) (o_read (lm75_ops am temps) f a (h_priv e) w)"
    using lm75s_upd [OF w] by (auto simp: lm75_ops_def e dev intro!: ran_bind [OF steps(2)])
  show "ran (\<lambda>(r, w). lm75s_ok temps P w) (o_write (lm75_ops am temps) f a v (h_priv e) w)"
    using lm75s_upd [OF w steps(3)] by (simp add: lm75_ops_def e dev case_prod_beta)
  show "ran (lm75s_ok temps P) (o_stop (lm75_ops am temps) f a (h_priv e) w)"
    using w by (simp add: lm75_ops_def)
qed

lemma lm75_host_runs:
  assumes "served (lm75_in P) bus" and "lm75s_ok temps P w" and "host_ok d"
  shows "ran (\<lambda>(vs, d, w). host_ok d \<and> lm75s_ok temps P w) (host_run (lm75_ops am temps) bus xs d w)"
  using lm75_slaves.host_run_ran [OF assms] .

section \<open>Word transfers\<close>

lemma lm75_calls:
  assumes "devices_at bus a = Some [lm75_entry p]" and "w p = Some dev"
  shows "i2c_start (lm75_ops am temps) bus a rd w = Some (1, w(p \<mapsto> dev\<lparr>l_i2c_state := 0\<rparr>))"
    and "send (lm75_ops am temps) bus a v w = Some (w(p \<mapsto> snd (lm75_i2c_write am v dev)))"
    and "i2c_read (lm75_ops am temps) bus a w =
      map_option (\<lambda>(r, d). (r, w(p \<mapsto> d))) (lm75_i2c_read am temps dev)"
    and "i2c_stop (lm75_ops am temps) bus a w = Some w"
proof -
  show "i2c_start (lm75_ops am temps) bus a rd w = Some (1, w(p \<mapsto> dev\<lparr>l_i2c_state := 0\<rparr>))"
    using assms by (simp add: single_device [OF assms(1)] lm75_entry_def lm75_ops_def lm75_i2c_start_def)
  show "send (lm75_ops am temps) bus a v w = Some (w(p \<mapsto> snd (lm75_i2c_write am v dev)))"
    using assms by (simp add: send_def single_device [OF assms(1)] lm75_entry_def lm75_ops_def case_prod_beta)
  show "i2c_read (lm75_ops am temps) bus a w =
      map_option (\<lambda>(r, d). (r, w(p \<mapsto> d))) (lm75_i2c_read am temps dev)"
    using assms
    by (auto simp: single_device [OF assms(1)] lm75_entry_def lm75_ops_def map_option_bind bind_map_option
        split: bind_splits option.splits)
  show "i2c_stop (lm75_ops am temps) bus a w = Some w"
    using assms(1) by (simp add: i2c_stop_def lm75_entry_def)
qed

lemma lm75_calls_upd:
  assumes "devices_at bus a = Some [lm75_entry p]"
  shows "send (lm75_ops am temps) bus a v (w(p \<mapsto> u)) = Some (w(p \<mapsto> snd (lm75_i2c_write am v u)))"
    and "i2c_read (lm75_ops am temps) bus a (w(p \<mapsto> u)) =
      map_option (\<lambda>(r, d). (r, w(p \<mapsto> d))) (lm75_i2c_read am temps u)"
    and "i2c_stop (lm75_ops am temps) bus a (w(p \<mapsto> u)) = Some (w(p \<mapsto> u))"
  by (simp_all add: lm75_calls [where p = p and w = "w(p \<mapsto> u)" and dev = u, OF assms])

text \<open>Selecting a register and transferring its two bytes, as the device sees them.\<close>

definition selected :: "u8 \<Rightarrow> 'm lm75_t \<Rightarrow> 'm lm75_t" where
  "selected c dev = dev\<lparr>l_i2c_state := 1, l_addr_register := c\<rparr>"

lemma select_register:
  assumes "l_as99127f dev = None" and "\<not> tst c 0x04"
  shows "snd (lm75_i2c_write am c (dev\<lparr>l_i2c_state := 0\<rparr>)) = selected c dev"
  using assms by (simp add: lm75_i2c_write_def selected_def owner_def del: tst_mask_bits)

text \<open>The number of the first register of the pair that \<open>c\<close> points to.\<close>

definition pair_of :: "u8 \<Rightarrow> nat" where
  "pair_of c = (if c AND 3 = 0 then 0 else if c AND 3 = 2 then 3 else 5)"

lemma owner_None: "l_as99127f dev = None \<Longrightarrow> owner dev = None"
  by (simp add: owner_def)

lemma lm75_write_numbered:
  "lm75_write 3 v dev = (1, dev\<lparr>l_regs := (l_regs dev)[3 := v]\<rparr>)" "lm75_write 4 v dev = (1, dev\<lparr>l_regs := (l_regs dev)[4 := v]\<rparr>)"
  "lm75_write 5 v dev = (1, dev\<lparr>l_regs := (l_regs dev)[5 := v]\<rparr>)" "lm75_write 6 v dev = (1, dev\<lparr>l_regs := (l_regs dev)[6 := v]\<rparr>)"
  by (simp_all add: lm75_write_def word_le_nat_alt)

lemma lm75_read_numbered:
  "lm75_read temps dev 3 = Some (l_regs dev ! 3)" "lm75_read temps dev 4 = Some (l_regs dev ! 4)"
  "lm75_read temps dev 5 = Some (l_regs dev ! 5)" "lm75_read temps dev 6 = Some (l_regs dev ! 6)"
  by (simp_all add: lm75_read_def)

lemma pointed_pair:
  assumes "l_addr_register dev AND 3 = q" and "q = 2 \<or> q = 3"
  shows "pointed dev = (if q = 2 then if l_i2c_state dev = 1 then 3 else 4 else if l_i2c_state dev = 1 then 5 else 6)"
  using assms(2) unfolding pointed_def Let_def assms(1) by (elim disjE) simp_all

text \<open>Both bytes of a pair, in the state after the first one: the position is 1, then 2.\<close>

lemma write_pair:
  assumes "l_as99127f dev = None" and "c AND 3 = 2 \<or> c AND 3 = 3"
  shows "snd (lm75_i2c_write am y (snd (lm75_i2c_write am x (selected c dev)))) =
    dev\<lparr>l_i2c_state := 2, l_addr_register := c, l_regs := (l_regs dev)[pair_of c := x, Suc (pair_of c) := y]\<rparr>"
proof -
  define q where "q = c AND 3"
  have q: "q = 2 \<or> q = 3" and pair: "pair_of c = (if q = 2 then 3 else 5)"
    using assms(2) unfolding q_def pair_of_def by auto
  have step: "snd (lm75_i2c_write am v e) = (snd (lm75_write (pointed e) v e))\<lparr>l_i2c_state := 2\<rparr>"
    if "l_as99127f e = None" "l_addr_register e AND 3 = q" "l_i2c_state e = 1 \<or> l_i2c_state e = 2" for v and e :: "'a lm75_t"
    using that(3) q unfolding lm75_i2c_write_def owner_None [OF that(1)] Let_def that(2)
    by (elim disjE) (simp_all add: pointed_pair [OF that(2) q] lm75_write_numbered)
  define e where "e = selected c dev"
  have e: "l_as99127f e = None" "l_addr_register e AND 3 = q" "l_i2c_state e = 1" "l_regs e = l_regs dev"
    by (simp_all add: e_def selected_def q_def assms(1))
  define f where "f = e\<lparr>l_regs := (l_regs e)[pair_of c := x], l_i2c_state := 2\<rparr>"
  have f: "l_as99127f f = None" "l_addr_register f AND 3 = q" "l_i2c_state f = 2"
    using e by (simp_all add: f_def)
  have "snd (lm75_i2c_write am x e) = f"
    using q unfolding step [OF e(1,2) disjI1 [OF e(3)]] pointed_pair [OF e(2) q] f_def pair e(3)
    by (elim disjE) (simp_all add: lm75_write_numbered)
  moreover have "snd (lm75_i2c_write am y f) = f\<lparr>l_regs := (l_regs f)[Suc (pair_of c) := y]\<rparr>"
    using q f(3) unfolding step [OF f(1,2) disjI2 [OF f(3)]] pointed_pair [OF f(2) q] pair f(3)
    by (elim disjE) (simp_all add: lm75_write_numbered f_def)
  ultimately show ?thesis
    by (simp add: e_def [symmetric] f_def e(4)) (simp add: e_def selected_def)
qed

lemma read_pair:
  assumes "l_as99127f dev = None" and "c AND 3 = 2 \<or> c AND 3 = 3"
  shows "lm75_i2c_read am temps (selected c dev) =
      Some (l_regs dev ! pair_of c, dev\<lparr>l_i2c_state := 2, l_addr_register := c\<rparr>)"
    and "lm75_i2c_read am temps (dev\<lparr>l_i2c_state := 2, l_addr_register := c\<rparr>) =
      Some (l_regs dev ! Suc (pair_of c), dev\<lparr>l_i2c_state := 2, l_addr_register := c\<rparr>)"
proof -
  define q where "q = c AND 3"
  have q: "q = 2 \<or> q = 3" and pair: "pair_of c = (if q = 2 then 3 else 5)"
    using assms(2) unfolding q_def pair_of_def by auto
  have step: "lm75_i2c_read am temps e = Some (l_regs e ! (if l_i2c_state e = 1 then pair_of c else Suc (pair_of c)), e\<lparr>l_i2c_state := 2\<rparr>)"
    if "l_as99127f e = None" "l_addr_register e AND 3 = q" "l_i2c_state e = 1 \<or> l_i2c_state e = 2" for e :: "'a lm75_t"
    using that(3) q unfolding lm75_i2c_read_def owner_None [OF that(1)] Let_def pair
    by (elim disjE) (simp_all add: pointed_pair [OF that(2) q] lm75_read_numbered owner_None [OF that(1)])
  show "lm75_i2c_read am temps (selected c dev) =
      Some (l_regs dev ! pair_of c, dev\<lparr>l_i2c_state := 2, l_addr_register := c\<rparr>)"
    by (subst step) (simp_all add: selected_def q_def assms(1))
  show "lm75_i2c_read am temps (dev\<lparr>l_i2c_state := 2, l_addr_register := c\<rparr>) =
      Some (l_regs dev ! Suc (pair_of c), dev\<lparr>l_i2c_state := 2, l_addr_register := c\<rparr>)"
    by (subst step) (simp_all add: q_def assms(1))
qed


section \<open>The host programs\<close>

text \<open>Writing a word at command \<open>c\<close> and waiting for the status, and reading one.\<close>

definition word_out :: "u16 \<Rightarrow> u8 \<Rightarrow> u8 \<Rightarrow> u8 \<Rightarrow> u8 \<Rightarrow> host_step list" where
  "word_out b a c x y =
    [Out (b + 4) (push_bit 1 a), Out (b + 3) c, Out (b + 5) x, Out (b + 6) y, Out (b + 2) 0x4c, Expire, In b]"

definition word_in :: "u16 \<Rightarrow> u8 \<Rightarrow> u8 \<Rightarrow> host_step list" where
  "word_in b a c =
    [Out (b + 4) (push_bit 1 a OR 1), Out (b + 3) c, Out (b + 2) 0x4c, Expire, In b, In (b + 5), In (b + 6)]"

definition word_loaded :: "u8 \<Rightarrow> u8 \<Rightarrow> u8 \<Rightarrow> u8 \<Rightarrow> smbus_piix4_t \<Rightarrow> smbus_piix4_t" where
  "word_loaded a c x y d =
    d\<lparr>b_addr := push_bit 1 a, b_cmd := c, b_data0 := x, b_next_stat := 0, b_data1 := y, b_ctl := 0x0c\<rparr>"

definition word_asked :: "u8 \<Rightarrow> u8 \<Rightarrow> smbus_piix4_t \<Rightarrow> smbus_piix4_t" where
  "word_asked a c d = d\<lparr>b_addr := push_bit 1 a OR 1, b_next_stat := 0, b_cmd := c, b_ctl := 0x0c\<rparr>"

definition finished :: "smbus_piix4_t \<Rightarrow> smbus_piix4_t" where
  "finished d = d\<lparr>b_next_stat := 2, b_stat := 2, b_timer := None\<rparr>"

lemma run_word_out:
  assumes "unat (b_io_base d) \<le> 0xfff0"
    and "start_command ops bus (word_loaded a c x y d) w = Some (n, (word_loaded a c x y d)\<lparr>b_next_stat := 2\<rparr>, z)"
  shows "host_run ops bus (word_out (b_io_base d) a c x y @ xs) d w = do {
    (us, e, v) \<leftarrow> host_run ops bus xs (finished (word_loaded a c x y d)) z; Some (2 # us, e, v) }"
proof -
  let ?b = "b_io_base d"
  note off = port_offset [OF assms(1)]
  define f where "f = d\<lparr>b_addr := push_bit 1 a, b_cmd := c, b_data0 := x, b_next_stat := 0, b_data1 := y\<rparr>"
  have f: "f\<lparr>b_next_stat := 0, b_ctl := 0x0c\<rparr> = word_loaded a c x y d" by (simp add: f_def word_loaded_def)
  have head: "host_run ops bus (Out (?b + 4) (push_bit 1 a) # Out (?b + 3) c # Out (?b + 5) x # Out (?b + 6) y # ys) d w =
      host_run ops bus ys f w" for ys
    by (simp add: out_registers off f_def)
  have run: "host_run ops bus (Out (?b + 2) 0x4c # Expire # ys) f w =
      host_run ops bus ys (finished (word_loaded a c x y d)) z" for ys
    unfolding finished_def
    by (rule out_start [where k = "0x0c"]) (simp_all add: f assms(2), simp add: f_def off)
  have "io_offset ?b (finished (word_loaded a c x y d)) = 0" "b_stat (finished (word_loaded a c x y d)) = 2"
    using off by (simp_all add: finished_def word_loaded_def)
  then show ?thesis
    unfolding word_out_def append_Cons append_Nil head run by (simp add: in_registers)
qed

lemma run_word_in:
  assumes "unat (b_io_base d) \<le> 0xfff0"
    and "start_command ops bus (word_asked a c d) w = Some (n, (word_asked a c d)\<lparr>b_data0 := x, b_data1 := y, b_next_stat := 2\<rparr>, z)"
  shows "\<exists>e. host_run ops bus (word_in (b_io_base d) a c) d w = Some ([2, x, y], e, z)"
proof -
  let ?b = "b_io_base d"
  note off = port_offset [OF assms(1)]
  define f where "f = d\<lparr>b_addr := push_bit 1 a OR 1, b_next_stat := 0, b_cmd := c\<rparr>"
  have f: "f\<lparr>b_next_stat := 0, b_ctl := 0x0c\<rparr> = word_asked a c d" by (simp add: f_def word_asked_def)
  define g where "g = finished ((word_asked a c d)\<lparr>b_data0 := x, b_data1 := y\<rparr>)"
  have head: "host_run ops bus (Out (?b + 4) (push_bit 1 a OR 1) # Out (?b + 3) c # ys) d w = host_run ops bus ys f w" for ys
    by (simp add: out_registers off f_def)
  have run: "host_run ops bus (Out (?b + 2) 0x4c # Expire # ys) f w = host_run ops bus ys g z" for ys
    unfolding g_def finished_def
    by (rule out_start [where k = "0x0c"]) (simp_all add: f assms(2), simp add: f_def off)
  have "io_offset ?b g = 0" "io_offset (?b + 5) g = 5" "io_offset (?b + 6) g = 6" "b_stat g = 2" "b_data0 g = x" "b_data1 g = y"
    using off by (simp_all add: g_def finished_def word_asked_def)
  then have "host_run ops bus (word_in ?b a c) d w = Some ([2, x, y], g, z)"
    unfolding word_in_def head run by (simp add: in_registers)
  then show ?thesis by blast
qed

section \<open>Words of the sensor\<close>

lemma word_command:
  assumes "devices_at bus a = Some [lm75_entry p]" and "w p = Some dev" and "l_as99127f dev = None" and "\<not> tst c 0x04"
    and "drop_bit 1 (b_addr d) = a" and "b_ctl d = 0x0c" and "b_cmd d = c"
  shows "b_addr d AND 1 = 0 \<Longrightarrow> c AND 3 = 2 \<or> c AND 3 = 3 \<Longrightarrow>
      start_command (lm75_ops am temps) bus d w = Some (4, d\<lparr>b_next_stat := 2\<rparr>,
        w(p \<mapsto> dev\<lparr>l_i2c_state := 2, l_addr_register := c,
          l_regs := (l_regs dev)[pair_of c := b_data0 d, Suc (pair_of c) := b_data1 d]\<rparr>))"
    and "b_addr d AND 1 = 1 \<Longrightarrow> lm75_i2c_read am temps (selected c dev) = Some (x, e) \<Longrightarrow>
      lm75_i2c_read am temps e = Some (y, f) \<Longrightarrow>
      start_command (lm75_ops am temps) bus d w = Some (4, d\<lparr>b_data0 := x, b_data1 := y, b_next_stat := 2\<rparr>, w(p \<mapsto> f))"
proof -
  note acts = lm75_calls(1) [where w = w and p = p, OF assms(1,2)] lm75_calls_upd [OF assms(1)]
    select_register [OF assms(3,4)]
  assume "b_addr d AND 1 = 0" "c AND 3 = 2 \<or> c AND 3 = 3"
  then show "start_command (lm75_ops am temps) bus d w = Some (4, d\<lparr>b_next_stat := 2\<rparr>,
        w(p \<mapsto> dev\<lparr>l_i2c_state := 2, l_addr_register := c,
          l_regs := (l_regs dev)[pair_of c := b_data0 d, Suc (pair_of c) := b_data1 d]\<rparr>))"
    unfolding start_command_def Let_def assms(5,6)
    by (simp add: protocol_def word_write_def acts assms(7) write_pair [OF assms(3)] del: fun_upd_apply)
next
  note acts = lm75_calls(1) [where w = w and p = p, OF assms(1,2)] lm75_calls_upd [OF assms(1)]
    select_register [OF assms(3,4)]
  assume "b_addr d AND 1 = 1" "lm75_i2c_read am temps (selected c dev) = Some (x, e)" "lm75_i2c_read am temps e = Some (y, f)"
  then show "start_command (lm75_ops am temps) bus d w =
      Some (4, d\<lparr>b_data0 := x, b_data1 := y, b_next_stat := 2\<rparr>, w(p \<mapsto> f))"
    unfolding start_command_def Let_def assms(5,6)
    by (simp add: protocol_def word_read_def byte_read_def acts assms(7) del: fun_upd_apply)
qed


text \<open>
  C26. LM75 limits over the SMBus: on a controller with an LM75 of its own alone at address \<open>a\<close>, writing a word by the
  word-data protocol at a command that points to one of the two limit registers and reading it back the
  same way ends twice with status INTER and returns the two bytes that were written.
\<close>

theorem lm75_word_roundtrip:
  assumes "unat (b_io_base d) \<le> 0xfff0" and "a < 128" and "devices_at bus a = Some [lm75_entry p]"
    and "w p = Some dev" and "l_as99127f dev = None" and "length (l_regs dev) = 8"
    and "\<not> tst c 0x04" and "c AND 3 = 2 \<or> c AND 3 = 3"
  shows "\<exists>e v. host_run (lm75_ops am temps) bus (word_out (b_io_base d) a c x y @ word_in (b_io_base d) a c) d w =
    Some ([2] @ [2, x, y], e, v)"
proof -
  note addr = address_byte(1,2) [OF assms(2)] address_bits [OF assms(2)]
  define ld where "ld = word_loaded a c x y d"
  have ld: "drop_bit 1 (b_addr ld) = a" "b_ctl ld = 0x0c" "b_cmd ld = c" "b_addr ld AND 1 = 0" "b_data0 ld = x" "b_data1 ld = y"
    "b_io_base ld = b_io_base d"
    using addr by (simp_all add: ld_def word_loaded_def del: push_bit_Suc One_nat_def)
  define u where "u = dev\<lparr>l_i2c_state := 2, l_addr_register := c, l_regs := (l_regs dev)[pair_of c := x, Suc (pair_of c) := y]\<rparr>"
  define z where "z = w(p \<mapsto> u)"
  have out: "start_command (lm75_ops am temps) bus ld w = Some (4, ld\<lparr>b_next_stat := 2\<rparr>, z)"
    using word_command(1) [where w = w and p = p and d = ld, OF assms(3-5,7) ld(1-4) assms(8), of am temps] ld(5,6)
    by (simp add: u_def z_def)
  define g where "g = finished ld"
  define qd where "qd = word_asked a c g"
  have qd: "drop_bit 1 (b_addr qd) = a" "b_ctl qd = 0x0c" "b_cmd qd = c" "b_addr qd AND 1 = 1" "b_io_base g = b_io_base d"
    using addr ld(7) by (simp_all add: qd_def word_asked_def g_def finished_def del: push_bit_Suc One_nat_def)
  have u: "l_as99127f u = None" "l_regs u ! pair_of c = x" "l_regs u ! Suc (pair_of c) = y" and z: "z p = Some u"
    using assms(5,6) by (simp_all add: u_def z_def pair_of_def)
  obtain v where st: "start_command (lm75_ops am temps) bus qd z =
      Some (4, qd\<lparr>b_data0 := x, b_data1 := y, b_next_stat := 2\<rparr>, v)"
    using word_command(2) [where w = z and p = p and d = qd, OF assms(3) z u(1) assms(7) qd(1-4)]
      read_pair [OF u(1) assms(8), of am temps] u(2,3) by metis
  then obtain e where "host_run (lm75_ops am temps) bus (word_in (b_io_base d) a c) g z = Some ([2, x, y], e, v)"
    using run_word_in [OF _ st [unfolded qd_def]] assms(1) unfolding qd(5) by blast
  moreover have "start_command (lm75_ops am temps) bus (word_loaded a c x y d) w =
      Some (4, (word_loaded a c x y d)\<lparr>b_next_stat := 2\<rparr>, z)"
    using out by (simp add: ld_def)
  note run_word_out [OF assms(1) this, of "word_in (b_io_base d) a c"]
  ultimately show ?thesis by (simp add: g_def ld_def)
qed

definition small_lm75 :: "unit lm75_t \<times> i2c_bus_t option \<times> u8 list" where
  "small_lm75 = the (lm75_init 0 0x14a [20, 21, 22, 23] (Some (i2c_addbus ''x'')))"

definition no_monitor :: "unit as99127f_ops" where
  "no_monitor = \<lparr>am_read = (\<lambda>m r. 0), am_write = (\<lambda>m r v. (0, m))\<rparr>"

lemma small_lm75_setup:
  "devices_at (fst (snd small_lm75)) 0x4a = Some [lm75_entry 0]" "l_as99127f (fst small_lm75) = None"
  "length (l_regs (fst small_lm75)) = 8" "l_regs (fst small_lm75) ! 3 = 0x4b" "sensor [20, 30, 22, 23] (fst small_lm75) = Some 30"
  by code_simp+

theorem lm75_word_roundtrip_witness:
  "\<exists>e v. host_run (lm75_ops no_monitor [20, 30]) (fst (snd small_lm75))
      (word_out 0x5000 0x4a 2 0x46 0x80 @ word_in 0x5000 0x4a 2)
      ((fst (smbus_piix4_init False))\<lparr>b_io_base := 0x5000\<rparr>) [0 \<mapsto> fst small_lm75] =
    Some ([2] @ [2, 0x46, 0x80], e, v)"
  using lm75_word_roundtrip [of "(fst (smbus_piix4_init False))\<lparr>b_io_base := 0x5000\<rparr>" "0x4a" "fst (snd small_lm75)" 0
      "[0 \<mapsto> fst small_lm75]" "fst small_lm75" 2 no_monitor "[20, 30]" "0x46" "0x80"] small_lm75_setup
  by simp

text \<open>Reading the temperature: the high byte is the temperature of the sensor, the low byte is 0.\<close>

theorem lm75_temperature:
  assumes "unat (b_io_base d) \<le> 0xfff0" and "a < 128" and "devices_at bus a = Some [lm75_entry p]"
    and "w p = Some dev" and "l_as99127f dev = None" and "sensor temps dev = Some t"
  shows "\<exists>e v. host_run (lm75_ops am temps) bus (word_in (b_io_base d) a 0) d w = Some ([2, t, 0], e, v)"
proof -
  note addr = address_byte(1,2) [OF assms(2)] address_bits [OF assms(2)]
  define qd where "qd = word_asked a 0 d"
  have qd: "drop_bit 1 (b_addr qd) = a" "b_ctl qd = 0x0c" "b_cmd qd = 0" "b_addr qd AND 1 = 1"
    using addr by (simp_all add: qd_def word_asked_def del: push_bit_Suc One_nat_def)
  have s: "sensor temps (dev\<lparr>l_i2c_state := i, l_addr_register := r\<rparr>) = Some t" for i r
    using assms(6) by (simp add: sensor_def)
  have t: "ucast (drop_bit 8 (LM75_TEMP_TO_REG t)) = t" "ucast (LM75_TEMP_TO_REG t) = (0 :: u8)"
    unfolding LM75_TEMP_TO_REG_def by (rule bit_word_eqI; auto simp: bit_simps)+
  have "lm75_i2c_read am temps (selected 0 dev) = Some (t, dev\<lparr>l_i2c_state := 2, l_addr_register := 0\<rparr>)"
    and "lm75_i2c_read am temps (dev\<lparr>l_i2c_state := 2, l_addr_register := 0\<rparr>) =
      Some (0, dev\<lparr>l_i2c_state := 2, l_addr_register := 0\<rparr>)"
    using s t assms(5) by (simp_all add: lm75_i2c_read_def selected_def owner_def pointed_def lm75_read_def)
  then obtain v where st: "start_command (lm75_ops am temps) bus qd w =
      Some (4, qd\<lparr>b_data0 := t, b_data1 := 0, b_next_stat := 2\<rparr>, v)"
    using word_command(2) [where w = w and p = p and d = qd, OF assms(3-5) _ qd] by (metis tst_zero)
  then show ?thesis
    using run_word_in [OF assms(1) st [unfolded qd_def]] by blast
qed

section \<open>Closing\<close>

text \<open>
  Closing a sensor takes it off its address but registers it at address 0, where its handlers then
  refer to a freed device.
\<close>

theorem lm75_close_leaves_handler:
  assumes "bus_ok (Some b)" and "l_i2c_enabled dev" and "l_i2c_addr dev \<noteq> 0"
  shows "devices_at (lm75_close p dev (Some b)) 0 = Some (u_devices b ! 0 @ [lm75_entry p])"
proof -
  have "ucast (l_i2c_addr dev) \<noteq> (0 :: u8)"
  proof
    assume "ucast (l_i2c_addr dev) = (0 :: u8)"
    then have "(ucast (ucast (l_i2c_addr dev) :: u8) :: 7 word) = 0" by simp
    moreover have "(ucast (ucast (l_i2c_addr dev) :: u8) :: 7 word) = l_i2c_addr dev"
      by (rule bit_word_eqI) (simp add: bit_simps)
    ultimately show False using assms(3) by simp
  qed
  then have "unat (ucast (l_i2c_addr dev) :: u8) \<noteq> 0" unfolding word_unat_eq_iff by simp
  moreover have "unat (ucast (l_i2c_addr dev) :: u8) < 128"
    using unsigned_less [of "l_i2c_addr dev", where ?'a = nat]
    by (simp add: unsigned_ucast_eq take_bit_nat_eq_self)
  ultimately show ?thesis
    using assms(1,2)
    by (simp add: lm75_close_def lm75_remap_def i2c_removehandler_def i2c_sethandler_def devices_at_def bus_ok_def
        NADDRS_def)
qed

end
