(* ===== verification/Spec2Isabelle.thy ===== *)
theory Spec2Isabelle
  imports Fifo Fifo8 Pic_Correct Timer_Correct Pit_Correct I2c_Eeprom Nmc93cxx_Host X86_Shift Upi42_Programs Nvr_At_Correct Smbus_Eeprom Lm75
begin

text \<open>
  A verification development for the device emulation core of BluMach, a derivative of 86Box written in C
  (sources under \<open>src/\<close>).  The emulator runs one guest machine: a CPU interpreter executes guest code and its
  port and memory accesses call the handlers of emulated devices; the devices keep their state in C
  structures, ask the timer queue to call them back later, and request interrupts from the interrupt
  controllers, which the CPU polls between instructions.  The development models the parts of this
  core that keep machine state by themselves: byte queues, timers, interrupt controllers, interval timers, the clock and CMOS memory, the
  I2C bus with its adapter, EEPROMs, SMBus host controller and temperature sensor, the Microwire EEPROM, the flags and shifts of the CPU, and the
  microcontroller of the keyboard controller.

  \<^bold>\<open>How the model reads.\<close>  A C structure is a record with a field per member, an enumeration a datatype, an
  unsigned integer of w bits a word of w bits, a flag a truth value, a pointer to a function or device
  an index or a constructor, and each C function a definition of the same name.  A function that can
  end the emulator, follow a null pointer or leave an array returns an option or a sum, and the other
  theorems prove that this does not happen where it must not.  Loops are structural recursions or folds over the indices of the C loop;
  the one loop without a bound, \<open>timer_process\<close>, is a partial function whose value \<open>None\<close> means that it does not return, and its claim proves that it returns.
  No loop uses fuel.

  \<^bold>\<open>Theories and sources.\<close>
  \<^item> \<open>Prelude\<close>: machine types, the C idiom of testing a mask, list and loop lemmas shared by all.
  \<^item> \<open>Queue_Interface\<close>: the locale \<open>bounded_queue\<close> (an operation that appends, one that takes, both
    refine a list up to a capacity) and its extension \<open>lossy_queue\<close> (a full queue drops the value
    and remembers the loss, an empty one yields a default).
  \<^item> \<open>Fifo\<close>: \<open>utils/fifo.c\<close>, the ring buffer with its end position, full and empty flags and trigger-level events; interprets \<open>lossy_queue\<close> for the plain, event and
    tagged writers, and proves that any run of operations, over a full or an empty FIFO too, behaves as a bounded list that drops what does not fit.
  \<^item> \<open>Fifo8\<close>: \<open>utils/fifo8.c\<close>, the head-and-count ring; interprets \<open>bounded_queue\<close>; pushing a block equals pushing its bytes.
  \<^item> \<open>Timer\<close>, \<open>Timer_Correct\<close>: \<open>timer.c\<close> and \<open>timer.h\<close>, a doubly linked list of timers ordered by a
    64-bit wrapping time stamp, in a store of records linked by indices.  The list operations refine
    insertion and removal in a sorted list (locale \<open>deadline_queue\<close>); processing ends, fires every due timer
    and leaves no timer due, for callbacks under the contract of locale \<open>callbacks\<close>, which any callback meets that operates on timers by
    the rules of \<open>act_ok\<close>.
  \<^item> \<open>Pic\<close>, \<open>Pic_Correct\<close>: \<open>pic.c\<close>, the pair of 8259 controllers with cascade, priorities, edge and level
    lines, ICW and OCW programming, SMI routing and acknowledge cycles, for PC, AT and PCI machines.
    Both priority scans interpret locale \<open>priority_scan\<close>; the rest proves delivery of requests to the CPU, ends of interrupt and the counting of shared level lines.
  \<^item> \<open>Pit_Exact\<close>, \<open>Pit_Correct\<close>: \<open>pit_exact.c\<close>, the three counters clocked by a pin (six modes, latching, binary and BCD).  Locale \<open>down_counter\<close> proves the waveforms once; it is interpreted for
    both counting modes.
  \<^item> \<open>I2c\<close>, \<open>I2c_Gpio\<close>, \<open>I2c_Master\<close>, \<open>I2c_Eeprom\<close>: \<open>device/i2c.c\<close>, \<open>device/i2c_gpio.c\<close> and
    \<open>mem/i2c_eeprom.c\<close>: the bus with its callbacks per address, the bit-banged adapter, what a master that
    toggles its two lines transfers, and the EEPROM; the wire theorem composes all three.
  \<^item> \<open>Cell_Array\<close>: the locale \<open>cell_array\<close> of a memory of numbered cells, interpreted for plain lists, for
    16-bit words in bytes and for the cells of the Microwire EEPROM.
  \<^item> \<open>Nmc93cxx\<close>, \<open>Nmc93cxx_Correct\<close>, \<open>Nmc93cxx_Host\<close>: \<open>mem/nmc93cxx.c\<close>, the serial protocol as a state machine, its safety,
    and the commands of a host driving the pins.
  \<^item> \<open>X86_Flags\<close>, \<open>X86_Flags_Correct\<close>, \<open>X86_Shift\<close>: \<open>cpu/x86_flags.h\<close>, \<open>cpu/x86_ops_shift.h\<close> and the flag setters: lazy
    flags (an operation and its operands) against the eager meaning of the architecture, all conditional jumps,
    and the shift, rotate and double shift group in both builds.  Locales \<open>flag_width\<close> and \<open>shift_width\<close> prove the
    facts for a width; they are interpreted for 8, 16 and 32 bits.
  \<^item> \<open>Upi42\<close>, \<open>Upi42_Correct\<close>, \<open>Upi42_Programs\<close>: \<open>upi42.c\<close>, the MCS-48 core: its 96 instruction functions, the
    instruction table, the cycle step with interrupts and timer, the host registers.  Progress and preservation by a
    table check, then what programs see: calls, interrupts, the timer, the host handshake, a loop.
    The emulator's build does not list this file at this commit.
  \<^item> \<open>Nvr\<close>, \<open>Nvr_At\<close>, \<open>Nvr_At_Correct\<close>: \<open>nvr.c\<close> and \<open>nvr_at.c\<close>, the clock and CMOS memory.  The tick refines a
    count of seconds of the Gregorian calendar; the chip's registers, update cycle, interrupt line (through the modelled interrupt
    controllers) and index and data ports are proved against it.
  \<^item> \<open>Smbus_Piix4\<close>, \<open>Smbus_Correct\<close>, \<open>Smbus_Eeprom\<close>: \<open>device/smbus_piix4.c\<close>, the SMBus host controller of the PIIX4 and
    VIA chipsets with all its protocols, over the bus of \<open>I2c\<close>.  Locale \<open>i2c_slaves\<close> states what the devices promise (no handler
    faults) and proves that no port access faults and no command hangs; it is interpreted for the EEPROM and
    for the sensor.  Port programs write and read back blocks of an EEPROM.
  \<^item> \<open>Lm75\<close>: \<open>device/hwm_lm75.c\<close>, the temperature sensor: its registers through the word protocol of the controller.
  \<^bold>\<open>What the groups of lemmas show.\<close>  For every component: an invariant (or well-formedness predicate) that
  holds initially and that every operation preserves; frame facts (simplification rules) of what an operation
  leaves alone; the effect of each operation on its abstract view (a list, a sorted queue, a count of
  seconds, a bit string on a wire); then the properties, each marked C1 to C40 in its theory, in the
  order of importance.  A property's theorem is followed by a witness that applies it to a concrete state.

  \<^bold>\<open>How components compose.\<close>  The clock drives line 8 of the controllers of \<open>Pic\<close> in the same state.  The bit-banged adapter drives the
  bus of \<open>I2c\<close>, which calls the EEPROM through its device table; the SMBus host controller drives the same bus, with EEPROMs or sensors on it.  Timer callbacks of the clock are recorded as
  requests to the timer queue, which \<open>Timer\<close> models for any callback that keeps its contract.  Interrupt requests outside the
  controllers, SMIs and port handler registrations are recorded as effects in order.

  \<^bold>\<open>Bounds.\<close>  Words wrap as in C; signed C integers that cannot leave their range are integers.  Time stamps are compared as the source does,
  by the sign of the difference, so the timer theorems ask that deadlines lie within a quarter of the 64-bit range before or after the clock, and that of processing that some timer in
  the queue is not due, since the source follows a null pointer otherwise.  C doubles are real numbers (the delay of an SMBus command, at most 4600 bit periods).  The clock's theorems ask for a microsecond
  of fewer than 2 to the 50 time units, which holds for every CPU speed.

  \<^bold>\<open>Not modelled.\<close>  The instruction decoder, segmentation, protection and the FPU work on large global state and
  generated tables; the recompilers emit host code; video, sound, storage, network and user interface
  are dominated by host input and output, floating point or vendored code; chipsets and machine tables are
  data.  Bus cycle accounting, logging and I/O handler registration are left out of the handlers.  The device
  wrappers of the interval timer, the command-level keyboard controllers, the DMA controller and the parallel port are
  the next candidates.
\<close>

end
